(* ===== verification/Py_Prelude.thy ===== *)
theory Py_Prelude
  imports Complex_Main "HOL-Library.AList" "HOL-Library.Char_ord" "HOL-Library.List_Lexorder"
    "HOL-Library.Product_Lexorder" "HOL-Library.Sublist"
begin

text \<open>
  The prelude of the development: the Python values the back end moves around, the dictionary,
  string and comparison operations the modelled code uses, and the generic lemmas every component
  shares.

  \<^item> \<open>pyval\<close> is a JSON-shaped Python value. A dictionary is an association list in insertion order.
    A finite float carries the decimal number its shortest text denotes and that text, so that
    both numeric comparison and string conversion are functions of the value. NaN and infinities
    are outside the model.
  \<^item> A string is a list of characters with code points below 256; case conversion is ASCII.
  \<^item> \<open>AList.update\<close> overwrites in place or appends at the end, which is what \<open>d[k] = v\<close> does to a
    Python dictionary, and \<open>AList.delete\<close> is \<open>del d[k]\<close>.
\<close>

named_theorems py_simps \<open>evaluation of the Python value operations\<close>

section \<open>Values\<close>

datatype pyval =
    PNone
  | PBool bool
  | PInt int
  | PFloat rat string
  | PStr string
  | PList "pyval list"
  | PDict "(string \<times> pyval) list"

type_synonym pydict = "(string \<times> pyval) list"

abbreviation is_PStr :: "pyval \<Rightarrow> bool" where
  "is_PStr v \<equiv> (case v of PStr _ \<Rightarrow> True | _ \<Rightarrow> False)"

abbreviation is_PList :: "pyval \<Rightarrow> bool" where
  "is_PList v \<equiv> (case v of PList _ \<Rightarrow> True | _ \<Rightarrow> False)"

abbreviation is_PDict :: "pyval \<Rightarrow> bool" where
  "is_PDict v \<equiv> (case v of PDict _ \<Rightarrow> True | _ \<Rightarrow> False)"

abbreviation is_PBool :: "pyval \<Rightarrow> bool" where
  "is_PBool v \<equiv> (case v of PBool _ \<Rightarrow> True | _ \<Rightarrow> False)"

text \<open>\<open>bool(v)\<close>.\<close>

fun truthy :: "pyval \<Rightarrow> bool" where
  "truthy PNone = False"
| "truthy (PBool b) = b"
| "truthy (PInt i) = (i \<noteq> 0)"
| "truthy (PFloat q _) = (q \<noteq> 0)"
| "truthy (PStr s) = (s \<noteq> [])"
| "truthy (PList xs) = (xs \<noteq> [])"
| "truthy (PDict d) = (d \<noteq> [])"

section \<open>Dictionaries\<close>

text \<open>\<open>d.get(k)\<close>, \<open>d.get(k, v0)\<close> and \<open>k in d\<close>.\<close>

definition dget :: "pydict \<Rightarrow> string \<Rightarrow> pyval" where
  "dget d k = (case map_of d k of None \<Rightarrow> PNone | Some v \<Rightarrow> v)"

definition dget_default :: "pydict \<Rightarrow> string \<Rightarrow> pyval \<Rightarrow> pyval" where
  "dget_default d k v0 = (case map_of d k of None \<Rightarrow> v0 | Some v \<Rightarrow> v)"

definition dhas :: "pydict \<Rightarrow> string \<Rightarrow> bool" where
  "dhas d k \<longleftrightarrow> map_of d k \<noteq> None"

text \<open>\<open>dict(v or {})\<close> for a value that is a dictionary or falsy.\<close>

definition as_dict :: "pyval \<Rightarrow> pydict" where
  "as_dict v = (case v of PDict d \<Rightarrow> d | _ \<Rightarrow> [])"

lemma dget_update [simp]:
  "dget (AList.update k v d) k' = (if k = k' then v else dget d k')"
  by (simp add: dget_def update_conv')

lemma dget_delete [simp]:
  "dget (AList.delete k d) k' = (if k = k' then PNone else dget d k')"
  by (simp add: dget_def delete_conv')

lemma dhas_update [simp]: "dhas (AList.update k v d) k' \<longleftrightarrow> k = k' \<or> dhas d k'"
  by (simp add: dhas_def update_conv')

lemma dhas_delete [simp]: "dhas (AList.delete k d) k' \<longleftrightarrow> k \<noteq> k' \<and> dhas d k'"
  by (simp add: dhas_def delete_conv')

lemma dget_Nil [simp]: "dget [] k = PNone"
  by (simp add: dget_def)

lemma dget_Cons: "dget ((k, v) # d) k' = (if k' = k then v else dget d k')"
  by (simp add: dget_def)

lemma dhas_Nil [simp]: "\<not> dhas [] k"
  by (simp add: dhas_def)

lemma dhas_dget: "dget d k \<noteq> PNone \<Longrightarrow> dhas d k"
  by (auto simp: dget_def dhas_def split: option.splits)

lemma map_of_update_same [simp]: "map_of (AList.update k v d) k = Some v"
  by (simp add: update_conv')

lemma map_of_update_other [simp]: "k \<noteq> k' \<Longrightarrow> map_of (AList.update k v d) k' = map_of d k'"
  by (simp add: update_conv')

lemma map_of_delete_same [simp]: "map_of (AList.delete k d) k = None"
  by (simp add: delete_conv')

lemma map_of_delete_other [simp]: "k \<noteq> k' \<Longrightarrow> map_of (AList.delete k d) k' = map_of d k'"
  by (simp add: delete_conv')

text \<open>A second store to the same key, and two stores to different keys of which the later one's
  key is already present, change the list in place, so they commute as lists and not only as maps.\<close>

lemma update_update_same [simp]:
  "AList.update k v (AList.update k w d) = AList.update k v d"
  by (induction d) auto

lemma update_commute_present:
  "k \<noteq> k' \<Longrightarrow> dhas d k \<Longrightarrow>
   AList.update k v (AList.update k' w d) = AList.update k' w (AList.update k v d)"
  by (induction d) (auto simp: dhas_def split: if_splits)

lemma delete_update_same [simp]: "AList.delete k (AList.update k v d) = AList.delete k d"
  by (induction d) auto

lemma delete_update_other:
  "k \<noteq> k' \<Longrightarrow> AList.delete k (AList.update k' v d) = AList.update k' v (AList.delete k d)"
  by (induction d) auto

lemma update_id: "map_of d k = Some v \<Longrightarrow> AList.update k v d = d"
  by (induction d) (auto split: if_splits)

lemma keys_update: "map fst (AList.update k v d) = (if dhas d k then map fst d else map fst d @ [k])"
  by (induction d) (auto simp: dhas_def)

lemma distinct_keys_update:
  "distinct (map fst d) \<Longrightarrow> distinct (map fst (AList.update k v d))"
  by (simp add: distinct_update)

lemma distinct_keys_delete:
  "distinct (map fst d) \<Longrightarrow> distinct (map fst (AList.delete k d))"
  by (simp add: distinct_delete)

section \<open>Equality\<close>

text \<open>The number a value stands for: in Python \<open>True == 1 == 1.0\<close>.\<close>

fun num_of :: "pyval \<Rightarrow> rat option" where
  "num_of (PBool b) = Some (if b then 1 else 0)"
| "num_of (PInt i) = Some (of_int i)"
| "num_of (PFloat q _) = Some q"
| "num_of _ = None"

text \<open>The operator \<open>==\<close>. Dictionaries compare by content and not by insertion order.\<close>

fun py_eq :: "pyval \<Rightarrow> pyval \<Rightarrow> bool"
  and py_eq_list :: "pyval list \<Rightarrow> pyval list \<Rightarrow> bool"
  and py_sub_dict :: "pydict \<Rightarrow> pydict \<Rightarrow> bool"
where
  "py_eq PNone b = (b = PNone)"
| "py_eq (PBool x) b = (num_of b = Some (if x then 1 else 0))"
| "py_eq (PInt i) b = (num_of b = Some (of_int i))"
| "py_eq (PFloat q s) b = (num_of b = Some q)"
| "py_eq (PStr s) b = (b = PStr s)"
| "py_eq (PList xs) b = (case b of PList ys \<Rightarrow> py_eq_list xs ys | _ \<Rightarrow> False)"
| "py_eq (PDict d) b = (case b of PDict e \<Rightarrow> length d = length e \<and> py_sub_dict d e | _ \<Rightarrow> False)"
| "py_eq_list [] ys = (ys = [])"
| "py_eq_list (x # xs) ys =
     (case ys of [] \<Rightarrow> False | y # ys' \<Rightarrow> py_eq x y \<and> py_eq_list xs ys')"
| "py_sub_dict [] e = True"
| "py_sub_dict ((k, v) # d) e =
     (case map_of e k of None \<Rightarrow> False | Some w \<Rightarrow> py_eq v w \<and> py_sub_dict d e)"

lemma py_eq_list_all2: "py_eq_list xs ys \<longleftrightarrow> list_all2 py_eq xs ys"
  by (induction xs arbitrary: ys) (auto split: list.splits)

lemma py_sub_dict_iff:
  "py_sub_dict d e \<longleftrightarrow> (\<forall>k v. (k, v) \<in> set d \<longrightarrow> (\<exists>w. map_of e k = Some w \<and> py_eq v w))"
  by (induction d) (fastforce split: option.splits)+

lemma py_eq_num: "num_of a = Some x \<Longrightarrow> py_eq a b \<longleftrightarrow> num_of b = Some x"
  by (cases a) auto

text \<open>Equality is transitive (the size of the first value decreases along the recursion).\<close>

lemma py_eq_trans: "py_eq a b \<Longrightarrow> py_eq b c \<Longrightarrow> py_eq a c"
  and py_eq_list_trans: "py_eq_list xs ys \<Longrightarrow> py_eq_list ys zs \<Longrightarrow> py_eq_list xs zs"
  and py_sub_dict_trans: "py_sub_dict d e \<Longrightarrow> py_sub_dict e f \<Longrightarrow> py_sub_dict d f"
proof (induction a b and xs ys and d e arbitrary: c and zs and f rule: py_eq_py_eq_list_py_sub_dict.induct)
  case (6 xs b)
  then show ?case by (auto split: pyval.splits)
next
  case (7 d b)
  then show ?case by (auto split: pyval.splits)
next
  case (9 x xs ys)
  then show ?case by (auto split: list.splits)
next
  case (11 k v d e)
  from "11.prems"(1) obtain w where w: "map_of e k = Some w" "py_eq v w" "py_sub_dict d e"
    by (auto split: option.splits)
  from w(1) have "(k, w) \<in> set e" by (rule map_of_SomeD)
  with "11.prems"(2) obtain u where u: "map_of f k = Some u" "py_eq w u"
    by (auto simp: py_sub_dict_iff)
  have "py_eq v u" by (rule "11.IH"(1) [OF w(1,2) u(2)])
  moreover have "py_sub_dict d f" by (rule "11.IH"(2) [OF w(1) w(3) "11.prems"(2)])
  ultimately show ?case using u(1) by simp
qed (auto simp: py_eq_num)

section \<open>Ordering and membership\<close>

text \<open>The operators \<open>>\<close>, \<open>>=\<close>, \<open><\<close> and \<open><=\<close>. \<open>None\<close> is the \<open>TypeError\<close> Python raises for operands it
  cannot order. Lists compare at the first position where they differ, then by length.\<close>

datatype ordop = OGt | OGte | OLt | OLte

fun ord_holds :: "ordop \<Rightarrow> 'a::linorder \<Rightarrow> 'a \<Rightarrow> bool" where
  "ord_holds OGt a b = (a > b)"
| "ord_holds OGte a b = (a \<ge> b)"
| "ord_holds OLt a b = (a < b)"
| "ord_holds OLte a b = (a \<le> b)"

fun py_order :: "ordop \<Rightarrow> pyval \<Rightarrow> pyval \<Rightarrow> bool option"
  and py_order_list :: "ordop \<Rightarrow> pyval list \<Rightarrow> pyval list \<Rightarrow> bool option"
where
  "py_order o1 PNone b = None"
| "py_order o1 (PBool x) b = map_option (ord_holds o1 (if x then 1 else 0)) (num_of b)"
| "py_order o1 (PInt i) b = map_option (ord_holds o1 (of_int i)) (num_of b)"
| "py_order o1 (PFloat q s) b = map_option (ord_holds o1 q) (num_of b)"
| "py_order o1 (PStr s) b = (case b of PStr t \<Rightarrow> Some (ord_holds o1 s t) | _ \<Rightarrow> None)"
| "py_order o1 (PList xs) b = (case b of PList ys \<Rightarrow> py_order_list o1 xs ys | _ \<Rightarrow> None)"
| "py_order o1 (PDict d) b = None"
| "py_order_list o1 [] ys = Some (ord_holds o1 0 (length ys))"
| "py_order_list o1 (x # xs) ys =
     (case ys of
        [] \<Rightarrow> Some (ord_holds o1 (length (x # xs)) 0)
      | y # ys' \<Rightarrow> if py_eq x y then py_order_list o1 xs ys' else py_order o1 x y)"

text \<open>Whether \<open>hash(v)\<close> succeeds: lists and dictionaries are unhashable.\<close>

fun hashable :: "pyval \<Rightarrow> bool" where
  "hashable (PList _) = False"
| "hashable (PDict _) = False"
| "hashable _ = True"

definition substr :: "string \<Rightarrow> string \<Rightarrow> bool" where
  "substr x s \<longleftrightarrow> list_ex (\<lambda>i. take (length x) (drop i s) = x) [0 ..< Suc (length s)]"

text \<open>The operator \<open>in\<close>: list membership by equality, substring of a string, key of a dictionary; \<open>None\<close>
  is the \<open>TypeError\<close> of a right operand that is not a container, of a left operand that is not a
  string when the right one is, and of an unhashable key.\<close>

fun py_in :: "pyval \<Rightarrow> pyval \<Rightarrow> bool option" where
  "py_in a (PList xs) = Some (list_ex (\<lambda>x. py_eq a x) xs)"
| "py_in a (PStr s) = (case a of PStr x \<Rightarrow> Some (substr x s) | _ \<Rightarrow> None)"
| "py_in a (PDict d) =
     (if hashable a then Some (case a of PStr k \<Rightarrow> dhas d k | _ \<Rightarrow> False) else None)"
| "py_in a _ = None"

section \<open>Strings\<close>

text \<open>\<open>s.split(c)\<close> for a one-character separator, \<open>sep.join(parts)\<close>, \<open>s.strip()\<close>, \<open>s.lower()\<close>,
  \<open>s.upper()\<close>, \<open>s.startswith(p)\<close>, \<open>s.endswith(p)\<close>.\<close>

fun split_on :: "char \<Rightarrow> string \<Rightarrow> string list" where
  "split_on c [] = [[]]"
| "split_on c (x # xs) =
     (if x = c then [] # split_on c xs
      else case split_on c xs of [] \<Rightarrow> [[x]] | w # ws \<Rightarrow> (x # w) # ws)"

fun join :: "string \<Rightarrow> string list \<Rightarrow> string" where
  "join sep [] = []"
| "join sep [x] = x"
| "join sep (x # y # ys) = x @ sep @ join sep (y # ys)"

definition py_space :: "char \<Rightarrow> bool" where
  "py_space c \<longleftrightarrow> (let n = (of_char c :: nat) in
     (9 \<le> n \<and> n \<le> 13) \<or> (28 \<le> n \<and> n \<le> 32) \<or> n = 133 \<or> n = 160)"

definition strip :: "string \<Rightarrow> string" where
  "strip s = rev (dropWhile py_space (rev (dropWhile py_space s)))"

definition lower_char :: "char \<Rightarrow> char" where
  "lower_char c = (let n = (of_char c :: nat) in if 65 \<le> n \<and> n \<le> 90 then char_of (n + 32) else c)"

definition upper_char :: "char \<Rightarrow> char" where
  "upper_char c = (let n = (of_char c :: nat) in if 97 \<le> n \<and> n \<le> 122 then char_of (n - 32) else c)"

definition lower :: "string \<Rightarrow> string" where
  "lower s = map lower_char s"

definition upper :: "string \<Rightarrow> string" where
  "upper s = map upper_char s"

definition startswith :: "string \<Rightarrow> string \<Rightarrow> bool" where
  "startswith s p \<longleftrightarrow> take (length p) s = p"

definition endswith :: "string \<Rightarrow> string \<Rightarrow> bool" where
  "endswith s p \<longleftrightarrow> length p \<le> length s \<and> drop (length s - length p) s = p"

lemma split_on_ne [simp]: "split_on c s \<noteq> []"
  by (induction s) (auto split: list.splits)

lemma split_on_sep_free: "w \<in> set (split_on c s) \<Longrightarrow> c \<notin> set w"
  by (induction s arbitrary: w) (auto split: list.splits if_splits)

lemma join_Cons: "xs \<noteq> [] \<Longrightarrow> join sep (x # xs) = x @ sep @ join sep xs"
  by (cases xs) auto

lemma join_split_on: "join [c] (split_on c s) = s"
proof (induction s)
  case (Cons x s)
  obtain w ws where "split_on c s = w # ws"
    using split_on_ne [of c s] by (cases "split_on c s") auto
  then show ?case using Cons by (cases ws) (auto simp: join_Cons)
qed simp

lemma split_on_append:
  "c \<notin> set w \<Longrightarrow> split_on c (w @ c # s) = w # split_on c s"
  by (induction w) auto

lemma split_on_single: "c \<notin> set w \<Longrightarrow> split_on c w = [w]"
  by (induction w) auto

lemma split_on_join:
  assumes "ws \<noteq> []" and "\<forall>w\<in>set ws. c \<notin> set w"
  shows "split_on c (join [c] ws) = ws"
  using assms
proof (induction "[c]" ws rule: join.induct)
  case (3 x y ys)
  then show ?case by (simp add: split_on_append)
qed (auto simp: split_on_single)

section \<open>Conversion to text\<close>

text \<open>Decimal printing of integers.\<close>

fun nat_str :: "nat \<Rightarrow> string" where
  "nat_str n = (if n < 10 then [char_of (48 + n)] else nat_str (n div 10) @ [char_of (48 + n mod 10)])"

declare nat_str.simps [simp del]

lemma nat_str_ne [simp]: "nat_str n \<noteq> []"
  by (subst nat_str.simps) simp

definition int_str :: "int \<Rightarrow> string" where
  "int_str i = (if i < 0 then ''-'' @ nat_str (nat (- i)) else nat_str (nat i))"

definition hex_digit :: "nat \<Rightarrow> char" where
  "hex_digit n = char_of (if n < 10 then 48 + n else 87 + n)"

text \<open>\<open>repr\<close> of a string: single quotes unless the text has one and no double quote; backslashes and
  control characters escaped.\<close>

definition repr_char :: "char \<Rightarrow> char \<Rightarrow> string" where
  "repr_char q c =
     (let n = (of_char c :: nat) in
      if c = q \<or> n = 92 then [char_of (92::nat), c]
      else if n = 10 then [char_of (92::nat), CHR ''n'']
      else if n = 13 then [char_of (92::nat), CHR ''r'']
      else if n = 9 then [char_of (92::nat), CHR ''t'']
      else if n < 32 \<or> (127 \<le> n \<and> n \<le> 160) \<or> n = 173
        then [char_of (92::nat), CHR ''x'', hex_digit (n div 16), hex_digit (n mod 16)]
      else [c])"

definition repr_str :: "string \<Rightarrow> string" where
  "repr_str s =
     (let q = (if char_of (39::nat) \<in> set s \<and> char_of (34::nat) \<notin> set s
               then char_of (34::nat) else char_of (39::nat))
      in q # concat (map (repr_char q) s) @ [q])"

text \<open>\<open>str(v)\<close>: a string is itself, everything else its \<open>repr\<close>.\<close>

fun py_repr :: "pyval \<Rightarrow> string"
  and py_repr_list :: "pyval list \<Rightarrow> string list"
  and py_repr_dict :: "pydict \<Rightarrow> string list"
where
  "py_repr PNone = ''None''"
| "py_repr (PBool b) = (if b then ''True'' else ''False'')"
| "py_repr (PInt i) = int_str i"
| "py_repr (PFloat q s) = s"
| "py_repr (PStr s) = repr_str s"
| "py_repr (PList xs) = ''['' @ join '', '' (py_repr_list xs) @ '']''"
| "py_repr (PDict d) = ''{'' @ join '', '' (py_repr_dict d) @ ''}''"
| "py_repr_list [] = []"
| "py_repr_list (x # xs) = py_repr x # py_repr_list xs"
| "py_repr_dict [] = []"
| "py_repr_dict ((k, v) # d) = (repr_str k @ '': '' @ py_repr v) # py_repr_dict d"

definition py_str :: "pyval \<Rightarrow> string" where
  "py_str v = (case v of PStr s \<Rightarrow> s | _ \<Rightarrow> py_repr v)"

lemma py_str_PStr [simp]: "py_str (PStr s) = s"
  by (simp add: py_str_def)

text \<open>\<open>s.encode("utf-8")\<close> as a list of byte values.\<close>

definition utf8_char :: "char \<Rightarrow> nat list" where
  "utf8_char c = (let n = of_char c in if n < 128 then [n] else [192 + n div 64, 128 + n mod 64])"

definition utf8 :: "string \<Rightarrow> nat list" where
  "utf8 s = concat (map utf8_char s)"

lemma of_char_bound: "(of_char c :: nat) < 256"
proof -
  have "(of_char c :: nat) mod 256 = of_char c" by (simp add: of_char_mod_256)
  then show ?thesis by (metis mod_less_divisor zero_less_numeral)
qed

lemma utf8_bytes: "\<forall>b\<in>set (utf8 s). b < 256"
proof -
  have "b < 256" if "b \<in> set (utf8_char c)" for b c
  proof -
    have "(of_char c :: nat) div 64 < 4" using of_char_bound [of c] by (simp add: div_less_iff_less_mult)
    with that show ?thesis by (auto simp: utf8_char_def Let_def split: if_splits)
  qed
  then show ?thesis by (auto simp: utf8_def)
qed

section \<open>Conversion to integers\<close>

text \<open>\<open>int(v)\<close>; \<open>None\<close> is the \<open>TypeError\<close> or \<open>ValueError\<close>. A float is truncated towards zero; a text is
  stripped, may have a sign, and is made of digits with single underscores between them.\<close>

definition is_digit :: "char \<Rightarrow> bool" where
  "is_digit c \<longleftrightarrow> (let n = (of_char c :: nat) in 48 \<le> n \<and> n \<le> 57)"

definition digits_value :: "string \<Rightarrow> nat" where
  "digits_value s = foldl (\<lambda>a c. 10 * a + (of_char c - 48)) 0 s"

definition parse_nat :: "string \<Rightarrow> nat option" where
  "parse_nat s =
     (let parts = split_on (CHR ''_'') s in
      if list_all (\<lambda>p. p \<noteq> [] \<and> list_all is_digit p) parts then Some (digits_value (concat parts)) else None)"

definition parse_int :: "string \<Rightarrow> int option" where
  "parse_int s =
     (case strip s of
        CHR ''-'' # r \<Rightarrow> map_option (\<lambda>n. - int n) (parse_nat r)
      | CHR ''+'' # r \<Rightarrow> map_option int (parse_nat r)
      | r \<Rightarrow> map_option int (parse_nat r))"

fun py_int :: "pyval \<Rightarrow> int option" where
  "py_int (PBool b) = Some (if b then 1 else 0)"
| "py_int (PInt i) = Some i"
| "py_int (PFloat q _) = Some (if q < 0 then - \<lfloor>- q\<rfloor> else \<lfloor>q\<rfloor>)"
| "py_int (PStr s) = parse_int s"
| "py_int _ = None"

section \<open>JSON text\<close>

text \<open>\<open>json.dumps(v, sort_keys=True, separators=(",", ":"))\<close> for a value whose dictionaries have text keys:
  keys sorted at every level, non-ASCII characters escaped.\<close>

definition json_char :: "char \<Rightarrow> string" where
  "json_char c =
     (let n = (of_char c :: nat); bs = char_of (92::nat) in
      if n = 34 \<or> n = 92 then [bs, c]
      else if n = 10 then [bs, CHR ''n'']
      else if n = 13 then [bs, CHR ''r'']
      else if n = 9 then [bs, CHR ''t'']
      else if n = 8 then [bs, CHR ''b'']
      else if n = 12 then [bs, CHR ''f'']
      else if n < 32 \<or> 126 < n then [bs] @ ''u00'' @ [hex_digit (n div 16), hex_digit (n mod 16)]
      else [c])"

definition json_str :: "string \<Rightarrow> string" where
  "json_str s = [char_of (34::nat)] @ concat (map json_char s) @ [char_of (34::nat)]"

fun json_dumps :: "pyval \<Rightarrow> string"
  and json_dumps_list :: "pyval list \<Rightarrow> string list"
  and json_dumps_dict :: "pydict \<Rightarrow> (string \<times> string) list"
where
  "json_dumps PNone = ''null''"
| "json_dumps (PBool b) = (if b then ''true'' else ''false'')"
| "json_dumps (PInt i) = int_str i"
| "json_dumps (PFloat q s) = s"
| "json_dumps (PStr s) = json_str s"
| "json_dumps (PList xs) = ''['' @ join '','' (json_dumps_list xs) @ '']''"
| "json_dumps (PDict d) =
     ''{'' @ join '','' (map (\<lambda>(k, t). json_str k @ '':'' @ t) (sort_key fst (json_dumps_dict d))) @ ''}''"
| "json_dumps_list [] = []"
| "json_dumps_list (x # xs) = json_dumps x # json_dumps_list xs"
| "json_dumps_dict [] = []"
| "json_dumps_dict ((k, v) # d) = (k, json_dumps v) # json_dumps_dict d"

text \<open>Two paths into nested dictionaries neither of which leads through the other.\<close>

definition apart :: "string list \<Rightarrow> string list \<Rightarrow> bool" where
  "apart p q \<longleftrightarrow> \<not> prefix p q \<and> \<not> prefix q p"

lemma apart_sym: "apart p q \<Longrightarrow> apart q p"
  by (auto simp: apart_def)

section \<open>Results\<close>

text \<open>Code that raises returns a sum: \<open>Inl\<close> is the exception.\<close>

definition bind_result :: "'e + 'a \<Rightarrow> ('a \<Rightarrow> 'e + 'b) \<Rightarrow> 'e + 'b" where
  "bind_result r f = (case r of Inl e \<Rightarrow> Inl e | Inr x \<Rightarrow> f x)"

lemma bind_result_simps [simp]:
  "bind_result (Inl e) f = Inl e" "bind_result (Inr x) f = f x"
  by (simp_all add: bind_result_def)

lemma bind_result_Inr: "bind_result r f = Inr y \<longleftrightarrow> (\<exists>x. r = Inr x \<and> f x = Inr y)"
  by (cases r) auto

text \<open>A loop that processes a list and stops at the first exception.\<close>

fun mapM_result :: "('a \<Rightarrow> 'e + 'b) \<Rightarrow> 'a list \<Rightarrow> 'e + 'b list" where
  "mapM_result f [] = Inr []"
| "mapM_result f (x # xs) =
     (case f x of Inl e \<Rightarrow> Inl e
      | Inr y \<Rightarrow> (case mapM_result f xs of Inl e \<Rightarrow> Inl e | Inr ys \<Rightarrow> Inr (y # ys)))"

lemma mapM_result_Inr:
  "mapM_result f xs = Inr ys \<longleftrightarrow> list_all2 (\<lambda>x y. f x = Inr y) xs ys"
proof (induction xs arbitrary: ys)
  case (Cons x xs)
  show ?case
  proof (cases "f x")
    case (Inr y)
    then show ?thesis using Cons.IH
      by (cases "mapM_result f xs") (auto simp: list_all2_Cons1)
  qed (auto simp: list_all2_Cons1)
qed auto

lemma mapM_result_mem: "mapM_result f xs = Inr ys \<Longrightarrow> y \<in> set ys \<Longrightarrow> \<exists>x\<in>set xs. f x = Inr y"
  by (induction xs arbitrary: ys) (auto split: sum.splits)

section \<open>Generic lemmas\<close>

lemma foldl_sum_list: "foldl (+) (a :: 'a::monoid_add) xs = a + sum_list xs"
  by (induction xs arbitrary: a) (auto simp: add.assoc)

text \<open>An invariant of a fold: every step keeps it.\<close>

lemma foldl_invariant:
  assumes "P s" and "\<And>s x. x \<in> set xs \<Longrightarrow> P s \<Longrightarrow> P (f s x)"
  shows "P (foldl f s xs)"
  using assms by (induction xs arbitrary: s) auto

text \<open>A measure that every step of a fold increases by a function of the element.\<close>

lemma foldl_measure:
  fixes m :: "'s \<Rightarrow> nat"
  assumes "\<And>s x. x \<in> set xs \<Longrightarrow> m (f s x) = m s + w x"
  shows "m (foldl f s xs) = m s + sum_list (map w xs)"
  using assms by (induction xs arbitrary: s) auto

end
