(* ===== verification/Redis_Client.thy ===== *)
theory Redis_Client
  imports Py_Prelude
begin

text \<open>
  The Redis client the collectors share. Redis is a service outside the repository, so its commands are
  a parameter of every definition that uses them (the record \<open>redis\<close>), and what the code relies on is the
  locale \<open>redis_laws\<close>: the documented effect of each command on the values that are alive at a time.

  Times are milliseconds. A command returns \<open>None\<close> when the client raises \<open>RedisError\<close>; a failed
  command may or may not have been executed by the server, so nothing is known of the keys it names
  (except that SET NX never changes a key that is alive, and the compare-and-delete script none with
  another value).
  Under memory pressure Redis evicts keys before their time to live ends (\<open>volatile-lru\<close>, see \<open>state/dedupe.py\<close>). The laws
  are about commands only: in a trace an eviction is a DEL of one key that no client asked for (\<open>evicts_other\<close>), and
  the properties that need a key to stay say so. The last section is a store with an explicit
  list of upcoming faults that satisfies the laws; the witnesses of the components run on it.
\<close>

section \<open>Commands\<close>

text \<open>A stored value: text written by SET, or a counter written by INCR.\<close>

datatype redis_val = RText string | RNum int

record 's redis =
  rd_exists :: "nat \<Rightarrow> string \<Rightarrow> 's \<Rightarrow> bool option \<times> 's"
  rd_set_nx :: "nat \<Rightarrow> string \<Rightarrow> string \<Rightarrow> nat \<Rightarrow> 's \<Rightarrow> bool option \<times> 's"
  rd_set :: "nat \<Rightarrow> string \<Rightarrow> string \<Rightarrow> nat \<Rightarrow> 's \<Rightarrow> unit option \<times> 's"
  rd_delete :: "nat \<Rightarrow> string list \<Rightarrow> 's \<Rightarrow> unit option \<times> 's"
  rd_incr :: "nat \<Rightarrow> string \<Rightarrow> 's \<Rightarrow> int option \<times> 's"
  rd_expire :: "nat \<Rightarrow> string \<Rightarrow> nat \<Rightarrow> 's \<Rightarrow> unit option \<times> 's"
  rd_incr_expire :: "nat \<Rightarrow> string \<Rightarrow> nat \<Rightarrow> 's \<Rightarrow> int option \<times> 's"
  rd_get_del :: "nat \<Rightarrow> string \<Rightarrow> string \<Rightarrow> 's \<Rightarrow> bool option \<times> 's"

text \<open>\<open>rd_incr_expire\<close> is the transaction INCR; EXPIRE, and \<open>rd_get_del\<close> a script that deletes a key when it
  holds the given text.\<close>

definition num_or_zero :: "redis_val option \<Rightarrow> int" where
  "num_or_zero v = (case v of Some (RNum n) \<Rightarrow> n | _ \<Rightarrow> 0)"

section \<open>Many clients\<close>

text \<open>The commands any number of clients issue, interleaved freely, with the time of the server and, for
  SET NX, what the client got back.\<close>

datatype redis_cmd =
    RExists nat string
  | RSetNx nat string string nat "bool option"
  | RSet nat string string nat
  | RDelete nat "string list"
  | RIncr nat string
  | RExpire nat string nat
  | RIncrExpire nat string nat
  | RGetDel nat string string

inductive redis_step :: "'s redis \<Rightarrow> nat \<times> 's \<Rightarrow> redis_cmd \<Rightarrow> nat \<times> 's \<Rightarrow> bool" for rd where
  step_exists: "now \<le> t \<Longrightarrow> rd_exists rd t k s = (b, s') \<Longrightarrow> redis_step rd (now, s) (RExists t k) (t, s')"
| step_set_nx: "now \<le> t \<Longrightarrow> rd_set_nx rd t k v ex s = (r, s') \<Longrightarrow> redis_step rd (now, s) (RSetNx t k v ex r) (t, s')"
| step_set: "now \<le> t \<Longrightarrow> rd_set rd t k v ex s = (u, s') \<Longrightarrow> redis_step rd (now, s) (RSet t k v ex) (t, s')"
| step_delete: "now \<le> t \<Longrightarrow> rd_delete rd t ks s = (u, s') \<Longrightarrow> redis_step rd (now, s) (RDelete t ks) (t, s')"
| step_incr: "now \<le> t \<Longrightarrow> rd_incr rd t k s = (n, s') \<Longrightarrow> redis_step rd (now, s) (RIncr t k) (t, s')"
| step_expire: "now \<le> t \<Longrightarrow> rd_expire rd t k ex s = (u, s') \<Longrightarrow> redis_step rd (now, s) (RExpire t k ex) (t, s')"
| step_incr_expire: "now \<le> t \<Longrightarrow> rd_incr_expire rd t k ex s = (n, s') \<Longrightarrow>
     redis_step rd (now, s) (RIncrExpire t k ex) (t, s')"
| step_get_del: "now \<le> t \<Longrightarrow> rd_get_del rd t k v s = (b, s') \<Longrightarrow> redis_step rd (now, s) (RGetDel t k v) (t, s')"

inductive redis_trace :: "'s redis \<Rightarrow> nat \<times> 's \<Rightarrow> redis_cmd list \<Rightarrow> nat \<times> 's \<Rightarrow> bool" for rd where
  trace_nil: "redis_trace rd st [] st"
| trace_cons: "redis_step rd st c st1 \<Longrightarrow> redis_trace rd st1 cs st2 \<Longrightarrow> redis_trace rd st (c # cs) st2"

inductive_cases redis_trace_ConsE: "redis_trace rd st (c # cs) st2"
inductive_cases redis_step_set_nxE: "redis_step rd st (RSetNx t k v ex r) st'"

text \<open>The commands that can end the life of a token \<open>v\<close> stored under \<open>k\<close> before its time.\<close>

fun ends_token :: "string \<Rightarrow> string \<Rightarrow> redis_cmd \<Rightarrow> bool" where
  "ends_token k v (RSet _ k' _ _) \<longleftrightarrow> k' = k"
| "ends_token k v (RDelete _ ks) \<longleftrightarrow> k \<in> set ks"
| "ends_token k v (RIncr _ k') \<longleftrightarrow> k' = k"
| "ends_token k v (RExpire _ k' _) \<longleftrightarrow> k' = k"
| "ends_token k v (RIncrExpire _ k' _) \<longleftrightarrow> k' = k"
| "ends_token k v (RGetDel _ k' v') \<longleftrightarrow> k' = k \<and> v' = v"
| "ends_token k v _ \<longleftrightarrow> False"

text \<open>An eviction that does not hit the key \<open>k\<close>.\<close>

definition evicts_other :: "string \<Rightarrow> redis_cmd \<Rightarrow> bool" where
  "evicts_other k c \<longleftrightarrow> (\<exists>t k'. c = RDelete t [k'] \<and> k' \<noteq> k)"

lemma evicts_other_keeps: "evicts_other k c \<Longrightarrow> \<not> ends_token k v c"
  by (auto simp: evicts_other_def)

section \<open>The commands of an operation\<close>

text \<open>What an operation sends to Redis is found by running it on a client whose state is the list of commands received
  so far, with an arbitrary answer to each of them. As other workers run between two commands, nothing relates the answers to
  each other; a property over all answers holds for every interleaving.\<close>

record answers =
  an_exists :: "redis_cmd list \<Rightarrow> bool option"
  an_set_nx :: "redis_cmd list \<Rightarrow> bool option"
  an_set :: "redis_cmd list \<Rightarrow> unit option"
  an_delete :: "redis_cmd list \<Rightarrow> unit option"
  an_incr :: "redis_cmd list \<Rightarrow> int option"
  an_expire :: "redis_cmd list \<Rightarrow> unit option"
  an_incr_expire :: "redis_cmd list \<Rightarrow> int option"
  an_get_del :: "redis_cmd list \<Rightarrow> bool option"

definition recording :: "answers \<Rightarrow> redis_cmd list redis" where
  "recording an = \<lparr>
     rd_exists = (\<lambda>t k l. (an_exists an l, l @ [RExists t k])),
     rd_set_nx = (\<lambda>t k v ex l. (an_set_nx an l, l @ [RSetNx t k v ex (an_set_nx an l)])),
     rd_set = (\<lambda>t k v ex l. (an_set an l, l @ [RSet t k v ex])),
     rd_delete = (\<lambda>t ks l. (an_delete an l, l @ [RDelete t ks])),
     rd_incr = (\<lambda>t k l. (an_incr an l, l @ [RIncr t k])),
     rd_expire = (\<lambda>t k ex l. (an_expire an l, l @ [RExpire t k ex])),
     rd_incr_expire = (\<lambda>t k ex l. (an_incr_expire an l, l @ [RIncrExpire t k ex])),
     rd_get_del = (\<lambda>t k v l. (an_get_del an l, l @ [RGetDel t k v]))\<rparr>"

lemma recording_simps [simp]:
  "rd_exists (recording an) t k l = (an_exists an l, l @ [RExists t k])"
  "rd_set_nx (recording an) t k v ex l = (an_set_nx an l, l @ [RSetNx t k v ex (an_set_nx an l)])"
  "rd_set (recording an) t k v ex l = (an_set an l, l @ [RSet t k v ex])"
  "rd_delete (recording an) t ks l = (an_delete an l, l @ [RDelete t ks])"
  "rd_incr (recording an) t k l = (an_incr an l, l @ [RIncr t k])"
  "rd_expire (recording an) t k ex l = (an_expire an l, l @ [RExpire t k ex])"
  "rd_incr_expire (recording an) t k ex l = (an_incr_expire an l, l @ [RIncrExpire t k ex])"
  "rd_get_del (recording an) t k v l = (an_get_del an l, l @ [RGetDel t k v])"
  by (simp_all add: recording_def)

text \<open>Answers that do not depend on the commands before.\<close>

definition constant_answers ::
    "bool option \<Rightarrow> bool option \<Rightarrow> unit option \<Rightarrow> unit option \<Rightarrow> int option \<Rightarrow> unit option \<Rightarrow> int option \<Rightarrow> bool option \<Rightarrow> answers" where
  "constant_answers e n s d i x j g = \<lparr>an_exists = (\<lambda>_. e), an_set_nx = (\<lambda>_. n), an_set = (\<lambda>_. s), an_delete = (\<lambda>_. d),
     an_incr = (\<lambda>_. i), an_expire = (\<lambda>_. x), an_incr_expire = (\<lambda>_. j), an_get_del = (\<lambda>_. g)\<rparr>"

lemma constant_answers_simps [simp]:
  "an_exists (constant_answers e n s d i x j g) l = e" "an_set_nx (constant_answers e n s d i x j g) l = n"
  "an_set (constant_answers e n s d i x j g) l = s" "an_delete (constant_answers e n s d i x j g) l = d"
  "an_incr (constant_answers e n s d i x j g) l = i" "an_expire (constant_answers e n s d i x j g) l = x"
  "an_incr_expire (constant_answers e n s d i x j g) l = j" "an_get_del (constant_answers e n s d i x j g) l = g"
  by (simp_all add: constant_answers_def)

section \<open>Laws\<close>

text \<open>\<open>live s t k\<close> is the value a read of \<open>k\<close> at time \<open>t\<close> returns if no command runs in between.\<close>

locale redis_laws =
  fixes rd :: "'s redis" and live :: "'s \<Rightarrow> nat \<Rightarrow> string \<Rightarrow> redis_val option"
  assumes expired_stays: "live s t k = None \<Longrightarrow> t \<le> t' \<Longrightarrow> live s t' k = None"
    and exists_law: "rd_exists rd t k s = (r, s') \<Longrightarrow> t \<le> t' \<Longrightarrow>
        live s' t' k' = live s t' k' \<and> (r = None \<or> r = Some (live s t k \<noteq> None))"
    and set_nx_ok: "rd_set_nx rd t k v ex s = (Some True, s') \<Longrightarrow> t \<le> t' \<Longrightarrow>
        live s t k = None \<and>
        live s' t' k' = (if k' = k then (if t' < t + 1000 * ex then Some (RText v) else None) else live s t' k')"
    and set_nx_taken: "rd_set_nx rd t k v ex s = (Some False, s') \<Longrightarrow> t \<le> t' \<Longrightarrow>
        live s t k \<noteq> None \<and> live s' t' k' = live s t' k'"
    and set_nx_error: "rd_set_nx rd t k v ex s = (None, s') \<Longrightarrow> t \<le> t' \<Longrightarrow>
        k' \<noteq> k \<or> live s t k \<noteq> None \<Longrightarrow> live s' t' k' = live s t' k'"
    and set_ok: "rd_set rd t k v ex s = (Some u, s') \<Longrightarrow> t \<le> t' \<Longrightarrow>
        live s' t' k' = (if k' = k then (if t' < t + 1000 * ex then Some (RText v) else None) else live s t' k')"
    and set_error: "rd_set rd t k v ex s = (None, s') \<Longrightarrow> t \<le> t' \<Longrightarrow> k' \<noteq> k \<Longrightarrow>
        live s' t' k' = live s t' k'"
    and delete_ok: "rd_delete rd t ks s = (Some u, s') \<Longrightarrow> t \<le> t' \<Longrightarrow>
        live s' t' k' = (if k' \<in> set ks then None else live s t' k')"
    and delete_error: "rd_delete rd t ks s = (None, s') \<Longrightarrow> t \<le> t' \<Longrightarrow> k' \<notin> set ks \<Longrightarrow>
        live s' t' k' = live s t' k'"
    and incr_ok: "rd_incr rd t k s = (Some n, s') \<Longrightarrow> t \<le> t' \<Longrightarrow>
        n = num_or_zero (live s t k) + 1 \<and>
        live s' t' k' = (if k' = k then (if live s t k \<noteq> None \<and> live s t' k = None then None else Some (RNum n))
                         else live s t' k')"
    and incr_error: "rd_incr rd t k s = (None, s') \<Longrightarrow> t \<le> t' \<Longrightarrow> k' \<noteq> k \<Longrightarrow>
        live s' t' k' = live s t' k'"
    and expire_ok: "rd_expire rd t k ex s = (Some u, s') \<Longrightarrow> t \<le> t' \<Longrightarrow>
        live s' t' k' = (if k' = k then (if t' < t + 1000 * ex then live s t k else None) else live s t' k')"
    and expire_error: "rd_expire rd t k ex s = (None, s') \<Longrightarrow> t \<le> t' \<Longrightarrow> k' \<noteq> k \<Longrightarrow>
        live s' t' k' = live s t' k'"
    and incr_expire_ok: "rd_incr_expire rd t k ex s = (Some n, s') \<Longrightarrow> t \<le> t' \<Longrightarrow>
        n = num_or_zero (live s t k) + 1 \<and>
        live s' t' k' = (if k' = k then (if t' < t + 1000 * ex then Some (RNum n) else None) else live s t' k')"
    and incr_expire_error: "rd_incr_expire rd t k ex s = (None, s') \<Longrightarrow> t \<le> t' \<Longrightarrow> k' \<noteq> k \<Longrightarrow>
        live s' t' k' = live s t' k'"
    and get_del_ok: "rd_get_del rd t k v s = (Some b, s') \<Longrightarrow> t \<le> t' \<Longrightarrow>
        b = (live s t k = Some (RText v)) \<and>
        live s' t' k' = (if k' = k \<and> b then None else live s t' k')"
    and get_del_error: "rd_get_del rd t k v s = (None, s') \<Longrightarrow> t \<le> t' \<Longrightarrow>
        k' \<noteq> k \<or> live s t k \<noteq> Some (RText v) \<Longrightarrow> live s' t' k' = live s t' k'"
begin

text \<open>A key nobody names keeps its value, whatever a command reports.\<close>

lemma set_nx_frame: "rd_set_nx rd t k v ex s = (r, s') \<Longrightarrow> t \<le> t' \<Longrightarrow> k' \<noteq> k \<Longrightarrow> live s' t' k' = live s t' k'"
  using set_nx_ok set_nx_taken set_nx_error by (cases r) (metis (full_types))+

lemma set_nx_alive:
  assumes "rd_set_nx rd t k v ex s = (r, s')" "live s t k \<noteq> None" "t \<le> t'"
  shows "r \<noteq> Some True" "live s' t' k' = live s t' k'"
  using assms set_nx_ok set_nx_taken set_nx_error by (cases r; metis (full_types))+

lemma set_frame: "rd_set rd t k v ex s = (r, s') \<Longrightarrow> t \<le> t' \<Longrightarrow> k' \<noteq> k \<Longrightarrow> live s' t' k' = live s t' k'"
  using set_ok set_error by (cases r) (metis (full_types))+

lemma delete_frame: "rd_delete rd t ks s = (r, s') \<Longrightarrow> t \<le> t' \<Longrightarrow> k' \<notin> set ks \<Longrightarrow> live s' t' k' = live s t' k'"
  using delete_ok delete_error by (cases r) (metis (full_types))+

lemma incr_frame: "rd_incr rd t k s = (r, s') \<Longrightarrow> t \<le> t' \<Longrightarrow> k' \<noteq> k \<Longrightarrow> live s' t' k' = live s t' k'"
  using incr_ok incr_error by (cases r) (metis (full_types))+

lemma expire_frame: "rd_expire rd t k ex s = (r, s') \<Longrightarrow> t \<le> t' \<Longrightarrow> k' \<noteq> k \<Longrightarrow> live s' t' k' = live s t' k'"
  using expire_ok expire_error by (cases r) (metis (full_types))+

lemma get_del_frame:
  "rd_get_del rd t k v s = (r, s') \<Longrightarrow> t \<le> t' \<Longrightarrow> k' \<noteq> k \<or> live s t k \<noteq> Some (RText v) \<Longrightarrow>
   live s' t' k' = live s t' k'"
  using get_del_ok get_del_error by (cases r) (metis (full_types))+

lemma incr_expire_frame:
  "rd_incr_expire rd t k ex s = (r, s') \<Longrightarrow> t \<le> t' \<Longrightarrow> k' \<noteq> k \<Longrightarrow> live s' t' k' = live s t' k'"
  using incr_expire_ok incr_expire_error by (cases r) (metis (full_types))+

text \<open>A token written by SET NX survives until its time to live ends, unless a command ends it.\<close>

definition token_held :: "string \<Rightarrow> string \<Rightarrow> nat \<Rightarrow> nat \<times> 's \<Rightarrow> bool" where
  "token_held k v e st \<longleftrightarrow> (\<forall>t\<ge>fst st. t < e \<longrightarrow> live (snd st) t k = Some (RText v))"

lemma step_keeps_token:
  assumes "redis_step rd st c st'" and held: "token_held k v e st" and "\<not> ends_token k v c"
  shows "token_held k v e st'"
  using assms(1)
proof (cases rule: redis_step.cases)
  case (step_set_nx now t k' v' ex s r s')
  have "live s' t' k = live s t' k" if "t' \<ge> t" "t' < e" for t'
  proof (cases "k' = k")
    case True
    have "live s t k \<noteq> None" using held step_set_nx that by (auto simp: token_held_def)
    with set_nx_alive(2) [OF step_set_nx(5) _ that(1)] True show ?thesis by simp
  qed (use set_nx_frame [OF step_set_nx(5) that(1)] in auto)
  with held step_set_nx show ?thesis by (auto simp: token_held_def)
next
  case (step_get_del now t k' v' s b s')
  have "live s' t' k = live s t' k" if "t' \<ge> t" "t' < e" for t'
  proof (rule get_del_frame [OF step_get_del(5) that(1)])
    have "live s t k = Some (RText v)" using held step_get_del that by (auto simp: token_held_def)
    with assms(3) step_get_del show "k \<noteq> k' \<or> live s t k' \<noteq> Some (RText v')" by auto
  qed
  with held step_get_del show ?thesis by (auto simp: token_held_def)
next
  case (step_exists now t k' s b s')
  with exists_law [OF step_exists(5)] held show ?thesis by (auto simp: token_held_def)
next
  case (step_set now t k' v' ex s u s')
  with set_frame [OF step_set(5)] held assms(3) show ?thesis by (auto simp: token_held_def)
next
  case (step_delete now t ks s u s')
  with delete_frame [OF step_delete(5)] held assms(3) show ?thesis by (auto simp: token_held_def)
next
  case (step_incr now t k' s n s')
  with incr_frame [OF step_incr(5)] held assms(3) show ?thesis by (auto simp: token_held_def)
next
  case (step_expire now t k' ex s u s')
  with expire_frame [OF step_expire(5)] held assms(3) show ?thesis by (auto simp: token_held_def)
next
  case (step_incr_expire now t k' ex s n s')
  with incr_expire_frame [OF step_incr_expire(5)] held assms(3) show ?thesis by (auto simp: token_held_def)
qed

lemma held_token_blocks:
  assumes "redis_trace rd st (mid @ [RSetNx t2 k v2 ex2 (Some True)]) st2" and "token_held k v e st"
    and "\<forall>c\<in>set mid. \<not> ends_token k v c"
  shows "e \<le> t2"
  using assms
proof (induction mid arbitrary: st)
  case Nil
  then obtain now s s' where p: "st = (now, s)" "now \<le> t2" "rd_set_nx rd t2 k v2 ex2 s = (Some True, s')"
    by (auto elim!: redis_trace_ConsE redis_step_set_nxE)
  from set_nx_ok [OF p(3) order.refl] have "live s t2 k = None" by blast
  with Nil.prems(2) p(1,2) show ?case by (metis fst_conv snd_conv not_le option.distinct(1) token_held_def)
next
  case (Cons c mid)
  obtain st1 where c: "redis_step rd st c st1" "redis_trace rd st1 (mid @ [RSetNx t2 k v2 ex2 (Some True)]) st2"
    using Cons.prems(1) by (auto elim: redis_trace_ConsE)
  show ?case
    using Cons.IH [OF c(2) step_keeps_token [OF c(1) Cons.prems(2)]] Cons.prems(3) by simp
qed

text \<open>Two successful SET NX on one key are at least the first time to live apart, unless a command in
  between ended the first token.\<close>

lemma token_exclusive:
  assumes trace: "redis_trace rd st (RSetNx t1 k v ex (Some True) # mid @ [RSetNx t2 k v2 ex2 (Some True)]) st'"
    and "\<forall>c\<in>set mid. \<not> ends_token k v c"
  shows "t1 + 1000 * ex \<le> t2"
proof -
  obtain st1 where st1: "redis_step rd st (RSetNx t1 k v ex (Some True)) st1"
      "redis_trace rd st1 (mid @ [RSetNx t2 k v2 ex2 (Some True)]) st'"
    using trace by (rule redis_trace_ConsE)
  from st1(1) obtain now s s1 where p: "st1 = (t1, s1)" "rd_set_nx rd t1 k v ex s = (Some True, s1)"
    by (cases rule: redis_step_set_nxE) blast
  have "token_held k v (t1 + 1000 * ex) st1"
    using set_nx_ok [OF p(2), of _ k] by (auto simp: token_held_def p(1))
  from held_token_blocks [OF st1(2) this assms(2)] show ?thesis .
qed

end

section \<open>A store with faults\<close>

text \<open>The contents with their expiry, and for each upcoming command whether it fails before it is executed.\<close>

record ttl_store =
  ts_entries :: "string \<Rightarrow> (redis_val \<times> nat option) option"
  ts_faults :: "bool list"

definition ts_empty :: ttl_store where
  "ts_empty = \<lparr>ts_entries = (\<lambda>_. None), ts_faults = []\<rparr>"

definition alive :: "nat \<Rightarrow> (redis_val \<times> nat option) option \<Rightarrow> redis_val option" where
  "alive t e = (case e of
      None \<Rightarrow> None
    | Some (v, None) \<Rightarrow> Some v
    | Some (v, Some ex) \<Rightarrow> if t < ex then Some v else None)"

definition ts_live :: "ttl_store \<Rightarrow> nat \<Rightarrow> string \<Rightarrow> redis_val option" where
  "ts_live s t k = alive t (ts_entries s k)"

definition ts_put :: "string \<Rightarrow> (redis_val \<times> nat option) option \<Rightarrow> ttl_store \<Rightarrow> ttl_store" where
  "ts_put k e s = s\<lparr>ts_entries := (ts_entries s)(k := e)\<rparr>"

definition ts_cmd :: "(ttl_store \<Rightarrow> 'a \<times> ttl_store) \<Rightarrow> ttl_store \<Rightarrow> 'a option \<times> ttl_store" where
  "ts_cmd f s =
     (case ts_faults s of
        True # fs \<Rightarrow> (None, s\<lparr>ts_faults := fs\<rparr>)
      | False # fs \<Rightarrow> (case f (s\<lparr>ts_faults := fs\<rparr>) of (a, s') \<Rightarrow> (Some a, s'))
      | [] \<Rightarrow> (case f s of (a, s') \<Rightarrow> (Some a, s')))"

definition ts_do_incr :: "nat \<Rightarrow> string \<Rightarrow> ttl_store \<Rightarrow> int \<times> ttl_store" where
  "ts_do_incr t k s =
     (let n = num_or_zero (ts_live s t k) + 1;
          ex = (if ts_live s t k = None then None else snd (the (ts_entries s k)))
      in (n, ts_put k (Some (RNum n, ex)) s))"

definition ttl_redis :: "ttl_store redis" where
  "ttl_redis = \<lparr>
     rd_exists = (\<lambda>t k. ts_cmd (\<lambda>s. (ts_live s t k \<noteq> None, s))),
     rd_set_nx = (\<lambda>t k v ex. ts_cmd (\<lambda>s. if ts_live s t k = None
        then (True, ts_put k (Some (RText v, Some (t + 1000 * ex))) s) else (False, s))),
     rd_set = (\<lambda>t k v ex. ts_cmd (\<lambda>s. ((), ts_put k (Some (RText v, Some (t + 1000 * ex))) s))),
     rd_delete = (\<lambda>t ks. ts_cmd (\<lambda>s. ((), foldl (\<lambda>s k. ts_put k None s) s ks))),
     rd_incr = (\<lambda>t k. ts_cmd (ts_do_incr t k)),
     rd_expire = (\<lambda>t k ex. ts_cmd (\<lambda>s. ((), case ts_live s t k of
        None \<Rightarrow> ts_put k None s | Some v \<Rightarrow> ts_put k (Some (v, Some (t + 1000 * ex))) s))),
     rd_incr_expire = (\<lambda>t k ex. ts_cmd (\<lambda>s. let n = num_or_zero (ts_live s t k) + 1 in
        (n, ts_put k (Some (RNum n, Some (t + 1000 * ex))) s))),
     rd_get_del = (\<lambda>t k v. ts_cmd (\<lambda>s. if ts_live s t k = Some (RText v)
        then (True, ts_put k None s) else (False, s)))\<rparr>"

lemma ts_live_faults [simp]: "ts_live (s\<lparr>ts_faults := fs\<rparr>) = ts_live s"
  by (simp add: ts_live_def fun_eq_iff)

lemma ts_live_put [simp]:
  "ts_live (ts_put k e s) t k' = (if k' = k then alive t e else ts_live s t k')"
  by (simp add: ts_live_def ts_put_def)

lemma alive_simps [simp]:
  "alive t None = None" "alive t (Some (v, None)) = Some v"
  "alive t (Some (v, Some ex)) = (if t < ex then Some v else None)"
  by (simp_all add: alive_def)

lemma ts_live_delete [simp]:
  "ts_live (foldl (\<lambda>s k. ts_put k None s) s ks) t k' = (if k' \<in> set ks then None else ts_live s t k')"
  by (induction ks arbitrary: s) auto

text \<open>A command that succeeds is its effect on a store with the same live values; one that fails is none.\<close>

lemma ts_cmd_Some:
  "ts_cmd f s = (Some a, s') \<Longrightarrow> \<exists>s0. ts_live s0 = ts_live s \<and> ts_entries s0 = ts_entries s \<and> f s0 = (a, s')"
  by (auto simp: ts_cmd_def split: list.splits prod.splits bool.splits intro: exI [of _ "s\<lparr>ts_faults := _\<rparr>"])

lemma ts_cmd_None: "ts_cmd f s = (None, s') \<Longrightarrow> ts_live s' = ts_live s"
  by (auto simp: ts_cmd_def split: list.splits prod.splits bool.splits)

lemma ts_live_expired: "ts_live s t k = None \<Longrightarrow> t \<le> t' \<Longrightarrow> ts_live s t' k = None"
  by (auto simp: ts_live_def alive_def split: option.splits prod.splits if_splits)

lemma ts_do_incr_live:
  assumes "ts_do_incr t k s = (n, s')" "t \<le> t'"
  shows "n = num_or_zero (ts_live s t k) + 1"
    and "ts_live s' t' k' = (if k' = k then (if ts_live s t k \<noteq> None \<and> ts_live s t' k = None then None
                                             else Some (RNum n)) else ts_live s t' k')"
proof -
  define ex where "ex = (if ts_live s t k = None then None else snd (the (ts_entries s k)))"
  have r: "n = num_or_zero (ts_live s t k) + 1" "s' = ts_put k (Some (RNum n, ex)) s"
    using assms(1) by (auto simp: ts_do_incr_def Let_def ex_def)
  show "n = num_or_zero (ts_live s t k) + 1" by (rule r(1))
  have "alive t' (Some (RNum n, ex)) =
      (if ts_live s t k \<noteq> None \<and> ts_live s t' k = None then None else Some (RNum n))"
  proof (cases "ts_entries s k")
    case (Some e)
    then show ?thesis using assms(2)
      by (cases e; cases "snd e") (simp_all add: ex_def ts_live_def)
  qed (simp add: ex_def ts_live_def)
  then show "ts_live s' t' k' = (if k' = k then (if ts_live s t k \<noteq> None \<and> ts_live s t' k = None then None
                                             else Some (RNum n)) else ts_live s t' k')"
    unfolding r(2) ts_live_put by simp
qed

interpretation ts: redis_laws ttl_redis ts_live
proof (unfold_locales, goal_cases)
  case (1 s t k t')
  then show ?case by (rule ts_live_expired)
next
  case (2 t k s r s' t' k')
  then show ?case
    by (cases r) (auto simp: ttl_redis_def dest!: ts_cmd_Some ts_cmd_None)
next
  case (3 t k v ex s s' t' k')
  then show ?case
    by (auto simp: ttl_redis_def dest!: ts_cmd_Some split: if_splits)
next
  case (4 t k v ex s s' t' k')
  then show ?case
    by (auto simp: ttl_redis_def dest!: ts_cmd_Some split: if_splits)
next
  case (6 t k v ex s u s' t' k')
  then show ?case by (auto simp: ttl_redis_def dest!: ts_cmd_Some)
next
  case (8 t ks s u s' t' k')
  then show ?case by (auto simp: ttl_redis_def dest!: ts_cmd_Some)
next
  case (10 t k s n s' t' k')
  from 10(1) obtain s0 where "ts_live s0 = ts_live s" "ts_do_incr t k s0 = (n, s')"
    by (auto simp: ttl_redis_def dest!: ts_cmd_Some)
  with ts_do_incr_live [OF _ 10(2)] show ?case by metis
next
  case (12 t k ex s u s' t' k')
  then show ?case by (auto simp: ttl_redis_def dest!: ts_cmd_Some split: option.splits)
next
  case (14 t k ex s n s' t' k')
  then show ?case by (auto simp: ttl_redis_def Let_def dest!: ts_cmd_Some)
next
  case (16 t k v s b s' t' k')
  then show ?case by (auto simp: ttl_redis_def dest!: ts_cmd_Some split: if_splits)
qed (auto simp: ttl_redis_def dest!: ts_cmd_None)

lemmas ts_eval = ttl_redis_def ts_cmd_def ts_empty_def ts_do_incr_def num_or_zero_def

end
