(* ===== verification/Py_Hash.thy ===== *)
theory Py_Hash
  imports Py_Prelude "HOL-Library.Word"
begin

text \<open>
  The two digests of \<open>hashlib\<close> the back end uses, as executable functions on byte lists: SHA-1
  (canary buckets, cache keys) and SHA-256 (PII pseudonyms, message identifiers, suppression
  signatures), after FIPS 180-4. Words are 32-bit machine words, so additions wrap.
\<close>

unbundle bit_operations_syntax

type_synonym w32 = "32 word"

section \<open>Padding and blocks\<close>

definition be_bytes :: "nat \<Rightarrow> nat \<Rightarrow> nat list" where
  "be_bytes n v = map (\<lambda>i. (v div 256 ^ (n - 1 - i)) mod 256) [0 ..< n]"

definition sha_pad :: "nat list \<Rightarrow> nat list" where
  "sha_pad bs =
     bs @ [128] @ replicate ((119 - length bs mod 64) mod 64) 0 @ be_bytes 8 (8 * length bs)"

fun be_words :: "nat list \<Rightarrow> w32 list" where
  "be_words (a # b # c # d # rest) =
     word_of_nat (a * 2 ^ 24 + b * 2 ^ 16 + c * 2 ^ 8 + d) # be_words rest"
| "be_words _ = []"

function sha_blocks :: "w32 list \<Rightarrow> w32 list list" where
  "sha_blocks ws = (if length ws < 16 then [] else take 16 ws # sha_blocks (drop 16 ws))"
  by pat_completeness auto
termination
  by (relation "measure length") auto

declare sha_blocks.simps [simp del]

definition word_hex :: "w32 \<Rightarrow> string" where
  "word_hex w = map (\<lambda>i. hex_digit ((unat w div 16 ^ (7 - i)) mod 16)) [0 ..< 8]"

section \<open>SHA-1\<close>

text \<open>The message schedule is built newest word first: position 0 is \<open>W[t-1]\<close>.\<close>

fun sha1_extend :: "nat \<Rightarrow> w32 list \<Rightarrow> w32 list" where
  "sha1_extend 0 l = l"
| "sha1_extend (Suc n) l =
     sha1_extend n (word_rotl 1 (l ! 2 XOR l ! 7 XOR l ! 13 XOR l ! 15) # l)"

definition sha1_f :: "nat \<Rightarrow> w32 \<Rightarrow> w32 \<Rightarrow> w32 \<Rightarrow> w32" where
  "sha1_f t b c d =
     (if t < 20 then (b AND c) OR (NOT b AND d)
      else if t < 40 then b XOR c XOR d
      else if t < 60 then (b AND c) OR (b AND d) OR (c AND d)
      else b XOR c XOR d)"

definition sha1_k :: "nat \<Rightarrow> w32" where
  "sha1_k t =
     (if t < 20 then 1518500249 else if t < 40 then 1859775393
      else if t < 60 then 2400959708 else 3395469782)"

type_synonym sha1_state = "w32 \<times> w32 \<times> w32 \<times> w32 \<times> w32"

fun sha1_round :: "sha1_state \<Rightarrow> nat \<times> w32 \<Rightarrow> sha1_state" where
  "sha1_round (a, b, c, d, e) (t, w) =
     (word_rotl 5 a + sha1_f t b c d + e + sha1_k t + w, a, word_rotl 30 b, c, d)"

fun sha1_block :: "sha1_state \<Rightarrow> w32 list \<Rightarrow> sha1_state" where
  "sha1_block (a, b, c, d, e) blk =
     (case foldl sha1_round (a, b, c, d, e)
             (zip [0 ..< 80] (rev (sha1_extend 64 (rev blk)))) of
        (a', b', c', d', e') \<Rightarrow> (a + a', b + b', c + c', d + d', e + e'))"

definition sha1_words :: "nat list \<Rightarrow> w32 list" where
  "sha1_words bs =
     (case foldl sha1_block (1732584193, 4023233417, 2562383102, 271733878, 3285377520)
             (sha_blocks (be_words (sha_pad bs))) of
        (a, b, c, d, e) \<Rightarrow> [a, b, c, d, e])"

text \<open>\<open>hashlib.sha1(s.encode("utf-8")).hexdigest()\<close>.\<close>

definition sha1_hex :: "string \<Rightarrow> string" where
  "sha1_hex s = concat (map word_hex (sha1_words (utf8 s)))"

section \<open>SHA-256\<close>

definition sha256_k :: "w32 list" where
  "sha256_k =
    [1116352408, 1899447441, 3049323471, 3921009573, 961987163, 1508970993,
     2453635748, 2870763221, 3624381080, 310598401, 607225278, 1426881987,
     1925078388, 2162078206, 2614888103, 3248222580, 3835390401, 4022224774,
     264347078, 604807628, 770255983, 1249150122, 1555081692, 1996064986,
     2554220882, 2821834349, 2952996808, 3210313671, 3336571891, 3584528711,
     113926993, 338241895, 666307205, 773529912, 1294757372, 1396182291,
     1695183700, 1986661051, 2177026350, 2456956037, 2730485921, 2820302411,
     3259730800, 3345764771, 3516065817, 3600352804, 4094571909, 275423344,
     430227734, 506948616, 659060556, 883997877, 958139571, 1322822218,
     1537002063, 1747873779, 1955562222, 2024104815, 2227730452, 2361852424,
     2428436474, 2756734187, 3204031479, 3329325298]"

definition sha256_init :: "w32 list" where
  "sha256_init =
    [1779033703, 3144134277, 1013904242, 2773480762, 1359893119, 2600822924,
     528734635, 1541459225]"

fun sha256_extend :: "nat \<Rightarrow> w32 list \<Rightarrow> w32 list" where
  "sha256_extend 0 l = l"
| "sha256_extend (Suc n) l =
     (let w15 = l ! 14; w2 = l ! 1;
          s0 = word_rotr 7 w15 XOR word_rotr 18 w15 XOR drop_bit 3 w15;
          s1 = word_rotr 17 w2 XOR word_rotr 19 w2 XOR drop_bit 10 w2
      in sha256_extend n ((l ! 15 + s0 + l ! 6 + s1) # l))"

type_synonym sha256_state = "w32 \<times> w32 \<times> w32 \<times> w32 \<times> w32 \<times> w32 \<times> w32 \<times> w32"

fun sha256_round :: "sha256_state \<Rightarrow> w32 \<times> w32 \<Rightarrow> sha256_state" where
  "sha256_round (a, b, c, d, e, f, g, h) (k, w) =
     (let S1 = word_rotr 6 e XOR word_rotr 11 e XOR word_rotr 25 e;
          ch = (e AND f) XOR (NOT e AND g);
          t1 = h + S1 + ch + k + w;
          S0 = word_rotr 2 a XOR word_rotr 13 a XOR word_rotr 22 a;
          maj = (a AND b) XOR (a AND c) XOR (b AND c)
      in (t1 + (S0 + maj), a, b, c, d + t1, e, f, g))"

fun sha256_block :: "sha256_state \<Rightarrow> w32 list \<Rightarrow> sha256_state" where
  "sha256_block (a, b, c, d, e, f, g, h) blk =
     (case foldl sha256_round (a, b, c, d, e, f, g, h)
             (zip sha256_k (rev (sha256_extend 48 (rev blk)))) of
        (a', b', c', d', e', f', g', h') \<Rightarrow>
          (a + a', b + b', c + c', d + d', e + e', f + f', g + g', h + h'))"

definition sha256_words :: "nat list \<Rightarrow> w32 list" where
  "sha256_words bs =
     (case foldl sha256_block
             (sha256_init ! 0, sha256_init ! 1, sha256_init ! 2, sha256_init ! 3,
              sha256_init ! 4, sha256_init ! 5, sha256_init ! 6, sha256_init ! 7)
             (sha_blocks (be_words (sha_pad bs))) of
        (a, b, c, d, e, f, g, h) \<Rightarrow> [a, b, c, d, e, f, g, h])"

text \<open>\<open>hashlib.sha256(s.encode("utf-8")).hexdigest()\<close>.\<close>

definition sha256_hex :: "string \<Rightarrow> string" where
  "sha256_hex s = concat (map word_hex (sha256_words (utf8 s)))"

lemma length_word_hex [simp]: "length (word_hex w) = 8"
  by (simp add: word_hex_def)

lemma length_sha256_hex [simp]: "length (sha256_hex s) = 64"
proof -
  have "length (sha256_words bs) = 8" for bs
    by (simp add: sha256_words_def split: prod.split)
  then show ?thesis
    by (simp add: sha256_hex_def length_concat comp_def sum_list_triv)
qed

lemma length_sha1_hex [simp]: "length (sha1_hex s) = 40"
proof -
  have "length (sha1_words bs) = 5" for bs
    by (simp add: sha1_words_def split: prod.split)
  then show ?thesis
    by (simp add: sha1_hex_def length_concat comp_def sum_list_triv)
qed

text \<open>\<open>int(digest[:8], 16)\<close> of a SHA-1 digest is its first word.\<close>

definition sha1_prefix32 :: "string \<Rightarrow> nat" where
  "sha1_prefix32 s = unat (hd (sha1_words (utf8 s)))"

end
