(* ===== verification/Pii_Redaction.thy ===== *)
theory Pii_Redaction
  imports Py_Prelude Py_Hash
begin

text \<open>
  Per-route PII redaction, \<open>collectors/routing/pii_redaction.py\<close>: compilation and validation of the
  declarative rules, navigation of a dotted path, the value transformations (mask, hash, partial,
  drop\_field) and their application to a copy of the envelope.

  The code navigates to a parent dictionary and mutates it in place; the model returns the path of
  that parent and applies the same update at the path (\<open>upd_at\<close>). Values are immutable in the model,
  so the deep copy of the code is the identity here.
\<close>

section \<open>Compiled rules\<close>

record redaction_rule =
  rr_path_str :: string
  rr_path_parts :: "string list"
  rr_action :: string
  rr_params :: pydict

text \<open>One constructor per \<open>raise\<close>; the number is the index of the offending rule. \<open>PiiTypeError\<close> is the
  \<open>TypeError\<close> of testing an unhashable action for membership in a frozenset.\<close>

datatype pii_error =
    PiiSpecShape
  | PiiRulesNotList
  | PiiRuleNotObject nat
  | PiiPathRequired nat
  | PiiPathInvalid nat
  | PiiRootNotAllowed nat
  | PiiWholeRoot nat
  | PiiActionUnknown nat
  | PiiTypeError nat
  | PiiFixedLen nat
  | PiiAlgo nat
  | PiiSalt nat
  | PiiOctets nat
  | PiiKeep nat
  | PiiPartialEmpty nat
  | PiiMaskChar nat

definition pii_allowed_roots :: "string list" where
  "pii_allowed_roots = [''raw'', ''normalized'']"

definition pii_allowed_actions :: "string list" where
  "pii_allowed_actions = [''mask'', ''hash'', ''partial'', ''drop_field'']"

definition mask_sentinel :: string where
  "mask_sentinel = ''[REDACTED]''"

definition extract_rules :: "pyval \<Rightarrow> pii_error + pyval list" where
  "extract_rules spec =
     (case spec of
        PNone \<Rightarrow> Inr []
      | PDict d \<Rightarrow>
          (case dget_default d ''rules'' (PList []) of PList rs \<Rightarrow> Inr rs | _ \<Rightarrow> Inl PiiRulesNotList)
      | PList rs \<Rightarrow> Inr rs
      | _ \<Rightarrow> Inl PiiSpecShape)"

definition mask_char :: "nat \<Rightarrow> pydict \<Rightarrow> pii_error + pyval" where
  "mask_char idx item =
     (case dget_default item ''mask_char'' (PStr ''*'') of
        PStr mc \<Rightarrow> if length mc = 1 then Inr (PStr mc) else Inl (PiiMaskChar idx)
      | _ \<Rightarrow> Inl (PiiMaskChar idx))"

text \<open>The parameter \<open>None\<close> or a strictly positive integer that is not a bool.\<close>

definition positive_int_param :: "pyval \<Rightarrow> bool" where
  "positive_int_param v = (case v of PInt n \<Rightarrow> n > 0 | _ \<Rightarrow> False)"

definition natural_int_param :: "pyval \<Rightarrow> bool" where
  "natural_int_param v = (case v of PInt n \<Rightarrow> n \<ge> 0 | _ \<Rightarrow> False)"

definition validate_mask_params :: "nat \<Rightarrow> pydict \<Rightarrow> pii_error + pydict" where
  "validate_mask_params idx item =
     (let fixed_len = dget item ''fixed_len'' in
      if fixed_len \<noteq> PNone \<and> \<not> positive_int_param fixed_len then Inl (PiiFixedLen idx)
      else bind_result (mask_char idx item) (\<lambda>mc.
        Inr ((if fixed_len \<noteq> PNone then [(''fixed_len'', fixed_len)] else []) @ [(''mask_char'', mc)])))"

definition validate_hash_params :: "nat \<Rightarrow> pydict \<Rightarrow> pii_error + pydict" where
  "validate_hash_params idx item =
     (let algo = dget_default item ''algo'' (PStr ''sha256'') in
      if algo \<noteq> PStr ''sha256'' then Inl (PiiAlgo idx)
      else case dget item ''salt'' of
             PNone \<Rightarrow> Inr [(''algo'', algo)]
           | PStr salt \<Rightarrow> Inr [(''algo'', algo), (''salt'', PStr salt)]
           | _ \<Rightarrow> Inl (PiiSalt idx))"

definition validate_partial_params :: "nat \<Rightarrow> pydict \<Rightarrow> pii_error + pydict" where
  "validate_partial_params idx item =
     (let octets = dget item ''octets'' in
      if octets \<noteq> PNone then
        (if \<not> positive_int_param octets then Inl (PiiOctets idx)
         else bind_result (mask_char idx item) (\<lambda>mc.
           Inr [(''octets'', octets), (''mask_char'', mc)]))
      else
        (let kp0 = dget item ''keep_prefix''; ks0 = dget item ''keep_suffix'';
             kp = (if kp0 = PNone then PInt 0 else kp0);
             ks = (if ks0 = PNone then PInt 0 else ks0)
         in if \<not> natural_int_param kp \<or> \<not> natural_int_param ks then Inl (PiiKeep idx)
            else if kp = PInt 0 \<and> ks = PInt 0 then Inl (PiiPartialEmpty idx)
            else bind_result (mask_char idx item) (\<lambda>mc.
              Inr [(''keep_prefix'', kp), (''keep_suffix'', ks), (''mask_char'', mc)])))"

definition validate_params :: "nat \<Rightarrow> string \<Rightarrow> pydict \<Rightarrow> pii_error + pydict" where
  "validate_params idx action item =
     (if action = ''mask'' then validate_mask_params idx item
      else if action = ''hash'' then validate_hash_params idx item
      else if action = ''partial'' then validate_partial_params idx item
      else Inr [])"

text \<open>One iteration of the compile loop.\<close>

definition compile_rule :: "nat \<Rightarrow> pyval \<Rightarrow> pii_error + redaction_rule" where
  "compile_rule idx v =
     (case v of
        PDict item \<Rightarrow>
          (case dget item ''path'' of
             PStr path \<Rightarrow>
               (let parts = filter (\<lambda>p. p \<noteq> []) (split_on (CHR ''.'') path) in
                if strip path = [] then Inl (PiiPathRequired idx)
                else if parts = [] then Inl (PiiPathInvalid idx)
                else if hd parts \<notin> set pii_allowed_roots then Inl (PiiRootNotAllowed idx)
                else if length parts < 2 then Inl (PiiWholeRoot idx)
                else case dget item ''action'' of
                       PStr action \<Rightarrow>
                         if action \<notin> set pii_allowed_actions then Inl (PiiActionUnknown idx)
                         else bind_result (validate_params idx action item) (\<lambda>params.
                           Inr \<lparr>rr_path_str = path, rr_path_parts = parts,
                                rr_action = action, rr_params = params\<rparr>)
                     | other \<Rightarrow>
                         if hashable other then Inl (PiiActionUnknown idx) else Inl (PiiTypeError idx))
           | _ \<Rightarrow> Inl (PiiPathRequired idx))
      | _ \<Rightarrow> Inl (PiiRuleNotObject idx))"

definition compile_pii_redaction :: "pyval \<Rightarrow> pii_error + redaction_rule list" where
  "compile_pii_redaction spec =
     bind_result (extract_rules spec) (\<lambda>items.
       mapM_result (\<lambda>(idx, item). compile_rule idx item) (zip [0 ..< length items] items))"

definition validate_pii_redaction :: "pyval \<Rightarrow> pii_error + unit" where
  "validate_pii_redaction spec = bind_result (compile_pii_redaction spec) (\<lambda>_. Inr ())"

section \<open>Navigation\<close>

text \<open>\<open>NavOk p k\<close> and \<open>NavBlocked p k\<close> carry the path of the parent dictionary and the key inside it. The
  empty path never occurs: \<open>compile_rule\<close> rejects it.\<close>

datatype nav = NavAbsent | NavBlocked "string list" string | NavOk "string list" string

fun nav_below :: "string \<Rightarrow> nav \<Rightarrow> nav" where
  "nav_below k NavAbsent = NavAbsent"
| "nav_below k (NavBlocked p k') = NavBlocked (k # p) k'"
| "nav_below k (NavOk p k') = NavOk (k # p) k'"

fun navigate :: "pydict \<Rightarrow> string list \<Rightarrow> nav" where
  "navigate cursor [] = NavAbsent"
| "navigate cursor [key] = (if dhas cursor key then NavOk [] key else NavAbsent)"
| "navigate cursor (key # key' # rest) =
     (case map_of cursor key of
        None \<Rightarrow> NavAbsent
      | Some (PDict nxt) \<Rightarrow> nav_below key (navigate nxt (key' # rest))
      | Some _ \<Rightarrow> NavBlocked [] key)"

fun upd_at :: "string list \<Rightarrow> (pydict \<Rightarrow> pydict) \<Rightarrow> pydict \<Rightarrow> pydict" where
  "upd_at [] f d = f d"
| "upd_at (k # ks) f d =
     (case map_of d k of Some (PDict e) \<Rightarrow> AList.update k (PDict (upd_at ks f e)) d | _ \<Rightarrow> d)"

fun lookup_at :: "string list \<Rightarrow> string \<Rightarrow> pydict \<Rightarrow> pyval option" where
  "lookup_at [] key d = map_of d key"
| "lookup_at (k # ks) key d =
     (case map_of d k of Some (PDict e) \<Rightarrow> lookup_at ks key e | _ \<Rightarrow> None)"

section \<open>Value transformations\<close>

definition mask_value :: "redaction_rule \<Rightarrow> pyval" where
  "mask_value rule =
     (case dget (rr_params rule) ''fixed_len'' of
        PInt n \<Rightarrow>
          if n \<noteq> 0
          then (case dget_default (rr_params rule) ''mask_char'' (PStr ''*'') of
                  PStr mc \<Rightarrow> PStr (concat (replicate (nat n) mc))
                | _ \<Rightarrow> PStr mask_sentinel)
          else PStr mask_sentinel
      | _ \<Rightarrow> PStr mask_sentinel)"

definition hash_value :: "redaction_rule \<Rightarrow> pyval \<Rightarrow> pyval \<times> bool" where
  "hash_value rule value =
     (if (case value of PStr s \<Rightarrow> startswith s ''sha256:'' | _ \<Rightarrow> False) then (value, False)
      else (PStr (''sha256:'' @
                  sha256_hex (py_str (dget_default (rr_params rule) ''salt'' (PStr [])) @ py_str value)),
            True))"

definition partial_octets :: "string \<Rightarrow> nat \<Rightarrow> pyval \<Rightarrow> pyval" where
  "partial_octets mc octets value =
     (case value of
        PStr s \<Rightarrow>
          (if CHR ''.'' \<in> set s \<or> CHR '':'' \<in> set s then
             (let sep = (if CHR ''.'' \<in> set s then CHR ''.'' else CHR '':'');
                  groups = split_on sep s
              in if octets \<ge> length groups then PStr mask_sentinel
                 else PStr (join [sep] (take octets groups @ map (\<lambda>_. mc) (drop octets groups))))
           else PStr mask_sentinel)
      | _ \<Rightarrow> PStr mask_sentinel)"

definition partial_keep :: "string \<Rightarrow> nat \<Rightarrow> nat \<Rightarrow> pyval \<Rightarrow> pyval" where
  "partial_keep mc kp ks value =
     (case value of
        PStr s \<Rightarrow>
          if kp + ks \<ge> length s then PStr mask_sentinel
          else PStr (take kp s @ concat (replicate (length s - kp - ks) mc) @ drop (length s - ks) s)
      | _ \<Rightarrow> PStr mask_sentinel)"

definition int_param :: "pydict \<Rightarrow> string \<Rightarrow> nat" where
  "int_param ps k = (case dget ps k of PInt n \<Rightarrow> nat n | _ \<Rightarrow> 0)"

definition partial_value :: "redaction_rule \<Rightarrow> pyval \<Rightarrow> pyval \<times> bool" where
  "partial_value rule value =
     (let ps = rr_params rule;
          mc = py_str (dget_default ps ''mask_char'' (PStr ''*''))
      in if dget ps ''octets'' \<noteq> PNone
         then (partial_octets mc (int_param ps ''octets'') value, True)
         else (partial_keep mc (int_param ps ''keep_prefix'') (int_param ps ''keep_suffix'') value, True))"

section \<open>Application\<close>

text \<open>The value transformation of a rule whose path resolved, and whether it changed anything.\<close>

definition rule_value :: "redaction_rule \<Rightarrow> pyval \<Rightarrow> pyval \<times> bool" where
  "rule_value rule value =
     (if rr_action rule = ''mask'' then (mask_value rule, True)
      else if rr_action rule = ''hash'' then hash_value rule value
      else if rr_action rule = ''partial'' then partial_value rule value
      else (value, False))"

definition redact_step :: "pydict \<times> string list \<Rightarrow> redaction_rule \<Rightarrow> pydict \<times> string list" where
  "redact_step st rule =
     (case st of (obj, applied) \<Rightarrow>
      (case navigate obj (rr_path_parts rule) of
         NavAbsent \<Rightarrow> (obj, applied)
       | NavBlocked p k \<Rightarrow>
           if rr_action rule = ''drop_field''
           then (upd_at p (AList.delete k) obj,
                 applied @ [rr_path_str rule @ '':drop_field(blocked)''])
           else (upd_at p (AList.update k (PStr mask_sentinel)) obj,
                 applied @ [rr_path_str rule @ '':mask(blocked-list)''])
       | NavOk p k \<Rightarrow>
           if rr_action rule = ''drop_field''
           then (upd_at p (AList.delete k) obj, applied @ [rr_path_str rule @ '':drop_field''])
           else (case lookup_at p k obj of
                   None \<Rightarrow> (obj, applied)
                 | Some value \<Rightarrow>
                     (case rule_value rule value of (new_value, changed) \<Rightarrow>
                        if changed
                        then (upd_at p (AList.update k new_value) obj,
                              applied @ [rr_path_str rule @ '':'' @ rr_action rule])
                        else (obj, applied)))))"

definition redaction_plan :: "pydict \<Rightarrow> redaction_rule list \<Rightarrow> redaction_rule list" where
  "redaction_plan envelope rules =
     filter (\<lambda>r. navigate envelope (rr_path_parts r) \<noteq> NavAbsent) rules"

definition apply_pii_redaction :: "pydict \<Rightarrow> redaction_rule list \<Rightarrow> pydict option" where
  "apply_pii_redaction envelope rules =
     (let plan = redaction_plan envelope rules in
      if plan = [] then None
      else case foldl redact_step (envelope, []) plan of
             (obj, applied) \<Rightarrow>
               if applied = [] then None
               else Some (AList.update ''_centralops_redacted'' (PList (map PStr applied)) obj))"

section \<open>Compiled rules are well formed\<close>

text \<open>What every consumer of a compiled rule relies on.\<close>

definition wf_rule :: "redaction_rule \<Rightarrow> bool" where
  "wf_rule r \<longleftrightarrow>
     length (rr_path_parts r) \<ge> 2 \<and> hd (rr_path_parts r) \<in> {''raw'', ''normalized''} \<and>
     [] \<notin> set (rr_path_parts r) \<and>
     rr_action r \<in> {''mask'', ''hash'', ''partial'', ''drop_field''}"

lemma compile_rule_wf: "compile_rule idx v = Inr r \<Longrightarrow> wf_rule r"
  by (auto simp: compile_rule_def wf_rule_def Let_def bind_result_Inr pii_allowed_roots_def
      pii_allowed_actions_def split: pyval.splits if_splits)

section \<open>The step as a recursive rewriting\<close>

text \<open>
  \<open>dput k None\<close> deletes and \<open>dput k (Some v)\<close> stores. \<open>redact_at\<close> follows the rule's path downwards and
  rewrites the entry it ends in; it is the form the induction proofs use, and
  \<open>redact_step_redact_at\<close> says that the in-place update of the code computes it.
\<close>

definition dput :: "string \<Rightarrow> pyval option \<Rightarrow> pydict \<Rightarrow> pydict" where
  "dput k o1 d = (case o1 of None \<Rightarrow> AList.delete k d | Some v \<Rightarrow> AList.update k v d)"

fun redact_entry :: "redaction_rule \<Rightarrow> string list \<Rightarrow> pyval \<Rightarrow> pyval option"
  and redact_at :: "redaction_rule \<Rightarrow> string list \<Rightarrow> pydict \<Rightarrow> pydict"
where
  "redact_entry r [] v =
     (if rr_action r = ''drop_field'' then None
      else Some (if snd (rule_value r v) then fst (rule_value r v) else v))"
| "redact_entry r (k # ks) v =
     (case v of
        PDict e \<Rightarrow> Some (PDict (redact_at r (k # ks) e))
      | _ \<Rightarrow> if rr_action r = ''drop_field'' then None else Some (PStr mask_sentinel))"
| "redact_at r [] d = d"
| "redact_at r (k # ks) d =
     (case map_of d k of None \<Rightarrow> d | Some v \<Rightarrow> dput k (redact_entry r ks v) d)"

lemma dput_simps [simp]: "dput k None = AList.delete k" "dput k (Some v) = AList.update k v"
  by (simp_all add: dput_def fun_eq_iff)

lemma dput_commute:
  assumes "j \<noteq> k" and "dhas d j"
  shows "dput j o1 (AList.update k v d) = AList.update k v (dput j o1 d)"
proof (cases o1)
  case None
  with assms(1) show ?thesis by (simp add: delete_update_other)
next
  case (Some w)
  with update_commute_present [OF assms] show ?thesis by simp
qed

lemma dput_update_same [simp]: "dput k o1 (AList.update k v d) = dput k o1 d"
  by (cases o1) auto

lemma map_of_dput_other [simp]: "j \<noteq> k \<Longrightarrow> map_of (dput j o1 d) k = map_of d k"
  by (cases o1) auto

lemma nav_below_simps [simp]:
  "nav_below k n = NavAbsent \<longleftrightarrow> n = NavAbsent"
  "nav_below k n = NavBlocked p j \<longleftrightarrow> (\<exists>p'. p = k # p' \<and> n = NavBlocked p' j)"
  "nav_below k n = NavOk p j \<longleftrightarrow> (\<exists>p'. p = k # p' \<and> n = NavOk p' j)"
  by (cases n; auto)+

text \<open>The update a navigation result stands for.\<close>

definition step_at :: "redaction_rule \<Rightarrow> nav \<Rightarrow> pydict \<Rightarrow> pydict" where
  "step_at r n d =
     (case n of
        NavAbsent \<Rightarrow> d
      | NavBlocked p k \<Rightarrow>
          upd_at p (dput k (if rr_action r = ''drop_field'' then None else Some (PStr mask_sentinel))) d
      | NavOk p k \<Rightarrow>
          (case lookup_at p k d of
             None \<Rightarrow> d
           | Some v \<Rightarrow> upd_at p (dput k (redact_entry r [] v)) d))"

lemma step_at_simps [simp]:
  "step_at r NavAbsent d = d"
  "step_at r (NavBlocked p k) d =
     upd_at p (dput k (if rr_action r = ''drop_field'' then None else Some (PStr mask_sentinel))) d"
  by (simp_all add: step_at_def)

lemma upd_at_id: "lookup_at p k d = Some v \<Longrightarrow> upd_at p (AList.update k v) d = d"
  by (induction p k d rule: lookup_at.induct)
     (auto simp: update_id split: option.splits pyval.splits)

lemma navigate_lookup: "navigate d w = NavOk p k \<Longrightarrow> \<exists>v. lookup_at p k d = Some v"
  by (induction d w arbitrary: p rule: navigate.induct)
     (auto simp: dhas_def split: option.splits pyval.splits if_splits)

lemma step_at_nav_below:
  "map_of d k = Some (PDict e) \<Longrightarrow>
   step_at r (nav_below k n) d = AList.update k (PDict (step_at r n e)) d"
  by (cases n) (auto simp: step_at_def update_id split: option.splits)

lemma step_at_redact_at: "step_at r (navigate d w) d = redact_at r w d"
proof (induction d w rule: navigate.induct)
  case (1 d)
  then show ?case by (simp add: step_at_def)
next
  case (2 d k)
  then show ?case by (auto simp: step_at_def dhas_def split: option.splits)
next
  case (3 d k k' ks)
  show ?case
  proof (cases "map_of d k")
    case (Some v)
    with 3 show ?thesis
      by (cases v) (simp_all add: step_at_nav_below)
  qed simp
qed

lemma redact_step_step_at:
  "fst (redact_step (d, a) r) = step_at r (navigate d (rr_path_parts r)) d"
proof -
  have id: "upd_at p (AList.update k v) d = d" if "lookup_at p k d = Some v" for p k v
    by (rule upd_at_id) (rule that)
  have "step_at r (NavOk p k) d = fst (redact_step (d, a) r)"
    if nav: "navigate d (rr_path_parts r) = NavOk p k" for p k
  proof -
    obtain v where v: "lookup_at p k d = Some v" using navigate_lookup [OF nav] by blast
    then show ?thesis using nav id [OF v]
      by (auto simp: step_at_def redact_step_def split: prod.splits)
  qed
  then show ?thesis
    by (cases "navigate d (rr_path_parts r)") (auto simp: redact_step_def)
qed

lemma redact_step_redact_at: "fst (redact_step (d, a) r) = redact_at r (rr_path_parts r) d"
  by (simp add: redact_step_step_at step_at_redact_at)

lemma redact_fold:
  "fst (foldl redact_step (d, a) rules) = foldl (\<lambda>d r. redact_at r (rr_path_parts r) d) d rules"
proof (induction rules arbitrary: d a)
  case (Cons r rules)
  obtain d' a' where "redact_step (d, a) r = (d', a')" by (cases "redact_step (d, a) r")
  moreover from this have "d' = redact_at r (rr_path_parts r) d"
    using redact_step_redact_at [of d a r] by simp
  ultimately show ?case using Cons.IH by simp
qed simp

section \<open>Frame: only the root of the path is touched\<close>

lemma redact_at_frame: "k \<noteq> hd w \<Longrightarrow> map_of (redact_at r w d) k = map_of d k"
  by (cases w) (auto split: option.splits)

lemma redact_fold_frame:
  "\<forall>r\<in>set rules. k \<noteq> hd (rr_path_parts r) \<Longrightarrow>
   map_of (foldl (\<lambda>d r. redact_at r (rr_path_parts r) d) d rules) k = map_of d k"
  by (induction rules arbitrary: d) (auto simp: redact_at_frame)

lemma apply_pii_redaction_Some:
  assumes "apply_pii_redaction env rules = Some out"
  shows "\<exists>applied. out = AList.update ''_centralops_redacted'' applied
           (foldl (\<lambda>d r. redact_at r (rr_path_parts r) d) env (redaction_plan env rules))"
  using assms redact_fold [of env "[]" "redaction_plan env rules"]
  by (auto simp: apply_pii_redaction_def Let_def split: if_splits prod.splits)

section \<open>Two envelopes that differ in one value\<close>

text \<open>\<open>diff_at q d1 d2\<close>: the two dictionaries are the same (key order included) except for the entry at
  path \<open>q\<close>, present in both and a dictionary in neither.\<close>

fun diff_entry :: "string list \<Rightarrow> pyval \<Rightarrow> pyval \<Rightarrow> bool"
  and diff_at :: "string list \<Rightarrow> pydict \<Rightarrow> pydict \<Rightarrow> bool"
where
  "diff_entry [] v1 v2 = (\<not> is_PDict v1 \<and> \<not> is_PDict v2)"
| "diff_entry (k # ks) v1 v2 =
     (case (v1, v2) of (PDict e1, PDict e2) \<Rightarrow> diff_at (k # ks) e1 e2 | _ \<Rightarrow> False)"
| "diff_at [] d1 d2 = False"
| "diff_at (k # ks) d1 d2 =
     (\<exists>v1 v2. map_of d1 k = Some v1 \<and> d2 = AList.update k v2 d1 \<and> diff_entry ks v1 v2)"

lemma diff_at_nonempty: "diff_at q d1 d2 \<Longrightarrow> q \<noteq> []"
  by auto

lemma diff_entry_cases:
  assumes "diff_entry ks v1 v2"
  obtains (leaf) "ks = []" "\<not> is_PDict v1" "\<not> is_PDict v2"
  | (inner) e1 e2 where "ks \<noteq> []" "v1 = PDict e1" "v2 = PDict e2" "diff_at ks e1 e2"
  using assms by (cases ks) (auto split: pyval.splits)

text \<open>Navigation cannot tell the two apart.\<close>

lemma navigate_diff:
  "diff_entry q v1 v2 \<Longrightarrow> v1 = PDict e1 \<Longrightarrow> v2 = PDict e2 \<Longrightarrow> navigate e1 w = navigate e2 w"
  "diff_at q d1 d2 \<Longrightarrow> navigate d1 w = navigate d2 w"
proof (induction q v1 v2 and q d1 d2 arbitrary: e1 e2 w and w rule: diff_entry_diff_at.induct)
  case (4 k ks d1 d2)
  then obtain v1 v2 where v: "map_of d1 k = Some v1" "d2 = AList.update k v2 d1" "diff_entry ks v1 v2"
    by auto
  show ?case
  proof (cases w)
    case (Cons j js)
    show ?thesis
    proof (cases js)
      case Nil
      with Cons v show ?thesis by (cases "j = k") (auto simp: dhas_def)
    next
      case (Cons j' js')
      with \<open>w = j # js\<close> v 4 show ?thesis
        by (cases "j = k"; cases v1; cases v2) (auto elim!: diff_entry_cases)
    qed
  qed simp
qed auto

text \<open>A rule keeps two such envelopes equal up to a prefix of the path, and makes them equal when it
  masks or drops the path.\<close>

definition kills :: "redaction_rule \<Rightarrow> bool" where
  "kills r \<longleftrightarrow> rr_action r = ''mask'' \<or> rr_action r = ''drop_field''"

lemma mask_value_str: "\<exists>s. mask_value r = PStr s"
  by (auto simp: mask_value_def split: pyval.split)

lemma partial_octets_str: "\<exists>s. partial_octets mc n v = PStr s"
  by (auto simp: partial_octets_def Let_def split: pyval.split)

lemma partial_keep_str: "\<exists>s. partial_keep mc kp ks v = PStr s"
  by (auto simp: partial_keep_def split: pyval.split)

text \<open>A value that a rule changes becomes a string.\<close>

lemma rule_value_str: "snd (rule_value r v) \<Longrightarrow> \<exists>s. fst (rule_value r v) = PStr s"
  using mask_value_str [of r] partial_octets_str partial_keep_str
  by (auto simp: rule_value_def hash_value_def partial_value_def Let_def split: if_splits)

lemma rule_value_not_dict:
  assumes "\<not> is_PDict v"
  shows "\<not> is_PDict (if snd (rule_value r v) then fst (rule_value r v) else v)"
  using assms rule_value_str [of r v] by auto

lemma rule_value_dict:
  "snd (rule_value r (PDict e)) \<Longrightarrow> \<not> is_PDict (fst (rule_value r (PDict e)))"
  using rule_value_str [of r "PDict e"] by auto

lemma rule_value_dict_changed:
  "snd (rule_value r (PDict e1)) = snd (rule_value r (PDict e2))"
  by (auto simp: rule_value_def hash_value_def partial_value_def Let_def)

definition redact_close :: "string list \<Rightarrow> pyval option \<Rightarrow> pyval option \<Rightarrow> bool" where
  "redact_close ks o1 o2 \<longleftrightarrow>
     o1 = o2 \<or> (\<exists>q v1 v2. prefix q ks \<and> o1 = Some v1 \<and> o2 = Some v2 \<and> diff_entry q v1 v2)"

lemma redact_closeI:
  "prefix q ks \<Longrightarrow> o1 = Some v1 \<Longrightarrow> o2 = Some v2 \<Longrightarrow> diff_entry q v1 v2 \<Longrightarrow> redact_close ks o1 o2"
  by (auto simp: redact_close_def)

definition redact_close_dict :: "string list \<Rightarrow> pydict \<Rightarrow> pydict \<Rightarrow> bool" where
  "redact_close_dict ks d1 d2 \<longleftrightarrow> d1 = d2 \<or> (\<exists>q. prefix q ks \<and> diff_at q d1 d2)"

lemma redact_close_dictI: "prefix q p \<Longrightarrow> diff_at q d1 d2 \<Longrightarrow> redact_close_dict p d1 d2"
  by (auto simp: redact_close_dict_def)

lemma redact_diff:
  "diff_entry ks v1 v2 \<Longrightarrow>
     redact_close ks (redact_entry r w v1) (redact_entry r w v2) \<and>
     (prefix ks w \<and> kills r \<longrightarrow> redact_entry r w v1 = redact_entry r w v2)"
  "diff_at q d1 d2 \<Longrightarrow>
     redact_close_dict q (redact_at r w d1) (redact_at r w d2) \<and>
     (prefix q w \<and> kills r \<longrightarrow> redact_at r w d1 = redact_at r w d2)"
proof (induction ks v1 v2 and q d1 d2 arbitrary: w and w rule: diff_entry_diff_at.induct)
  case (1 v1 v2)
  show ?case
  proof (cases w)
    case Nil
    have "diff_entry [] (if snd (rule_value r v1) then fst (rule_value r v1) else v1)
                        (if snd (rule_value r v2) then fst (rule_value r v2) else v2)"
      using 1 rule_value_not_dict by simp
    then show ?thesis using Nil
      by (auto simp: redact_close_def kills_def rule_value_def)
  next
    case (Cons k ks)
    with 1 show ?thesis by (cases v1; cases v2) (auto simp: redact_close_def)
  qed
next
  case (2 k ks v1 v2)
  then obtain e1 e2 where v: "v1 = PDict e1" "v2 = PDict e2" "diff_at (k # ks) e1 e2"
    by (auto split: pyval.splits)
  show ?case
  proof (cases w)
    case Nil
    have "redact_close (k # ks) (redact_entry r [] v1) (redact_entry r [] v2)"
    proof (cases "rr_action r = ''drop_field''")
      case False
      show ?thesis
      proof (cases "snd (rule_value r v1)")
        case True
        then have changed: "snd (rule_value r v2)"
          using v rule_value_dict_changed [of r e1 e2] by simp
        have "diff_entry [] (fst (rule_value r v1)) (fst (rule_value r v2))"
          using rule_value_str [OF True] rule_value_str [OF changed] by auto
        with True changed False show ?thesis
          by (intro redact_closeI [of "[]"]) simp_all
      next
        case unchanged: False
        then have "\<not> snd (rule_value r v2)" using v rule_value_dict_changed [of r e1 e2] by simp
        with unchanged False have "redact_entry r [] v1 = Some v1" "redact_entry r [] v2 = Some v2"
          by simp_all
        then show ?thesis using "2.prems" by (rule redact_closeI [of "k # ks", OF prefix_order.refl])
      qed
    qed (simp add: redact_close_def)
    with Nil show ?thesis by simp
  next
    case (Cons j js)
    have IH: "redact_close_dict (k # ks) (redact_at r w e1) (redact_at r w e2) \<and>
      (prefix (k # ks) w \<and> kills r \<longrightarrow> redact_at r w e1 = redact_at r w e2)"
      by (rule "2.IH" [OF refl v(1) v(2) v(3)])
    show ?thesis
    proof (intro conjI impI)
      from IH consider "redact_at r w e1 = redact_at r w e2"
        | q where "prefix q (k # ks)" "diff_at q (redact_at r w e1) (redact_at r w e2)"
        by (auto simp: redact_close_dict_def)
      then show "redact_close (k # ks) (redact_entry r w v1) (redact_entry r w v2)"
      proof cases
        case 1
        with v Cons show ?thesis by (simp add: redact_close_def)
      next
        case (2 q)
        then have "diff_entry q (PDict (redact_at r w e1)) (PDict (redact_at r w e2))"
          by (cases q) auto
        with 2 v Cons show ?thesis
          by (intro redact_closeI [of q]) simp_all
      qed
    next
      assume "prefix (k # ks) w \<and> kills r"
      with IH v Cons show "redact_entry r w v1 = redact_entry r w v2" by simp
    qed
  qed
next
  case (4 k ks d1 d2)
  then obtain v1 v2 where v: "map_of d1 k = Some v1" "d2 = AList.update k v2 d1" "diff_entry ks v1 v2"
    by auto
  show ?case
  proof (cases w)
    case Nil
    with "4.prems" show ?thesis using redact_close_dictI [of "k # ks"] by simp
  next
    case (Cons j js)
    show ?thesis
    proof (cases "j = k")
      case False
      have "redact_at r w d2 = AList.update k v2 (redact_at r w d1) \<and> map_of (redact_at r w d1) k = Some v1"
        using False Cons v dput_commute [of j k d1]
        by (auto simp: dhas_def split: option.splits)
      then have "diff_at (k # ks) (redact_at r w d1) (redact_at r w d2)"
        using v(3) by auto
      then show ?thesis using False Cons redact_close_dictI [of "k # ks"] by simp
    next
      case True
      have out: "redact_at r w d1 = dput k (redact_entry r js v1) d1"
        "redact_at r w d2 = dput k (redact_entry r js v2) d1"
        using True Cons v by auto
      have IH: "redact_close ks (redact_entry r js v1) (redact_entry r js v2) \<and>
        (prefix ks js \<and> kills r \<longrightarrow> redact_entry r js v1 = redact_entry r js v2)"
        using "4.IH" v by blast
      then consider "redact_entry r js v1 = redact_entry r js v2"
        | q u1 u2 where "prefix q ks" "redact_entry r js v1 = Some u1" "redact_entry r js v2 = Some u2"
            "diff_entry q u1 u2"
        by (auto simp: redact_close_def)
      then have "redact_close_dict (k # ks) (redact_at r w d1) (redact_at r w d2)"
      proof cases
        case (2 q u1 u2)
        then have "diff_at (k # q) (redact_at r w d1) (redact_at r w d2)"
          unfolding out by (auto intro!: exI [of _ u1] exI [of _ u2])
        then show ?thesis using 2(1) by (intro redact_close_dictI [of "k # q"]) simp_all
      qed (simp add: out redact_close_dict_def)
      moreover have "prefix (k # ks) w \<and> kills r \<longrightarrow> redact_at r w d1 = redact_at r w d2"
        using IH True Cons out by auto
      ultimately show ?thesis by blast
    qed
  qed
qed auto

text \<open>Running a whole plan: the two envelopes stay close, and one killing rule on the path makes them
  equal for good.\<close>

lemma redact_fold_diff:
  assumes "redact_close_dict p d1 d2" and "r \<in> set rules" and "rr_path_parts r = p" and "kills r"
  shows "foldl (\<lambda>d r. redact_at r (rr_path_parts r) d) d1 rules =
         foldl (\<lambda>d r. redact_at r (rr_path_parts r) d) d2 rules"
  using assms
proof (induction rules arbitrary: d1 d2)
  case (Cons r' rules)
  let ?d1 = "redact_at r' (rr_path_parts r') d1" and ?d2 = "redact_at r' (rr_path_parts r') d2"
  from Cons.prems(1) consider "d1 = d2" | q where "prefix q p" "diff_at q d1 d2"
    by (auto simp: redact_close_dict_def)
  then show ?case
  proof cases
    case (2 q)
    have step: "redact_close_dict q ?d1 ?d2 \<and>
      (prefix q (rr_path_parts r') \<and> kills r' \<longrightarrow> ?d1 = ?d2)"
      by (rule redact_diff(2) [OF 2(2)])
    show ?thesis
    proof (cases "r' = r")
      case True
      with step 2(1) Cons.prems show ?thesis by simp
    next
      case False
      from step 2(1) have "redact_close_dict p ?d1 ?d2"
        by (auto simp: redact_close_dict_def intro: prefix_order.trans)
      with False Cons show ?thesis by simp
    qed
  qed simp
qed simp

lemma redaction_plan_diff: "diff_at q d1 d2 \<Longrightarrow> redaction_plan d1 rules = redaction_plan d2 rules"
  unfolding redaction_plan_def by (rule filter_cong) (auto simp: navigate_diff(2))

lemma navigate_diff_present: "diff_at q d1 d2 \<Longrightarrow> navigate d1 q \<noteq> NavAbsent"
proof (induction d1 q arbitrary: d2 rule: navigate.induct)
  case (3 d k k' ks)
  from "3.prems" obtain v1 v2 where v: "map_of d k = Some v1" "diff_entry (k' # ks) v1 v2"
    by (metis diff_at.simps(2))
  from v(2) obtain e1 e2 where "v1 = PDict e1" "diff_at (k' # ks) e1 e2"
    by (rule diff_entry_cases) simp_all
  then show ?case using v(1) "3.IH" by simp
qed (auto simp: dhas_def)

text \<open>A killing rule in the plan always leaves a mark, so the redaction is not skipped: after every step
  either the list of marks is non-empty or the killing rule is still to come and still present.\<close>

lemma redact_step_marks:
  "redact_step (d, a) r = (d', a') \<Longrightarrow> a \<noteq> [] \<Longrightarrow> a' \<noteq> []"
  by (auto simp: redact_step_def split: nav.splits option.splits prod.splits if_splits)

lemma redact_fold_marks: "a \<noteq> [] \<Longrightarrow> snd (foldl redact_step (d, a) rules) \<noteq> []"
proof (induction rules arbitrary: d a)
  case (Cons r rules)
  obtain d' a' where s: "redact_step (d, a) r = (d', a')" by (cases "redact_step (d, a) r")
  with redact_step_marks [OF s Cons.prems] Cons.IH show ?case by simp
qed simp

lemma redact_step_unmarked: "redact_step (d, a) r = (d', a) \<Longrightarrow> d' = d"
  by (auto simp: redact_step_def split: nav.splits option.splits prod.splits if_splits)

lemma redact_step_mark_shape: "redact_step (d, a) r = (d', a') \<Longrightarrow> a' = a \<or> (\<exists>m. a' = a @ [m])"
  by (auto simp: redact_step_def split: nav.splits option.splits prod.splits if_splits)

lemma redact_step_kills_marks:
  assumes "kills r" and "navigate d (rr_path_parts r) \<noteq> NavAbsent"
  shows "snd (redact_step (d, a) r) \<noteq> a"
proof (cases "navigate d (rr_path_parts r)")
  case (NavOk p k)
  with navigate_lookup [OF NavOk] assms(1) show ?thesis
    by (auto simp: redact_step_def kills_def rule_value_def)
qed (use assms in \<open>auto simp: redact_step_def\<close>)

lemma redact_fold_kill_marked:
  assumes "r \<in> set rules" and "kills r" and "navigate d (rr_path_parts r) \<noteq> NavAbsent"
  shows "snd (foldl redact_step (d, []) rules) \<noteq> []"
  using assms(1)
proof (induction rules)
  case (Cons r' rules)
  obtain d' a' where s: "redact_step (d, []) r' = (d', a')" by (cases "redact_step (d, []) r'")
  show ?case
  proof (cases "a' = []")
    case True
    with s have "d' = d" using redact_step_unmarked [of d "[]" r' d'] by simp
    moreover have "r' \<noteq> r"
      using True s redact_step_kills_marks [OF assms(2,3), of "[]"] by auto
    ultimately show ?thesis using True s Cons by simp
  next
    case False
    with s redact_fold_marks [OF False] show ?thesis by simp
  qed
qed simp

section \<open>Parameters of compiled rules\<close>

lemma concat_replicate_single: "concat (replicate n [c]) = replicate n c"
  by (induction n) auto

lemma mask_char_single: "mask_char idx item = Inr mc \<Longrightarrow> \<exists>c. mc = PStr [c]"
  by (cases "dget_default item ''mask_char'' (PStr ''*'')")
     (auto simp: mask_char_def length_Suc_conv split: if_splits, metis)

lemma validate_partial_mask_char:
  "validate_partial_params idx item = Inr ps \<Longrightarrow> \<exists>c. dget_default ps ''mask_char'' v0 = PStr [c]"
  by (auto simp: validate_partial_params_def Let_def bind_result_Inr dget_default_def
      split: if_splits dest!: mask_char_single)

lemma compile_rule_mask_char:
  assumes "compile_rule idx v = Inr r" and "rr_action r = ''partial''"
  shows "\<exists>c. dget_default (rr_params r) ''mask_char'' v0 = PStr [c]"
  using assms
  by (auto simp: compile_rule_def Let_def bind_result_Inr validate_params_def
      split: pyval.splits if_splits dest!: validate_partial_mask_char)

lemma compile_pii_redaction_rule:
  assumes "compile_pii_redaction spec = Inr rules" and "r \<in> set rules"
  shows "\<exists>idx v. compile_rule idx v = Inr r"
proof -
  from assms obtain items where
    "list_all2 (\<lambda>x y. (\<lambda>(idx, item). compile_rule idx item) x = Inr y)
       (zip [0 ..< length items] items) rules"
    by (auto simp: compile_pii_redaction_def bind_result_Inr mapM_result_Inr)
  with assms(2) obtain x where "(\<lambda>(idx, item). compile_rule idx item) x = Inr r"
    by (auto simp: list_all2_conv_all_nth in_set_conv_nth)
  then show ?thesis by (cases x) auto
qed

lemma compile_pii_redaction_wf:
  "compile_pii_redaction spec = Inr rules \<Longrightarrow> r \<in> set rules \<Longrightarrow> wf_rule r"
  using compile_pii_redaction_rule compile_rule_wf by blast

lemma compile_pii_redaction_mask_char:
  assumes "compile_pii_redaction spec = Inr rules" and "r \<in> set rules" and "rr_action r = ''partial''"
  shows "\<exists>c. dget_default (rr_params r) ''mask_char'' v0 = PStr [c]"
  using compile_pii_redaction_rule [OF assms(1,2)] compile_rule_mask_char [OF _ assms(3)] by blast

text \<open>Two envelopes that differ only at a masked or dropped path have the same redaction.\<close>

lemma apply_pii_redaction_same:
  assumes differ: "diff_at (rr_path_parts r) env1 env2"
    and rule: "r \<in> set rules"
    and action: "rr_action r = ''mask'' \<or> rr_action r = ''drop_field''"
  shows "\<exists>out1 out2. apply_pii_redaction env1 rules = Some out1 \<and>
           apply_pii_redaction env2 rules = Some out2 \<and>
           AList.delete ''_centralops_redacted'' out1 = AList.delete ''_centralops_redacted'' out2"
proof -
  let ?p = "rr_path_parts r" and ?plan = "redaction_plan env1 rules"
  have k: "kills r" using action by (simp add: kills_def)
  have plan: "redaction_plan env2 rules = ?plan" using redaction_plan_diff [OF differ] by simp
  have nav: "navigate env1 ?p \<noteq> NavAbsent" "navigate env2 ?p \<noteq> NavAbsent"
    using navigate_diff_present [OF differ] navigate_diff(2) [OF differ] by simp_all
  have rp: "r \<in> set ?plan" using rule nav by (simp add: redaction_plan_def)
  obtain d1 a1 where f1: "foldl redact_step (env1, []) ?plan = (d1, a1)" by fastforce
  obtain d2 a2 where f2: "foldl redact_step (env2, []) ?plan = (d2, a2)" by fastforce
  have "a1 \<noteq> []" "a2 \<noteq> []"
    using redact_fold_kill_marked [OF rp k nav(1)] redact_fold_kill_marked [OF rp k nav(2)] f1 f2
    by simp_all
  moreover have "d1 = d2"
    using redact_fold_diff [OF redact_close_dictI [OF prefix_order.refl differ] rp refl k]
      redact_fold [of env1 "[]" ?plan] redact_fold [of env2 "[]" ?plan] f1 f2 by simp
  ultimately show ?thesis
    using f1 f2 rp plan by (auto simp: apply_pii_redaction_def Let_def)
qed

section \<open>Properties\<close>

text \<open>with rules that \<open>compile_pii_redaction\<close> accepted, redaction changes nothing outside the \<open>raw\<close> and
  \<open>normalized\<close> blocks except for its own provenance marker: \<open>_centralops\<close>, which carries the
  identifiers used for idempotency, audit and erasure, is delivered untouched.\<close>

theorem pii_redaction_frame:
  assumes compiled: "compile_pii_redaction spec = Inr rules"
    and applied: "apply_pii_redaction env rules = Some out"
    and other: "k \<notin> {''raw'', ''normalized'', ''_centralops_redacted''}"
  shows "map_of out k = map_of env k"
proof -
  have "\<forall>r\<in>set (redaction_plan env rules). k \<noteq> hd (rr_path_parts r)"
    using compile_pii_redaction_wf [OF compiled] other
    by (auto simp: wf_rule_def redaction_plan_def)
  with apply_pii_redaction_Some [OF applied] other show ?thesis
    by (auto simp: redact_fold_frame)
qed

text \<open>C7: masking and dropping are non-interfering. If the rules contain a \<open>mask\<close> or \<open>drop_field\<close> rule for a
  path and two envelopes differ only in the value at that path, which is not an object in either (a scalar or
  a list), then the redaction of both succeeds and the two results are the same envelope, whatever the other
  rules are and in whatever order they run; only the marker \<open>_centralops_redacted\<close>, which lists the rules that
  fired, may differ. (Objects are excluded: a rule for a path below the masked one may leave a trace of them.)\<close>

theorem pii_mask_noninterference:
  assumes differ: "diff_at (rr_path_parts r) env1 env2"
    and rule: "r \<in> set rules"
    and action: "rr_action r = ''mask'' \<or> rr_action r = ''drop_field''"
  shows "\<exists>out1 out2. apply_pii_redaction env1 rules = Some out1 \<and>
           apply_pii_redaction env2 rules = Some out2 \<and>
           AList.delete ''_centralops_redacted'' out1 = AList.delete ''_centralops_redacted'' out2"
  using apply_pii_redaction_same [OF assms] .

text \<open>a compiled \<open>partial\<close> rule that keeps a prefix and a suffix shows exactly those characters: the
  result has the length of the input, the kept positions are copied and every other position holds
  the rule's single mask character; a string the rule would reveal entirely becomes the sentinel.\<close>

theorem pii_partial_masks_rest:
  assumes compiled: "compile_pii_redaction spec = Inr rules" and r: "r \<in> set rules"
    and action: "rr_action r = ''partial''" and keep: "dget (rr_params r) ''octets'' = PNone"
  defines "kp \<equiv> int_param (rr_params r) ''keep_prefix''"
    and "ks \<equiv> int_param (rr_params r) ''keep_suffix''"
  shows "if kp + ks < length s
         then \<exists>out c. partial_value r (PStr s) = (PStr out, True) \<and> length out = length s \<and>
                (\<forall>i. out ! i = (if i < kp \<or> i \<ge> length s - ks then s ! i else c) \<or> i \<ge> length s)
         else partial_value r (PStr s) = (PStr mask_sentinel, True)"
proof -
  obtain c where c: "dget_default (rr_params r) ''mask_char'' (PStr ''*'') = PStr [c]"
    using compile_pii_redaction_mask_char [OF compiled r action] by blast
  show ?thesis
  proof (cases "kp + ks < length s")
    case True
    let ?out = "take kp s @ replicate (length s - kp - ks) c @ drop (length s - ks) s"
    have "partial_value r (PStr s) = (PStr ?out, True)"
      using True c keep by (simp add: partial_value_def partial_keep_def kp_def ks_def concat_replicate_single Let_def)
    moreover have "length ?out = length s" using True by simp
    moreover have "?out ! i = (if i < kp \<or> i \<ge> length s - ks then s ! i else c)" if "i < length s" for i
      using True that by (auto simp: nth_append)
    ultimately show ?thesis using True by (auto simp: not_le)
  next
    case False
    with c keep show ?thesis by (simp add: partial_value_def partial_keep_def kp_def ks_def Let_def)
  qed
qed

subsection \<open>Witnesses\<close>

definition ex_mask_spec :: pyval where
  "ex_mask_spec = PList [PDict [(''path'', PStr ''raw.user.email''), (''action'', PStr ''mask'')]]"

definition ex_mask_rule :: redaction_rule where
  "ex_mask_rule = \<lparr>rr_path_str = ''raw.user.email'', rr_path_parts = [''raw'', ''user'', ''email''],
     rr_action = ''mask'', rr_params = [(''mask_char'', PStr ''*'')]\<rparr>"

definition ex_envelope :: "string \<Rightarrow> pydict" where
  "ex_envelope mail =
     [(''_centralops'', PDict [(''event_id'', PStr ''e1'')]),
      (''raw'', PDict [(''user'', PDict [(''email'', PStr mail), (''n'', PInt 1)])])]"

lemma ex_mask_compiled: "compile_pii_redaction ex_mask_spec = Inr [ex_mask_rule]"
  by (simp add: compile_pii_redaction_def extract_rules_def ex_mask_spec_def ex_mask_rule_def
      compile_rule_def dget_def dget_default_def pii_allowed_roots_def pii_allowed_actions_def
      validate_params_def validate_mask_params_def mask_char_def strip_def py_space_def)

lemma ex_mask_applied:
  "apply_pii_redaction (ex_envelope ''a@b'') [ex_mask_rule] =
     Some [(''_centralops'', PDict [(''event_id'', PStr ''e1'')]),
           (''raw'', PDict [(''user'', PDict [(''email'', PStr ''[REDACTED]''), (''n'', PInt 1)])]),
           (''_centralops_redacted'', PList [PStr ''raw.user.email:mask''])]"
  by (simp add: apply_pii_redaction_def redaction_plan_def redact_step_def ex_envelope_def
      ex_mask_rule_def rule_value_def mask_value_def mask_sentinel_def dget_def dhas_def)

theorem pii_redaction_frame_witness:
  "\<exists>out. apply_pii_redaction (ex_envelope ''a@b'') [ex_mask_rule] = Some out \<and>
     map_of out ''_centralops'' = map_of (ex_envelope ''a@b'') ''_centralops''"
  using pii_redaction_frame [OF ex_mask_compiled ex_mask_applied, of "''_centralops''"]
    ex_mask_applied by simp

theorem pii_mask_noninterference_witness:
  "\<exists>out1 out2. apply_pii_redaction (ex_envelope ''a@b'') [ex_mask_rule] = Some out1 \<and>
     apply_pii_redaction (ex_envelope ''zz'') [ex_mask_rule] = Some out2 \<and>
     AList.delete ''_centralops_redacted'' out1 = AList.delete ''_centralops_redacted'' out2"
proof (rule pii_mask_noninterference [of ex_mask_rule])
  show "diff_at (rr_path_parts ex_mask_rule) (ex_envelope ''a@b'') (ex_envelope ''zz'')"
    by (simp add: ex_mask_rule_def ex_envelope_def)
qed (simp_all add: ex_mask_rule_def)

definition ex_partial_spec :: pyval where
  "ex_partial_spec =
     PDict [(''version'', PInt 1),
            (''rules'', PList [PDict [(''path'', PStr ''raw.card''), (''action'', PStr ''partial''),
                                    (''keep_suffix'', PInt 2)]])]"

definition ex_partial_rule :: redaction_rule where
  "ex_partial_rule = \<lparr>rr_path_str = ''raw.card'', rr_path_parts = [''raw'', ''card''],
     rr_action = ''partial'',
     rr_params = [(''keep_prefix'', PInt 0), (''keep_suffix'', PInt 2), (''mask_char'', PStr ''*'')]\<rparr>"

lemma ex_partial_compiled: "compile_pii_redaction ex_partial_spec = Inr [ex_partial_rule]"
  by (simp add: compile_pii_redaction_def extract_rules_def ex_partial_spec_def ex_partial_rule_def
      compile_rule_def dget_def dget_default_def pii_allowed_roots_def pii_allowed_actions_def
      validate_params_def validate_partial_params_def natural_int_param_def mask_char_def strip_def
      py_space_def)

theorem pii_partial_masks_rest_witness:
  "\<exists>out c. partial_value ex_partial_rule (PStr ''12345'') = (PStr out, True) \<and> length out = 5 \<and>
     out = ''***45'' \<and> (\<forall>i. out ! i = (if i < 0 \<or> i \<ge> 3 then ''12345'' ! i else c) \<or> i \<ge> 5)"
  using pii_partial_masks_rest [OF ex_partial_compiled, of ex_partial_rule "''12345''"]
  by (auto simp: ex_partial_rule_def dget_def dget_default_def int_param_def partial_value_def
      partial_keep_def numeral_eq_Suc)

end
