(* ===== verification/Routing_Engine.thy ===== *)
theory Routing_Engine
  imports Py_Prelude Py_Hash Pii_Redaction
begin

text \<open>
  The routing engine, \<open>collectors/routing/engine.py\<close>: label conditions and their operators, the
  evaluation of one event against the ordered routes, the split of a batch into per-destination
  sub-batches (redaction, sampling, residency, loop guard, fallback), and the write-time guards
  (condition and suppression-key validation, detection of unreachable routes).

  An event is its envelope, a dictionary whose \<open>_centralops\<close> entry is a dictionary or absent. A frozenset
  is a set, a counter dictionary a total function that is zero where the key is absent, a dictionary
  whose iteration order matters an association list. The serialiser that measures an envelope in
  bytes is a parameter of the batch options.
\<close>

section \<open>Vocabulary\<close>

definition detection_matched_field :: string where
  "detection_matched_field = ''detection_matched''"

definition allowed_fields :: "string list" where
  "allowed_fields =
     [''vendor'', ''platform'', ''organization_id'', ''severity_id'', ''stream'', ''event_type'',
      ''integration_id'', ''customer_id'', ''data_geography'', detection_matched_field]"

definition boolean_fields :: "string list" where
  "boolean_fields = [detection_matched_field]"

definition ordering_ops :: "string list" where
  "ordering_ops = [''gt'', ''gte'', ''lt'', ''lte'']"

definition field_aliases :: "(string \<times> string) list" where
  "field_aliases = [(''org_id'', ''organization_id'')]"

definition canonical_field :: "string \<Rightarrow> string" where
  "canonical_field f = (case map_of field_aliases f of None \<Rightarrow> f | Some c \<Rightarrow> c)"

definition allowed_ops :: "string list" where
  "allowed_ops = [''eq'', ''ne'', ''gt'', ''gte'', ''lt'', ''lte'', ''in'', ''nin'', ''exists'']"

section \<open>Compiled routes\<close>

record compiled_route =
  r_id :: string
  r_name :: string
  r_priority :: int
  r_condition :: pydict
  r_action :: string
  r_destination_ids :: "string list"
  r_is_final :: bool
  r_enabled :: bool
  r_canary_percent :: int
  r_protect_detection :: bool
  r_sample_percent :: int
  r_suppress_key :: "string option"
  r_suppress_allow :: int
  r_suppress_window_s :: int
  r_redaction :: "redaction_rule list"
  r_drop_raw :: bool

definition canary_bucket :: "string \<Rightarrow> nat" where
  "canary_bucket event_id = sha1_prefix32 event_id mod 100"

definition canary_pass :: "int \<Rightarrow> string \<Rightarrow> bool" where
  "canary_pass canary_percent event_id =
     (if canary_percent \<ge> 100 then True
      else if canary_percent \<le> 0 then False
      else int (canary_bucket event_id) < canary_percent)"

record sampling_config =
  sc_enabled :: bool
  sc_protect_detection_enforced :: bool

definition should_sample_out :: "compiled_route \<Rightarrow> string \<Rightarrow> sampling_config option \<Rightarrow> bool" where
  "should_sample_out route event_id sampling =
     (case sampling of
        None \<Rightarrow> False
      | Some sc \<Rightarrow>
          if \<not> sc_enabled sc \<or> r_sample_percent route \<ge> 100 then False
          else if r_protect_detection route \<and> sc_protect_detection_enforced sc then False
          else \<not> canary_pass (r_sample_percent route) event_id)"

text \<open>The text of the float \<open>round(p / 100.0, 6)\<close>.\<close>

definition percent_repr :: "int \<Rightarrow> string" where
  "percent_repr p =
     (let n = nat \<bar>p\<bar>; f = n mod 100 in
      (if p < 0 then ''-'' else []) @ nat_str (n div 100) @ ''.'' @
      (if f mod 10 = 0 then nat_str (f div 10) else nat_str (f div 10) @ nat_str (f mod 10)))"

text \<open>\<open>dict(envelope.get("_centralops") or {})\<close>.\<close>

definition event_labels :: "pydict \<Rightarrow> pydict" where
  "event_labels envelope = as_dict (dget envelope ''_centralops'')"

definition with_sample_rate :: "pydict \<Rightarrow> int \<Rightarrow> pydict" where
  "with_sample_rate env p =
     AList.update ''_centralops''
       (PDict (AList.update ''sample_rate'' (PFloat (of_int p / 100) (percent_repr p)) (event_labels env)))
       env"

definition without_raw :: "pydict \<Rightarrow> pydict option" where
  "without_raw env =
     (if \<not> dhas env ''raw'' then None
      else let out = AList.delete ''raw'' env in
           Some (AList.update ''_centralops''
             (PDict (AList.update ''raw_dropped'' (PBool True) (event_labels out))) out))"

section \<open>Conditions\<close>

text \<open>\<open>None\<close> from the comparison helpers is a \<open>TypeError\<close>, which the code catches and turns into no match.\<close>

definition catch_type_error :: "bool option \<Rightarrow> bool" where
  "catch_type_error r = (case r of None \<Rightarrow> False | Some b \<Rightarrow> b)"

definition compare_values :: "string \<Rightarrow> pyval \<Rightarrow> pyval \<Rightarrow> bool" where
  "compare_values op1 actual expected =
     (if op1 = ''exists'' then (actual \<noteq> PNone) = truthy expected
      else if actual = PNone then op1 = ''ne'' \<or> op1 = ''nin''
      else if op1 = ''eq'' then py_eq actual expected
      else if op1 = ''ne'' then \<not> py_eq actual expected
      else if op1 = ''gt'' then catch_type_error (py_order OGt actual expected)
      else if op1 = ''gte'' then catch_type_error (py_order OGte actual expected)
      else if op1 = ''lt'' then catch_type_error (py_order OLt actual expected)
      else if op1 = ''lte'' then catch_type_error (py_order OLte actual expected)
      else if op1 = ''contains'' then substr (py_str expected) (py_str actual)
      else if op1 = ''in'' then catch_type_error (py_in actual expected)
      else if op1 = ''nin'' then catch_type_error (map_option Not (py_in actual expected))
      else False)"

definition match_clause :: "pyval \<Rightarrow> pyval \<Rightarrow> bool" where
  "match_clause spec actual =
     (case spec of
        PDict ops \<Rightarrow> list_all (\<lambda>(op1, val). compare_values op1 actual val) ops
      | _ \<Rightarrow> compare_values ''eq'' actual spec)"

definition matches :: "pydict \<Rightarrow> pydict \<Rightarrow> bool" where
  "matches condition labels =
     list_all (\<lambda>(f, spec). match_clause spec (dget labels (canonical_field f))) condition"

section \<open>One event\<close>

record event_routing =
  er_destinations :: "string set"
  er_dropped :: bool
  er_matched :: bool
  er_matched_route_ids :: "string set"
  er_assignments :: "(string \<times> compiled_route) list"
  er_drop_route_id :: "string option"

definition order_routes :: "compiled_route list \<Rightarrow> compiled_route list" where
  "order_routes routes = sort_key (\<lambda>r. (r_priority r, r_id r)) routes"

definition event_id_of :: "pydict \<Rightarrow> string" where
  "event_id_of labels =
     (let v = dget labels ''event_id'' in if truthy v then py_str v else [])"

fun evaluate_loop ::
  "pydict \<Rightarrow> string \<Rightarrow> string set \<Rightarrow> string list \<Rightarrow> (string \<times> compiled_route) list \<Rightarrow>
   compiled_route list \<Rightarrow> event_routing"
where
  "evaluate_loop labels event_id dests matched assignments [] =
     \<lparr>er_destinations = dests, er_dropped = False, er_matched = (matched \<noteq> []),
      er_matched_route_ids = set matched, er_assignments = assignments, er_drop_route_id = None\<rparr>"
| "evaluate_loop labels event_id dests matched assignments (r # rs) =
     (if \<not> r_enabled r then evaluate_loop labels event_id dests matched assignments rs
      else if \<not> matches (r_condition r) labels
        then evaluate_loop labels event_id dests matched assignments rs
      else if \<not> canary_pass (r_canary_percent r) event_id
        then evaluate_loop labels event_id dests matched assignments rs
      else
        (let matched' = matched @ [r_id r] in
         if r_action r = ''drop'' then
           \<lparr>er_destinations = {}, er_dropped = True, er_matched = True,
            er_matched_route_ids = set matched', er_assignments = [], er_drop_route_id = Some (r_id r)\<rparr>
         else
           (let dests' = dests \<union> set (r_destination_ids r);
                assignments' = assignments @ map (\<lambda>d. (d, r)) (r_destination_ids r)
            in if r_is_final r
               then evaluate_loop labels event_id dests' matched' assignments' []
               else evaluate_loop labels event_id dests' matched' assignments' rs)))"

definition evaluate_event :: "pydict \<Rightarrow> compiled_route list \<Rightarrow> event_routing" where
  "evaluate_event labels ordered_routes =
     evaluate_loop labels (event_id_of labels) {} [] [] ordered_routes"

section \<open>A batch\<close>

record batch_routing =
  br_sub_batches :: "(string \<times> pydict list) list"
  br_routed :: nat
  br_dropped :: nat
  br_fallback :: nat
  br_unrouted :: nat
  br_unrouted_events :: "pydict list"
  br_per_route :: "string \<Rightarrow> nat"
  br_residency_blocked :: nat
  br_loop_blocked :: nat
  br_sampled :: nat
  br_sampled_per_route :: "string \<Rightarrow> nat"
  br_sampled_bytes_per_org :: "pyval \<Rightarrow> nat"
  br_dropped_bytes_per_org :: "pyval \<Rightarrow> nat"
  br_raw_dropped_bytes_per_org :: "pyval \<Rightarrow> nat"
  br_dropped_events :: "(pydict \<times> string) list"
  br_loop_blocked_events :: "(pydict \<times> string) list"
  br_residency_blocked_events :: "(pydict \<times> string) list"
  br_sampled_events :: "(pydict \<times> string \<times> string) list"

definition empty_routing :: batch_routing where
  "empty_routing =
     \<lparr>br_sub_batches = [], br_routed = 0, br_dropped = 0, br_fallback = 0, br_unrouted = 0,
      br_unrouted_events = [], br_per_route = (\<lambda>_. 0), br_residency_blocked = 0,
      br_loop_blocked = 0, br_sampled = 0, br_sampled_per_route = (\<lambda>_. 0),
      br_sampled_bytes_per_org = (\<lambda>_. 0), br_dropped_bytes_per_org = (\<lambda>_. 0),
      br_raw_dropped_bytes_per_org = (\<lambda>_. 0), br_dropped_events = [],
      br_loop_blocked_events = [], br_residency_blocked_events = [], br_sampled_events = []\<rparr>"

text \<open>The keyword arguments of \<open>route_batch\<close>. \<open>ro_nbytes\<close> is \<open>_envelope_bytes\<close>: the length of the delivery
  serialiser's output, zero when it fails.\<close>

record route_opts =
  ro_fallback :: "string option"
  ro_residency :: "(string \<times> string option) list"
  ro_loop_ids :: "string list"
  ro_sampling :: "sampling_config option"
  ro_measure_drop_bytes :: bool
  ro_nbytes :: "pydict \<Rightarrow> nat"

definition residency_conflict :: "string option \<Rightarrow> string option \<Rightarrow> bool" where
  "residency_conflict dest_residency event_geography =
     (case dest_residency of
        None \<Rightarrow> False
      | Some dr \<Rightarrow>
          (case event_geography of
             None \<Rightarrow> False
           | Some eg \<Rightarrow>
               if dr = [] \<or> eg = [] then False
               else if lower dr = ''global'' \<or> lower eg = ''global'' then False
               else upper dr \<noteq> upper eg))"

text \<open>\<open>sub[dest].append(env)\<close> on a defaultdict, and adding to a per-organisation byte counter.\<close>

definition sub_append :: "string \<Rightarrow> pydict \<Rightarrow> (string \<times> pydict list) list \<Rightarrow> (string \<times> pydict list) list" where
  "sub_append dest env sub =
     AList.update dest ((case map_of sub dest of None \<Rightarrow> [] | Some es \<Rightarrow> es) @ [env]) sub"

definition bytes_add :: "(pyval \<Rightarrow> nat) \<Rightarrow> pyval \<Rightarrow> nat \<Rightarrow> pyval \<Rightarrow> nat" where
  "bytes_add m org n = (\<lambda>o1. if py_eq o1 org then m o1 + n else m o1)"

definition source_is_wazuh :: "pydict \<Rightarrow> bool" where
  "source_is_wazuh labels \<longleftrightarrow> py_eq (dget labels ''platform'') (PStr ''wazuh'')"

definition no_destination ::
  "route_opts \<Rightarrow> pydict \<Rightarrow> pydict \<Rightarrow> string \<Rightarrow> batch_routing \<Rightarrow> batch_routing" where
  "no_destination opts env labels reason result =
     (if source_is_wazuh labels \<and>
         (case ro_fallback opts of None \<Rightarrow> True | Some fb \<Rightarrow> fb \<in> set (ro_loop_ids opts))
      then result\<lparr>br_loop_blocked := br_loop_blocked result + 1,
                  br_loop_blocked_events := br_loop_blocked_events result @ [(env, reason)]\<rparr>
      else case ro_fallback opts of
             Some fb \<Rightarrow> result\<lparr>br_sub_batches := sub_append fb env (br_sub_batches result),
                               br_fallback := br_fallback result + 1\<rparr>
           | None \<Rightarrow> result\<lparr>br_unrouted := br_unrouted result + 1,
                            br_unrouted_events := br_unrouted_events result @ [env]\<rparr>)"

text \<open>The winning route per destination: the first one, unless a later one redacts and it does not.\<close>

fun choose_routes ::
  "(string \<times> compiled_route) list \<Rightarrow> (string \<times> compiled_route) list \<Rightarrow> (string \<times> compiled_route) list"
where
  "choose_routes chosen [] = chosen"
| "choose_routes chosen ((dest, route) # rest) =
     (case map_of chosen dest of
        None \<Rightarrow> choose_routes (AList.update dest route chosen) rest
      | Some cur \<Rightarrow>
          if r_redaction cur = [] \<and> r_redaction route \<noteq> []
          then choose_routes (AList.update dest route chosen) rest
          else choose_routes chosen rest)"

definition event_geography :: "pydict \<Rightarrow> string option" where
  "event_geography labels =
     (case dget labels ''data_geography'' of PStr g \<Rightarrow> if g = [] then None else Some g | _ \<Rightarrow> None)"

definition dest_residency :: "route_opts \<Rightarrow> string \<Rightarrow> string option" where
  "dest_residency opts dest = (case map_of (ro_residency opts) dest of None \<Rightarrow> None | Some r \<Rightarrow> r)"

definition residency_blocks :: "route_opts \<Rightarrow> pydict \<Rightarrow> string \<Rightarrow> bool" where
  "residency_blocks opts labels dest =
     residency_conflict (dest_residency opts dest) (event_geography labels)"

text \<open>What the code appends to \<open>sub[dest]\<close> for an event that is not sampled out: sample-rate decoration,
  then redaction, then removal of the raw block.\<close>

definition sample_decorated :: "route_opts \<Rightarrow> compiled_route \<Rightarrow> bool" where
  "sample_decorated opts route =
     (case ro_sampling opts of
        None \<Rightarrow> False
      | Some sc \<Rightarrow> sc_enabled sc \<and> r_sample_percent route < 100 \<and>
          \<not> (r_protect_detection route \<and> sc_protect_detection_enforced sc))"

definition redacted_copy :: "route_opts \<Rightarrow> compiled_route \<Rightarrow> pydict \<Rightarrow> pydict" where
  "redacted_copy opts route env =
     (let env1 = (if sample_decorated opts route then with_sample_rate env (r_sample_percent route) else env)
      in if r_redaction route \<noteq> []
         then (case apply_pii_redaction env1 (r_redaction route) of None \<Rightarrow> env1 | Some red \<Rightarrow> red)
         else env1)"

definition delivered_copy :: "route_opts \<Rightarrow> compiled_route \<Rightarrow> pydict \<Rightarrow> pydict" where
  "delivered_copy opts route env =
     (let env2 = redacted_copy opts route env in
      if r_drop_raw route \<and> \<not> r_protect_detection route
      then (case without_raw env2 of None \<Rightarrow> env2 | Some env3 \<Rightarrow> env3)
      else env2)"

definition raw_bytes_saved :: "route_opts \<Rightarrow> compiled_route \<Rightarrow> pydict \<Rightarrow> nat" where
  "raw_bytes_saved opts route env =
     (if r_drop_raw route \<and> \<not> r_protect_detection route \<and> ro_measure_drop_bytes opts
      then (case without_raw (redacted_copy opts route env) of
              None \<Rightarrow> 0
            | Some env3 \<Rightarrow> ro_nbytes opts (redacted_copy opts route env) - ro_nbytes opts env3)
      else 0)"

definition deliver_one ::
  "route_opts \<Rightarrow> pydict \<Rightarrow> pydict \<Rightarrow> batch_routing \<times> bool \<Rightarrow> string \<times> compiled_route \<Rightarrow> batch_routing \<times> bool"
where
  "deliver_one opts env labels st dr =
     (case (st, dr) of ((result, delivered), (dest, route)) \<Rightarrow>
      (let org = dget labels ''organization_id'' in
       if should_sample_out route (event_id_of labels) (ro_sampling opts) then
         (result\<lparr>br_sampled := br_sampled result + 1,
                 br_sampled_per_route :=
                   (br_sampled_per_route result)(r_id route := br_sampled_per_route result (r_id route) + 1),
                 br_sampled_events := br_sampled_events result @ [(env, dest, r_id route)],
                 br_sampled_bytes_per_org :=
                   (if org = PNone then br_sampled_bytes_per_org result
                    else bytes_add (br_sampled_bytes_per_org result) org (ro_nbytes opts env))\<rparr>,
          delivered)
       else
         (result\<lparr>br_raw_dropped_bytes_per_org :=
                   (if org = PNone then br_raw_dropped_bytes_per_org result
                    else bytes_add (br_raw_dropped_bytes_per_org result) org (raw_bytes_saved opts route env)),
                 br_sub_batches := sub_append dest (delivered_copy opts route env) (br_sub_batches result)\<rparr>,
          True)))"

text \<open>The routes an event with assignments is delivered through, after the loop guard and the residency
  filter.\<close>

definition loop_filtered :: "route_opts \<Rightarrow> pydict \<Rightarrow> (string \<times> compiled_route) list \<Rightarrow> (string \<times> compiled_route) list" where
  "loop_filtered opts labels chosen =
     (if source_is_wazuh labels then filter (\<lambda>(d, _). d \<notin> set (ro_loop_ids opts)) chosen else chosen)"

definition route_assigned ::
  "route_opts \<Rightarrow> pydict \<Rightarrow> pydict \<Rightarrow> (string \<times> compiled_route) list \<Rightarrow> batch_routing \<Rightarrow> batch_routing" where
  "route_assigned opts env labels assignments result =
     (let chosen1 = loop_filtered opts labels (choose_routes [] assignments);
          blocked = map fst (filter (\<lambda>(d, _). residency_blocks opts labels d) chosen1);
          chosen2 = filter (\<lambda>(d, _). \<not> residency_blocks opts labels d) chosen1;
          result1 = result\<lparr>br_residency_blocked := br_residency_blocked result + length blocked,
                           br_residency_blocked_events :=
                             br_residency_blocked_events result @ map (\<lambda>d. (env, d)) blocked\<rparr>
      in if chosen2 = [] then no_destination opts env labels ''all-destinations-loop'' result1
         else case foldl (deliver_one opts env labels) (result1, False) chosen2 of
                (result2, delivered) \<Rightarrow>
                  if delivered then result2\<lparr>br_routed := br_routed result2 + 1\<rparr> else result2)"

definition route_event :: "route_opts \<Rightarrow> compiled_route list \<Rightarrow> batch_routing \<Rightarrow> pydict \<Rightarrow> batch_routing" where
  "route_event opts ordered result0 env =
     (let labels = event_labels env;
          decision = evaluate_event labels ordered;
          org = dget labels ''organization_id'';
          result = result0\<lparr>br_per_route :=
            (\<lambda>rid. br_per_route result0 rid + (if rid \<in> er_matched_route_ids decision then 1 else 0))\<rparr>
      in if er_dropped decision then
           result\<lparr>br_dropped := br_dropped result + 1,
                  br_dropped_events := br_dropped_events result @
                    [(env, case er_drop_route_id decision of None \<Rightarrow> [] | Some rid \<Rightarrow> rid)],
                  br_dropped_bytes_per_org :=
                    (if ro_measure_drop_bytes opts \<and> org \<noteq> PNone
                     then bytes_add (br_dropped_bytes_per_org result) org (ro_nbytes opts env)
                     else br_dropped_bytes_per_org result)\<rparr>
         else if er_assignments decision = [] then
           no_destination opts env labels ''no-explicit-destination'' result
         else route_assigned opts env labels (er_assignments decision) result)"

definition route_batch :: "route_opts \<Rightarrow> pydict list \<Rightarrow> compiled_route list \<Rightarrow> batch_routing" where
  "route_batch opts batch routes = foldl (route_event opts (order_routes routes)) empty_routing batch"

section \<open>Write-time guards\<close>

datatype route_error =
    ConditionNotObject
  | UnknownField string
  | BooleanField string
  | EmptyOperators string
  | UnknownOperator string string
  | RequiresList string
  | ExistsRequiresBool
  | SuppressKeyType
  | SuppressKeyUnique string
  | SuppressKeyUnknown string

definition unique_per_event_labels :: "string list" where
  "unique_per_event_labels = [''event_id'', ''collected_at'']"

fun check_all :: "('a \<Rightarrow> route_error option) \<Rightarrow> 'a list \<Rightarrow> route_error + unit" where
  "check_all f [] = Inr ()"
| "check_all f (x # xs) = (case f x of Some e \<Rightarrow> Inl e | None \<Rightarrow> check_all f xs)"

definition suppress_field_error :: "string \<Rightarrow> route_error option" where
  "suppress_field_error f =
     (if canonical_field f \<in> set unique_per_event_labels then Some (SuppressKeyUnique f)
      else if canonical_field f \<notin> set allowed_fields then Some (SuppressKeyUnknown f)
      else None)"

definition validate_suppress_key :: "pyval \<Rightarrow> route_error + unit" where
  "validate_suppress_key v =
     (case v of
        PNone \<Rightarrow> Inr ()
      | PStr s \<Rightarrow>
          check_all suppress_field_error (filter (\<lambda>f. f \<noteq> []) (map strip (split_on (CHR '','') s)))
      | _ \<Rightarrow> Inl SuppressKeyType)"

definition boolean_op_error :: "string \<Rightarrow> string \<times> pyval \<Rightarrow> route_error option" where
  "boolean_op_error f ov =
     (case ov of (op1, val) \<Rightarrow>
      if op1 \<in> set ordering_ops then Some (BooleanField f)
      else if (op1 = ''eq'' \<or> op1 = ''ne'') \<and> val \<noteq> PBool True then Some (BooleanField f)
      else if (op1 = ''in'' \<or> op1 = ''nin'') \<and>
              (case val of PList vs \<Rightarrow> vs = [] \<or> list_ex (\<lambda>v. v \<noteq> PBool True) vs | _ \<Rightarrow> True)
        then Some (BooleanField f)
      else None)"

definition reject_unmatchable_boolean :: "string \<Rightarrow> pyval \<Rightarrow> route_error + unit" where
  "reject_unmatchable_boolean f spec =
     (case spec of
        PDict ops \<Rightarrow> check_all (boolean_op_error f) ops
      | _ \<Rightarrow> if spec \<noteq> PBool True then Inl (BooleanField f) else Inr ())"

definition generic_op_error :: "string \<Rightarrow> string \<times> pyval \<Rightarrow> route_error option" where
  "generic_op_error f ov =
     (case ov of (op1, val) \<Rightarrow>
      if op1 \<notin> set allowed_ops then Some (UnknownOperator op1 f)
      else if (op1 = ''in'' \<or> op1 = ''nin'') \<and> \<not> is_PList val then Some (RequiresList op1)
      else if op1 = ''exists'' \<and> \<not> is_PBool val then Some ExistsRequiresBool
      else None)"

definition validate_clause :: "string \<times> pyval \<Rightarrow> route_error + unit" where
  "validate_clause fs =
     (case fs of (f, spec) \<Rightarrow>
      if canonical_field f \<notin> set allowed_fields then Inl (UnknownField f)
      else bind_result
             (if canonical_field f \<in> set boolean_fields then reject_unmatchable_boolean f spec else Inr ())
             (\<lambda>_. case spec of
                    PDict ops \<Rightarrow> if ops = [] then Inl (EmptyOperators f) else check_all (generic_op_error f) ops
                  | _ \<Rightarrow> Inr ()))"

definition clause_error :: "string \<times> pyval \<Rightarrow> route_error option" where
  "clause_error fs = (case validate_clause fs of Inl e \<Rightarrow> Some e | Inr _ \<Rightarrow> None)"

definition validate_condition :: "pyval \<Rightarrow> route_error + unit" where
  "validate_condition condition =
     (case condition of PDict c \<Rightarrow> check_all clause_error c | _ \<Rightarrow> Inl ConditionNotObject)"

section \<open>Unreachable routes\<close>

text \<open>Whether \<open>_hashable(v)\<close> yields a value that can be put into a frozenset: a list becomes a tuple, whose
  elements must be hashable themselves.\<close>

definition set_hashable :: "pyval \<Rightarrow> bool" where
  "set_hashable v = (case v of PList xs \<Rightarrow> list_all hashable xs | PDict _ \<Rightarrow> False | _ \<Rightarrow> True)"

text \<open>\<open>Inl ()\<close> is the \<open>TypeError\<close> of the \<open>eq\<close> branch, which is outside the code's \<open>try\<close>; \<open>Inr None\<close> is "not
  enumerable".\<close>

definition clause_value_set :: "pyval \<Rightarrow> unit + pyval list option" where
  "clause_value_set spec =
     (case spec of
        PDict [(op1, val)] \<Rightarrow>
          if op1 = ''eq'' then (if set_hashable val then Inr (Some [val]) else Inl ())
          else if op1 = ''in'' then
            (case val of
               PList vs \<Rightarrow> if list_all set_hashable vs then Inr (Some vs) else Inr None
             | _ \<Rightarrow> Inr None)
          else Inr None
      | PDict _ \<Rightarrow> Inr None
      | _ \<Rightarrow> if set_hashable spec then Inr (Some [spec]) else Inr None)"

definition value_subset :: "pyval list \<Rightarrow> pyval list \<Rightarrow> bool" where
  "value_subset bs as = list_all (\<lambda>b. list_ex (\<lambda>a. py_eq b a) as) bs"

definition norm_condition :: "pydict \<Rightarrow> pydict" where
  "norm_condition c = foldl (\<lambda>d (f, s). AList.update (canonical_field f) s d) [] c"

fun subsumes_loop :: "pydict \<Rightarrow> pydict \<Rightarrow> unit + bool" where
  "subsumes_loop b_norm [] = Inr True"
| "subsumes_loop b_norm ((f, a_spec) # rest) =
     bind_result (clause_value_set a_spec) (\<lambda>a_set.
       case a_set of
         None \<Rightarrow> Inr False
       | Some as \<Rightarrow>
           (case map_of b_norm f of
              None \<Rightarrow> Inr False
            | Some b_spec \<Rightarrow>
                bind_result (clause_value_set b_spec) (\<lambda>b_set.
                  case b_set of
                    None \<Rightarrow> Inr False
                  | Some bs \<Rightarrow>
                      if bs = [] then Inr False
                      else if \<not> value_subset bs as then Inr False
                      else subsumes_loop b_norm rest)))"

definition subsumes :: "pydict \<Rightarrow> pydict \<Rightarrow> unit + bool" where
  "subsumes cond_a cond_b = subsumes_loop (norm_condition cond_b) (norm_condition cond_a)"

fun any_subsumes :: "pydict \<Rightarrow> compiled_route list \<Rightarrow> unit + bool" where
  "any_subsumes cond [] = Inr False"
| "any_subsumes cond (e # es) =
     bind_result (subsumes (r_condition e) cond) (\<lambda>b. if b then Inr True else any_subsumes cond es)"

fun find_unreachable_loop ::
  "compiled_route list \<Rightarrow> string list \<Rightarrow> compiled_route list \<Rightarrow> unit + string list" where
  "find_unreachable_loop seen unreachable [] = Inr unreachable"
| "find_unreachable_loop seen unreachable (r # rs) =
     (if \<not> r_enabled r then find_unreachable_loop seen unreachable rs
      else bind_result (any_subsumes (r_condition r) seen) (\<lambda>shadowed.
        if shadowed then find_unreachable_loop seen (unreachable @ [r_id r]) rs
        else if r_is_final r \<and> r_canary_percent r \<ge> 100
          then find_unreachable_loop (seen @ [r]) unreachable rs
        else find_unreachable_loop seen unreachable rs))"

definition find_unreachable :: "compiled_route list \<Rightarrow> unit + string list" where
  "find_unreachable ordered_routes = find_unreachable_loop [] [] ordered_routes"

end
