(* ===== verification/Py_Json.thy ===== *)
theory Py_Json
  imports Py_Prelude
begin

text \<open>
  \<open>json.dumps(v)\<close>, with or without a space after the separators, and \<open>json.loads(text)\<close> as the collectors use them: keys in their order,
  non-ASCII characters escaped; \<open>None\<close> for \<open>JSONDecodeError\<close>. The conversion of a number with a fraction or an
  exponent (and of the constants NaN and Infinity) to a float is a parameter, and characters beyond U+00FF are
  outside the modelled texts. Reading back what was written gives the same value.
\<close>

section \<open>Writing\<close>

definition dquote :: char where
  "dquote = char_of (34::nat)"

definition quoted :: "(char \<Rightarrow> string) \<Rightarrow> string \<Rightarrow> string" where
  "quoted esc s = dquote # concat (map esc s) @ [dquote]"

text \<open>A character of a text with \<open>ensure_ascii=False\<close>: only quotes, backslashes and control characters are escaped.\<close>

definition json_char_raw :: "char \<Rightarrow> string" where
  "json_char_raw c = (if 126 < (of_char c :: nat) then [c] else json_char c)"

fun json_print :: "string \<Rightarrow> (char \<Rightarrow> string) \<Rightarrow> pyval \<Rightarrow> string"
  and json_print_list :: "string \<Rightarrow> (char \<Rightarrow> string) \<Rightarrow> pyval list \<Rightarrow> string list"
  and json_print_dict :: "string \<Rightarrow> (char \<Rightarrow> string) \<Rightarrow> pydict \<Rightarrow> string list"
where
  "json_print sp esc PNone = ''null''"
| "json_print sp esc (PBool b) = (if b then ''true'' else ''false'')"
| "json_print sp esc (PInt i) = int_str i"
| "json_print sp esc (PFloat q s) = s"
| "json_print sp esc (PStr s) = quoted esc s"
| "json_print sp esc (PList xs) = ''['' @ join ('','' @ sp) (json_print_list sp esc xs) @ '']''"
| "json_print sp esc (PDict d) = ''{'' @ join ('','' @ sp) (json_print_dict sp esc d) @ ''}''"
| "json_print_list sp esc [] = []"
| "json_print_list sp esc (x # xs) = json_print sp esc x # json_print_list sp esc xs"
| "json_print_dict sp esc [] = []"
| "json_print_dict sp esc ((k, v) # d) = (quoted esc k @ '':'' @ sp @ json_print sp esc v) # json_print_dict sp esc d"

abbreviation json_compact :: "pyval \<Rightarrow> string" where
  "json_compact \<equiv> json_print [] json_char"

text \<open>\<open>json.dumps(v)\<close> with the default separators, a space after every comma and colon.\<close>

abbreviation json_spaced :: "pyval \<Rightarrow> string" where
  "json_spaced \<equiv> json_print '' '' json_char"

abbreviation json_compact_raw :: "pyval \<Rightarrow> string" where
  "json_compact_raw \<equiv> json_print [] json_char_raw"

section \<open>Reading\<close>

definition json_ws :: "char \<Rightarrow> bool" where
  "json_ws c \<longleftrightarrow> (let n = (of_char c :: nat) in n = 32 \<or> n = 9 \<or> n = 10 \<or> n = 13)"

definition skip_ws :: "string \<Rightarrow> string" where
  "skip_ws s = dropWhile json_ws s"

definition bslash :: char where
  "bslash = char_of (92::nat)"

definition hex_val :: "char \<Rightarrow> nat option" where
  "hex_val c = (let n = of_char c in
     if 48 \<le> n \<and> n \<le> 57 then Some (n - 48) else if 65 \<le> n \<and> n \<le> 70 then Some (n - 55)
     else if 97 \<le> n \<and> n \<le> 102 then Some (n - 87) else None)"

definition simple_escape :: "char \<Rightarrow> char option" where
  "simple_escape c = map_of [(dquote, dquote), (bslash, bslash), (CHR ''/'', CHR ''/''), (CHR ''b'', char_of (8::nat)),
     (CHR ''f'', char_of (12::nat)), (CHR ''n'', char_of (10::nat)), (CHR ''r'', char_of (13::nat)), (CHR ''t'', char_of (9::nat))] c"

definition unicode_escape :: "string \<Rightarrow> (char \<times> string) option" where
  "unicode_escape s = (case s of
      a # b # c # d # r \<Rightarrow>
        (case (hex_val a, hex_val b, hex_val c, hex_val d) of
           (Some 0, Some 0, Some x, Some y) \<Rightarrow> Some (char_of (16 * x + y), r)
         | _ \<Rightarrow> None)
    | _ \<Rightarrow> None)"

text \<open>The text after the opening quote, up to the closing one.\<close>

function json_string :: "string \<Rightarrow> (string \<times> string) option" where
  "json_string [] = None"
| "json_string (c # cs) =
     (if c = dquote then Some ([], cs)
      else if c = bslash then
        (case cs of
           [] \<Rightarrow> None
         | e # r \<Rightarrow>
             (case simple_escape e of
                Some ch \<Rightarrow> map_option (\<lambda>(t, r'). (ch # t, r')) (json_string r)
              | None \<Rightarrow>
                  if e \<noteq> CHR ''u'' then None
                  else (case unicode_escape r of
                          None \<Rightarrow> None
                        | Some (ch, r2) \<Rightarrow> map_option (\<lambda>(t, r'). (ch # t, r')) (json_string r2))))
      else if (of_char c :: nat) < 32 then None
      else map_option (\<lambda>(t, r'). (c # t, r')) (json_string cs))"
  by pat_completeness auto
termination
  by (relation "measure length")
    (auto simp: unicode_escape_def split: list.splits option.splits prod.splits nat.splits if_splits)

text \<open>A number: an integer part without leading zeros; with a fraction or an exponent it is a float.\<close>

definition int_part :: "string \<Rightarrow> string \<times> string" where
  "int_part s = (case s of
      [] \<Rightarrow> ([], [])
    | c # r \<Rightarrow> if c = CHR ''0'' then ([c], r) else (takeWhile is_digit s, dropWhile is_digit s))"

definition frac_part :: "string \<Rightarrow> string \<times> string" where
  "frac_part s = (case s of
      c # r \<Rightarrow> if c = CHR ''.'' \<and> takeWhile is_digit r \<noteq> [] then (c # takeWhile is_digit r, dropWhile is_digit r) else ([], s)
    | [] \<Rightarrow> ([], s))"

definition exp_part :: "string \<Rightarrow> string \<times> string" where
  "exp_part s = (case s of
      c # r \<Rightarrow>
        if c = CHR ''e'' \<or> c = CHR ''E'' then
          (let (sg, r1) = (case r of d # r' \<Rightarrow> if d = CHR ''+'' \<or> d = CHR ''-'' then ([d], r') else ([], r) | [] \<Rightarrow> ([], r))
           in if takeWhile is_digit r1 \<noteq> [] then (c # sg @ takeWhile is_digit r1, dropWhile is_digit r1) else ([], s))
        else ([], s)
    | [] \<Rightarrow> ([], s))"

definition json_number :: "(string \<Rightarrow> pyval) \<Rightarrow> string \<Rightarrow> (pyval \<times> string) option" where
  "json_number cf s =
     (let (sg, r) = (case s of c # r' \<Rightarrow> if c = CHR ''-'' then ([c], r') else ([], s) | [] \<Rightarrow> ([], s));
          (ip, r1) = int_part r; (fp, r2) = frac_part r1; (ep, r3) = exp_part r2
      in if ip = [] then None
         else if fp = [] \<and> ep = []
         then Some (PInt (if sg = [] then int (digits_value ip) else - int (digits_value ip)), r3)
         else Some (cf (sg @ ip @ fp @ ep), r3))"

definition json_const :: "(string \<Rightarrow> pyval) \<Rightarrow> string \<Rightarrow> (pyval \<times> string) option" where
  "json_const cf s =
     (if startswith s ''null'' then Some (PNone, drop 4 s)
      else if startswith s ''true'' then Some (PBool True, drop 4 s)
      else if startswith s ''false'' then Some (PBool False, drop 5 s)
      else if startswith s ''NaN'' then Some (cf ''NaN'', drop 3 s)
      else if startswith s ''Infinity'' then Some (cf ''Infinity'', drop 8 s)
      else if startswith s ''-Infinity'' then Some (cf ''-Infinity'', drop 9 s)
      else json_number cf s)"

definition object_dict :: "(string \<times> pyval) list \<Rightarrow> pydict" where
  "object_dict ps = foldl (\<lambda>d (k, v). AList.update k v d) [] ps"

text \<open>A value, the elements of a non-empty array, the members of a non-empty object. The bound is on the number of
  nested and successive values; every one of them takes at least one character, so the length of the text is enough.\<close>

fun json_value :: "(string \<Rightarrow> pyval) \<Rightarrow> nat \<Rightarrow> string \<Rightarrow> (pyval \<times> string) option"
  and json_elems :: "(string \<Rightarrow> pyval) \<Rightarrow> nat \<Rightarrow> string \<Rightarrow> (pyval list \<times> string) option"
  and json_members :: "(string \<Rightarrow> pyval) \<Rightarrow> nat \<Rightarrow> string \<Rightarrow> ((string \<times> pyval) list \<times> string) option"
where
  "json_value cf 0 s = None"
| "json_value cf (Suc n) s =
     (case s of
        [] \<Rightarrow> None
      | c # r \<Rightarrow>
          if c = dquote then map_option (\<lambda>(t, r'). (PStr t, r')) (json_string r)
          else if c = CHR ''['' then
            (if take 1 (skip_ws r) = '']'' then Some (PList [], drop 1 (skip_ws r))
             else map_option (\<lambda>(xs, r'). (PList xs, r')) (json_elems cf n (skip_ws r)))
          else if c = CHR ''{'' then
            (if take 1 (skip_ws r) = ''}'' then Some (PDict [], drop 1 (skip_ws r))
             else map_option (\<lambda>(ps, r'). (PDict (object_dict ps), r')) (json_members cf n (skip_ws r)))
          else json_const cf s)"
| "json_elems cf 0 s = None"
| "json_elems cf (Suc n) s =
     (case json_value cf n s of
        None \<Rightarrow> None
      | Some (v, r) \<Rightarrow>
          (case skip_ws r of
             [] \<Rightarrow> None
           | c # r' \<Rightarrow>
               if c = CHR '']'' then Some ([v], r')
               else if c = CHR '','' then map_option (\<lambda>(vs, r2). (v # vs, r2)) (json_elems cf n (skip_ws r'))
               else None))"
| "json_members cf 0 s = None"
| "json_members cf (Suc n) s =
     (if take 1 s \<noteq> [dquote] then None
      else case json_string (drop 1 s) of
        None \<Rightarrow> None
      | Some (k, r) \<Rightarrow>
          if take 1 (skip_ws r) \<noteq> '':'' then None
          else (case json_value cf n (skip_ws (drop 1 (skip_ws r))) of
             None \<Rightarrow> None
           | Some (v, r1) \<Rightarrow>
               (case skip_ws r1 of
                  [] \<Rightarrow> None
                | c # r' \<Rightarrow>
                    if c = CHR ''}'' then Some ([(k, v)], r')
                    else if c = CHR '','' then map_option (\<lambda>(ps, r2). ((k, v) # ps, r2)) (json_members cf n (skip_ws r'))
                    else None)))"

definition json_loads :: "(string \<Rightarrow> pyval) \<Rightarrow> string \<Rightarrow> pyval option" where
  "json_loads cf s =
     (case json_value cf (Suc (length s)) (skip_ws s) of
        Some (v, r) \<Rightarrow> if skip_ws r = [] then Some v else None
      | None \<Rightarrow> None)"

section \<open>Texts and numbers\<close>

lemma of_char_hex_digit: "n < 16 \<Longrightarrow> of_char (hex_digit n) = (if n < 10 then 48 + n else 87 + n)"
  by (simp add: hex_digit_def)

lemma hex_val_hex_digit [simp]: "n < 16 \<Longrightarrow> hex_val (hex_digit n) = Some n"
  by (auto simp: hex_val_def of_char_hex_digit Let_def)

lemma escape_consts [simp]:
  "simple_escape dquote = Some dquote" "simple_escape bslash = Some bslash" "simple_escape (CHR ''b'') = Some (char_of (8::nat))"
  "simple_escape (CHR ''f'') = Some (char_of (12::nat))" "simple_escape (CHR ''n'') = Some (char_of (10::nat))"
  "simple_escape (CHR ''r'') = Some (char_of (13::nat))" "simple_escape (CHR ''t'') = Some (char_of (9::nat))"
  "simple_escape (CHR ''u'') = None" "dquote \<noteq> bslash" "bslash \<noteq> dquote"
  by code_simp+

lemma unicode_escape_hex: "n < 256 \<Longrightarrow>
    unicode_escape (CHR ''0'' # CHR ''0'' # hex_digit (n div 16) # hex_digit (n mod 16) # r) = Some (char_of n, r)"
proof -
  assume n: "n < 256"
  have "hex_val (CHR ''0'') = Some 0" by (simp add: hex_val_def)
  moreover have "n div 16 < 16" using n by (simp add: div_less_iff_less_mult)
  ultimately show ?thesis by (simp add: unicode_escape_def mult.commute [of 16])
qed

lemma json_string_char: "json_string (json_char c @ r) = map_option (\<lambda>(t, r'). (c # t, r')) (json_string r)"
proof -
  let ?n = "of_char c :: nat"
  have code: "c = char_of m" if "?n = m" for m using that by (metis char_of_char)
  have q: "?n = 34 \<longleftrightarrow> c = dquote" "?n = 92 \<longleftrightarrow> c = bslash"
    by (auto simp: dquote_def bslash_def intro: code)
  show ?thesis using of_char_bound [of c]
    by (auto simp: json_char_def Let_def q simp flip: bslash_def dquote_def,
        simp_all add: json_string.simps unicode_escape_hex, (metis code)+)
qed

text \<open>An escaping that the reader undoes.\<close>

definition esc_ok :: "(char \<Rightarrow> string) \<Rightarrow> bool" where
  "esc_ok esc \<longleftrightarrow> (\<forall>c r. json_string (esc c @ r) = map_option (\<lambda>(t, r'). (c # t, r')) (json_string r))"

lemma esc_ok_ascii [simp]: "esc_ok json_char"
  by (simp add: esc_ok_def json_string_char)

lemma esc_ok_raw [simp]: "esc_ok json_char_raw"
proof -
  have "(of_char dquote :: nat) = 34" "(of_char bslash :: nat) = 92" by (simp_all add: dquote_def bslash_def)
  then have "json_string (c # r) = map_option (\<lambda>(t, r'). (c # t, r')) (json_string r)" if "126 < (of_char c :: nat)" for c r
    using that by (auto simp: json_string.simps)
  then show ?thesis by (simp add: esc_ok_def json_char_raw_def json_string_char)
qed

lemma json_string_text: "esc_ok esc \<Longrightarrow> json_string (concat (map esc s) @ dquote # r) = Some (s, r)"
  by (induction s) (simp_all add: esc_ok_def json_string.simps)

lemma is_digit_code [simp]: "d < 10 \<Longrightarrow> is_digit (char_of (48 + d :: nat))"
  by (simp add: is_digit_def Let_def)

lemma digits_value_snoc: "digits_value (s @ [c]) = 10 * digits_value s + (of_char c - 48)"
  by (simp add: digits_value_def)

lemma nat_str_digits: "list_all is_digit (nat_str n) \<and> digits_value (nat_str n) = n \<and> (n \<noteq> 0 \<longrightarrow> hd (nat_str n) \<noteq> CHR ''0'')"
proof (induction n rule: nat_str.induct)
  case (1 n)
  show ?case
  proof (cases "n < 10")
    case True
    have "char_of (48 + n) \<noteq> (CHR ''0'')" if "n \<noteq> 0"
    proof
      assume "char_of (48 + n) = (CHR ''0'')"
      then have "(of_char (char_of (48 + n)) :: nat) = 48" by simp
      with that True show False by simp
    qed
    then show ?thesis using True by (subst (1 2 3) nat_str.simps) (simp add: digits_value_def)
  next
    case False
    then have "nat_str n = nat_str (n div 10) @ [char_of (48 + n mod 10)]" by (subst nat_str.simps) simp
    with 1 [OF False] False show ?thesis by (simp add: digits_value_snoc hd_append)
  qed
qed

text \<open>What may follow a value: nothing, a comma or a closing bracket.\<close>

definition ends_value :: "string \<Rightarrow> bool" where
  "ends_value r \<longleftrightarrow> r = [] \<or> hd r = CHR '','' \<or> hd r = CHR '']'' \<or> hd r = CHR ''}''"

lemma ends_value_stops:
  assumes "ends_value r"
  shows "takeWhile is_digit r = []" "dropWhile is_digit r = r" "frac_part r = ([], r)" "exp_part r = ([], r)"
  using assms by (cases r; auto simp: ends_value_def is_digit_def frac_part_def exp_part_def)+

lemma int_part_nat_str: "ends_value r \<Longrightarrow> int_part (nat_str n @ r) = (nat_str n, r)"
proof -
  assume r: "ends_value r"
  obtain c cs where ns: "nat_str n = c # cs" by (cases "nat_str n") auto
  show ?thesis
  proof (cases "n = 0")
    case True
    moreover have "nat_str 0 = ''0''" by code_simp
    ultimately have "nat_str n = ''0''" by simp
    then show ?thesis by (simp add: int_part_def)
  next
    case False
    then have "c \<noteq> CHR ''0''" using nat_str_digits [of n] ns by simp
    moreover have "takeWhile is_digit (nat_str n @ r) = nat_str n" "dropWhile is_digit (nat_str n @ r) = r"
      using nat_str_digits [of n] ends_value_stops(1,2) [OF r] by (simp_all add: takeWhile_append2 dropWhile_append2 list_all_iff)
    ultimately show ?thesis using ns by (simp add: int_part_def)
  qed
qed

lemma hd_nat_str_digit: "is_digit (hd (nat_str n))"
  using nat_str_digits [of n] by (cases "nat_str n") auto

lemma json_number_int: "ends_value r \<Longrightarrow> json_number cf (int_str i @ r) = Some (PInt i, r)"
proof -
  assume r: "ends_value r"
  obtain c cs where ns: "nat_str (nat i) = c # cs" by (cases "nat_str (nat i)") auto
  have "c \<noteq> CHR ''-''" using hd_nat_str_digit [of "nat i"] ns by (auto simp: is_digit_def)
  moreover have "digits_value (c # cs) = nat i" using nat_str_digits [of "nat i"] ns by simp
  ultimately show ?thesis
    using r ns int_part_nat_str [OF r, of "nat i"] int_part_nat_str [OF r, of "nat (- i)"]
    by (auto simp: json_number_def int_str_def ends_value_stops nat_str_digits)
qed

lemma startswith_hd: "p \<noteq> [] \<Longrightarrow> s \<noteq> [] \<Longrightarrow> hd s \<noteq> hd p \<Longrightarrow> \<not> startswith s p"
  by (cases s; cases p) (auto simp: startswith_def)

lemma json_const_int: "ends_value r \<Longrightarrow> json_const cf (int_str i @ r) = Some (PInt i, r)"
proof -
  assume r: "ends_value r"
  let ?s = "int_str i @ r"
  have hd: "is_digit (hd ?s) \<or> hd ?s = CHR ''-''" and ne: "?s \<noteq> []"
    using hd_nat_str_digit by (auto simp: int_str_def)
  have no: "hd ?s \<notin> {CHR ''n'', CHR ''t'', CHR ''f'', CHR ''N'', CHR ''I''}" using hd by (auto simp: is_digit_def)
  have "\<not> startswith ?s ''-Infinity''"
  proof (cases "i < 0")
    case True
    then have "?s = CHR ''-'' # (nat_str (nat (- i)) @ r)" by (simp add: int_str_def)
    moreover have "hd (nat_str (nat (- i)) @ r) \<noteq> CHR ''I''" using hd_nat_str_digit [of "nat (- i)"] by (auto simp: is_digit_def)
    ultimately show ?thesis by (cases "nat_str (nat (- i))") (auto simp: startswith_def)
  next
    case False
    have "hd ?s \<noteq> CHR ''-''" using False hd_nat_str_digit [of "nat i"] by (auto simp: int_str_def is_digit_def)
    then show ?thesis using startswith_hd [OF _ ne, of "''-Infinity''"] by simp
  qed
  moreover have "\<not> startswith ?s ''null''" "\<not> startswith ?s ''true''" "\<not> startswith ?s ''false''" "\<not> startswith ?s ''NaN''"
      "\<not> startswith ?s ''Infinity''"
    using no startswith_hd [OF _ ne, of "''null''"] startswith_hd [OF _ ne, of "''true''"] startswith_hd [OF _ ne, of "''false''"]
      startswith_hd [OF _ ne, of "''NaN''"] startswith_hd [OF _ ne, of "''Infinity''"] by simp_all
  ultimately show ?thesis using json_number_int [OF r] by (simp add: json_const_def)
qed

section \<open>The round trip\<close>

text \<open>The values that JSON keeps: no floats, and no key twice in a dictionary.\<close>

fun json_plain :: "pyval \<Rightarrow> bool" where
  "json_plain (PFloat q s) = False"
| "json_plain (PList xs) = (\<forall>x\<in>set xs. json_plain x)"
| "json_plain (PDict d) = (distinct (map fst d) \<and> (\<forall>x\<in>set d. json_plain (snd x)))"
| "json_plain v = True"

fun jsize :: "pyval \<Rightarrow> nat" and jsizes :: "pyval list \<Rightarrow> nat" and jsized :: "pydict \<Rightarrow> nat" where
  "jsize (PList xs) = Suc (jsizes xs)"
| "jsize (PDict d) = Suc (jsized d)"
| "jsize v = 1"
| "jsizes [] = 0"
| "jsizes (x # xs) = Suc (jsize x + jsizes xs)"
| "jsized [] = 0"
| "jsized ((k, v) # d) = Suc (jsize v + jsized d)"

lemma object_dict_distinct: "distinct (map fst d) \<Longrightarrow> object_dict d = d"
proof -
  have "distinct (map fst (e @ d)) \<Longrightarrow> foldl (\<lambda>d (k, v). AList.update k v d) e d = e @ d" for e
  proof (induction d arbitrary: e)
    case (Cons x d)
    obtain k v where x: "x = (k, v)" by fastforce
    have "AList.update k v e = e @ [(k, v)]" using Cons.prems x by (induction e) auto
    with Cons.IH [of "e @ [(k, v)]"] Cons.prems x show ?case by simp
  qed simp
  from this [of "[]"] show "distinct (map fst d) \<Longrightarrow> object_dict d = d" by (simp add: object_dict_def)
qed

lemma not_ws: "\<not> json_ws dquote" "\<not> json_ws (CHR ''['')" "\<not> json_ws (CHR ''{'')" "\<not> json_ws (CHR '']'')" "\<not> json_ws (CHR ''}'')"
    "\<not> json_ws (CHR '','')" "\<not> json_ws (CHR '':'')" "\<not> json_ws (CHR ''n'')" "\<not> json_ws (CHR ''t'')" "\<not> json_ws (CHR ''f'')"
    "\<not> json_ws (CHR ''-'')"
  by code_simp+

lemma skip_ws_append: "\<forall>c\<in>set sp. json_ws c \<Longrightarrow> skip_ws (sp @ s) = skip_ws s"
  by (simp add: skip_ws_def dropWhile_append2)

lemma skip_ws_hd: "s = [] \<or> \<not> json_ws (hd s) \<Longrightarrow> skip_ws s = s"
  by (cases s) (auto simp: skip_ws_def)

text \<open>The first character of a printed value: never white space nor a closing bracket.\<close>

definition value_start :: "char \<Rightarrow> bool" where
  "value_start c \<longleftrightarrow> \<not> json_ws c \<and> c \<noteq> CHR '']'' \<and> c \<noteq> CHR ''}'' \<and> c \<noteq> CHR '',''"

lemma value_start_digit: "is_digit c \<Longrightarrow> value_start c"
  by (auto simp: value_start_def is_digit_def json_ws_def Let_def)

lemma value_starts: "json_plain v \<Longrightarrow> json_print sp esc v \<noteq> [] \<and> value_start (hd (json_print sp esc v))"
proof -
  have "dquote \<noteq> CHR '']''" "dquote \<noteq> CHR ''}''" "dquote \<noteq> CHR '',''" by code_simp+
  moreover have "int_str i \<noteq> [] \<and> value_start (hd (int_str i))" for i
    using value_start_digit [OF hd_nat_str_digit] not_ws by (auto simp: int_str_def value_start_def)
  ultimately show "json_plain v \<Longrightarrow> json_print sp esc v \<noteq> [] \<and> value_start (hd (json_print sp esc v))"
    using not_ws by (cases v) (auto simp: quoted_def value_start_def)
qed

lemma join_start: "(\<forall>x\<in>set xs. x \<noteq> [] \<and> value_start (hd x)) \<Longrightarrow> xs \<noteq> [] \<Longrightarrow> join sep xs \<noteq> [] \<and> value_start (hd (join sep xs))"
  by (cases xs; cases "tl xs") auto

lemma take1: "s \<noteq> [] \<Longrightarrow> take 1 (s @ r) = [hd s]"
  by (cases s) auto

lemma json_const_literals:
  "json_const cf (''null'' @ r) = Some (PNone, r)" "json_const cf (''true'' @ r) = Some (PBool True, r)"
  "json_const cf (''false'' @ r) = Some (PBool False, r)"
  by (simp_all add: json_const_def startswith_def)

lemma value_start_not_bracket: "is_digit c \<or> c = CHR ''-'' \<Longrightarrow> c \<noteq> dquote \<and> c \<noteq> CHR ''['' \<and> c \<noteq> CHR ''{''"
proof -
  have "CHR ''-'' \<noteq> dquote" "\<not> is_digit dquote" "\<not> is_digit (CHR ''['')" "\<not> is_digit (CHR ''{'')" by code_simp+
  then show "is_digit c \<or> c = CHR ''-'' \<Longrightarrow> c \<noteq> dquote \<and> c \<noteq> CHR ''['' \<and> c \<noteq> CHR ''{''" by auto
qed

lemma json_value_scalar:
  assumes "s = c # cs" "c \<noteq> dquote" "c \<noteq> CHR ''[''" "c \<noteq> CHR ''{''" "0 < n"
  shows "json_value cf n s = json_const cf s"
  using assms by (cases n) auto

lemma json_value_int:
  assumes "ends_value r" "0 < n"
  shows "json_value cf n (int_str i @ r) = Some (PInt i, r)"
proof -
  have ne: "int_str i \<noteq> []" and hd: "is_digit (hd (int_str i)) \<or> hd (int_str i) = CHR ''-''"
    using hd_nat_str_digit by (auto simp: int_str_def)
  then obtain c cs where c: "int_str i @ r = c # cs" "c = hd (int_str i)" by (cases "int_str i") auto
  with hd json_value_scalar [OF c(1) _ _ _ assms(2)] value_start_not_bracket json_const_int [OF assms(1)] show ?thesis by metis
qed

lemma literal_starts: "CHR ''n'' \<noteq> dquote" "CHR ''t'' \<noteq> dquote" "CHR ''f'' \<noteq> dquote" "CHR ''['' \<noteq> dquote" "CHR ''{'' \<noteq> dquote"
  by code_simp+

lemma json_list_starts:
  "\<forall>x\<in>set xs. json_plain x \<Longrightarrow> \<forall>t\<in>set (json_print_list sp esc xs). t \<noteq> [] \<and> value_start (hd t)"
  by (induction xs) (auto simp: value_starts)

lemma json_dict_starts: "\<forall>t\<in>set (json_print_dict sp esc d). t \<noteq> [] \<and> value_start (hd t)"
proof -
  have "value_start dquote" by code_simp
  then show ?thesis by (induction d) (auto simp: quoted_def)
qed

lemma json_list_nil [simp]: "json_print_list sp esc xs = [] \<longleftrightarrow> xs = []" "json_print_dict sp esc d = [] \<longleftrightarrow> d = []"
  by (cases xs; simp) (cases d; auto)

lemma json_round_trip_value:
  shows "json_plain v \<Longrightarrow> ends_value r \<Longrightarrow> jsize v \<le> n \<Longrightarrow> esc_ok esc \<Longrightarrow> \<forall>c\<in>set sp. json_ws c \<Longrightarrow> json_value cf n (json_print sp esc v @ r) = Some (v, r)"
    and "\<forall>x\<in>set xs. json_plain x \<Longrightarrow> xs \<noteq> [] \<Longrightarrow> jsizes xs \<le> n \<Longrightarrow> esc_ok esc \<Longrightarrow> \<forall>c\<in>set sp. json_ws c \<Longrightarrow>
      json_elems cf n (join ('','' @ sp) (json_print_list sp esc xs) @ CHR '']'' # r) = Some (xs, r)"
    and "\<forall>x\<in>set d. json_plain (snd x) \<Longrightarrow> d \<noteq> [] \<Longrightarrow> jsized d \<le> n \<Longrightarrow> esc_ok esc \<Longrightarrow> \<forall>c\<in>set sp. json_ws c \<Longrightarrow>
      json_members cf n (join ('','' @ sp) (json_print_dict sp esc d) @ CHR ''}'' # r) = Some (d, r)"
proof (induction sp esc v and sp esc xs and sp esc d arbitrary: r n and r n and r n rule: json_print_json_print_list_json_print_dict.induct)
  case (1 sp esc)
  then show ?case using json_value_scalar [of "''null'' @ r"] json_const_literals(1) by (simp add: literal_starts)
next
  case (2 sp esc b)
  then show ?case
    using json_value_scalar [of "''true'' @ r"] json_value_scalar [of "''false'' @ r"] json_const_literals(2,3)
    by (cases b) (simp_all add: literal_starts)
next
  case (3 sp esc i)
  then show ?case by (simp add: json_value_int)
next
  case (5 sp esc s)
  then show ?case by (cases n) (simp_all add: quoted_def json_string_text)
next
  case (6 sp esc xs)
  then obtain m where n: "n = Suc m" "jsizes xs \<le> m" by (cases n) auto
  show ?case
  proof (cases "xs = []")
    case True
    then show ?thesis using "6.prems" n by (simp add: literal_starts skip_ws_hd not_ws)
  next
    case False
    let ?t = "join ('','' @ sp) (json_print_list sp esc xs)"
    have st: "?t \<noteq> []" "value_start (hd ?t)" using join_start json_list_starts False 6 by auto
    then have sk: "skip_ws (?t @ CHR '']'' # r) = ?t @ CHR '']'' # r" "take 1 (?t @ CHR '']'' # r) \<noteq> '']''"
      using skip_ws_hd [of "?t @ CHR '']'' # r"] take1 [of ?t] by (auto simp: value_start_def hd_append)
    show ?thesis using "6.prems" n False 6(1) [OF _ False n(2), of r] 6(2) sk by (simp add: literal_starts)
  qed
next
  case (7 sp esc d)
  then obtain m where n: "n = Suc m" "jsized d \<le> m" by (cases n) auto
  show ?case
  proof (cases "d = []")
    case True
    then show ?thesis using "7.prems" n by (simp add: literal_starts skip_ws_hd not_ws)
  next
    case False
    let ?t = "join ('','' @ sp) (json_print_dict sp esc d)"
    have st: "?t \<noteq> []" "value_start (hd ?t)" using join_start json_dict_starts False by auto
    then have sk: "skip_ws (?t @ CHR ''}'' # r) = ?t @ CHR ''}'' # r" "take 1 (?t @ CHR ''}'' # r) \<noteq> ''}''"
      using skip_ws_hd [of "?t @ CHR ''}'' # r"] take1 [of ?t] by (auto simp: value_start_def hd_append)
    show ?thesis using "7.prems" n False 7(1) [OF _ False n(2), of r] 7(2) sk by (simp add: literal_starts object_dict_distinct)
  qed
next
  case (9 sp esc x xs)
  then obtain m where n: "n = Suc m" "jsize x \<le> m" "jsizes xs \<le> m" by (cases n) auto
  show ?case
  proof (cases "xs = []")
    case True
    then show ?thesis using "9.prems" n 9(1) [of "CHR '']'' # r" m] 9(3) by (simp add: ends_value_def skip_ws_hd not_ws)
  next
    case False
    let ?t = "join ('','' @ sp) (json_print_list sp esc xs)"
    have st: "?t \<noteq> []" "value_start (hd ?t)" using join_start json_list_starts False 9(3) by auto
    then have "skip_ws (?t @ CHR '']'' # r) = ?t @ CHR '']'' # r"
      using skip_ws_hd [of "?t @ CHR '']'' # r"] by (auto simp: value_start_def hd_append)
    then show ?thesis
      using "9.prems" n False 9(1) [of "CHR '','' # sp @ ?t @ CHR '']'' # r" m] 9(2) [OF _ False n(3), of r] 9(3)
      by (simp add: join_Cons ends_value_def skip_ws_hd skip_ws_append not_ws)
  qed
next
  case (11 sp esc k v d)
  then obtain m where n: "n = Suc m" "jsize v \<le> m" "jsized d \<le> m" by (cases n) auto
  have v: "json_plain v" using 11(3) by simp
  have sk: "skip_ws (json_print sp esc v @ s) = json_print sp esc v @ s" for s
    using value_starts [OF v] skip_ws_hd [of "json_print sp esc v @ s"] by (auto simp: value_start_def hd_append)
  show ?case
  proof (cases "d = []")
    case True
    then show ?thesis using "11.prems" n v sk 11(1) [of "CHR ''}'' # r" m]
      by (simp add: quoted_def json_string_text ends_value_def skip_ws_hd skip_ws_append not_ws)
  next
    case False
    let ?t = "join ('','' @ sp) (json_print_dict sp esc d)"
    have st: "?t \<noteq> []" "value_start (hd ?t)" using join_start json_dict_starts False by auto
    then have "skip_ws (?t @ CHR ''}'' # r) = ?t @ CHR ''}'' # r"
      using skip_ws_hd [of "?t @ CHR ''}'' # r"] by (auto simp: value_start_def hd_append)
    then show ?thesis
      using "11.prems" n v False sk 11(1) [of "CHR '','' # sp @ ?t @ CHR ''}'' # r" m] 11(2) [OF _ False n(3), of r] 11(3)
      by (simp add: join_Cons quoted_def json_string_text ends_value_def skip_ws_hd skip_ws_append not_ws)
  qed
qed simp_all

lemma jsize_le:
  shows "json_plain v \<Longrightarrow> jsize v \<le> length (json_print sp esc v)"
    and "\<forall>x\<in>set xs. json_plain x \<Longrightarrow> jsizes xs \<le> Suc (length (join ('','' @ sp) (json_print_list sp esc xs)))"
    and "\<forall>x\<in>set d. json_plain (snd x) \<Longrightarrow> jsized d \<le> Suc (length (join ('','' @ sp) (json_print_dict sp esc d)))"
proof (induction sp esc v and sp esc xs and sp esc d rule: json_print_json_print_list_json_print_dict.induct)
  case (3 sp esc i)
  then show ?case by (cases "int_str i") (auto simp: int_str_def split: if_splits)
next
  case (5 sp esc s)
  then show ?case by (simp add: quoted_def)
next
  case (9 sp esc x xs)
  then show ?case by (cases "xs = []") (simp_all add: join_Cons)
next
  case (11 sp esc k v d)
  then show ?case by (cases "d = []") (simp_all add: join_Cons)
qed simp_all

theorem json_round_trip: "json_plain v \<Longrightarrow> esc_ok esc \<Longrightarrow> \<forall>c\<in>set sp. json_ws c \<Longrightarrow> json_loads cf (json_print sp esc v) = Some v"
proof -
  assume v: "json_plain v" and e: "esc_ok esc" and sp: "\<forall>c\<in>set sp. json_ws c"
  have "skip_ws (json_print sp esc v) = json_print sp esc v"
    using value_starts [OF v] skip_ws_hd by (auto simp: value_start_def)
  moreover have "json_value cf (Suc (length (json_print sp esc v))) (json_print sp esc v @ []) = Some (v, [])"
    by (rule json_round_trip_value(1) [OF v _ le_SucI [OF jsize_le(1) [OF v]] e sp]) (simp add: ends_value_def)
  ultimately show ?thesis by (simp add: json_loads_def skip_ws_def del: json_value.simps)
qed

section \<open>Numbers in keys\<close>

text \<open>Keys of Redis join numbers and texts with colons; the number can be read back.\<close>

lemma int_str_no_colon: "CHR '':'' \<notin> set (int_str i)"
proof -
  have "CHR '':'' \<notin> set (nat_str n)" for n
    using nat_str_digits [of n] by (auto simp: list_all_iff is_digit_def)
  then show ?thesis by (auto simp: int_str_def)
qed

lemma nat_str_inj: "nat_str m = nat_str n \<Longrightarrow> m = n"
  by (metis nat_str_digits)

lemma int_str_inj: "int_str i = int_str j \<Longrightarrow> i = j"
proof -
  have "hd (nat_str n) \<noteq> CHR ''-''" for n using hd_nat_str_digit [of n] by (auto simp: is_digit_def)
  then show "int_str i = int_str j \<Longrightarrow> i = j"
    by (auto simp: int_str_def dest!: nat_str_inj split: if_splits) (metis list.sel(1))+
qed

lemma sep_unique: "c \<notin> set a \<Longrightarrow> c \<notin> set b \<Longrightarrow> a @ c # x = b @ c # y \<longleftrightarrow> a = b \<and> x = y"
proof (induction a arbitrary: b)
  case Nil
  then show ?case by (cases b) auto
next
  case (Cons d a)
  then show ?case by (cases b) auto
qed

end
