(* ===== verification/Dedupe.thy ===== *)
theory Dedupe
  imports Redis_Client Routing_Engine Py_Json
begin

text \<open>
  Idempotency and suppression over the shared Redis store: \<open>collectors/state/dedupe.py\<close> (message ids, claims and
  their release, signature suppression), the per-event suppression decision \<open>_maybe_suppress\<close> and the
  per-stream collection lock of \<open>collectors/pipeline.py\<close>. \<open>None\<close> as the result of an operation that talks to
  Redis is the \<open>RedisError\<close> it lets through.
\<close>

section \<open>Time to live\<close>

definition default_ttl_seconds :: int where "default_ttl_seconds = 86400"
definition min_ttl_seconds :: int where "min_ttl_seconds = 4 * 3600"
definition max_ttl_seconds :: int where "max_ttl_seconds = 31 * 86400"

definition clamp_ttl_seconds :: "pyval \<Rightarrow> int" where
  "clamp_ttl_seconds seconds =
     (case py_int seconds of
        None \<Rightarrow> default_ttl_seconds
      | Some value \<Rightarrow>
          if value \<le> 0 then default_ttl_seconds
          else max min_ttl_seconds (min value max_ttl_seconds))"

section \<open>Message identity\<close>

definition id_candidates :: "string list" where
  "id_candidates = [''id'', ''alertId'', ''eventId'', ''uuid'', ''incidentId'']"

definition id_present :: "pydict \<Rightarrow> string \<Rightarrow> bool" where
  "id_present event c \<longleftrightarrow> dget event c \<noteq> PNone \<and> dget event c \<noteq> PStr []"

definition compute_message_id :: "pydict \<Rightarrow> string list \<Rightarrow> string" where
  "compute_message_id event fallback_fields =
     (case find (id_present event) id_candidates of
        Some c \<Rightarrow> py_str (dget event c)
      | None \<Rightarrow>
          (let fields = (if fallback_fields \<noteq> [] then fallback_fields else sort (map fst event));
               blob = json_dumps (PDict (foldl (\<lambda>d k. AList.update k (dget event k) d) [] fields))
           in sha256_hex blob))"

section \<open>Claims\<close>

definition dedupe_key :: "int \<Rightarrow> string \<Rightarrow> string" where
  "dedupe_key integration_id message_id = ''dedupe:'' @ int_str integration_id @ '':'' @ message_id"

definition claim_ttl :: "int option \<Rightarrow> int option \<Rightarrow> nat" where
  "claim_ttl ttl_days ttl_seconds =
     nat (clamp_ttl_seconds (PInt
       (case ttl_seconds of
          Some n \<Rightarrow> n
        | None \<Rightarrow> (case ttl_days of Some n \<Rightarrow> n * 86400 | None \<Rightarrow> default_ttl_seconds))))"

definition claim ::
  "'s redis \<Rightarrow> nat \<Rightarrow> int \<Rightarrow> string \<Rightarrow> int option \<Rightarrow> int option \<Rightarrow> 's \<Rightarrow> bool option \<times> 's" where
  "claim rd t integration_id message_id ttl_days ttl_seconds s =
     rd_set_nx rd t (dedupe_key integration_id message_id) ''1'' (claim_ttl ttl_days ttl_seconds) s"

definition release :: "'s redis \<Rightarrow> nat \<Rightarrow> int \<Rightarrow> string \<Rightarrow> 's \<Rightarrow> unit option \<times> 's" where
  "release rd t integration_id message_id s = rd_delete rd t [dedupe_key integration_id message_id] s"

definition release_many :: "'s redis \<Rightarrow> nat \<Rightarrow> int \<Rightarrow> string list \<Rightarrow> 's \<Rightarrow> nat option \<times> 's" where
  "release_many rd t integration_id message_ids s =
     (let ids = filter (\<lambda>m. m \<noteq> []) message_ids in
      if ids = [] then (Some 0, s)
      else case rd_delete rd t (map (dedupe_key integration_id) ids) s of
             (r, s') \<Rightarrow> (map_option (\<lambda>_. length ids) r, s'))"

section \<open>Suppression by signature\<close>

definition suppress_parts :: "pydict \<Rightarrow> string \<Rightarrow> string list" where
  "suppress_parts labels suppress_key =
     map (\<lambda>k. py_str (dget_default labels (strip k) (PStr [])))
       (filter (\<lambda>k. strip k \<noteq> []) (split_on (CHR '','') suppress_key))"

definition suppress_signature :: "pydict \<Rightarrow> string option \<Rightarrow> string option" where
  "suppress_signature labels suppress_key =
     (let parts = suppress_parts labels (case suppress_key of None \<Rightarrow> [] | Some k \<Rightarrow> k) in
      if parts = [] \<or> \<not> list_ex (\<lambda>p. p \<noteq> []) parts then None
      else Some (take 16 (sha256_hex (join ''|'' parts))))"

definition suppress_redis_key :: "string \<Rightarrow> string \<Rightarrow> string" where
  "suppress_redis_key route_id signature = ''cops:suppress:'' @ route_id @ '':'' @ signature"

definition claim_suppress ::
  "'s redis \<Rightarrow> nat \<Rightarrow> nat \<Rightarrow> string \<Rightarrow> string \<Rightarrow> int \<Rightarrow> int \<Rightarrow> 's \<Rightarrow> (bool \<times> int) option \<times> 's" where
  "claim_suppress rd t1 t2 route_id signature allow window_s s =
     (if allow \<le> 0 then (Some (True, 0), s)
      else case rd_incr rd t1 (suppress_redis_key route_id signature) s of
             (None, s1) \<Rightarrow> (None, s1)
           | (Some count, s1) \<Rightarrow>
               if count = 1
               then (case rd_expire rd t2 (suppress_redis_key route_id signature) (nat (max window_s 1)) s1 of
                       (None, s2) \<Rightarrow> (None, s2)
                     | (Some _, s2) \<Rightarrow> (Some (count \<le> allow, count), s2))
               else (Some (count \<le> allow, count), s1))"

text \<open>\<open>_maybe_suppress\<close>: the route that suppresses the event or \<open>None\<close>, and the envelope to deliver.\<close>

definition with_suppress_count :: "pydict \<Rightarrow> int \<Rightarrow> pydict" where
  "with_suppress_count envelope count =
     AList.update ''_centralops'' (PDict (AList.update ''suppress_count'' (PInt count) (event_labels envelope))) envelope"

fun maybe_suppress ::
  "'s redis \<Rightarrow> nat \<Rightarrow> nat \<Rightarrow> pydict \<Rightarrow> compiled_route list \<Rightarrow> 's \<Rightarrow> string option \<times> pydict \<times> 's" where
  "maybe_suppress rd t1 t2 envelope [] s = (None, envelope, s)"
| "maybe_suppress rd t1 t2 envelope (r # rs) s =
     (if \<not> matches (r_condition r) (event_labels envelope) then maybe_suppress rd t1 t2 envelope rs s
      else case suppress_signature (event_labels envelope) (r_suppress_key r) of
             None \<Rightarrow> (None, envelope, s)
           | Some sig \<Rightarrow>
               (case claim_suppress rd t1 t2 (r_id r) sig (r_suppress_allow r) (r_suppress_window_s r) s of
                  (None, s') \<Rightarrow> (None, envelope, s')
                | (Some (keep, count), s') \<Rightarrow>
                    if \<not> keep then (Some (r_id r), envelope, s')
                    else (None, with_suppress_count envelope count, s')))"

section \<open>The collection lock\<close>

definition collect_lock_key :: "int \<Rightarrow> string \<Rightarrow> string" where
  "collect_lock_key integration_id stream = ''collect:lock:'' @ int_str integration_id @ '':'' @ stream"

text \<open>The cadence is that of the stream's registration; \<open>None\<close> when the platform or the registration cannot
  be resolved.\<close>

definition collect_lock_ttl_seconds :: "int option \<Rightarrow> int" where
  "collect_lock_ttl_seconds cadence =
     (case cadence of None \<Rightarrow> 15 * 60 + 60 | Some c \<Rightarrow> max 60 (min (c * 3) (15 * 60 + 60)))"

datatype collect_entry = RunWithLock | RunWithoutLock | SkipLocked

definition collect_acquire ::
  "'s redis \<Rightarrow> nat \<Rightarrow> string \<Rightarrow> string \<Rightarrow> int option \<Rightarrow> 's \<Rightarrow> collect_entry \<times> 's" where
  "collect_acquire rd t lock_key token cadence s =
     (case rd_set_nx rd t lock_key token (nat (collect_lock_ttl_seconds cadence)) s of
        (None, s') \<Rightarrow> (RunWithoutLock, s')
      | (Some True, s') \<Rightarrow> (RunWithLock, s')
      | (Some False, s') \<Rightarrow> (SkipLocked, s'))"

text \<open>\<open>run_collection_once\<close>: the cycle is a parameter on the rest of the world; the release compares the
  token and its failure is ignored. The \<open>finally\<close> block runs it also when the lock was taken by another
  cycle, where the comparison makes it harmless.\<close>

definition run_collection_once ::
  "'s redis \<Rightarrow> ('w \<Rightarrow> 'w) \<Rightarrow> nat \<Rightarrow> nat \<Rightarrow> string \<Rightarrow> string \<Rightarrow> int option \<Rightarrow> 's \<times> 'w \<Rightarrow> 's \<times> 'w" where
  "run_collection_once rd cycle t1 t2 lock_key token cadence sw =
     (case sw of (s, w) \<Rightarrow>
      (case collect_acquire rd t1 lock_key token cadence s of
         (SkipLocked, s1) \<Rightarrow> (snd (rd_get_del rd t2 lock_key token s1), w)
       | (RunWithoutLock, s1) \<Rightarrow> (s1, cycle w)
       | (RunWithLock, s1) \<Rightarrow> (snd (rd_get_del rd t2 lock_key token s1), cycle w)))"

section \<open>Claims and locks on a lawful store\<close>

text \<open>What workers do with the keys of this module, and the commands the operations of the code send for it. The body of a
  cycle does not touch its lock.\<close>

datatype dedupe_op =
    Op_Claim nat int string "int option" "int option"
  | Op_Release nat int string
  | Op_Release_Many nat int "string list"
  | Op_Suppress nat nat string string int int
  | Op_Cycle nat nat int string string "int option"

fun dedupe_log :: "answers \<Rightarrow> dedupe_op \<Rightarrow> redis_cmd list" where
  "dedupe_log an (Op_Claim t i m days secs) = snd (claim (recording an) t i m days secs [])"
| "dedupe_log an (Op_Release t i m) = snd (release (recording an) t i m [])"
| "dedupe_log an (Op_Release_Many t i ms) = snd (release_many (recording an) t i ms [])"
| "dedupe_log an (Op_Suppress t1 t2 rid sig allow w) = snd (claim_suppress (recording an) t1 t2 rid sig allow w [])"
| "dedupe_log an (Op_Cycle t1 t2 i stream token cadence) =
     fst (run_collection_once (recording an) (\<lambda>w. w) t1 t2 (collect_lock_key i stream) token cadence ([], ()))"

fun gives_back :: "int \<Rightarrow> string \<Rightarrow> dedupe_op \<Rightarrow> bool" where
  "gives_back i m (Op_Release _ i' m') \<longleftrightarrow> i' = i \<and> m' = m"
| "gives_back i m (Op_Release_Many _ i' ms) \<longleftrightarrow> i' = i \<and> m \<in> set ms"
| "gives_back i m _ \<longleftrightarrow> False"

text \<open>Run on a store, an operation is the trace of the commands it sends.\<close>

lemma claim_is_trace:
  "claim rd t i m days secs s = (r, s') \<Longrightarrow> now \<le> t \<Longrightarrow>
   \<exists>an. fst (claim (recording an) t i m days secs []) = r \<and> redis_trace rd (now, s) (dedupe_log an (Op_Claim t i m days secs)) (t, s')"
  by (rule exI [of _ "constant_answers None r None None None None None None"])
     (auto simp: claim_def intro: trace_cons [OF step_set_nx trace_nil])

lemma release_is_trace:
  "release rd t i m s = (r, s') \<Longrightarrow> now \<le> t \<Longrightarrow> redis_trace rd (now, s) (dedupe_log an (Op_Release t i m)) (t, s')"
  by (auto simp: release_def intro: trace_cons [OF step_delete trace_nil])

text \<open>Keys of different events, signatures and streams are different.\<close>

lemma dedupe_key_inj [simp]: "dedupe_key i m = dedupe_key j n \<longleftrightarrow> i = j \<and> m = n"
  using int_str_no_colon [of i] int_str_no_colon [of j] int_str_inj [of i j] by (auto simp: dedupe_key_def sep_unique)

lemma collect_lock_key_inj [simp]: "collect_lock_key i s = collect_lock_key j t \<longleftrightarrow> i = j \<and> s = t"
  using int_str_no_colon [of i] int_str_no_colon [of j] int_str_inj [of i j] by (auto simp: collect_lock_key_def sep_unique)

lemma module_keys_distinct [simp]:
  "dedupe_key i m \<noteq> suppress_redis_key r g" "suppress_redis_key r g \<noteq> dedupe_key i m"
  "dedupe_key i m \<noteq> collect_lock_key j s" "collect_lock_key j s \<noteq> dedupe_key i m"
  "collect_lock_key j s \<noteq> suppress_redis_key r g" "suppress_redis_key r g \<noteq> collect_lock_key j s"
  by (simp_all add: dedupe_key_def suppress_redis_key_def collect_lock_key_def)

lemma dedupe_log_keeps_claim:
  "c \<in> set (dedupe_log an op) \<Longrightarrow> \<not> gives_back i m op \<Longrightarrow> \<not> ends_token (dedupe_key i m) v c"
  by (cases op) (auto simp: claim_def release_def release_many_def claim_suppress_def run_collection_once_def collect_acquire_def
      Let_def split: option.splits bool.splits if_splits)

lemma dedupe_log_keeps_lock:
  "c \<in> set (dedupe_log an op) \<Longrightarrow> \<forall>t1 t2 cad. op \<noteq> Op_Cycle t1 t2 i stream token cad \<Longrightarrow>
   \<not> ends_token (collect_lock_key i stream) token c"
  by (cases op) (auto simp: claim_def release_def release_many_def claim_suppress_def run_collection_once_def collect_acquire_def
      Let_def split: option.splits bool.splits if_splits)

lemma clamp_range: "min_ttl_seconds \<le> clamp_ttl_seconds v \<and> clamp_ttl_seconds v \<le> max_ttl_seconds"
  by (auto simp: clamp_ttl_seconds_def min_ttl_seconds_def max_ttl_seconds_def default_ttl_seconds_def
      split: option.splits)

lemma claim_ttl_min: "14400 \<le> claim_ttl days secs"
proof -
  have "14400 = nat min_ttl_seconds" by (simp add: min_ttl_seconds_def)
  also have "\<dots> \<le> claim_ttl days secs" unfolding claim_ttl_def using clamp_range by (blast intro: nat_mono)
  finally show ?thesis .
qed

section \<open>Runs of suppression claims\<close>

fun suppress_run ::
  "'s redis \<Rightarrow> string \<Rightarrow> string \<Rightarrow> int \<Rightarrow> int \<Rightarrow> (nat \<times> nat) list \<Rightarrow> 's \<Rightarrow> (bool \<times> int) option list \<times> 's" where
  "suppress_run rd rid sig allow w [] s = ([], s)"
| "suppress_run rd rid sig allow w ((t1, t2) # ts) s =
     (case claim_suppress rd t1 t2 rid sig allow w s of (r, s1) \<Rightarrow>
      (case suppress_run rd rid sig allow w ts s1 of (rs, s2) \<Rightarrow> (r # rs, s2)))"

fun ordered_until :: "nat \<Rightarrow> nat \<Rightarrow> (nat \<times> nat) list \<Rightarrow> bool" where
  "ordered_until now e [] = True"
| "ordered_until now e ((t1, t2) # ts) = (now \<le> t1 \<and> t1 \<le> t2 \<and> t1 < e \<and> ordered_until t2 e ts)"

context redis_laws
begin

definition counter_held :: "string \<Rightarrow> int \<Rightarrow> nat \<Rightarrow> nat \<Rightarrow> 's \<Rightarrow> bool" where
  "counter_held k c now e s \<longleftrightarrow> (\<forall>t\<ge>now. t < e \<longrightarrow> live s t k = Some (RNum c))"

lemma suppress_counted:
  assumes "suppress_run rd rid sig allow w ts s = (rs, s')" "None \<notin> set rs" "0 < allow" "1 \<le> c"
    and "ordered_until now e ts" "counter_held (suppress_redis_key rid sig) c now e s"
  shows "rs = map (\<lambda>i. Some (c + int i + 1 \<le> allow, c + int i + 1)) [0 ..< length ts]"
  using assms
proof (induction ts arbitrary: s rs c now)
  case (Cons p ts)
  let ?k = "suppress_redis_key rid sig"
  obtain t1 t2 where p: "p = (t1, t2)" by (cases p)
  obtain r s1 rs1 where r: "claim_suppress rd t1 t2 rid sig allow w s = (r, s1)"
      "suppress_run rd rid sig allow w ts s1 = (rs1, s')" "rs = r # rs1"
    using Cons.prems(1) by (auto simp: p split: prod.splits)
  have o: "now \<le> t1" "t1 \<le> t2" "t1 < e" "ordered_until t2 e ts" using Cons.prems(5) by (simp_all add: p)
  have l: "live s t1 ?k = Some (RNum c)" using Cons.prems(6) o by (simp add: counter_held_def)
  obtain n s2 where i: "rd_incr rd t1 ?k s = (n, s2)" by fastforce
  have "n \<noteq> None" using Cons.prems(2,3) r i by (cases n) (auto simp: claim_suppress_def)
  then have n: "n = Some (c + 1)"
    using incr_ok [of t1 ?k s _ s2 t1] i l by (auto simp: num_or_zero_def)
  have r': "r = Some (c + 1 \<le> allow, c + 1)" "s1 = s2"
    using r(1) i n Cons.prems(3,4) by (auto simp: claim_suppress_def)
  have "counter_held ?k (c + 1) t2 e s1"
    using incr_ok [OF i [unfolded n], of _ ?k] l Cons.prems(6) o(1,2) r'(2)
    by (auto simp: counter_held_def)
  from Cons.IH [OF r(2) _ Cons.prems(3) _ o(4) this] Cons.prems(2,4) r(3)
  have "rs1 = map (\<lambda>i. Some ((c + 1) + int i + 1 \<le> allow, (c + 1) + int i + 1)) [0 ..< length ts]" by simp
  then show ?case unfolding r(3) r'(1)
    by (simp add: upt_conv_Cons map_Suc_upt [symmetric] ac_simps del: upt_Suc)
qed simp

lemma first_suppress_claim:
  assumes "claim_suppress rd t1 t2 rid sig allow w s = (Some r, s1)" "0 < allow" "t1 \<le> t2"
    and "live s t1 (suppress_redis_key rid sig) = None"
  shows "r = (True, 1)" and "counter_held (suppress_redis_key rid sig) 1 t2 (t2 + 1000 * nat (max w 1)) s1"
proof -
  let ?k = "suppress_redis_key rid sig"
  obtain n s2 where i: "rd_incr rd t1 ?k s = (n, s2)" by fastforce
  have "n \<noteq> None" using assms(1,2) i by (cases n) (auto simp: claim_suppress_def)
  then have n: "n = Some 1" using incr_ok [of t1 ?k s _ s2 t1] i assms(4) by (auto simp: num_or_zero_def)
  obtain u where x: "rd_expire rd t2 ?k (nat (max w 1)) s2 = (Some u, s1)" "r = (True, 1)"
    using assms(1,2) i n by (auto simp: claim_suppress_def split: prod.splits option.splits)
  show "r = (True, 1)" by (rule x(2))
  have "live s2 t2 ?k = Some (RNum 1)"
    using incr_ok [OF i [unfolded n] assms(3), of ?k] assms(4) by simp
  with expire_ok [OF x(1), of _ ?k] show "counter_held ?k 1 t2 (t2 + 1000 * nat (max w 1)) s1"
    by (simp add: counter_held_def)
qed

end

section \<open>Properties\<close>

text \<open>C24: an event is claimed at most once per retention window. Any number of workers claim events, release claims, count
  signatures and run cycles, their commands interleaved in any way and Redis evicting keys at will. Then two claims of the
  same event of the same integration that both report success are at least four hours apart (the floor of the retention
  clamp, for whatever retention the caller asks), unless between them the claim was released or its own key evicted.\<close>

theorem dedupe_claim_exclusive:
  assumes laws: "redis_laws rd live"
    and first: "claim (recording an1) t1 i m days secs [] = (Some True, cs1 @ [c1])"
    and second: "claim (recording an2) t2 i m days2 secs2 [] = (Some True, cs2 @ [c2])"
    and trace: "redis_trace rd st (c1 # mid @ [c2]) st'"
    and workers: "\<forall>c\<in>set mid. (\<exists>an op. c \<in> set (dedupe_log an op) \<and> \<not> gives_back i m op) \<or> evicts_other (dedupe_key i m) c"
  shows "t1 + 1000 * claim_ttl days secs \<le> t2 \<and> t1 + 14400000 \<le> t2"
proof -
  have c: "c1 = RSetNx t1 (dedupe_key i m) ''1'' (claim_ttl days secs) (Some True)"
    "c2 = RSetNx t2 (dedupe_key i m) ''1'' (claim_ttl days2 secs2) (Some True)"
    using first second by (auto simp: claim_def)
  have "\<forall>c\<in>set mid. \<not> ends_token (dedupe_key i m) ''1'' c"
    using workers dedupe_log_keeps_claim evicts_other_keeps by meson
  from redis_laws.token_exclusive [OF laws trace [unfolded c] this] claim_ttl_min [of days secs] show ?thesis by linarith
qed

theorem dedupe_claim_exclusive_witness:
  "\<exists>st'. redis_trace ttl_redis (0, ts_empty)
      [RSetNx 5 (dedupe_key 1 ''m'') ''1'' (claim_ttl None (Some 1)) (Some True),
       RDelete 6 [dedupe_key 1 ''n''],
       RSetNx 20000000 (dedupe_key 1 ''m'') ''1'' (claim_ttl None None) (Some True)] st' \<and>
    (5::nat) + 14400000 \<le> 20000000"
proof -
  let ?an = "constant_answers None (Some True) None (Some ()) None None None None"
  have ttl: "claim_ttl None (Some 1) = 14400" "claim_ttl None None = 86400"
    by (simp_all add: claim_ttl_def clamp_ttl_seconds_def min_ttl_seconds_def max_ttl_seconds_def default_ttl_seconds_def)
  have trace: "redis_trace ttl_redis (0, ts_empty)
      (RSetNx 5 (dedupe_key 1 ''m'') ''1'' (claim_ttl None (Some 1)) (Some True) # [RDelete 6 [dedupe_key 1 ''n'']] @
       [RSetNx 20000000 (dedupe_key 1 ''m'') ''1'' (claim_ttl None None) (Some True)])
      (20000000, ts_put (dedupe_key 1 ''m'') (Some (RText ''1'', Some 106400000))
        (ts_put (dedupe_key 1 ''n'') None (ts_put (dedupe_key 1 ''m'') (Some (RText ''1'', Some 14400005)) ts_empty)))"
    unfolding ttl
    by (auto intro!: redis_trace.intros redis_step.intros simp: ts_eval ts_live_def ts_put_def fun_eq_iff)
  have claims: "claim (recording ?an) t 1 ''m'' days secs [] =
      (Some True, [] @ [RSetNx t (dedupe_key 1 ''m'') ''1'' (claim_ttl days secs) (Some True)])" for t days secs
    by (simp add: claim_def)
  have "RDelete 6 [dedupe_key 1 ''n''] \<in> set (dedupe_log ?an (Op_Release 6 1 ''n''))" by (simp add: release_def)
  then have workers: "\<forall>c\<in>set [RDelete 6 [dedupe_key 1 ''n'']]. (\<exists>an op. c \<in> set (dedupe_log an op) \<and> \<not> gives_back 1 ''m'' op) \<or>
      evicts_other (dedupe_key 1 ''m'') c"
    by (force simp: evicts_other_def)
  have "(5::nat) + 14400000 \<le> 20000000"
    using dedupe_claim_exclusive [OF ts.redis_laws_axioms claims claims trace workers] by simp
  with trace show ?thesis by auto
qed

text \<open>the retention clamp always yields between four hours and thirty-one days, keeps a requested value
  in that range, and takes the one-day default for anything that is not a positive integer.\<close>

theorem clamp_ttl_bounds:
  "14400 \<le> clamp_ttl_seconds v \<and> clamp_ttl_seconds v \<le> 2678400 \<and>
   clamp_ttl_seconds v =
     (if \<exists>n. py_int v = Some n \<and> 14400 \<le> n \<and> n \<le> 2678400 then the (py_int v)
      else if \<exists>n. py_int v = Some n \<and> 0 < n \<and> n < 14400 then 14400
      else if \<exists>n. py_int v = Some n \<and> 2678400 < n then 2678400
      else 86400)"
  by (auto simp: clamp_ttl_seconds_def min_ttl_seconds_def max_ttl_seconds_def default_ttl_seconds_def
      split: option.splits)

text \<open>the identity of a message does not depend on the order in which the vendor lists its fields.\<close>

theorem message_id_order_irrelevant:
  assumes "distinct (map fst e1)" "distinct (map fst e2)" "map_of e1 = map_of e2"
  shows "compute_message_id e1 fallback = compute_message_id e2 fallback"
proof -
  have g: "dget e1 = dget e2" using assms(3) by (simp add: dget_def fun_eq_iff)
  have "set (map fst e1) = set (map fst e2)"
    using assms(3) by (metis dom_map_of_conv_image_fst list.set_map)
  then have srt: "sort (map fst e1) = sort (map fst e2)"
    using assms(1,2) by (intro sorted_distinct_set_unique) simp_all
  have idp: "id_present e1 = id_present e2" by (simp add: id_present_def g fun_eq_iff)
  show ?thesis unfolding compute_message_id_def g srt idp by (rule refl)
qed

theorem message_id_order_irrelevant_witness:
  "compute_message_id [(''a'', PInt 1), (''b'', PInt 2)] [] = compute_message_id [(''b'', PInt 2), (''a'', PInt 1)] []"
  by (rule message_id_order_irrelevant) (simp_all add: fun_eq_iff)

text \<open>suppression lets exactly the first events of a window through. With no Redis error, of a run of
  claims for one signature that starts with no counter and stays within the window of the first claim,
  the \<open>i\<close>-th claim is kept when \<open>i\<close> is at most the allowance, and every claim reports its number.\<close>

theorem suppress_allows_first:
  assumes laws: "redis_laws rd live"
    and run: "suppress_run rd rid sig allow w ((t1, t2) # ts) s = (rs, s')" and no_error: "None \<notin> set rs"
    and "0 < allow" and fresh: "live s t1 (suppress_redis_key rid sig) = None"
    and times: "t1 \<le> t2" "ordered_until t2 (t2 + 1000 * nat (max w 1)) ts"
  shows "rs = map (\<lambda>i. Some (int i + 1 \<le> allow, int i + 1)) [0 ..< Suc (length ts)]"
proof -
  obtain r0 s1 rs1 where r0: "claim_suppress rd t1 t2 rid sig allow w s = (r0, s1)"
      "suppress_run rd rid sig allow w ts s1 = (rs1, s')" "rs = r0 # rs1"
    using run by (auto split: prod.splits)
  then obtain r where "r0 = Some r" using no_error by (cases r0) auto
  note r = r0 [unfolded this]
  note first = redis_laws.first_suppress_claim [OF laws r(1) \<open>0 < allow\<close> times(1) fresh]
  have "rs1 = map (\<lambda>i. Some (1 + int i + 1 \<le> allow, 1 + int i + 1)) [0 ..< length ts]"
    using redis_laws.suppress_counted [OF laws r(2) _ \<open>0 < allow\<close> _ times(2) first(2)] no_error r(3) by simp
  then show ?thesis unfolding r(3) first(1) using \<open>0 < allow\<close>
    by (simp add: upt_conv_Cons map_Suc_upt [symmetric] ac_simps del: upt_Suc)
qed

theorem suppress_allows_first_witness:
  "fst (suppress_run ttl_redis ''r'' ''sig'' 2 30 [(0, 1), (1000, 1001), (2000, 2001)] ts_empty) =
     map (\<lambda>i. Some (int i + 1 \<le> 2, int i + 1)) [0 ..< Suc (length [(1000::nat, 1001::nat), (2000, 2001)])]"
proof (cases "suppress_run ttl_redis ''r'' ''sig'' 2 30 [(0, 1), (1000, 1001), (2000, 2001)] ts_empty")
  case (Pair rs s')
  have "None \<notin> set rs"
    using arg_cong [OF Pair, of fst] unfolding fst_conv
    by (auto simp: claim_suppress_def ts_eval ts_live_def ts_put_def suppress_redis_key_def Let_def)
  from suppress_allows_first [OF ts.redis_laws_axioms Pair this] show ?thesis
    unfolding Pair fst_conv by (simp add: ts_empty_def ts_live_def)
qed

text \<open>A claim that tells to drop has read a counter above the allowance.\<close>

lemma claim_suppress_drop:
  "claim_suppress rd t1 t2 rid sig allow w s = (Some (False, count), s') \<Longrightarrow> 0 < allow \<and> allow < count"
  by (auto simp: claim_suppress_def split: if_splits option.splits prod.splits)

text \<open>suppression drops an event only through a route whose condition the event matches, whose signature
  resolved at least one label, and whose Redis counter was read above a positive allowance; then the
  envelope is untouched. On every other path, Redis errors included, the event is delivered, with at
  most the label \<open>suppress_count\<close> added.\<close>

theorem maybe_suppress_fail_open:
  assumes "maybe_suppress rd t1 t2 env rs s = (out, env', s')"
  shows "(case out of
      Some rid \<Rightarrow> env' = env \<and> (\<exists>r\<in>set rs. \<exists>sig count s1. r_id r = rid \<and> matches (r_condition r) (event_labels env) \<and>
         suppress_signature (event_labels env) (r_suppress_key r) = Some sig \<and>
         claim_suppress rd t1 t2 rid sig (r_suppress_allow r) (r_suppress_window_s r) s = (Some (False, count), s1) \<and>
         0 < r_suppress_allow r \<and> r_suppress_allow r < count)
    | None \<Rightarrow> env' = env \<or> (\<exists>count. env' = with_suppress_count env count))"
  using assms
proof (induction rs)
  case (Cons r rs)
  show ?case
  proof (cases "matches (r_condition r) (event_labels env)")
    case False
    then have "maybe_suppress rd t1 t2 env rs s = (out, env', s')" using Cons.prems by simp
    from Cons.IH [OF this] show ?thesis by (cases out) auto
  next
    case True
    show ?thesis
    proof (cases "suppress_signature (event_labels env) (r_suppress_key r)")
      case None
      with True Cons.prems show ?thesis by auto
    next
      case (Some sig)
      obtain c s1 where c: "claim_suppress rd t1 t2 (r_id r) sig (r_suppress_allow r) (r_suppress_window_s r) s = (c, s1)"
        by fastforce
      show ?thesis
      proof (cases "\<exists>count. c = Some (False, count)")
        case True
        then obtain count where cc: "c = Some (False, count)" by blast
        have "out = Some (r_id r) \<and> env' = env"
          using Cons.prems \<open>matches (r_condition r) (event_labels env)\<close> Some c cc by simp
        with claim_suppress_drop [OF c [unfolded cc]] Some c cc \<open>matches (r_condition r) (event_labels env)\<close>
        show ?thesis by auto
      next
        case False
        then have "out = None \<and> (env' = env \<or> (\<exists>count. env' = with_suppress_count env count))"
          using Cons.prems \<open>matches (r_condition r) (event_labels env)\<close> Some c
          by (auto split: option.splits prod.splits if_splits)
        then show ?thesis by auto
      qed
    qed
  qed
qed auto

text \<open>a lost EXPIRE makes suppression permanent. When the counter is created and the command that gives it
  a time to live fails, the first event is delivered but the counter never expires: every later event
  of the signature is dropped, at whatever time it comes.\<close>

theorem suppress_stuck_without_ttl:
  defines "s1 \<equiv> snd (claim_suppress ttl_redis 0 1 ''r'' ''sig'' 1 30 (ts_empty\<lparr>ts_faults := [False, True]\<rparr>))"
  shows "fst (claim_suppress ttl_redis 0 1 ''r'' ''sig'' 1 30 (ts_empty\<lparr>ts_faults := [False, True]\<rparr>)) = None \<and>
         fst (claim_suppress ttl_redis t u ''r'' ''sig'' 1 30 s1) = Some (False, 2)"
  by (simp add: s1_def claim_suppress_def ts_eval ts_live_def ts_put_def Let_def)

text \<open>the accepted alias of the tenant label is not understood by suppression: the key \<open>org_id\<close> passes the
  validator, but no event whose labels have only the canonical name has a signature, so the route never
  suppresses anything.\<close>

theorem suppress_alias_never_resolves:
  "validate_suppress_key (PStr ''org_id'') = Inr () \<and>
   suppress_signature [(''organization_id'', PInt n), (''vendor'', PStr v)] (Some ''org_id'') = None \<and>
   suppress_signature [(''organization_id'', PInt n), (''vendor'', PStr v)] (Some ''organization_id'') \<noteq> None"
proof -
  have "int_str n \<noteq> []" by (simp add: int_str_def)
  moreover have "split_on (CHR '','') ''org_id'' = [''org_id'']"
    "split_on (CHR '','') ''organization_id'' = [''organization_id'']" by simp_all
  moreover have "strip ''org_id'' = ''org_id''" "strip ''organization_id'' = ''organization_id''"
    by (simp_all add: strip_def py_space_def)
  ultimately show ?thesis
    by (simp add: validate_suppress_key_def suppress_field_error_def canonical_field_def
        field_aliases_def unique_per_event_labels_def allowed_fields_def suppress_signature_def suppress_parts_def
        dget_default_def py_str_def)
qed

text \<open>C25: one collection cycle at a time. Any number of workers run cycles (acquisition, body and release as the code has
  them) and the other operations of the module, their commands interleaved in any way and Redis evicting keys at will. Then
  two cycles of one stream that both got the lock got it at least the time to live of the first apart, and at least a
  minute, unless the first cycle ended (tokens are unique) or Redis evicted the lock itself. A cycle that runs without lock
  because Redis failed is not excluded.\<close>

theorem collect_lock_exclusive:
  assumes laws: "redis_laws rd live"
    and first: "collect_acquire (recording an1) t1 (collect_lock_key i stream) token1 cad1 [] = (RunWithLock, cs1 @ [c1])"
    and second: "collect_acquire (recording an2) t2 (collect_lock_key i stream) token2 cad2 [] = (RunWithLock, cs2 @ [c2])"
    and trace: "redis_trace rd st (c1 # mid @ [c2]) st'"
    and workers: "\<forall>c\<in>set mid. (\<exists>an op. c \<in> set (dedupe_log an op) \<and> (\<forall>u1 u2 cad. op \<noteq> Op_Cycle u1 u2 i stream token1 cad)) \<or>
                    evicts_other (collect_lock_key i stream) c"
  shows "t1 + 1000 * nat (collect_lock_ttl_seconds cad1) \<le> t2 \<and> t1 + 60000 \<le> t2"
proof -
  have c: "c1 = RSetNx t1 (collect_lock_key i stream) token1 (nat (collect_lock_ttl_seconds cad1)) (Some True)"
    "c2 = RSetNx t2 (collect_lock_key i stream) token2 (nat (collect_lock_ttl_seconds cad2)) (Some True)"
    using first second by (auto simp: collect_acquire_def split: option.splits bool.splits)
  have "\<forall>c\<in>set mid. \<not> ends_token (collect_lock_key i stream) token1 c"
    using workers dedupe_log_keeps_lock evicts_other_keeps by meson
  from redis_laws.token_exclusive [OF laws trace [unfolded c] this]
  have "t1 + 1000 * nat (collect_lock_ttl_seconds cad1) \<le> t2" .
  moreover have "60 \<le> nat (collect_lock_ttl_seconds cad1)"
    by (auto simp: collect_lock_ttl_seconds_def split: option.splits)
  ultimately show ?thesis by linarith
qed

subsection \<open>Witnesses\<close>

definition ex_suppress_route :: compiled_route where
  "ex_suppress_route = \<lparr>r_id = ''r'', r_name = ''r'', r_priority = 1, r_condition = [],
     r_action = ''route'', r_destination_ids = [''d''], r_is_final = True, r_enabled = True,
     r_canary_percent = 100, r_protect_detection = True, r_sample_percent = 100, r_suppress_key = Some ''vendor'',
     r_suppress_allow = 3, r_suppress_window_s = 30, r_redaction = [], r_drop_raw = False\<rparr>"

definition ex_suppress_env :: pydict where
  "ex_suppress_env = [(''_centralops'', PDict [(''vendor'', PStr ''acme'')])]"

definition ex_suppress_store :: ttl_store where
  "ex_suppress_store = ts_put (suppress_redis_key ''r'' (take 16 (sha256_hex ''acme''))) (Some (RNum 3, Some 9000)) ts_empty"

lemma ex_suppressed:
  "maybe_suppress ttl_redis 0 1 ex_suppress_env [ex_suppress_route] ex_suppress_store =
     (Some ''r'', ex_suppress_env,
      ts_put (suppress_redis_key ''r'' (take 16 (sha256_hex ''acme''))) (Some (RNum 4, Some 9000)) ex_suppress_store)"
proof -
  have l: "event_labels ex_suppress_env = [(''vendor'', PStr ''acme'')]"
    by (simp add: event_labels_def ex_suppress_env_def dget_def as_dict_def)
  have "strip ''vendor'' = ''vendor''" by (simp add: strip_def py_space_def)
  then have "suppress_signature [(''vendor'', PStr ''acme'')] (Some ''vendor'') = Some (take 16 (sha256_hex ''acme''))"
    by (simp add: suppress_signature_def suppress_parts_def dget_default_def)
  then show ?thesis
    by (simp add: l ex_suppress_route_def matches_def claim_suppress_def ex_suppress_store_def
        ttl_redis_def ts_cmd_def ts_do_incr_def num_or_zero_def Let_def ts_put_def ts_live_def ts_empty_def)
qed

theorem maybe_suppress_fail_open_witness:
  "\<exists>r\<in>set [ex_suppress_route]. \<exists>sig count s1. r_id r = ''r'' \<and> matches (r_condition r) (event_labels ex_suppress_env) \<and>
     suppress_signature (event_labels ex_suppress_env) (r_suppress_key r) = Some sig \<and>
     claim_suppress ttl_redis 0 1 ''r'' sig (r_suppress_allow r) (r_suppress_window_s r) ex_suppress_store =
       (Some (False, count), s1) \<and> 0 < r_suppress_allow r \<and> r_suppress_allow r < count"
  using maybe_suppress_fail_open [OF ex_suppressed] by simp

theorem collect_lock_exclusive_witness:
  "\<exists>st'. redis_trace ttl_redis (0, ts_empty)
      [RSetNx 5 (collect_lock_key 1 ''s'') ''a'' 960 (Some True),
       RSetNx 6 (collect_lock_key 1 ''s'') ''b'' 960 (Some False),
       RGetDel 7 (collect_lock_key 1 ''s'') ''b'',
       RSetNx 970000 (collect_lock_key 1 ''s'') ''c'' 960 (Some True)] st' \<and>
    (5::nat) + 60000 \<le> 970000"
proof -
  let ?an = "\<lambda>r. constant_answers None (Some r) None None None None None (Some False)"
  let ?mid = "[RSetNx 6 (collect_lock_key 1 ''s'') ''b'' 960 (Some False), RGetDel 7 (collect_lock_key 1 ''s'') ''b'']"
  have ttl: "nat (collect_lock_ttl_seconds None) = 960" by (simp add: collect_lock_ttl_seconds_def)
  have trace: "redis_trace ttl_redis (0, ts_empty)
      (RSetNx 5 (collect_lock_key 1 ''s'') ''a'' (nat (collect_lock_ttl_seconds None)) (Some True) # ?mid @
       [RSetNx 970000 (collect_lock_key 1 ''s'') ''c'' (nat (collect_lock_ttl_seconds None)) (Some True)])
      (970000, ts_put (collect_lock_key 1 ''s'') (Some (RText ''c'', Some 1930000))
        (ts_put (collect_lock_key 1 ''s'') (Some (RText ''a'', Some 960005)) ts_empty))"
    unfolding ttl
    by (auto intro!: redis_trace.intros redis_step.intros simp: ts_eval ts_live_def ts_put_def)
  have acquire: "collect_acquire (recording (?an True)) t (collect_lock_key 1 ''s'') token None [] =
      (RunWithLock, [] @ [RSetNx t (collect_lock_key 1 ''s'') token (nat (collect_lock_ttl_seconds None)) (Some True)])" for t token
    by (simp add: collect_acquire_def)
  have sub: "set ?mid \<subseteq> set (dedupe_log (?an False) (Op_Cycle 6 7 1 ''s'' ''b'' None))"
    by (simp add: run_collection_once_def collect_acquire_def ttl)
  have workers: "\<forall>c\<in>set ?mid. (\<exists>an op. c \<in> set (dedupe_log an op) \<and> (\<forall>u1 u2 cad. op \<noteq> Op_Cycle u1 u2 1 ''s'' ''a'' cad)) \<or>
      evicts_other (collect_lock_key 1 ''s'') c"
  proof (intro ballI disjI1 exI conjI)
    show "c \<in> set (dedupe_log (?an False) (Op_Cycle 6 7 1 ''s'' ''b'' None))" if "c \<in> set ?mid" for c using that sub by (rule subsetD [rotated])
  qed simp
  have "(5::nat) + 60000 \<le> 970000"
    using collect_lock_exclusive [OF ts.redis_laws_axioms acquire acquire trace workers] by simp
  with trace show ?thesis unfolding ttl by auto
qed

end
