(* ===== verification/Cursor_Store.thy ===== *)
theory Cursor_Store
  imports Py_Json
begin

text \<open>
  The position of a collection (\<open>state/cursor.py\<close>, \<open>CollectionStateRepository\<close> and the places of
  \<open>_run_collection_once\<close> that read and write it): a hot copy in Redis, written best effort, and the row of
  \<open>collection_state\<close>, which is the source of truth. The Redis commands are the record \<open>hot\<close>, a parameter with
  the locale \<open>hot_laws\<close>; a command that raises returns \<open>None\<close> or \<open>False\<close>, and a SET that raised may have been
  executed. Times are the integers the clock returns.
\<close>

section \<open>The row\<close>

record coll_row =
  cs_integration :: int
  cs_stream :: string
  cs_cursor :: "string option"
  cs_watermark :: "int option"
  cs_capped :: bool
  cs_last_success :: "int option"
  cs_last_attempt :: "int option"
  cs_last_error :: "string option"
  cs_failures :: int
  cs_events :: int
  cs_updated :: "int option"

type_synonym coll_table = "coll_row list"

definition row_for :: "int \<Rightarrow> string \<Rightarrow> coll_row \<Rightarrow> bool" where
  "row_for i st r \<longleftrightarrow> cs_integration r = i \<and> cs_stream r = st"

definition state_get :: "int \<Rightarrow> string \<Rightarrow> coll_table \<Rightarrow> coll_row option" where
  "state_get i st db = List.find (row_for i st) db"

definition list_for_integration :: "int \<Rightarrow> coll_table \<Rightarrow> coll_row list" where
  "list_for_integration i db = sort_key cs_stream (filter (\<lambda>r. cs_integration r = i) db)"

text \<open>An error text is truthy when it is not empty.\<close>

definition truthy_text :: "string option \<Rightarrow> bool" where
  "truthy_text e \<longleftrightarrow> e \<noteq> None \<and> e \<noteq> Some []"

record upsert_args =
  ua_cursor :: "string option"
  ua_events :: int
  ua_error :: "string option"
  ua_watermark :: "int option"
  ua_capped :: bool

definition new_row :: "int \<Rightarrow> int \<Rightarrow> string \<Rightarrow> upsert_args \<Rightarrow> coll_row" where
  "new_row now i st a = \<lparr>cs_integration = i, cs_stream = st, cs_cursor = ua_cursor a, cs_watermark = ua_watermark a,
     cs_capped = ua_capped a, cs_last_success = (if truthy_text (ua_error a) then None else Some now),
     cs_last_attempt = Some now, cs_last_error = ua_error a, cs_failures = (if truthy_text (ua_error a) then 1 else 0),
     cs_events = ua_events a, cs_updated = None\<rparr>"

definition updated_row :: "int \<Rightarrow> upsert_args \<Rightarrow> coll_row \<Rightarrow> coll_row" where
  "updated_row now a r =
     (let r = r\<lparr>cs_cursor := ua_cursor a, cs_last_attempt := Some now\<rparr>;
          r = (if truthy_text (ua_error a) then r\<lparr>cs_last_error := ua_error a, cs_failures := cs_failures r + 1\<rparr>
               else r\<lparr>cs_last_success := Some now, cs_last_error := None, cs_failures := 0\<rparr>);
          r = (if ua_watermark a \<noteq> None then r\<lparr>cs_watermark := ua_watermark a\<rparr> else r);
          r = (if ua_error a = None then r\<lparr>cs_capped := ua_capped a\<rparr> else r)
      in r\<lparr>cs_events := cs_events r + ua_events a, cs_updated := Some now\<rparr>)"

fun upsert_first :: "int \<Rightarrow> int \<Rightarrow> string \<Rightarrow> upsert_args \<Rightarrow> coll_table \<Rightarrow> coll_table" where
  "upsert_first now i st a [] = [new_row now i st a]"
| "upsert_first now i st a (r # db) =
     (if row_for i st r then updated_row now a r # db else r # upsert_first now i st a db)"

section \<open>The store\<close>

record 's hot =
  hot_get :: "string \<Rightarrow> 's \<Rightarrow> string option option \<times> 's"
  hot_set :: "string \<Rightarrow> string \<Rightarrow> 's \<Rightarrow> bool \<times> 's"

definition hot_key :: "int \<Rightarrow> string \<Rightarrow> string" where
  "hot_key i st = ''collection:cursor:'' @ int_str i @ '':'' @ st"

definition cold_load :: "(string \<Rightarrow> pyval) \<Rightarrow> int \<Rightarrow> string \<Rightarrow> coll_table \<Rightarrow> pyval option" where
  "cold_load cf i st db =
     (case state_get i st db of
        None \<Rightarrow> None
      | Some r \<Rightarrow> (case cs_cursor r of
            None \<Rightarrow> None
          | Some t \<Rightarrow> if t = [] then None else json_loads cf t))"

text \<open>\<open>load\<close>; \<open>None\<close> is the exception of the GET.\<close>

definition cursor_load :: "'s hot \<Rightarrow> (string \<Rightarrow> pyval) \<Rightarrow> int \<Rightarrow> string \<Rightarrow> 's \<times> coll_table \<Rightarrow> pyval option option \<times> 's" where
  "cursor_load h cf i st w =
     (case hot_get h (hot_key i st) (fst w) of
        (None, s) \<Rightarrow> (None, s)
      | (Some raw, s) \<Rightarrow>
          (case raw of
             None \<Rightarrow> (Some (cold_load cf i st (snd w)), s)
           | Some t \<Rightarrow>
               if t = [] then (Some (cold_load cf i st (snd w)), s)
               else (case json_loads cf t of
                       Some v \<Rightarrow> (Some (Some v), s)
                     | None \<Rightarrow> (Some (cold_load cf i st (snd w)), s))))"

definition cursor_save ::
    "'s hot \<Rightarrow> int \<Rightarrow> int \<Rightarrow> string \<Rightarrow> pyval \<Rightarrow> int \<Rightarrow> string option \<Rightarrow> int option \<Rightarrow> bool \<Rightarrow> 's \<times> coll_table \<Rightarrow> 's \<times> coll_table" where
  "cursor_save h now i st cursor events err watermark capped w =
     (let payload = json_compact cursor;
          s = snd (hot_set h (hot_key i st) payload (fst w))
      in (s, upsert_first now i st \<lparr>ua_cursor = Some payload, ua_events = events, ua_error = err,
               ua_watermark = watermark, ua_capped = capped\<rparr> (snd w)))"

section \<open>A collection cycle\<close>

text \<open>How a cycle ends, as far as the cursor is concerned: with an exception before the cursor was loaded (the
  integration, its token or its configuration), with an exception of the GET or of the collection after it, or with
  the position the collector reached. The handler saves the cursor that was loaded, or an empty one.\<close>

datatype cursor_outcome =
    Early_Failure string
  | Late_Failure string
  | Finished pyval int "int option" bool

definition or_empty :: "pyval option \<Rightarrow> pyval" where
  "or_empty c = (case c of None \<Rightarrow> PDict [] | Some v \<Rightarrow> if truthy v then v else PDict [])"

definition save_failed :: "'s hot \<Rightarrow> int \<Rightarrow> int \<Rightarrow> string \<Rightarrow> pyval option \<Rightarrow> string \<Rightarrow> 's \<times> coll_table \<Rightarrow> 's \<times> coll_table" where
  "save_failed h now i st cursor_before msg w =
     cursor_save h now i st (or_empty cursor_before) 0 (Some (take 1000 msg)) None False w"

definition save_finished ::
    "'s hot \<Rightarrow> int \<Rightarrow> int \<Rightarrow> string \<Rightarrow> pyval option \<Rightarrow> int \<Rightarrow> int option \<Rightarrow> bool \<Rightarrow> 's \<times> coll_table \<Rightarrow> 's \<times> coll_table" where
  "save_finished h now i st cursor events watermark capped w =
     cursor_save h now i st (or_empty cursor) events None watermark capped w"

definition cursor_cycle ::
    "'s hot \<Rightarrow> (string \<Rightarrow> pyval) \<Rightarrow> int \<Rightarrow> int \<Rightarrow> string \<Rightarrow> string \<Rightarrow> cursor_outcome \<Rightarrow> 's \<times> coll_table \<Rightarrow> 's \<times> coll_table" where
  "cursor_cycle h cf now i st redis_msg e w =
     (case e of
        Early_Failure msg \<Rightarrow> save_failed h now i st None msg w
      | _ \<Rightarrow>
          (case cursor_load h cf i st w of
             (None, s) \<Rightarrow> save_failed h now i st None redis_msg (s, snd w)
           | (Some before, s) \<Rightarrow>
               (case e of
                  Finished c events watermark capped \<Rightarrow> save_finished h now i st (Some c) events watermark capped (s, snd w)
                | Late_Failure msg \<Rightarrow> save_failed h now i st before msg (s, snd w)
                | Early_Failure msg \<Rightarrow> save_failed h now i st None msg w)))"

section \<open>Laws of the hot store\<close>

locale hot_laws =
  fixes h :: "'s hot" and view :: "'s \<Rightarrow> string \<Rightarrow> string option"
  assumes get_law: "hot_get h k s = (r, s') \<Longrightarrow> view s' = view s \<and> (r = None \<or> r = Some (view s k))"
    and set_ok: "hot_set h k v s = (True, s') \<Longrightarrow> view s' = (view s)(k \<mapsto> v)"
    and set_error: "hot_set h k v s = (False, s') \<Longrightarrow> view s' = view s \<or> view s' = (view s)(k \<mapsto> v)"
begin

lemma set_frame: "hot_set h k v s = (b, s') \<Longrightarrow> k' \<noteq> k \<Longrightarrow> view s' k' = view s k'"
  using set_ok set_error by (cases b) fastforce+

end

section \<open>Rows and keys\<close>

lemma state_get_upsert:
  "state_get i' st' (upsert_first now i st a db) =
     (if i' = i \<and> st' = st
      then Some (case state_get i st db of None \<Rightarrow> new_row now i st a | Some r \<Rightarrow> updated_row now a r)
      else state_get i' st' db)"
proof -
  have upd: "cs_integration (updated_row now a r) = cs_integration r" "cs_stream (updated_row now a r) = cs_stream r" for r
    by (simp_all add: updated_row_def Let_def)
  show ?thesis
    by (induction db) (auto simp: state_get_def row_for_def upd, auto simp: new_row_def)
qed

lemma hot_key_inj: "hot_key i st = hot_key i' st' \<longleftrightarrow> i = i' \<and> st = st'"
proof
  assume "hot_key i st = hot_key i' st'"
  then have "int_str i @ CHR '':'' # st = int_str i' @ CHR '':'' # st'" by (simp add: hot_key_def)
  with int_str_no_colon [of i] int_str_no_colon [of i'] have "int_str i = int_str i'" "st = st'"
    by (auto simp: sep_unique)
  then show "i = i' \<and> st = st'" using int_str_inj by blast
qed simp

lemma json_compact_ne: "json_plain v \<Longrightarrow> json_compact v \<noteq> []"
  using value_starts by blast

section \<open>The round trip\<close>

context hot_laws
begin

text \<open>What a load sees, by the hot copy and the row.\<close>

definition stored_position :: "(string \<Rightarrow> pyval) \<Rightarrow> int \<Rightarrow> string \<Rightarrow> 's \<times> coll_table \<Rightarrow> pyval option" where
  "stored_position cf i st w =
     (case view (fst w) (hot_key i st) of
        None \<Rightarrow> cold_load cf i st (snd w)
      | Some t \<Rightarrow> if t = [] then cold_load cf i st (snd w)
                  else case json_loads cf t of Some v \<Rightarrow> Some v | None \<Rightarrow> cold_load cf i st (snd w))"

lemma load_seen:
  "cursor_load h cf i st w = (r, s) \<Longrightarrow> view s = view (fst w) \<and> (r = None \<or> r = Some (stored_position cf i st w))"
  using get_law [of "hot_key i st" "fst w"]
  by (auto simp: cursor_load_def stored_position_def split: prod.splits option.splits if_splits)

lemma seen_cong: "view s = view s' \<Longrightarrow> stored_position cf i st (s, db) = stored_position cf i st (s', db)"
  by (auto simp: stored_position_def split: option.splits)

lemma cold_after_save:
  "json_plain c \<Longrightarrow> cold_load cf i' st' (snd (cursor_save h now i st c ev err wm cap w)) =
     (if i' = i \<and> st' = st then Some c else cold_load cf i' st' (snd w))"
  by (auto simp: cold_load_def cursor_save_def Let_def state_get_upsert json_round_trip json_compact_ne
      new_row_def updated_row_def split: option.splits)

lemma view_after_save:
  "view (fst (cursor_save h now i st c ev err wm cap w)) = view (fst w) \<or>
   view (fst (cursor_save h now i st c ev err wm cap w)) = (view (fst w))(hot_key i st \<mapsto> json_compact c)"
  using set_ok [of "hot_key i st" "json_compact c" "fst w"] set_error [of "hot_key i st" "json_compact c" "fst w"]
  by (cases "hot_set h (hot_key i st) (json_compact c) (fst w)") (auto simp: cursor_save_def Let_def)

text \<open>After a save a load sees the cursor, or, when the hot copy could not be written, what it saw before.\<close>

lemma seen_after_save:
  assumes "json_plain c"
  shows "stored_position cf i st (cursor_save h now i st c ev err wm cap w) = Some c \<or>
     (view (fst w) (hot_key i st) \<noteq> None \<and> fst (hot_set h (hot_key i st) (json_compact c) (fst w)) = False \<and>
      stored_position cf i st (cursor_save h now i st c ev err wm cap w) = stored_position cf i st w)"
proof -
  let ?w = "cursor_save h now i st c ev err wm cap w"
  have cold: "cold_load cf i st (snd ?w) = Some c" using cold_after_save [OF assms] by simp
  consider "view (fst ?w) = (view (fst w))(hot_key i st \<mapsto> json_compact c)"
    | "view (fst ?w) = view (fst w)" "fst (hot_set h (hot_key i st) (json_compact c) (fst w)) = False"
    using view_after_save [of now i st c ev err wm cap w] set_ok [of "hot_key i st" "json_compact c" "fst w"]
    by (cases "hot_set h (hot_key i st) (json_compact c) (fst w)") (auto simp: cursor_save_def Let_def)
  then show ?thesis
  proof cases
    case 1
    then show ?thesis by (simp add: stored_position_def json_round_trip [OF assms] json_compact_ne [OF assms])
  next
    case 2
    then show ?thesis using cold by (auto simp: stored_position_def split: option.splits)
  qed
qed

lemma seen_other_stream:
  assumes "json_plain c" "(i', st') \<noteq> (i, st)"
  shows "stored_position cf i' st' (cursor_save h now i st c ev err wm cap w) = stored_position cf i' st' w"
proof -
  have "view (fst (cursor_save h now i st c ev err wm cap w)) (hot_key i' st') = view (fst w) (hot_key i' st')"
    using view_after_save [of now i st c ev err wm cap w] assms(2) by (auto simp: hot_key_inj)
  moreover have "cold_load cf i' st' (snd (cursor_save h now i st c ev err wm cap w)) = cold_load cf i' st' (snd w)"
    using cold_after_save [OF assms(1), of cf i' st' now i st ev err wm cap w] assms(2) by auto
  ultimately show ?thesis by (auto simp: stored_position_def split: option.splits)
qed

end

section \<open>A store with faults\<close>

text \<open>The hot values, and for each upcoming command whether it fails before it is executed.\<close>

type_synonym hot_mem = "(string \<times> string) list \<times> bool list"

definition mem_hot :: "hot_mem hot" where
  "mem_hot = \<lparr>
     hot_get = (\<lambda>k s. case snd s of [] \<Rightarrow> (Some (map_of (fst s) k), s)
        | b # bs \<Rightarrow> (if b then None else Some (map_of (fst s) k), (fst s, bs))),
     hot_set = (\<lambda>k v s. case snd s of [] \<Rightarrow> (True, (AList.update k v (fst s), []))
        | b # bs \<Rightarrow> if b then (False, (fst s, bs)) else (True, (AList.update k v (fst s), bs)))\<rparr>"

interpretation mem: hot_laws mem_hot "\<lambda>s. map_of (fst s)"
  by unfold_locales (auto simp: mem_hot_def AList.update_conv' split: list.splits if_splits)

section \<open>Properties\<close>

text \<open>C12: A saved cursor is what the next load returns. After \<open>save\<close> with a JSON cursor, in whatever state both
  tiers were and whether the write to Redis succeeds or fails, a load that does not raise returns exactly that cursor;
  the only exception is a failed write over an existing hot copy, where it returns what a load returned before the
  save. When the hot copy is lost afterwards (a restart of Redis) the load returns the saved cursor, and the loads of
  all other streams are unchanged.\<close>

theorem cursor_save_load:
  assumes "hot_laws h view" and "json_plain c" and "w' = cursor_save h now i st c ev err wm cap w"
    and "cursor_load h cf i st w' = (Some r, s1)" and "cursor_load h cf i st w = (Some before, s2)"
    and "view lost (hot_key i st) = None" and "cursor_load h cf i st (lost, snd w') = (Some cold, s3)"
    and "(i', st') \<noteq> (i, st)" and "cursor_load h cf i' st' w' = (Some other, s4)"
    and "cursor_load h cf i' st' w = (Some other0, s5)"
  shows "(r = Some c \<or> r = before \<and> fst (hot_set h (hot_key i st) (json_compact c) (fst w)) = False \<and>
            view (fst w) (hot_key i st) \<noteq> None) \<and> cold = Some c \<and> other = other0"
proof -
  note load_eq = hot_laws.load_seen [OF assms(1)]
  have r: "r = hot_laws.stored_position view cf i st w'" "before = hot_laws.stored_position view cf i st w"
      "cold = hot_laws.stored_position view cf i st (lost, snd w')"
      "other = hot_laws.stored_position view cf i' st' w'" "other0 = hot_laws.stored_position view cf i' st' w"
    using load_eq [OF assms(4)] load_eq [OF assms(5)] load_eq [OF assms(7)] load_eq [OF assms(9)] load_eq [OF assms(10)] by auto
  have "cold = Some c"
    using hot_laws.cold_after_save [OF assms(1,2), of cf i st now i st ev err wm cap w] assms(3,6)
    by (simp add: r(3) hot_laws.stored_position_def [OF assms(1)])
  moreover have "r = Some c \<or> r = before \<and> fst (hot_set h (hot_key i st) (json_compact c) (fst w)) = False \<and>
      view (fst w) (hot_key i st) \<noteq> None"
    using hot_laws.seen_after_save [OF assms(1,2), of cf i st now ev err wm cap w] unfolding assms(3) [symmetric] r(1,2) by blast
  ultimately show ?thesis
    using hot_laws.seen_other_stream [OF assms(1,2,8), of cf now ev err wm cap w] assms(3) r(4,5) by simp
qed

definition demo_cursor :: pyval where
  "demo_cursor = PDict [(''since'', PStr ''t1''), (''seen'', PList [PInt 7])]"

lemma demo_plain: "json_plain demo_cursor"
  by (simp add: demo_cursor_def)

lemma mem_load_ok: "\<exists>x s. cursor_load mem_hot cf i st ((m, []), db) = (Some x, s)"
proof (cases "map_of m (hot_key i st)")
  case (Some t)
  then show ?thesis by (cases "json_loads cf t") (simp_all add: cursor_load_def mem_hot_def)
qed (simp add: cursor_load_def mem_hot_def)

theorem cursor_save_load_witness:
  "let w' = cursor_save mem_hot 5 1 ''a'' demo_cursor 1 None None False (([], []), [])
   in fst (cursor_load mem_hot PStr 1 ''a'' w') = Some (Some demo_cursor)"
proof -
  let ?w = "(([], []), []) :: hot_mem \<times> coll_table"
  let ?w' = "cursor_save mem_hot 5 1 ''a'' demo_cursor 1 None None False ?w"
  have w': "?w' = (([(hot_key 1 ''a'', json_compact demo_cursor)], []), snd ?w')"
    by (simp add: cursor_save_def mem_hot_def Let_def)
  have ld: "\<exists>x s. cursor_load mem_hot PStr i st ?w' = (Some x, s)" for i st
    by (subst w') (rule mem_load_ok)
  obtain r s1 where r: "cursor_load mem_hot PStr 1 ''a'' ?w' = (Some r, s1)" using ld by blast
  obtain o1 s4 where o1: "cursor_load mem_hot PStr 2 ''a'' ?w' = (Some o1, s4)" using ld by blast
  obtain b s2 where b: "cursor_load mem_hot PStr 1 ''a'' ?w = (Some b, s2)" using mem_load_ok by blast
  obtain c s3 where c: "cursor_load mem_hot PStr 1 ''a'' (([], []), snd ?w') = (Some c, s3)" using mem_load_ok by blast
  obtain o0 s5 where o0: "cursor_load mem_hot PStr 2 ''a'' ?w = (Some o0, s5)" using mem_load_ok by blast
  have "r = Some demo_cursor"
    using cursor_save_load [OF mem.hot_laws_axioms demo_plain refl r b _ c _ o1 o0] by simp
  then show ?thesis using r by simp
qed

text \<open>The row counts consecutive failures exactly. After any series of checkpoints of a stream (and any rows of
  other streams) the row holds the last cursor, the sum of the collected events, and as consecutive failures the
  number of checkpoints with an error since the last one without.\<close>

theorem checkpoint_failure_count:
  assumes "state_get i st db = None" and "saves \<noteq> []"
  shows "\<exists>r. state_get i st (foldl (\<lambda>d (now, a). upsert_first now i st a d) db saves) = Some r \<and>
    cs_cursor r = ua_cursor (snd (last saves)) \<and> cs_events r = sum_list (map (ua_events \<circ> snd) saves) \<and>
    cs_failures r = int (length (takeWhile (\<lambda>s. truthy_text (ua_error (snd s))) (rev saves)))"
  using assms(2)
proof (induction saves rule: rev_induct)
  case (snoc s saves)
  obtain now a where s: "s = (now, a)" by fastforce
  show ?case
  proof (cases "saves = []")
    case True
    then show ?thesis using assms(1) s by (simp add: state_get_upsert new_row_def)
  next
    case False
    then show ?thesis using snoc.IH s by (auto simp: state_get_upsert updated_row_def Let_def)
  qed
qed simp

definition demo_saves :: "(int \<times> upsert_args) list" where
  "demo_saves = (let ok = \<lparr>ua_cursor = Some ''c'', ua_events = 3, ua_error = None, ua_watermark = None, ua_capped = False\<rparr>;
       bad = ok\<lparr>ua_events := 0, ua_error := Some ''boom''\<rparr> in [(1, ok), (2, bad), (3, bad)])"

theorem checkpoint_failure_count_witness:
  "\<exists>r. state_get 1 ''a'' (foldl (\<lambda>d (now, a). upsert_first now 1 ''a'' a d) [] demo_saves) = Some r \<and>
      cs_failures r = 2 \<and> cs_events r = 3"
proof -
  have "state_get 1 ''a'' [] = None" "demo_saves \<noteq> []" by (simp_all add: state_get_def demo_saves_def Let_def)
  from checkpoint_failure_count [OF this] obtain r where
    "state_get 1 ''a'' (foldl (\<lambda>d (now, a). upsert_first now 1 ''a'' a d) [] demo_saves) = Some r"
    "cs_events r = sum_list (map (ua_events \<circ> snd) demo_saves)"
    "cs_failures r = int (length (takeWhile (\<lambda>s. truthy_text (ua_error (snd s))) (rev demo_saves)))" by blast
  moreover have "sum_list (map (ua_events \<circ> snd) demo_saves) = 3"
    "int (length (takeWhile (\<lambda>s. truthy_text (ua_error (snd s))) (rev demo_saves))) = 2"
    by (simp_all add: demo_saves_def Let_def truthy_text_def)
  ultimately show ?thesis by auto
qed

text \<open>A cycle that fails after the cursor was loaded does not lose the position: a load returns the cursor the
  cycle started from, whatever happened to the write of the hot copy.\<close>

theorem failed_cycle_keeps_cursor:
  assumes "hot_laws h view" and "json_plain c" and "truthy c" and "cursor_load h cf i st w = (Some (Some c), s)"
    and "cursor_load h cf i st (cursor_cycle h cf now i st rmsg (Late_Failure msg) w) = (Some r, s')"
  shows "r = Some c"
proof -
  note load_eq = hot_laws.load_seen [OF assms(1)]
  have before: "hot_laws.stored_position view cf i st (s, snd w) = Some c"
    using load_eq [OF assms(4)] hot_laws.seen_cong [OF assms(1), of s "fst w" cf i st "snd w"] by simp
  have cyc: "cursor_cycle h cf now i st rmsg (Late_Failure msg) w =
      cursor_save h now i st c 0 (Some (take 1000 msg)) None False (s, snd w)"
    using assms(3,4) by (simp add: cursor_cycle_def save_failed_def or_empty_def)
  then have "r = hot_laws.stored_position view cf i st (cursor_save h now i st c 0 (Some (take 1000 msg)) None False (s, snd w))"
    using load_eq [OF assms(5)] by simp
  then show ?thesis
    using hot_laws.seen_after_save [OF assms(1,2), of cf i st now 0 "Some (take 1000 msg)" None False "(s, snd w)"] before by auto
qed

theorem failed_cycle_keeps_cursor_witness:
  "let w = cursor_save mem_hot 5 1 ''a'' demo_cursor 1 None None False (([], []), [])
   in fst (cursor_load mem_hot PStr 1 ''a'' (cursor_cycle mem_hot PStr 9 1 ''a'' ''r'' (Late_Failure ''boom'') w)) = Some (Some demo_cursor)"
proof -
  let ?m = "[(hot_key 1 ''a'', json_compact demo_cursor)]"
  let ?w = "cursor_save mem_hot 5 1 ''a'' demo_cursor 1 None None False (([], []), [])"
  have w: "?w = ((?m, []), snd ?w)" by (simp add: cursor_save_def mem_hot_def Let_def)
  have ld: "cursor_load mem_hot PStr 1 ''a'' ?w = (Some (Some demo_cursor), (?m, []))"
    by (subst w) (simp add: cursor_load_def mem_hot_def json_round_trip demo_plain json_compact_ne)
  obtain m db where cyc: "cursor_cycle mem_hot PStr 9 1 ''a'' ''r'' (Late_Failure ''boom'') ?w = ((m, []), db)"
    using ld by (simp add: cursor_cycle_def save_failed_def cursor_save_def mem_hot_def Let_def)
  obtain r s where "cursor_load mem_hot PStr 1 ''a'' ((m, []), db) = (Some r, s)" using mem_load_ok by blast
  with failed_cycle_keeps_cursor [OF mem.hot_laws_axioms demo_plain _ ld, of 9 "''r''" "''boom''" r s] cyc show ?thesis
    by (simp add: demo_cursor_def)
qed

text \<open>A cycle that fails before the cursor is loaded (its token cannot be refreshed, say) overwrites the position:
  whatever was saved before, the row and, when Redis takes the write, the hot copy hold the empty cursor afterwards,
  so the next cycle starts from nothing.\<close>

theorem early_failure_loses_cursor:
  assumes "hot_laws h view" and "w' = cursor_cycle h cf now i st rmsg (Early_Failure msg) w"
    and "fst (hot_set h (hot_key i st) (json_compact (PDict [])) (fst w))"
    and "cursor_load h cf i st w' = (Some r, s')"
  shows "r = Some (PDict []) \<and> cold_load cf i st (snd w') = Some (PDict [])"
proof -
  have plain: "json_plain (PDict [])" by simp
  have w': "w' = cursor_save h now i st (PDict []) 0 (Some (take 1000 msg)) None False w"
    using assms(2) by (simp add: cursor_cycle_def save_failed_def or_empty_def)
  have "r = hot_laws.stored_position view cf i st w'" using hot_laws.load_seen [OF assms(1,4)] by simp
  then show ?thesis
    using hot_laws.seen_after_save [OF assms(1) plain, of cf i st now 0 "Some (take 1000 msg)" None False w] assms(3)
      hot_laws.cold_after_save [OF assms(1) plain, of cf i st now i st 0 "Some (take 1000 msg)" None False w] w' by auto
qed

theorem early_failure_loses_cursor_witness:
  "let w = cursor_save mem_hot 5 1 ''a'' demo_cursor 1 None None False (([], []), [])
   in fst (cursor_load mem_hot PStr 1 ''a'' (cursor_cycle mem_hot PStr 9 1 ''a'' ''r'' (Early_Failure ''401'') w)) = Some (Some (PDict []))"
proof -
  let ?w = "cursor_save mem_hot 5 1 ''a'' demo_cursor 1 None None False (([], []), [])"
  have ok: "fst (hot_set mem_hot (hot_key 1 ''a'') (json_compact (PDict [])) (fst ?w))"
    by (simp add: cursor_save_def mem_hot_def Let_def)
  obtain m db where cyc: "cursor_cycle mem_hot PStr 9 1 ''a'' ''r'' (Early_Failure ''401'') ?w = ((m, []), db)"
    by (simp add: cursor_cycle_def save_failed_def cursor_save_def mem_hot_def Let_def)
  obtain r s where "cursor_load mem_hot PStr 1 ''a'' ((m, []), db) = (Some r, s)" using mem_load_ok by blast
  with early_failure_loses_cursor [OF mem.hot_laws_axioms refl ok, of PStr 9 "''r''" "''401''" r s] cyc show ?thesis by simp
qed

text \<open>A cycle that fails with an exception whose text is empty is recorded as a success: the failures are reset
  to zero, the last error is cleared and the time of the last success is the time of the failure.\<close>

theorem empty_message_recorded_as_success:
  assumes "state_get i st (snd w) = Some r0"
  shows "\<exists>r. state_get i st (snd (cursor_cycle h cf now i st rmsg (Early_Failure []) w)) = Some r \<and>
     cs_failures r = 0 \<and> cs_last_error r = None \<and> cs_last_success r = Some now"
  using assms
  by (simp add: cursor_cycle_def save_failed_def cursor_save_def Let_def state_get_upsert updated_row_def truthy_text_def)

theorem empty_message_recorded_as_success_witness:
  "let w = cursor_save mem_hot 5 1 ''a'' demo_cursor 1 (Some ''boom'') None False (([], []), [])
   in \<exists>r. state_get 1 ''a'' (snd (cursor_cycle mem_hot PStr 9 1 ''a'' ''r'' (Early_Failure []) w)) = Some r \<and> cs_failures r = 0"
proof -
  let ?w = "cursor_save mem_hot 5 1 ''a'' demo_cursor 1 (Some ''boom'') None False (([], []), [])"
  obtain r0 where "state_get 1 ''a'' (snd ?w) = Some r0"
    by (simp add: cursor_save_def Let_def state_get_def row_for_def new_row_def)
  from empty_message_recorded_as_success [OF this, of mem_hot PStr 9 "''r''"] show ?thesis by auto
qed

end
