(* ===== verification/Mapping_Source.thy ===== *)
theory Mapping_Source
  imports Py_Prelude
begin

text \<open>
  How a mapping reads a value out of a vendor event: the dot-path fast path (\<open>collectors/normalize/dotpath.py\<close>) and the
  predicates of \<open>when\<close> (\<open>collectors/normalize/predicates.py\<close>).

  JMESPath is a package outside the repository. Compiling an expression is the argument \<open>jm\<close>: \<open>None\<close> is its
  \<open>ParseError\<close>, otherwise the search function of the parsed expression, which yields \<open>None\<close> when it raises. What
  the fast path relies on is the locale \<open>jmespath_laws\<close>, the semantics of an identifier and of a
  sub-expression in the JMESPath specification.
\<close>

section \<open>Resolvers\<close>

type_synonym jmespath = "string \<Rightarrow> (pyval \<Rightarrow> pyval option) option"

definition ident_start :: "char \<Rightarrow> bool" where
  "ident_start c \<longleftrightarrow> (let n = (of_char c :: nat) in (65 \<le> n \<and> n \<le> 90) \<or> (97 \<le> n \<and> n \<le> 122) \<or> n = 95)"

definition ident_char :: "char \<Rightarrow> bool" where
  "ident_char c \<longleftrightarrow> ident_start c \<or> is_digit c"

definition jm_ident :: "string \<Rightarrow> bool" where
  "jm_ident s = (case s of [] \<Rightarrow> False | c # cs \<Rightarrow> ident_start c \<and> list_all ident_char cs)"

text \<open>\<open>_DOT_PATH.match\<close>. The end anchor of the pattern also matches before a final line feed.\<close>

definition dot_path :: "string \<Rightarrow> bool" where
  "dot_path expr =
     (let body = (if expr \<noteq> [] \<and> last expr = char_of (10::nat) then butlast expr else expr)
      in list_all jm_ident (split_on CHR ''.'' body))"

datatype resolver = DotPathResolver string "string list" | ParsedResult string

definition py_get :: "string \<Rightarrow> pyval \<Rightarrow> pyval" where
  "py_get k v = (case v of PDict d \<Rightarrow> dget d k | _ \<Rightarrow> PNone)"

fun dot_rest :: "string list \<Rightarrow> pyval \<Rightarrow> pyval" where
  "dot_rest [] value = value"
| "dot_rest (key # rest) value = (if value = PNone then PNone else dot_rest rest (py_get key value))"

definition dot_search :: "string list \<Rightarrow> pyval \<Rightarrow> pyval" where
  "dot_search tokens value = dot_rest (tl tokens) (py_get (hd tokens) value)"

definition is_fast_path :: "bool \<Rightarrow> string \<Rightarrow> bool" where
  "is_fast_path fastpath_enabled expr \<longleftrightarrow> fastpath_enabled \<and> dot_path expr"

definition compile_source :: "jmespath \<Rightarrow> bool \<Rightarrow> string \<Rightarrow> resolver option" where
  "compile_source jm fastpath_enabled expr =
     (case jm expr of
        None \<Rightarrow> None
      | Some _ \<Rightarrow>
          if is_fast_path fastpath_enabled expr then Some (DotPathResolver expr (split_on CHR ''.'' expr))
          else Some (ParsedResult expr))"

definition resolver_search :: "jmespath \<Rightarrow> resolver \<Rightarrow> pyval \<Rightarrow> pyval option" where
  "resolver_search jm r value =
     (case r of
        DotPathResolver _ tokens \<Rightarrow> Some (dot_search tokens value)
      | ParsedResult expr \<Rightarrow> (case jm expr of None \<Rightarrow> None | Some search \<Rightarrow> search value))"

section \<open>Predicates\<close>

datatype mapping_def_error = DefError string

datatype compiled_predicate =
    PredExists resolver string
  | PredEquals resolver string pyval
  | PredIn resolver string "pyval list"
  | PredNot compiled_predicate

definition pred_keys :: "string list" where
  "pred_keys = [''exists'', ''equals'', ''in'', ''not'']"

definition compile_jmespath :: "jmespath \<Rightarrow> bool \<Rightarrow> pyval \<Rightarrow> mapping_def_error + resolver \<times> string" where
  "compile_jmespath jm fp expr =
     (case expr of
        PStr e \<Rightarrow>
          if strip e = [] then Inl (DefError ''when: empty expression'')
          else (case compile_source jm fp e of
                  None \<Rightarrow> Inl (DefError ''when: invalid expression'')
                | Some r \<Rightarrow> Inr (r, e))
      | _ \<Rightarrow> Inl (DefError ''when: expression must be a string''))"

fun compile_predicate :: "jmespath \<Rightarrow> bool \<Rightarrow> pyval \<Rightarrow> mapping_def_error + compiled_predicate"
  and compile_negated :: "jmespath \<Rightarrow> bool \<Rightarrow> pydict \<Rightarrow> mapping_def_error + compiled_predicate"
where
  "compile_predicate jm fp (PDict spec) =
     (case filter (\<lambda>k. dhas spec k) pred_keys of
        [] \<Rightarrow> Inl (DefError ''when: no valid key'')
      | [k] \<Rightarrow>
          (if k = ''exists'' then
             bind_result (compile_jmespath jm fp (dget spec ''exists'')) (\<lambda>(r, e). Inr (PredExists r e))
           else if k = ''equals'' then
             (case dget spec ''equals'' of
                PDict inner \<Rightarrow>
                  if \<not> dhas inner ''source'' then Inl (DefError ''when.equals: source'')
                  else if \<not> dhas inner ''value'' then Inl (DefError ''when.equals: value'')
                  else bind_result (compile_jmespath jm fp (dget inner ''source''))
                         (\<lambda>(r, e). Inr (PredEquals r e (dget inner ''value'')))
              | _ \<Rightarrow> Inl (DefError ''when.equals: object''))
           else if k = ''in'' then
             (case dget spec ''in'' of
                PDict inner \<Rightarrow>
                  if \<not> dhas inner ''source'' then Inl (DefError ''when.in: source'')
                  else if \<not> dhas inner ''values'' then Inl (DefError ''when.in: values'')
                  else (case dget inner ''values'' of
                          PList vs \<Rightarrow> bind_result (compile_jmespath jm fp (dget inner ''source''))
                                        (\<lambda>(r, e). Inr (PredIn r e vs))
                        | _ \<Rightarrow> Inl (DefError ''when.in: list''))
              | _ \<Rightarrow> Inl (DefError ''when.in: object''))
           else bind_result (compile_negated jm fp spec) (\<lambda>p. Inr (PredNot p)))
      | _ \<Rightarrow> Inl (DefError ''when: several keys''))"
| "compile_predicate jm fp _ = Inl (DefError ''when: object'')"
| "compile_negated jm fp [] = Inl (DefError ''when: object'')"
| "compile_negated jm fp ((k, v) # spec) = (if k = ''not'' then compile_predicate jm fp v else compile_negated jm fp spec)"

definition safe_search :: "jmespath \<Rightarrow> resolver \<Rightarrow> pyval \<Rightarrow> pyval" where
  "safe_search jm r data = (case resolver_search jm r data of None \<Rightarrow> PNone | Some v \<Rightarrow> v)"

fun evaluate_predicate :: "jmespath \<Rightarrow> compiled_predicate \<Rightarrow> pyval \<Rightarrow> bool" where
  "evaluate_predicate jm (PredExists r _) data = (safe_search jm r data \<noteq> PNone)"
| "evaluate_predicate jm (PredEquals r _ literal) data = py_eq (safe_search jm r data) literal"
| "evaluate_predicate jm (PredIn r _ literal) data = list_ex (py_eq (safe_search jm r data)) literal"
| "evaluate_predicate jm (PredNot p) data = (\<not> evaluate_predicate jm p data)"

fun collect_predicate_source_strs :: "compiled_predicate \<Rightarrow> string list" where
  "collect_predicate_source_strs (PredExists _ e) = [e]"
| "collect_predicate_source_strs (PredEquals _ e _) = [e]"
| "collect_predicate_source_strs (PredIn _ e _) = [e]"
| "collect_predicate_source_strs (PredNot p) = collect_predicate_source_strs p"

section \<open>The fast path agrees with JMESPath\<close>

locale jmespath_laws =
  fixes jm :: jmespath
  assumes field_law: "jm_ident k \<Longrightarrow> \<exists>search. jm k = Some search \<and> (\<forall>v. search v = Some (py_get k v))"
    and sub_law: "dot_path e \<Longrightarrow> last e \<noteq> char_of (10::nat) \<Longrightarrow> jm_ident k \<Longrightarrow> jm e = Some search \<Longrightarrow>
        \<exists>search'. jm (e @ ''.'' @ k) = Some search' \<and>
          (\<forall>v. search' v = (case search v of None \<Rightarrow> None | Some u \<Rightarrow> Some (py_get k u)))"

lemma py_get_None [simp]: "py_get k PNone = PNone"
  by (simp add: py_get_def)

lemma dot_rest_None [simp]: "dot_rest ks PNone = PNone"
  by (cases ks) simp_all

lemma dot_rest_snoc: "dot_rest (ks @ [k]) v = py_get k (dot_rest ks v)"
  by (induction ks v rule: dot_rest.induct) auto

lemma ident_ne: "jm_ident k \<Longrightarrow> k \<noteq> []"
  by (cases k) (auto simp: jm_ident_def)

lemma ident_chars: "jm_ident k \<Longrightarrow> c \<in> set k \<Longrightarrow> ident_char c"
  by (cases k) (auto simp: jm_ident_def ident_char_def list_all_iff)

lemma ident_no_dot: "jm_ident k \<Longrightarrow> CHR ''.'' \<notin> set k"
  by (auto dest!: ident_chars simp: ident_char_def ident_start_def is_digit_def)

lemma ident_last: "jm_ident k \<Longrightarrow> last k \<noteq> char_of (10::nat)"
  using ident_chars [of k "last k"] last_in_set [OF ident_ne] by (auto simp: ident_char_def ident_start_def is_digit_def)

lemma split_on_concat: "split_on c (e @ c # s) = split_on c e @ split_on c s"
  by (induction e) (auto split: list.splits)

lemma split_on_snoc: "CHR ''.'' \<notin> set k \<Longrightarrow> split_on CHR ''.'' (e @ ''.'' @ k) = split_on CHR ''.'' e @ [k]"
  using split_on_concat [of "CHR ''.''" e k] split_on_single [of "CHR ''.''" k] by simp

lemma plain_dot_path: "last e \<noteq> char_of (10::nat) \<Longrightarrow> dot_path e \<longleftrightarrow> list_all jm_ident (split_on CHR ''.'' e)"
  by (auto simp: dot_path_def Let_def)

lemma last_append_ident: "jm_ident k \<Longrightarrow> last (e @ k) \<noteq> char_of (10::nat)"
  by (simp add: ident_last ident_ne)

lemma join_snoc: "ts \<noteq> [] \<Longrightarrow> join sep (ts @ [k]) = join sep ts @ sep @ k"
proof (induction ts)
  case (Cons t ts)
  then show ?case by (cases ts) auto
qed simp

lemma split_on_join_idents:
  "ts \<noteq> [] \<Longrightarrow> list_all jm_ident ts \<Longrightarrow> split_on CHR ''.'' (join ''.'' ts) = ts"
proof (induction ts rule: rev_induct)
  case (snoc k ts)
  show ?case
  proof (cases "ts = []")
    case True
    then show ?thesis using snoc by (simp add: split_on_single ident_no_dot)
  next
    case False
    have "split_on CHR ''.'' (join ''.'' (ts @ [k])) = split_on CHR ''.'' (join ''.'' ts @ ''.'' @ k)"
      using False by (simp add: join_snoc)
    also have "\<dots> = ts @ [k]"
      using snoc False split_on_snoc [OF ident_no_dot, of k "join ''.'' ts"] by (simp del: append.simps)
    finally show ?thesis .
  qed
qed simp

lemma join_idents_last: "ts \<noteq> [] \<Longrightarrow> list_all jm_ident ts \<Longrightarrow> last (join ''.'' ts) \<noteq> char_of (10::nat)"
proof (cases ts rule: rev_cases)
  case (snoc us k)
  moreover assume "list_all jm_ident ts"
  ultimately show ?thesis
    using last_append_ident [of k "join ''.'' us @ ''.''"] ident_last [of k] by (cases "us = []") (auto simp: join_snoc)
qed simp

context jmespath_laws
begin

lemma idents_search:
  "ts \<noteq> [] \<Longrightarrow> list_all jm_ident ts \<Longrightarrow>
   \<exists>search. jm (join ''.'' ts) = Some search \<and> (\<forall>v. search v = Some (dot_search ts v))"
proof (induction ts rule: rev_induct)
  case (snoc k ts)
  show ?case
  proof (cases "ts = []")
    case True
    then show ?thesis using field_law [of k] snoc.prems by (auto simp: dot_search_def)
  next
    case False
    with snoc obtain search where s: "jm (join ''.'' ts) = Some search" "\<forall>v. search v = Some (dot_search ts v)" by auto
    have ts: "list_all jm_ident ts" "jm_ident k" using snoc.prems by auto
    have l: "last (join ''.'' ts) \<noteq> char_of (10::nat)" using join_idents_last [OF False ts(1)] .
    have "dot_path (join ''.'' ts)"
      using plain_dot_path [OF l] split_on_join_idents [OF False ts(1)] ts(1) by simp
    from sub_law [OF this l ts(2) s(1)] s(2) False show ?thesis
      by (auto simp: join_snoc dot_search_def dot_rest_snoc)
  qed
qed simp

lemma dot_path_search:
  assumes "dot_path e" "last e \<noteq> char_of (10::nat)"
  shows "\<exists>search. jm e = Some search \<and> (\<forall>v. search v = Some (dot_search (split_on CHR ''.'' e) v))"
  using idents_search [of "split_on CHR ''.'' e"] assms by (simp add: plain_dot_path join_split_on)

end

text \<open>The resolver of the fast path is itself an implementation of the contract.\<close>

definition fast_jmespath :: jmespath where
  "fast_jmespath e =
     (if dot_path e \<and> last e \<noteq> char_of (10::nat) then Some (\<lambda>v. Some (dot_search (split_on CHR ''.'' e) v)) else None)"

interpretation fast: jmespath_laws fast_jmespath
proof
  show "\<exists>search. fast_jmespath k = Some search \<and> (\<forall>v. search v = Some (py_get k v))" if "jm_ident k" for k
    using that ident_last [OF that] ident_no_dot [OF that]
    by (simp add: fast_jmespath_def plain_dot_path split_on_single dot_search_def)
  show "\<exists>search'. fast_jmespath (e @ ''.'' @ k) = Some search' \<and>
      (\<forall>v. search' v = (case search v of None \<Rightarrow> None | Some u \<Rightarrow> Some (py_get k u)))"
    if e: "dot_path e" "last e \<noteq> char_of (10::nat)" and k: "jm_ident k" and s: "fast_jmespath e = Some search" for e k search
  proof -
    have sp: "split_on CHR ''.'' (e @ ''.'' @ k) = split_on CHR ''.'' e @ [k]" using split_on_snoc ident_no_dot [OF k] by simp
    have l: "last (e @ ''.'' @ k) \<noteq> char_of (10::nat)" using last_append_ident [OF k, of "e @ ''.''"] by simp
    have dp: "dot_path (e @ ''.'' @ k)"
      using plain_dot_path [OF l] plain_dot_path [OF e(2)] sp e(1) k by (simp del: append.simps)
    have ds: "dot_search (split_on CHR ''.'' e @ [k]) v = py_get k (dot_search (split_on CHR ''.'' e) v)" for v
      by (simp add: dot_search_def dot_rest_snoc)
    from s dp l show ?thesis unfolding fast_jmespath_def sp by (auto simp: e ds simp del: append.simps split: if_splits)
  qed
qed

section \<open>Properties\<close>

text \<open>C34: the fast path is exact. For every dot path without a trailing line feed, the resolver chosen at compile
  time returns on every value what the JMESPath search of the same expression returns, with the fast
  path switched on or off.\<close>

theorem dotpath_equiv_jmespath:
  assumes "jmespath_laws jm" "dot_path e" "last e \<noteq> char_of (10::nat)"
  shows "\<exists>r search. compile_source jm fp e = Some r \<and> jm e = Some search \<and> (\<forall>v. resolver_search jm r v = search v)"
proof -
  obtain search where s: "jm e = Some search" "\<forall>v. search v = Some (dot_search (split_on CHR ''.'' e) v)"
    using jmespath_laws.dot_path_search [OF assms] by blast
  then show ?thesis by (auto simp: compile_source_def resolver_search_def)
qed

theorem dotpath_equiv_jmespath_witness:
  "\<exists>r search. compile_source fast_jmespath True ''raw.user.name'' = Some r \<and> fast_jmespath ''raw.user.name'' = Some search \<and>
     (\<forall>v. resolver_search fast_jmespath r v = search v)"
  by (rule dotpath_equiv_jmespath [OF fast.jmespath_laws_axioms]) code_simp+

text \<open>the fast path differs from JMESPath on a trailing line feed. White space is insignificant in JMESPath, but
  the pattern of the fast path accepts one final line feed and the resolver then looks for a key that
  contains it: the same mapping reads the value with the fast path off and nothing with it on.\<close>

theorem dotpath_newline_diverges:
  assumes "jm (''a'' @ [char_of (10::nat)]) = Some (\<lambda>v. Some (py_get ''a'' v))"
  shows "map_option (\<lambda>r. resolver_search jm r (PDict [(''a'', PInt 1)])) (compile_source jm False (''a'' @ [char_of (10::nat)])) = Some (Some (PInt 1)) \<and>
         map_option (\<lambda>r. resolver_search jm r (PDict [(''a'', PInt 1)])) (compile_source jm True (''a'' @ [char_of (10::nat)])) = Some (Some PNone)"
proof -
  have "dot_path (''a'' @ [char_of (10::nat)])" "split_on CHR ''.'' (''a'' @ [char_of (10::nat)]) = [''a'' @ [char_of (10::nat)]]"
    by code_simp+
  then show ?thesis using assms
    by (simp add: compile_source_def is_fast_path_def resolver_search_def dot_search_def py_get_def dget_def)
qed

theorem dotpath_newline_diverges_witness:
  "map_option (\<lambda>r. resolver_search (\<lambda>_. Some (\<lambda>v. Some (py_get ''a'' v))) r (PDict [(''a'', PInt 1)]))
     (compile_source (\<lambda>_. Some (\<lambda>v. Some (py_get ''a'' v))) True (''a'' @ [char_of (10::nat)])) = Some (Some PNone)"
  using dotpath_newline_diverges [of "\<lambda>_. Some (\<lambda>v. Some (py_get ''a'' v))"] by simp

text \<open>A predicate that compares with null holds on an event without the field.\<close>

theorem equals_null_matches_missing:
  "compile_predicate fast_jmespath True (PDict [(''equals'', PDict [(''source'', PStr ''a.b''), (''value'', PNone)])]) =
     Inr (PredEquals (DotPathResolver ''a.b'' [''a'', ''b'']) ''a.b'' PNone) \<and>
   evaluate_predicate fast_jmespath (PredEquals (DotPathResolver ''a.b'' [''a'', ''b'']) ''a.b'' PNone) (PDict []) \<and>
   \<not> evaluate_predicate fast_jmespath (PredExists (DotPathResolver ''a.b'' [''a'', ''b'']) ''a.b'') (PDict [])"
  by code_simp

end
