(* ===== verification/Mapping_Operators.thy ===== *)
theory Mapping_Operators
  imports Mapping_Source
begin

text \<open>
  The operators of the mapping language (\<open>collectors/normalize/operators.py\<close>), pre-processing (\<open>preprocess.py\<close>) and the
  builder of observables (\<open>array_builder.py\<close>).

  An operator returns \<open>Inl\<close> for an exception: \<open>OperatorErr\<close> and its subclass \<open>OperatorSizeErr\<close> are the module's own
  errors, \<open>PyErr\<close> is an exception of Python nobody converts (\<open>TypeError\<close>, \<open>OverflowError\<close>) and \<open>SearchErr\<close> an error raised by a JMESPath search. Conversions of
  the standard library that compute with dates and floats are the record \<open>cast_env\<close>. The keys of a value
  map are strings, as in every mapping stored as JSON.
\<close>

section \<open>Casts\<close>

datatype op_exn = OperatorErr | OperatorSizeErr | PyErr | SearchErr

record cast_env =
  ce_iso_ms :: "string \<Rightarrow> int option"
  ce_float_ms :: "rat \<Rightarrow> int"
  ce_float_of :: "string \<Rightarrow> (rat \<times> string) option"
  ce_ms_iso :: "int \<Rightarrow> string option"
  ce_percent :: "rat \<Rightarrow> int"

definition epoch_ms_threshold :: int where
  "epoch_ms_threshold = 100000000000"

definition coerce_epoch_millis :: "int \<Rightarrow> int" where
  "coerce_epoch_millis value = (if \<bar>value\<bar> < epoch_ms_threshold then value * 1000 else value)"

definition iso_to_epoch :: "cast_env \<Rightarrow> pyval \<Rightarrow> op_exn + pyval" where
  "iso_to_epoch ce v =
     (case v of
        PInt n \<Rightarrow> Inr (PInt (coerce_epoch_millis n))
      | PFloat q _ \<Rightarrow> Inr (PInt (ce_float_ms ce q))
      | PStr s \<Rightarrow>
          (case ce_iso_ms ce (if endswith s ''Z'' then concat (map (\<lambda>c. if c = CHR ''Z'' then ''+00:00'' else [c]) s) else s) of
             None \<Rightarrow> Inl OperatorErr
           | Some ms \<Rightarrow> Inr (PInt ms))
      | _ \<Rightarrow> Inl OperatorErr)"

definition millis_to_iso :: "cast_env \<Rightarrow> int \<Rightarrow> op_exn + pyval" where
  "millis_to_iso ce ms = (case ce_ms_iso ce ms of None \<Rightarrow> Inl PyErr | Some t \<Rightarrow> Inr (PStr t))"

definition epoch_to_iso :: "cast_env \<Rightarrow> pyval \<Rightarrow> op_exn + pyval" where
  "epoch_to_iso ce v =
     (case v of
        PStr s \<Rightarrow> (case ce_float_of ce s of None \<Rightarrow> Inl OperatorErr | Some (q, _) \<Rightarrow> millis_to_iso ce (ce_float_ms ce q))
      | PInt n \<Rightarrow> millis_to_iso ce (coerce_epoch_millis n)
      | PFloat q _ \<Rightarrow> millis_to_iso ce (ce_float_ms ce q)
      | _ \<Rightarrow> Inl OperatorErr)"

definition cast_to_str :: "pyval \<Rightarrow> op_exn + pyval" where
  "cast_to_str v = (if v = PNone then Inl OperatorErr else Inr (PStr (py_str v)))"

definition cast_to_int :: "pyval \<Rightarrow> op_exn + pyval" where
  "cast_to_int v =
     (case v of
        PBool _ \<Rightarrow> Inl OperatorErr
      | PInt n \<Rightarrow> Inr (PInt n)
      | PFloat _ _ \<Rightarrow> (case py_int v of None \<Rightarrow> Inl OperatorErr | Some n \<Rightarrow> Inr (PInt n))
      | PStr s \<Rightarrow> (case parse_int s of None \<Rightarrow> Inl OperatorErr | Some n \<Rightarrow> Inr (PInt n))
      | _ \<Rightarrow> Inl OperatorErr)"

definition cast_to_bool :: "pyval \<Rightarrow> op_exn + pyval" where
  "cast_to_bool v =
     (case v of
        PBool b \<Rightarrow> Inr (PBool b)
      | PInt n \<Rightarrow> Inr (PBool (n \<noteq> 0))
      | PFloat q _ \<Rightarrow> Inr (PBool (q \<noteq> 0))
      | PStr s \<Rightarrow>
          (let n = lower (strip s) in
           if n \<in> set [''true'', ''1'', ''yes'', ''y''] then Inr (PBool True)
           else if n \<in> set [''false'', ''0'', ''no'', ''n'', ''''] then Inr (PBool False)
           else Inl OperatorErr)
      | _ \<Rightarrow> Inl OperatorErr)"

definition score_to_percent :: "cast_env \<Rightarrow> pyval \<Rightarrow> op_exn + pyval" where
  "score_to_percent ce v =
     (case v of
        PNone \<Rightarrow> Inr PNone
      | PInt n \<Rightarrow> if 0 \<le> n \<and> n \<le> 100 then Inr v else Inl OperatorErr
      | PFloat q _ \<Rightarrow> if 0 \<le> q \<and> q \<le> 1 then Inr (PInt (ce_percent ce q)) else Inl OperatorErr
      | _ \<Rightarrow> Inl OperatorErr)"

definition cast_string :: "(string \<Rightarrow> string) \<Rightarrow> pyval \<Rightarrow> op_exn + pyval" where
  "cast_string f v = (case v of PNone \<Rightarrow> Inr PNone | PStr s \<Rightarrow> Inr (PStr (f s)) | _ \<Rightarrow> Inl OperatorErr)"

definition cast_to_array :: "pyval \<Rightarrow> op_exn + pyval" where
  "cast_to_array v = Inr (case v of PNone \<Rightarrow> PList [] | PList xs \<Rightarrow> PList xs | _ \<Rightarrow> PList [v])"

fun dedup_loop :: "pyval list \<Rightarrow> pyval list \<Rightarrow> pyval list" where
  "dedup_loop seen [] = []"
| "dedup_loop seen (item # rest) =
     (if \<not> hashable item then item # dedup_loop seen rest
      else if list_ex (py_eq item) seen then dedup_loop seen rest
      else item # dedup_loop (seen @ [item]) rest)"

definition cast_dedup :: "pyval \<Rightarrow> op_exn + pyval" where
  "cast_dedup v =
     (case v of PNone \<Rightarrow> Inr PNone | PList xs \<Rightarrow> Inr (PList (dedup_loop [] xs)) | _ \<Rightarrow> Inl OperatorErr)"

definition nonempty_str :: "pyval \<Rightarrow> bool" where
  "nonempty_str v = (case v of PStr s \<Rightarrow> s \<noteq> [] | _ \<Rightarrow> False)"

fun mitre_loop :: "pyval list \<Rightarrow> op_exn + pyval list" where
  "mitre_loop [] = Inr []"
| "mitre_loop (item # rest) =
     (case item of
        PDict d \<Rightarrow>
          if \<not> dhas d ''tactic'' then Inl OperatorErr
          else (case dget d ''tactic'' of
                  PNone \<Rightarrow> mitre_loop rest
                | PDict t \<Rightarrow>
                    if \<not> nonempty_str (dget t ''id'') \<or> \<not> nonempty_str (dget t ''name'') then Inl OperatorErr
                    else bind_result (mitre_loop rest) (\<lambda>out. Inr (
                           PDict [(''tactics'', PList [PDict [(''uid'', dget t ''id''), (''name'', dget t ''name'')]]),
                                  (''version'', PStr ''16.1'')] # out))
                | _ \<Rightarrow> Inl OperatorErr)
      | _ \<Rightarrow> Inl OperatorErr)"

definition mitre_tactic_to_ocsf :: "pyval \<Rightarrow> op_exn + pyval" where
  "mitre_tactic_to_ocsf v =
     (case v of
        PNone \<Rightarrow> Inr PNone
      | PList xs \<Rightarrow> bind_result (mitre_loop xs) (\<lambda>out. Inr (PList out))
      | _ \<Rightarrow> Inl OperatorErr)"

definition type_casts :: "cast_env \<Rightarrow> (string \<times> (pyval \<Rightarrow> op_exn + pyval)) list" where
  "type_casts ce =
     [(''iso_to_epoch'', iso_to_epoch ce), (''epoch_to_iso'', epoch_to_iso ce), (''to_str'', cast_to_str),
      (''to_int'', cast_to_int), (''to_bool'', cast_to_bool), (''score_to_percent'', score_to_percent ce),
      (''lowercase'', cast_string lower), (''uppercase'', cast_string upper), (''trim'', cast_string strip),
      (''to_array'', cast_to_array), (''dedup'', cast_dedup), (''mitre_tactic_to_ocsf'', mitre_tactic_to_ocsf)]"

definition apply_type_cast :: "cast_env \<Rightarrow> pyval \<Rightarrow> string \<Rightarrow> op_exn + pyval" where
  "apply_type_cast ce value cast_name =
     (case map_of (type_casts ce) cast_name of None \<Rightarrow> Inl OperatorErr | Some f \<Rightarrow> f value)"

section \<open>Value map and default\<close>

text \<open>The lookup, shared by the map and the probe map of the engine: \<open>None\<close> is a miss.\<close>

definition value_map_lookup :: "pyval \<Rightarrow> (string \<times> 'a) list \<Rightarrow> op_exn + 'a option" where
  "value_map_lookup value m =
     (case value of
        PStr s \<Rightarrow> Inr (map_option snd (find (\<lambda>(k, v). lower k = lower s) m))
      | _ \<Rightarrow> if \<not> hashable value then Inl PyErr
             else if value = PNone then Inr None
             else Inr (map_of m (py_str value)))"

definition apply_value_map :: "pyval \<Rightarrow> pydict \<Rightarrow> op_exn + pyval" where
  "apply_value_map value m =
     bind_result (value_map_lookup value m) (\<lambda>r. Inr (case r of None \<Rightarrow> value | Some v \<Rightarrow> v))"

definition apply_default :: "pyval \<Rightarrow> pyval \<Rightarrow> pyval" where
  "apply_default value dflt = (if value = PNone then dflt else value)"

section \<open>Pre-processing\<close>

record preprocess_op =
  po_op :: string
  po_source :: resolver
  po_source_str :: string
  po_target :: string
  po_tolerant :: bool

text \<open>\<open>json.loads\<close> is the argument \<open>loads\<close>; \<open>None\<close> is any of the errors the code catches.\<close>

definition json_parse :: "(string \<Rightarrow> pyval option) \<Rightarrow> nat \<Rightarrow> bool \<Rightarrow> pyval \<Rightarrow> op_exn + pyval" where
  "json_parse loads max_bytes tolerant value =
     (case value of
        PNone \<Rightarrow> Inr PNone
      | PStr s \<Rightarrow>
          if length (utf8 s) > max_bytes then Inl OperatorSizeErr
          else (case loads s of
                  Some v \<Rightarrow> Inr v
                | None \<Rightarrow> if tolerant then Inr PNone else Inl OperatorErr)
      | _ \<Rightarrow> if tolerant then Inr PNone else Inl OperatorErr)"

definition apply_preprocess_op :: "(string \<Rightarrow> pyval option) \<Rightarrow> nat \<Rightarrow> pyval \<Rightarrow> string \<Rightarrow> bool \<Rightarrow> op_exn + pyval" where
  "apply_preprocess_op loads max_bytes value op_name tolerant =
     (if op_name = ''json_parse'' then json_parse loads max_bytes tolerant value else Inl OperatorErr)"

section \<open>Observables\<close>

record array_item =
  ai_name :: string
  ai_type :: string
  ai_type_id :: int
  ai_source :: resolver
  ai_source_str :: string
  ai_extracted :: bool
  ai_explode :: bool
  ai_skip_null :: bool

record array_rule =
  ar_target_path :: "string list"
  ar_target_str :: string
  ar_items :: "array_item list"
  ar_dedup_by :: "string list"

definition target_parts :: "pyval \<Rightarrow> mapping_def_error + string list" where
  "target_parts target =
     (case target of
        PStr t \<Rightarrow>
          if strip t = [] then Inl (DefError ''target'')
          else (let parts = filter (\<lambda>p. p \<noteq> []) (split_on CHR ''.'' t) in
                if parts = [] then Inl (DefError ''target'') else Inr parts)
      | _ \<Rightarrow> Inl (DefError ''target''))"

definition scalar_rule_fields :: "string list" where
  "scalar_rule_fields =
     [''source'', ''const'', ''value_map'', ''default'', ''type_cast'', ''pre_cast'', ''fallback_source'', ''when'']"

definition array_rule_fields :: "string list" where
  "array_rule_fields = [''target'', ''kind'', ''items'', ''skip_null'', ''dedup_by'']"

definition item_required_fields :: "string list" where
  "item_required_fields = [''name'', ''type'', ''type_id'', ''source'']"

definition item_legal_fields :: "string list" where
  "item_legal_fields = [''name'', ''type'', ''type_id'', ''source'', ''explode'', ''skip_null'']"

definition stripped_str :: "string \<Rightarrow> pyval \<Rightarrow> mapping_def_error + string" where
  "stripped_str what v =
     (case v of PStr s \<Rightarrow> if strip s = [] then Inl (DefError what) else Inr s | _ \<Rightarrow> Inl (DefError what))"

definition compile_item :: "jmespath \<Rightarrow> bool \<Rightarrow> bool \<Rightarrow> pyval \<Rightarrow> mapping_def_error + array_item" where
  "compile_item jm fp rule_skip_null item =
     (case item of
        PDict d \<Rightarrow>
          if dhas d ''required'' then Inl (DefError ''items: required'')
          else if \<not> list_all (\<lambda>(k, _). k \<in> set item_legal_fields) d then Inl (DefError ''items: unknown fields'')
          else if \<not> list_all (\<lambda>k. dhas d k) item_required_fields then Inl (DefError ''items: missing fields'')
          else
            bind_result (stripped_str ''items: name'' (dget d ''name'')) (\<lambda>name.
            bind_result (stripped_str ''items: type'' (dget d ''type'')) (\<lambda>type_label.
            bind_result (case dget d ''type_id'' of
                           PInt n \<Rightarrow> Inr n | PBool b \<Rightarrow> Inr (if b then 1 else 0) | _ \<Rightarrow> Inl (DefError ''items: type_id''))
              (\<lambda>type_id.
            bind_result (stripped_str ''items: source'' (dget d ''source'')) (\<lambda>src.
              case compile_source jm fp src of
                None \<Rightarrow> Inl (DefError ''items: invalid expression'')
              | Some r \<Rightarrow>
                  Inr \<lparr>ai_name = name, ai_type = type_label, ai_type_id = type_id, ai_source = r, ai_source_str = src,
                       ai_extracted = startswith src ''_'', ai_explode = truthy (dget_default d ''explode'' (PBool False)),
                       ai_skip_null = (if dhas d ''skip_null'' then truthy (dget d ''skip_null'') else rule_skip_null)\<rparr>))))
      | _ \<Rightarrow> Inl (DefError ''items: object''))"

definition dedup_names :: "pyval \<Rightarrow> mapping_def_error + string list" where
  "dedup_names v =
     (case v of
        PList fs \<Rightarrow> mapM_result (stripped_str ''dedup_by'') fs
      | _ \<Rightarrow> Inl (DefError ''dedup_by''))"

definition compile_array_builder_rule :: "jmespath \<Rightarrow> bool \<Rightarrow> pyval \<Rightarrow> mapping_def_error + array_rule" where
  "compile_array_builder_rule jm fp rule =
     (case rule of
        PDict d \<Rightarrow>
          bind_result (target_parts (dget d ''target'')) (\<lambda>path.
          if list_ex (\<lambda>k. dhas d k) scalar_rule_fields then Inl (DefError ''array_builder: forbidden fields'')
          else if \<not> list_all (\<lambda>(k, _). k \<in> set array_rule_fields) d then Inl (DefError ''array_builder: unknown fields'')
          else (case dget d ''items'' of
                  PList items \<Rightarrow>
                    bind_result (dedup_names (dget_default d ''dedup_by'' (PList []))) (\<lambda>dedup_by.
                    bind_result (mapM_result (compile_item jm fp (truthy (dget_default d ''skip_null'' (PBool True)))) items) (\<lambda>its.
                      Inr \<lparr>ar_target_path = path, ar_target_str = py_str (dget d ''target''), ar_items = its,
                           ar_dedup_by = dedup_by\<rparr>))
                | _ \<Rightarrow> Inl (DefError ''array_builder: items'')))
      | _ \<Rightarrow> Inl (DefError ''array_builder: object''))"

definition observable :: "array_item \<Rightarrow> pyval \<Rightarrow> pydict" where
  "observable item v =
     [(''name'', PStr (ai_name item)), (''type'', PStr (ai_type item)), (''type_id'', PInt (ai_type_id item)), (''value'', v)]"

definition item_observables :: "jmespath \<Rightarrow> pyval \<Rightarrow> pyval \<Rightarrow> array_item \<Rightarrow> op_exn + pydict list" where
  "item_observables jm raw extracted item =
     (case resolver_search jm (ai_source item) (if ai_extracted item then extracted else raw) of
        None \<Rightarrow> Inl SearchErr
      | Some value \<Rightarrow>
          Inr (if ai_explode item then
                 (if value = PNone then []
                  else (let elements = (case value of PList xs \<Rightarrow> xs | _ \<Rightarrow> [value]) in
                        map (observable item) (filter (\<lambda>e. \<not> (e = PNone \<and> ai_skip_null item)) elements)))
               else if value = PNone \<and> ai_skip_null item then []
               else [observable item value]))"

fun dedup_observables :: "string list \<Rightarrow> pyval list list \<Rightarrow> pydict list \<Rightarrow> op_exn + pydict list" where
  "dedup_observables dedup_by seen [] = Inr []"
| "dedup_observables dedup_by seen (obs # rest) =
     (let key = map (dget obs) dedup_by in
      if \<not> list_all hashable key then Inl PyErr
      else if list_ex (list_all2 py_eq key) seen then dedup_observables dedup_by seen rest
      else bind_result (dedup_observables dedup_by (seen @ [key]) rest) (\<lambda>out. Inr (obs # out)))"

definition apply_array_builder :: "jmespath \<Rightarrow> array_rule \<Rightarrow> pyval \<Rightarrow> pyval \<Rightarrow> op_exn + pydict list" where
  "apply_array_builder jm rule raw extracted =
     bind_result (mapM_result (item_observables jm raw extracted) (ar_items rule)) (\<lambda>groups.
       if ar_dedup_by rule \<noteq> [] then dedup_observables (ar_dedup_by rule) [] (concat groups) else Inr (concat groups))"

end
