(* ===== verification/Payload_Reduction.thy ===== *)
theory Payload_Reduction
  imports Py_Prelude
begin

text \<open>
  Declarative reduction of a vendor payload before dispatch, \<open>collectors/normalize/payload_reduction.py\<close>.

  \<open>split_path\<close> and \<open>compile_raw_reduction\<close> turn the block of the mapping into specifications, \<open>transform\<close> rewrites a
  document along a path, \<open>prune_nulls\<close> removes null keys, \<open>apply_raw_reduction\<close> runs the specifications. The code
  returns a pair (node, changed) and recognises an unchanged value by identity; here a leaf operation says
  so itself (\<open>LeafSame\<close>), and the marks it appends to a list are a third component of the result.
\<close>

section \<open>Specifications\<close>

record reduction_spec =
  rs_path_str :: string
  rs_path_parts :: "string list"
  rs_max_items :: "nat option"
  rs_max_bytes :: "nat option"
  rs_drop :: bool
  rs_keep_only :: "string list option"
  rs_drop_nulls :: bool

definition is_global :: "reduction_spec \<Rightarrow> bool" where
  "is_global s \<longleftrightarrow> rs_drop_nulls s \<and> rs_path_parts s = []"

definition list_wildcard :: string where
  "list_wildcard = ''[]''"

text \<open>One segment. The loop of the code clears the segment in its body, so it runs at most once.\<close>

definition split_segment :: "string \<Rightarrow> string list" where
  "split_segment seg =
     (if seg = [] then []
      else if endswith seg list_wildcard
      then (let base = take (length seg - length list_wildcard) seg in
            (if base \<noteq> [] then [base] else []) @ [list_wildcard])
      else [seg])"

definition split_path :: "string \<Rightarrow> string list" where
  "split_path path = concat (map split_segment (split_on CHR ''.'' path))"

datatype reduction_error =
    NotAList
  | ItemNotObject nat
  | PathRequired nat
  | PathInvalid nat
  | KeepOnlyInvalid nat
  | NoOperation nat
  | DropExclusive nat
  | NotPositiveInt nat string

definition opt_positive :: "nat \<Rightarrow> string \<Rightarrow> pyval \<Rightarrow> reduction_error + nat option" where
  "opt_positive idx name v =
     (case v of
        PNone \<Rightarrow> Inr None
      | PInt n \<Rightarrow> if n \<le> 0 then Inl (NotPositiveInt idx name) else Inr (Some (nat n))
      | _ \<Rightarrow> Inl (NotPositiveInt idx name))"

definition keep_only_of :: "nat \<Rightarrow> pyval \<Rightarrow> reduction_error + string list option" where
  "keep_only_of idx v =
     (case v of
        PNone \<Rightarrow> Inr None
      | PList ks \<Rightarrow>
          if list_all (\<lambda>k. case k of PStr s \<Rightarrow> s \<noteq> [] | _ \<Rightarrow> False) ks
          then Inr (Some (map (\<lambda>k. case k of PStr s \<Rightarrow> s | _ \<Rightarrow> []) ks))
          else Inl (KeepOnlyInvalid idx)
      | _ \<Rightarrow> Inl (KeepOnlyInvalid idx))"

definition compile_spec :: "nat \<Rightarrow> pyval \<Rightarrow> reduction_error + reduction_spec" where
  "compile_spec idx item =
     (case item of
        PDict d \<Rightarrow>
          (let drop_nulls = truthy (dget d ''drop_nulls''); path = dget d ''path'' in
           if drop_nulls \<and> path = PNone then
             Inr \<lparr>rs_path_str = [], rs_path_parts = [], rs_max_items = None, rs_max_bytes = None, rs_drop = False,
                  rs_keep_only = None, rs_drop_nulls = True\<rparr>
           else case path of
             PStr p \<Rightarrow>
               if strip p = [] then Inl (PathRequired idx)
               else if split_path p = [] then Inl (PathInvalid idx)
               else
                 (let max_items = dget d ''max_items''; max_bytes = dget d ''max_bytes'';
                      drp = truthy (dget d ''drop'')
                  in bind_result (keep_only_of idx (dget d ''keep_only'')) (\<lambda>keep_only.
                     if max_items = PNone \<and> max_bytes = PNone \<and> \<not> drp \<and> keep_only = None \<and> \<not> drop_nulls
                     then Inl (NoOperation idx)
                     else if drp \<and> (max_items \<noteq> PNone \<or> max_bytes \<noteq> PNone \<or> keep_only \<noteq> None)
                     then Inl (DropExclusive idx)
                     else bind_result (opt_positive idx ''max_items'' max_items) (\<lambda>mi.
                          bind_result (opt_positive idx ''max_bytes'' max_bytes) (\<lambda>mb.
                          Inr \<lparr>rs_path_str = p, rs_path_parts = split_path p, rs_max_items = mi, rs_max_bytes = mb,
                               rs_drop = drp, rs_keep_only = keep_only, rs_drop_nulls = drop_nulls\<rparr>))))
           | _ \<Rightarrow> Inl (PathRequired idx))
      | _ \<Rightarrow> Inl (ItemNotObject idx))"

definition compile_raw_reduction :: "pyval \<Rightarrow> reduction_error + reduction_spec list" where
  "compile_raw_reduction raw_reduction =
     (case raw_reduction of
        PNone \<Rightarrow> Inr []
      | PList items \<Rightarrow> mapM_result (\<lambda>(idx, item). compile_spec idx item) (zip [0 ..< length items] items)
      | _ \<Rightarrow> Inl NotAList)"

section \<open>Rewriting along a path\<close>

datatype leaf_result = LeafSame | LeafRemove | LeafReplace pyval

fun transform :: "(pyval \<Rightarrow> leaf_result \<times> string list) \<Rightarrow> string list \<Rightarrow> pyval \<Rightarrow> pyval \<times> bool \<times> string list" where
  "transform leaf_op [] node = (node, False, [])"
| "transform leaf_op (head # rest) node =
     (if head = list_wildcard then
        (case node of
           PList items \<Rightarrow>
             (let rs = map (transform leaf_op rest) items;
                  changed = list_ex (\<lambda>r. fst (snd r)) rs
              in (if changed then PList (map fst rs) else node, changed, concat (map (snd \<circ> snd) rs)))
         | _ \<Rightarrow> (node, False, []))
      else
        (case node of
           PDict d \<Rightarrow>
             (case map_of d head of
                None \<Rightarrow> (node, False, [])
              | Some v \<Rightarrow>
                  if rest = [] then
                    (case leaf_op v of
                       (LeafSame, ms) \<Rightarrow> (node, False, ms)
                     | (LeafRemove, ms) \<Rightarrow> (PDict (AList.delete head d), True, ms)
                     | (LeafReplace v', ms) \<Rightarrow> (PDict (AList.update head v' d), True, ms))
                  else
                    (case transform leaf_op rest v of
                       (child, changed, ms) \<Rightarrow>
                         if changed then (PDict (AList.update head child d), True, ms) else (node, False, ms)))
         | _ \<Rightarrow> (node, False, [])))"

fun prune_nulls :: "pyval \<Rightarrow> pyval \<times> bool"
  and prune_list :: "pyval list \<Rightarrow> pyval list \<times> bool"
  and prune_dict :: "pydict \<Rightarrow> pydict \<times> bool"
where
  "prune_nulls (PDict d) = (case prune_dict d of (out, changed) \<Rightarrow> (if changed then PDict out else PDict d, changed))"
| "prune_nulls (PList xs) = (case prune_list xs of (out, changed) \<Rightarrow> (if changed then PList out else PList xs, changed))"
| "prune_nulls v = (v, False)"
| "prune_list [] = ([], False)"
| "prune_list (x # xs) =
     (case prune_nulls x of (x', c) \<Rightarrow> case prune_list xs of (out, changed) \<Rightarrow> (x' # out, c \<or> changed))"
| "prune_dict [] = ([], False)"
| "prune_dict ((k, v) # d) =
     (case prune_dict d of (out, changed) \<Rightarrow>
      if v = PNone then (out, True)
      else case prune_nulls v of (v', c) \<Rightarrow> ((k, v') # out, c \<or> changed))"

section \<open>Applying the specifications\<close>

text \<open>\<open>b.decode("utf-8", "ignore")\<close> for code points below 256.\<close>

fun utf8_decode :: "nat list \<Rightarrow> string" where
  "utf8_decode [] = []"
| "utf8_decode (b # bs) =
     (if b < 128 then char_of b # utf8_decode bs
      else if b = 194 \<or> b = 195 then
        (case bs of
           c # cs \<Rightarrow> if 128 \<le> c \<and> c < 192 then char_of ((b - 192) * 64 + (c - 128)) # utf8_decode cs
                     else utf8_decode bs
         | [] \<Rightarrow> [])
      else utf8_decode bs)"

definition reduction_leaf :: "reduction_spec \<Rightarrow> pyval \<Rightarrow> leaf_result \<times> string list" where
  "reduction_leaf s value =
     (if rs_drop s then (LeafRemove, [rs_path_str s @ ''(dropped)''])
      else case (rs_keep_only s, rs_max_items s, rs_max_bytes s, value) of
        (Some ks, _, _, PDict d) \<Rightarrow>
          (let kept = filter (\<lambda>kv. fst kv \<in> set ks) d in
           if length kept = length d then (LeafSame, [])
           else (LeafReplace (PDict kept),
                 [rs_path_str s @ ''(kept '' @ nat_str (length kept) @ ''/'' @ nat_str (length d) @ '')'']))
      | (_, Some n, _, PList xs) \<Rightarrow>
          if length xs > n
          then (LeafReplace (PList (take n xs)), [rs_path_str s @ ''[+'' @ nat_str (length xs - n) @ '' items]''])
          else (LeafSame, [])
      | (_, _, Some n, PStr t) \<Rightarrow>
          if length (utf8 t) > n
          then (LeafReplace (PStr (utf8_decode (take n (utf8 t)))),
                [rs_path_str s @ ''(~'' @ nat_str (length (utf8 t) - n) @ ''B)''])
          else (LeafSame, [])
      | _ \<Rightarrow> (LeafSame, []))"

text \<open>One specification: the document, whether it changed, and the marks.\<close>

definition apply_spec :: "reduction_spec \<Rightarrow> pyval \<Rightarrow> pyval \<times> bool \<times> string list" where
  "apply_spec s obj =
     (if is_global s
      then (case prune_nulls obj of (o', changed) \<Rightarrow> (o', changed, if changed then [''nulls''] else []))
      else transform (reduction_leaf s) (rs_path_parts s) obj)"

fun apply_specs :: "reduction_spec list \<Rightarrow> pyval \<times> bool \<times> string list \<Rightarrow> pyval \<times> bool \<times> string list" where
  "apply_specs [] st = st"
| "apply_specs (s # specs) (obj, moved, dropped) =
     (case apply_spec s obj of
        (obj', changed, marks) \<Rightarrow>
          apply_specs specs (if changed then (obj', True, dropped @ marks) else (obj, moved, dropped)))"

definition apply_raw_reduction :: "pyval \<Rightarrow> reduction_spec list \<Rightarrow> pydict option" where
  "apply_raw_reduction raw specs =
     (case raw of
        PDict d \<Rightarrow>
          if specs = [] then None
          else (case apply_specs specs (raw, False, []) of
                  (obj, moved, dropped) \<Rightarrow>
                    if dropped = [] \<or> \<not> moved then None
                    else Some (AList.update ''_centralops_reduced'' (PList (map PStr dropped)) (as_dict obj)))
      | _ \<Rightarrow> None)"

section \<open>Well-formed documents and reducts\<close>

text \<open>Every dictionary has distinct keys.\<close>

fun wf_val :: "pyval \<Rightarrow> bool" and wf_list :: "pyval list \<Rightarrow> bool" and wf_dict :: "pydict \<Rightarrow> bool" where
  "wf_val (PDict d) = wf_dict d"
| "wf_val (PList xs) = wf_list xs"
| "wf_val _ = True"
| "wf_list [] = True"
| "wf_list (x # xs) = (wf_val x \<and> wf_list xs)"
| "wf_dict [] = True"
| "wf_dict ((k, v) # d) = (k \<notin> fst ` set d \<and> wf_val v \<and> wf_dict d)"

lemma wf_list_iff: "wf_list xs \<longleftrightarrow> (\<forall>x\<in>set xs. wf_val x)"
  by (induction xs) auto

lemma wf_dict_iff: "wf_dict d \<longleftrightarrow> distinct (map fst d) \<and> (\<forall>kv\<in>set d. wf_val (snd kv))"
  by (induction d) (force simp: image_iff)+

lemma wf_dict_lookup: "wf_dict d \<Longrightarrow> map_of d k = Some v \<Longrightarrow> wf_val v"
  by (force simp: wf_dict_iff dest: map_of_SomeD)

lemma wf_dict_update: "wf_dict d \<Longrightarrow> wf_val v \<Longrightarrow> wf_dict (AList.update k v d)"
proof -
  have "kv \<in> set (AList.update k v d) \<Longrightarrow> kv \<in> set d \<or> snd kv = v" for kv
    by (induction d) (auto split: if_splits)
  then show "wf_dict d \<Longrightarrow> wf_val v \<Longrightarrow> wf_dict (AList.update k v d)"
    by (auto simp: wf_dict_iff distinct_keys_update)
qed

lemma wf_dict_delete: "wf_dict d \<Longrightarrow> wf_dict (AList.delete k d)"
proof -
  have "kv \<in> set (AList.delete k d) \<Longrightarrow> kv \<in> set d" for kv
    by (induction d) (auto split: if_splits)
  then show "wf_dict d \<Longrightarrow> wf_dict (AList.delete k d)"
    by (auto simp: wf_dict_iff distinct_keys_delete)
qed

lemma wf_dict_filter: "wf_dict d \<Longrightarrow> wf_dict (filter P d)"
  by (auto simp: wf_dict_iff distinct_map_filter)

text \<open>What may remain of a value: a prefix of a string, a prefix of a list of what remains of its items, a
  dictionary with fewer keys and what remains of their values.\<close>

inductive reduct :: "pyval \<Rightarrow> pyval \<Rightarrow> bool" where
  reduct_refl: "reduct v v"
| reduct_str: "prefix t s \<Longrightarrow> reduct (PStr s) (PStr t)"
| reduct_list: "length ys \<le> length xs \<Longrightarrow> (\<And>i. i < length ys \<Longrightarrow> reduct (xs ! i) (ys ! i)) \<Longrightarrow>
    reduct (PList xs) (PList ys)"
| reduct_dict: "(\<And>k v'. map_of d' k = Some v' \<Longrightarrow> \<exists>v. map_of d k = Some v \<and> reduct v v') \<Longrightarrow>
    reduct (PDict d) (PDict d')"

inductive_cases reduct_to_dictE: "reduct v (PDict d')"
inductive_cases reduct_to_listE: "reduct v (PList ys)"
inductive_cases reduct_to_strE: "reduct v (PStr t)"
inductive_cases reduct_to_noneE: "reduct v PNone"

lemma reduct_dictD:
  "reduct v (PDict d') \<Longrightarrow> \<exists>d. v = PDict d \<and> (\<forall>k v'. map_of d' k = Some v' \<longrightarrow> (\<exists>w. map_of d k = Some w \<and> reduct w v'))"
  by (erule reduct_to_dictE) (auto intro: reduct_refl)

lemma reduct_listD:
  "reduct v (PList ys) \<Longrightarrow>
   \<exists>xs. v = PList xs \<and> length ys \<le> length xs \<and> (\<forall>i<length ys. reduct (xs ! i) (ys ! i))"
  by (erule reduct_to_listE) (auto intro: reduct_refl)

lemma reduct_strD: "reduct v (PStr t) \<Longrightarrow> \<exists>s. v = PStr s \<and> prefix t s"
  by (erule reduct_to_strE) auto

lemma reduct_noneD: "reduct v PNone \<Longrightarrow> v = PNone"
  by (erule reduct_to_noneE) auto

lemma reduct_trans: "reduct v w \<Longrightarrow> reduct u v \<Longrightarrow> reduct u w"
proof (induction arbitrary: u rule: reduct.induct)
  case (reduct_str t s)
  then show ?case by (auto dest!: reduct_strD intro!: reduct.reduct_str intro: prefix_order.trans)
next
  case (reduct_list ys xs)
  from reduct_listD [OF reduct_list.prems] obtain zs where
    "u = PList zs" "length xs \<le> length zs" "\<forall>i<length xs. reduct (zs ! i) (xs ! i)" by blast
  with reduct_list show ?case by (auto intro!: reduct.reduct_list)
next
  case (reduct_dict d' d)
  from reduct_dictD [OF reduct_dict.prems] obtain c where
    c: "u = PDict c" "\<forall>k v'. map_of d k = Some v' \<longrightarrow> (\<exists>w. map_of c k = Some w \<and> reduct w v')" by blast
  show ?case unfolding c(1)
    by (rule reduct.reduct_dict) (use reduct_dict.IH c(2) in blast)
qed simp

lemma reduct_update: "map_of d k = Some v \<Longrightarrow> reduct v v' \<Longrightarrow> reduct (PDict d) (PDict (AList.update k v' d))"
  by (rule reduct_dict) (auto simp: update_conv' split: if_splits intro: reduct_refl)

lemma reduct_delete: "reduct (PDict d) (PDict (AList.delete k d))"
  by (rule reduct_dict) (auto simp: delete_conv' restrict_map_def split: if_splits intro: reduct_refl)

section \<open>Operations yield reducts\<close>

lemma utf8_char_length: "length (utf8_char c) = (if (of_char c :: nat) < 128 then 1 else 2)"
  by (simp add: utf8_char_def Let_def)

lemma utf8_simps [simp]: "utf8 [] = []" "utf8 (c # cs) = utf8_char c @ utf8 cs" "utf8 (s @ t) = utf8 s @ utf8 t"
  by (simp_all add: utf8_def)

lemma utf8_char_cases:
  obtains m where "utf8_char c = [m]" "m < 128" "char_of m = c"
  | b x where "utf8_char c = [b, x]" "b = 194 \<or> b = 195" "128 \<le> x" "x < 192" "char_of ((b - 192) * 64 + (x - 128)) = c"
proof (cases "(of_char c :: nat) < 128")
  case True
  then show ?thesis using that(1) [of "of_char c"] by (simp add: utf8_char_def)
next
  case False
  define m :: nat where "m = of_char c"
  have "2 \<le> m div 64" "m div 64 < 4"
    using False of_char_bound [of c] by (simp_all add: m_def less_eq_div_iff_mult_less_eq less_mult_imp_div_less)
  then have "m div 64 = 2 \<or> m div 64 = 3" by linarith
  then show ?thesis using that(2) [of "192 + m div 64" "128 + m mod 64"] False
    by (simp add: utf8_char_def m_def [symmetric]) (auto simp: m_def)
qed

lemma utf8_decode_char: "utf8_decode (utf8_char c @ bs) = c # utf8_decode bs"
  by (cases c rule: utf8_char_cases) auto

lemma utf8_decode_partial: "n < length (utf8_char c) \<Longrightarrow> utf8_decode (take n (utf8_char c)) = []"
  by (cases c rule: utf8_char_cases) (auto simp: less_Suc_eq numeral_2_eq_2)

text \<open>Decoding a truncated encoding gives the longest prefix of whole characters.\<close>

lemma utf8_decode_take:
  "\<exists>t u. s = t @ u \<and> utf8_decode (take n (utf8 s)) = t \<and> length (utf8 t) \<le> n \<and>
     (n \<le> length (utf8 s) \<longrightarrow> n \<le> Suc (length (utf8 t)))"
proof (induction s arbitrary: n)
  case (Cons c cs)
  show ?case
  proof (cases "n < length (utf8_char c)")
    case True
    then show ?thesis
      by (intro exI [of _ "[]"] exI [of _ "c # cs"]) (auto simp: utf8_decode_partial utf8_char_length split: if_splits)
  next
    case False
    define k where "k = n - length (utf8_char c)"
    have n: "n = length (utf8_char c) + k" using False by (simp add: k_def)
    obtain t u where "cs = t @ u" "utf8_decode (take k (utf8 cs)) = t" "length (utf8 t) \<le> k"
        "k \<le> length (utf8 cs) \<longrightarrow> k \<le> Suc (length (utf8 t))" using Cons.IH by blast
    then show ?thesis unfolding n
      by (intro exI [of _ "c # t"] exI [of _ u]) (simp add: utf8_decode_char)
  qed
qed (auto intro: exI [of _ "[]"])

lemma utf8_clip_prefix: "prefix (utf8_decode (take n (utf8 s))) s"
  using utf8_decode_take [of s n] by (metis prefixI)

lemma leaf_reduct: "reduction_leaf s v = (LeafReplace v', ms) \<Longrightarrow> wf_val v \<Longrightarrow> reduct v v' \<and> wf_val v'"
proof -
  assume a: "reduction_leaf s v = (LeafReplace v', ms)" and wf: "wf_val v"
  have flt: "reduct (PDict d) (PDict (filter (\<lambda>kv. fst kv \<in> S) d))" for d and S :: "string set"
  proof (rule reduct_dict)
    fix k v' assume "map_of (filter (\<lambda>kv. fst kv \<in> S) d) k = Some v'"
    then have "map_of d k = Some v'" by (induction d) (auto split: if_splits dest!: map_of_SomeD)
    then show "\<exists>v. map_of d k = Some v \<and> reduct v v'" by (blast intro: reduct_refl)
  qed
  have tk: "reduct (PList xs) (PList (take n xs))" for xs n
    by (rule reduct_list) (auto intro: reduct_refl)
  have st: "reduct (PStr t) (PStr (utf8_decode (take n (utf8 t))))" for t n
    by (rule reduct_str) (rule utf8_clip_prefix)
  have wt: "wf_list xs \<Longrightarrow> wf_list (take n xs)" for xs n by (auto simp: wf_list_iff dest: in_set_takeD)
  show ?thesis using a wf
    by (auto simp: reduction_leaf_def Let_def flt tk st wf_dict_filter wt split: if_splits option.splits pyval.splits)
qed

lemma transform_unchanged: "transform leaf parts node = (node', False, ms) \<Longrightarrow> node' = node"
  by (induction parts) (auto simp: Let_def split: if_splits pyval.splits option.splits leaf_result.splits prod.splits)

lemma transform_list:
  "fst (transform leaf (list_wildcard # rest) (PList items)) = PList (map (\<lambda>x. fst (transform leaf rest x)) items)"
proof -
  have "map (\<lambda>x. fst (transform leaf rest x)) items = items" if "\<not> (\<exists>x\<in>set items. fst (snd (transform leaf rest x)))"
    using that by (intro map_idI) (metis transform_unchanged prod.collapse)
  then show ?thesis by (auto simp: Let_def list_ex_iff o_def)
qed

lemma transform_reduct:
  assumes leaf: "\<And>v v' ms. leaf v = (LeafReplace v', ms) \<Longrightarrow> wf_val v \<Longrightarrow> reduct v v' \<and> wf_val v'"
  shows "wf_val node \<Longrightarrow> reduct node (fst (transform leaf parts node)) \<and> wf_val (fst (transform leaf parts node))"
proof (induction parts arbitrary: node)
  case (Cons head rest)
  show ?case
  proof (cases "head = list_wildcard")
    case True
    show ?thesis
    proof (cases node)
      case (PList items)
      with Cons.prems Cons.IH show ?thesis unfolding True PList transform_list
        by (auto simp: wf_list_iff intro!: reduct_list)
    qed (use True Cons.prems in \<open>auto intro: reduct_refl\<close>)
  next
    case False
    show ?thesis
    proof (cases node)
      case (PDict d)
      show ?thesis
      proof (cases "map_of d head")
        case (Some v)
        have wv: "wf_val v" using Cons.prems Some PDict by (auto dest: wf_dict_lookup)
        note ih = Cons.IH [OF wv]
        show ?thesis
        proof (cases "rest = []")
          case True
          then show ?thesis using False PDict Some Cons.prems leaf [OF _ wv]
            by (auto split: prod.splits leaf_result.splits
                intro: reduct_refl reduct_update reduct_delete wf_dict_update wf_dict_delete)
        next
          case nn: False
          then show ?thesis using False PDict Some Cons.prems ih
            by (auto split: prod.splits intro: reduct_refl reduct_update wf_dict_update)
        qed
      qed (use False PDict Cons.prems in \<open>auto intro: reduct_refl\<close>)
    qed (use False Cons.prems in \<open>auto intro: reduct_refl\<close>)
  qed
qed (auto intro: reduct_refl)

lemma prune_reduct:
  "wf_val v \<Longrightarrow> reduct v (fst (prune_nulls v)) \<and> wf_val (fst (prune_nulls v))"
  "wf_list xs \<Longrightarrow> list_all2 reduct xs (fst (prune_list xs)) \<and> wf_list (fst (prune_list xs))"
  "wf_dict d \<Longrightarrow> fst ` set (fst (prune_dict d)) \<subseteq> fst ` set d \<and> wf_dict (fst (prune_dict d)) \<and>
     (\<forall>k v'. map_of (fst (prune_dict d)) k = Some v' \<longrightarrow> (\<exists>v. map_of d k = Some v \<and> reduct v v'))"
proof (induction v and xs and d rule: prune_nulls_prune_list_prune_dict.induct)
  case (1 d)
  then show ?case by (auto split: prod.splits intro: reduct_refl reduct_dict)
next
  case (2 xs)
  then show ?case by (auto split: prod.splits intro: reduct_refl intro!: reduct_list simp: list_all2_conv_all_nth)
next
  case (5 x xs)
  then show ?case by (auto split: prod.splits)
next
  case (7 k v d)
  obtain out ch where out: "prune_dict d = (out, ch)" by fastforce
  obtain v' c where v': "prune_nulls v = (v', c)" by fastforce
  from 7 out v' show ?case
    by (cases "v = PNone") (auto split: if_splits dest!: map_of_SomeD simp: image_iff, fastforce+)
qed (auto intro: reduct_refl)

section \<open>What a specification promises\<close>

text \<open>The values a path addresses.\<close>

fun targets :: "string list \<Rightarrow> pyval \<Rightarrow> pyval list" where
  "targets [] node = [node]"
| "targets (head # rest) node =
     (if head = list_wildcard then (case node of PList items \<Rightarrow> concat (map (targets rest) items) | _ \<Rightarrow> [])
      else (case node of
              PDict d \<Rightarrow> (case map_of d head of None \<Rightarrow> [] | Some v \<Rightarrow> targets rest v)
            | _ \<Rightarrow> []))"

fun no_nulls :: "pyval \<Rightarrow> bool" and no_nulls_list :: "pyval list \<Rightarrow> bool" and no_nulls_dict :: "pydict \<Rightarrow> bool" where
  "no_nulls (PDict d) = no_nulls_dict d"
| "no_nulls (PList xs) = no_nulls_list xs"
| "no_nulls _ = True"
| "no_nulls_list [] = True"
| "no_nulls_list (x # xs) = (no_nulls x \<and> no_nulls_list xs)"
| "no_nulls_dict [] = True"
| "no_nulls_dict ((k, v) # d) = (v \<noteq> PNone \<and> no_nulls v \<and> no_nulls_dict d)"

lemma no_nulls_list_iff: "no_nulls_list xs \<longleftrightarrow> (\<forall>x\<in>set xs. no_nulls x)"
  by (induction xs) auto

lemma no_nulls_dict_iff: "no_nulls_dict d \<longleftrightarrow> (\<forall>kv\<in>set d. snd kv \<noteq> PNone \<and> no_nulls (snd kv))"
  by (induction d) auto

definition within_limits :: "reduction_spec \<Rightarrow> pyval \<Rightarrow> bool" where
  "within_limits s v \<longleftrightarrow> \<not> rs_drop s \<and>
     (case v of
        PDict d \<Rightarrow> (case rs_keep_only s of None \<Rightarrow> True | Some ks \<Rightarrow> fst ` set d \<subseteq> set ks)
      | PList xs \<Rightarrow> (case rs_max_items s of None \<Rightarrow> True | Some n \<Rightarrow> length xs \<le> n)
      | PStr t \<Rightarrow> (case rs_max_bytes s of None \<Rightarrow> True | Some n \<Rightarrow> length (utf8 t) \<le> n)
      | _ \<Rightarrow> True)"

definition spec_met :: "reduction_spec \<Rightarrow> pyval \<Rightarrow> bool" where
  "spec_met s doc \<longleftrightarrow>
     (if is_global s then no_nulls doc else list_all (within_limits s) (targets (rs_path_parts s) doc))"

text \<open>A path that names a key at its end, and not the marker the reduction itself writes.\<close>

definition addresses_key :: "reduction_spec \<Rightarrow> bool" where
  "addresses_key s \<longleftrightarrow> is_global s \<or> (rs_path_parts s \<noteq> [] \<and> last (rs_path_parts s) \<noteq> list_wildcard \<and>
     hd (rs_path_parts s) \<noteq> ''_centralops_reduced'')"

lemma prune_no_nulls:
  "no_nulls (fst (prune_nulls v)) \<and> (\<not> snd (prune_nulls v) \<longrightarrow> fst (prune_nulls v) = v) \<and> (fst (prune_nulls v) = PNone \<longrightarrow> v = PNone)"
  "no_nulls_list (fst (prune_list xs)) \<and> (\<not> snd (prune_list xs) \<longrightarrow> fst (prune_list xs) = xs)"
  "no_nulls_dict (fst (prune_dict d)) \<and> (\<not> snd (prune_dict d) \<longrightarrow> fst (prune_dict d) = d)"
  by (induction v and xs and d rule: prune_nulls_prune_list_prune_dict.induct) (auto split: prod.splits)

lemma leaf_within_limits:
  "reduction_leaf s v = (LeafSame, ms) \<Longrightarrow> within_limits s v"
  "reduction_leaf s v = (LeafReplace v', ms) \<Longrightarrow> within_limits s v'"
proof -
  have flt: "length (filter P d) = length d \<Longrightarrow> filter P d = d" for P and d :: pydict
    by (metis length_filter_less filter_id_conv less_irrefl)
  have all: "length (filter (\<lambda>kv. fst kv \<in> set ks) d) = length d \<Longrightarrow> fst ` set d \<subseteq> set ks" for ks and d :: pydict
    using flt [of "\<lambda>kv. fst kv \<in> set ks" d] by (auto simp: filter_id_conv)
  have clip: "length (utf8 (utf8_decode (take n (utf8 t)))) \<le> n" for n t
    using utf8_decode_take [of t n] by auto
  show "reduction_leaf s v = (LeafSame, ms) \<Longrightarrow> within_limits s v"
    by (auto simp: reduction_leaf_def within_limits_def Let_def dest!: all split: if_splits option.splits pyval.splits)
  show "reduction_leaf s v = (LeafReplace v', ms) \<Longrightarrow> within_limits s v'"
    by (auto simp: reduction_leaf_def within_limits_def Let_def clip split: if_splits option.splits pyval.splits)
qed

lemma transform_targets:
  assumes same: "\<And>v ms. leaf v = (LeafSame, ms) \<Longrightarrow> P v"
    and repl: "\<And>v v' ms. leaf v = (LeafReplace v', ms) \<Longrightarrow> P v'"
  shows "parts \<noteq> [] \<Longrightarrow> last parts \<noteq> list_wildcard \<Longrightarrow> list_all P (targets parts (fst (transform leaf parts node)))"
proof (induction parts arbitrary: node)
  case (Cons head rest)
  show ?case
  proof (cases "head = list_wildcard")
    case True
    with Cons.prems have "rest \<noteq> []" "last rest \<noteq> list_wildcard" by (auto split: if_splits)
    note ih = Cons.IH [OF this]
    show ?thesis
    proof (cases node)
      case (PList items)
      show ?thesis unfolding True PList transform_list using ih by (auto simp: list_all_iff)
    qed (use True in auto)
  next
    case False
    show ?thesis
    proof (cases "rest = []")
      case True
      then show ?thesis using False same repl
        by (auto split: pyval.splits option.splits prod.splits leaf_result.splits)
    next
      case nn: False
      with Cons.prems have ih: "list_all P (targets rest (fst (transform leaf rest v)))" for v
        using Cons.IH [of v] by auto
      have ih': "transform leaf rest v = (c, ch, ms) \<Longrightarrow> list_all P (targets rest c)" for v c ch ms
        using ih [of v] by auto
      have ih'': "transform leaf rest v = (c, False, ms) \<Longrightarrow> list_all P (targets rest v)" for v c ms
        using ih' [of v c False ms] transform_unchanged [of leaf rest v c ms] by simp
      show ?thesis using False nn
        by (auto split: pyval.splits option.splits prod.splits dest: ih' ih'')
    qed
  qed
qed simp

text \<open>A reduct keeps every promise that held before.\<close>

lemma targets_reduct: "reduct v v' \<Longrightarrow> t' \<in> set (targets parts v') \<Longrightarrow> \<exists>t\<in>set (targets parts v). reduct t t'"
proof (induction parts arbitrary: v v')
  case (Cons head rest)
  show ?case
  proof (cases "head = list_wildcard")
    case True
    with Cons.prems(2) obtain ys y where ys: "v' = PList ys" "y \<in> set ys" "t' \<in> set (targets rest y)"
      by (auto split: pyval.splits)
    from ys(2) obtain i where i: "i < length ys" "ys ! i = y" by (auto simp: in_set_conv_nth)
    from reduct_listD [OF Cons.prems(1) [unfolded ys(1)]] obtain xs where
      xs: "v = PList xs" "length ys \<le> length xs" "\<forall>i<length ys. reduct (xs ! i) (ys ! i)" by blast
    with i have x: "xs ! i \<in> set xs" "reduct (xs ! i) y" by auto
    from Cons.IH [OF x(2) ys(3)] x(1) xs(1) True show ?thesis by auto
  next
    case False
    with Cons.prems(2) obtain d' w' where d': "v' = PDict d'" "map_of d' head = Some w'" "t' \<in> set (targets rest w')"
      by (cases v') (auto split: option.splits dest!: sym [of "Some _"])
    from reduct_dictD [OF Cons.prems(1) [unfolded d'(1)]] d'(2) obtain d w where
      "v = PDict d" "map_of d head = Some w" "reduct w w'" by blast
    with Cons.IH [OF _ d'(3), of w] False show ?thesis by simp
  qed
qed simp

lemma within_limits_reduct: "reduct v v' \<Longrightarrow> within_limits s v \<Longrightarrow> within_limits s v'"
proof (induction rule: reduct.cases)
  case (reduct_str t s')
  then show ?case by (auto simp: within_limits_def prefix_def split: option.splits)
next
  case (reduct_dict d' d)
  have "fst ` set d' \<subseteq> fst ` set d"
  proof
    fix k assume "k \<in> fst ` set d'"
    then have "map_of d' k \<noteq> None" by (simp add: map_of_eq_None_iff)
    then have "map_of d k \<noteq> None" using reduct_dict(3) by blast
    then show "k \<in> fst ` set d" by (simp add: map_of_eq_None_iff)
  qed
  then show ?case using reduct_dict(1,2,4) by (auto simp: within_limits_def split: option.splits)
qed (auto simp: within_limits_def split: option.splits)

lemma no_nulls_reduct: "reduct v v' \<Longrightarrow> wf_val v' \<Longrightarrow> no_nulls v \<Longrightarrow> no_nulls v'"
proof (induction rule: reduct.induct)
  case (reduct_list ys xs)
  have "no_nulls (ys ! i)" if i: "i < length ys" for i
  proof -
    have "xs ! i \<in> set xs" "ys ! i \<in> set ys" using i reduct_list.hyps by auto
    then have "wf_val (ys ! i)" "no_nulls (xs ! i)" using reduct_list.prems by (auto simp: wf_list_iff no_nulls_list_iff)
    then show ?thesis using reduct_list.IH [OF i] by blast
  qed
  then show ?case by (auto simp: no_nulls_list_iff in_set_conv_nth)
next
  case (reduct_dict d' d)
  have "v' \<noteq> PNone \<and> no_nulls v'" if "(k, v') \<in> set d'" for k v'
  proof -
    from that reduct_dict.prems(1) have m: "map_of d' k = Some v'" and w: "wf_val v'"
      by (auto simp: wf_dict_iff)
    from reduct_dict.IH [OF m] obtain v where v: "map_of d k = Some v" "reduct v v'"
        "wf_val v' \<Longrightarrow> no_nulls v \<Longrightarrow> no_nulls v'" by blast
    moreover have "v \<noteq> PNone" "no_nulls v"
      using v(1) reduct_dict.prems(2) by (auto simp: no_nulls_dict_iff dest!: map_of_SomeD)
    ultimately show ?thesis using w by (auto dest: reduct_noneD)
  qed
  then show ?case by (auto simp: no_nulls_dict_iff)
qed auto

lemma spec_met_reduct: "reduct v v' \<Longrightarrow> wf_val v' \<Longrightarrow> spec_met s v \<Longrightarrow> spec_met s v'"
proof (cases "is_global s")
  case False
  assume a: "reduct v v'" "spec_met s v"
  have "within_limits s t'" if "t' \<in> set (targets (rs_path_parts s) v')" for t'
    using targets_reduct [OF a(1) that] a(2) False within_limits_reduct by (auto simp: spec_met_def list_all_iff)
  with False show ?thesis by (simp add: spec_met_def list_all_iff)
qed (auto simp: spec_met_def intro: no_nulls_reduct)

lemma apply_spec_reduct:
  "wf_val v \<Longrightarrow> reduct v (fst (apply_spec s v)) \<and> wf_val (fst (apply_spec s v))"
  using transform_reduct [of "reduction_leaf s", OF leaf_reduct] prune_reduct(1) [of v]
  by (auto simp: apply_spec_def split: prod.splits)

text \<open>A path that ends in the list wildcard is accepted and never applied.\<close>

lemma transform_wildcard_end: "last p = list_wildcard \<Longrightarrow> transform leaf p v = (v, False, [])"
proof (induction leaf p v rule: transform.induct)
  case (2 leaf head rest node)
  show ?case
  proof (cases "rest = []")
    case True
    with "2.prems" show ?thesis by (auto simp: list_ex_iff split: pyval.splits)
  next
    case False
    then have l: "last rest = list_wildcard" using "2.prems" by simp
    show ?thesis
    proof (cases "head = list_wildcard")
      case True
      with "2.IH"(1) [OF True _ _ l] False show ?thesis by (auto simp: Let_def list_ex_iff cong: map_cong split: pyval.splits)
    next
      case neq: False
      with "2.IH"(2) [OF neq _ _ False l] False show ?thesis by (auto split: pyval.splits option.splits)
    qed
  qed
qed simp

lemma trailing_wildcard_inert: "\<not> is_global s \<Longrightarrow> last (rs_path_parts s) = list_wildcard \<Longrightarrow> apply_spec s v = (v, False, [])"
  by (simp add: apply_spec_def transform_wildcard_end)

lemma apply_spec_meets: "addresses_key s \<Longrightarrow> spec_met s (fst (apply_spec s v))"
  using prune_no_nulls(1) [of v] transform_targets [of "reduction_leaf s" "within_limits s" "rs_path_parts s" v, OF leaf_within_limits]
  by (auto simp: apply_spec_def spec_met_def addresses_key_def split: prod.splits)

section \<open>Properties\<close>

lemma leaf_marks: "reduction_leaf s v = (r, ms) \<Longrightarrow> r \<noteq> LeafSame \<Longrightarrow> ms \<noteq> []"
  by (auto simp: reduction_leaf_def Let_def split: if_splits option.splits pyval.splits)

lemma transform_marks: "fst (snd (transform (reduction_leaf s) parts node)) \<Longrightarrow> snd (snd (transform (reduction_leaf s) parts node)) \<noteq> []"
proof (induction parts arbitrary: node)
  case (Cons head rest)
  show ?case
  proof (cases "head = list_wildcard")
    case True
    then show ?thesis using Cons by (cases node) (auto simp: Let_def list_ex_iff)
  next
    case False
    show ?thesis
    proof (cases "rest = []")
      case True
      then show ?thesis using False Cons.prems
        by (cases node) (auto dest: leaf_marks split: option.splits leaf_result.splits prod.splits)
    next
      case nn: False
      show ?thesis
      proof (cases node)
        case (PDict d)
        then show ?thesis using False nn Cons.prems Cons.IH
          by (cases "map_of d head") (auto simp: split_beta split: if_splits)
      qed (use False Cons.prems in auto)
    qed
  qed
qed simp

lemma apply_spec_marks: "apply_spec s v = (v', True, ms) \<Longrightarrow> ms \<noteq> []"
  using transform_marks [of s "rs_path_parts s" v] by (auto simp: apply_spec_def split: if_splits prod.splits)

lemma apply_spec_unchanged: "apply_spec s v = (v', False, ms) \<Longrightarrow> v' = v"
  using prune_no_nulls(1) [of v] by (auto simp: apply_spec_def dest: transform_unchanged split: if_splits prod.splits)

text \<open>The state of the loop over the specifications: the current document is a well-formed reduct that meets
  the specifications already run, and it is the input itself exactly when nothing was recorded.\<close>

definition loop_inv :: "pyval \<Rightarrow> reduction_spec list \<Rightarrow> pyval \<times> bool \<times> string list \<Rightarrow> bool" where
  "loop_inv raw past st \<longleftrightarrow> (case st of (obj, moved, dropped) \<Rightarrow>
     reduct raw obj \<and> wf_val obj \<and> (moved \<longleftrightarrow> dropped \<noteq> []) \<and> (\<not> moved \<longrightarrow> obj = raw) \<and>
     (\<forall>s\<in>set past. addresses_key s \<longrightarrow> spec_met s obj))"

lemma loop_inv_step:
  assumes "loop_inv raw past (obj, moved, dropped)" "apply_spec s obj = (obj', changed, marks)"
  shows "loop_inv raw (past @ [s]) (if changed then (obj', True, dropped @ marks) else (obj, moved, dropped))"
proof -
  have a: "reduct obj obj'" "wf_val obj'"
    using apply_spec_reduct [of obj s] assms by (auto simp: loop_inv_def)
  have m: "addresses_key s \<Longrightarrow> spec_met s obj'" using apply_spec_meets [of s obj] assms(2) by simp
  have k: "spec_met t obj \<Longrightarrow> spec_met t obj'" for t using spec_met_reduct [OF a] .
  show ?thesis
  proof (cases changed)
    case True
    with assms(2) have "marks \<noteq> []" by (auto dest: apply_spec_marks)
    with True assms(1) a m k show ?thesis by (auto simp: loop_inv_def intro: reduct_trans)
  next
    case False
    with assms(2) have "obj' = obj" by (auto dest: apply_spec_unchanged)
    with False assms(1) m show ?thesis by (auto simp: loop_inv_def)
  qed
qed

lemma loop_inv_specs: "loop_inv raw past st \<Longrightarrow> loop_inv raw (past @ specs) (apply_specs specs st)"
proof (induction specs arbitrary: past st)
  case (Cons s specs)
  obtain obj moved dropped where st: "st = (obj, moved, dropped)" by (cases st)
  obtain obj' changed marks where s: "apply_spec s obj = (obj', changed, marks)" by (metis prod_cases3)
  from Cons.IH [OF loop_inv_step [OF Cons.prems [unfolded st] s]] st s show ?case by simp
qed simp

lemma targets_marker:
  "parts \<noteq> [] \<Longrightarrow> hd parts \<noteq> k \<Longrightarrow> targets parts (PDict (AList.update k v d)) = targets parts (PDict d)"
  by (cases parts) simp_all

text \<open>The document that is sent.\<close>

definition reduced_doc :: "pyval \<Rightarrow> reduction_spec list \<Rightarrow> pyval" where
  "reduced_doc raw specs = (case apply_raw_reduction raw specs of None \<Rightarrow> raw | Some out \<Rightarrow> PDict out)"

text \<open>C36: the document that is sent meets every reduction specification whose path ends in a key (and does not begin with
  the marker of the reduction), and the global one, whatever their order: no key addressed by a drop is left, no
  addressed list, string or dictionary exceeds its limit, and no null key is left when nulls are dropped. A later
  specification never undoes an earlier one. A specification whose path ends in the list wildcard is accepted and
  leaves every document as it is.\<close>

theorem reduction_meets_specs:
  assumes wf: "wf_val (PDict d)" and member: "s \<in> set specs"
  shows "(addresses_key s \<longrightarrow> spec_met s (reduced_doc (PDict d) specs)) \<and>
    (\<not> is_global s \<longrightarrow> last (rs_path_parts s) = list_wildcard \<longrightarrow> (\<forall>v. apply_spec s v = (v, False, [])))"
proof (intro conjI impI allI)
  assume "addresses_key s"
  then have s: "s \<in> set specs" "addresses_key s" using member by simp_all
  obtain obj moved dropped where r: "apply_specs specs (PDict d, False, []) = (obj, moved, dropped)" by (metis prod_cases3)
  have "loop_inv (PDict d) [] (PDict d, False, [])" using wf by (simp add: loop_inv_def reduct_refl)
  from loop_inv_specs [OF this, of specs] r have inv: "loop_inv (PDict d) specs (obj, moved, dropped)" by simp
  then have met: "spec_met s obj" and red: "reduct (PDict d) obj" using s by (auto simp: loop_inv_def)
  from red obtain d' where d': "obj = PDict d'" by (cases obj) (auto elim: reduct.cases)
  show "spec_met s (reduced_doc (PDict d) specs)"
  proof (cases "moved")
    case False
    with inv r met show ?thesis by (auto simp: reduced_doc_def apply_raw_reduction_def loop_inv_def split: option.splits if_splits)
  next
    case True
    have nn: "no_nulls_dict e \<Longrightarrow> no_nulls w \<Longrightarrow> w \<noteq> PNone \<Longrightarrow> no_nulls_dict (AList.update k w e)" for e k w
      by (induction e) auto
    have "no_nulls (PList (map PStr dropped))" by (auto simp: no_nulls_list_iff)
    moreover have "reduced_doc (PDict d) specs = PDict (AList.update ''_centralops_reduced'' (PList (map PStr dropped)) d')"
      using True inv r s d' by (auto simp: reduced_doc_def apply_raw_reduction_def loop_inv_def as_dict_def)
    ultimately show ?thesis using met s(2) unfolding d'
      by (auto simp: spec_met_def addresses_key_def targets_marker intro!: nn)
  qed
qed (simp add: trailing_wildcard_inert)

definition ex_raw :: pydict where
  "ex_raw = [(''alerts'', PList [PDict [(''evidence'', PStr ''abcdef''), (''id'', PInt 1)], PDict [(''id'', PNone)]]),
             (''lineage'', PDict [(''x'', PInt 2)])]"

definition ex_specs :: "reduction_spec list" where
  "ex_specs =
     [\<lparr>rs_path_str = ''alerts[].evidence'', rs_path_parts = [''alerts'', ''[]'', ''evidence''], rs_max_items = None,
       rs_max_bytes = Some 3, rs_drop = False, rs_keep_only = None, rs_drop_nulls = False\<rparr>,
      \<lparr>rs_path_str = ''lineage'', rs_path_parts = [''lineage''], rs_max_items = None, rs_max_bytes = None,
       rs_drop = True, rs_keep_only = None, rs_drop_nulls = False\<rparr>]"

lemma ex_specs_compiled:
  "compile_raw_reduction (PList [PDict [(''path'', PStr ''alerts[].evidence''), (''max_bytes'', PInt 3)],
     PDict [(''path'', PStr ''lineage''), (''drop'', PBool True)]]) = Inr ex_specs"
  by (simp add: compile_raw_reduction_def compile_spec_def dget_def split_path_def split_segment_def list_wildcard_def
      endswith_def suffix_def strip_def py_space_def keep_only_of_def opt_positive_def bind_result_def ex_specs_def Let_def)

theorem reduction_meets_specs_witness: "spec_met (hd ex_specs) (reduced_doc (PDict ex_raw) ex_specs)"
  using reduction_meets_specs [of ex_raw "hd ex_specs" ex_specs]
  by (simp add: ex_raw_def ex_specs_def addresses_key_def is_global_def list_wildcard_def)

text \<open>reduction only removes. Apart from its marker, the reduced document is a reduct of the original:
  strings and lists are prefixes, dictionaries have fewer keys, no value is invented, reordered or altered,
  and the marker names at least one reduction.\<close>

theorem reduction_only_removes:
  assumes wf: "wf_val (PDict d)" and r: "apply_raw_reduction (PDict d) specs = Some out"
  shows "reduct (PDict d) (PDict (AList.delete ''_centralops_reduced'' out)) \<and>
         (\<exists>marks. marks \<noteq> [] \<and> map_of out ''_centralops_reduced'' = Some (PList (map PStr marks)))"
proof -
  obtain obj moved dropped where a: "apply_specs specs (PDict d, False, []) = (obj, moved, dropped)" by (metis prod_cases3)
  have "loop_inv (PDict d) [] (PDict d, False, [])" using wf by (simp add: loop_inv_def reduct_refl)
  from loop_inv_specs [OF this, of specs] a have red: "reduct (PDict d) obj" by (simp add: loop_inv_def)
  then obtain d' where d': "obj = PDict d'" by (cases obj) (auto elim: reduct.cases)
  have out: "out = AList.update ''_centralops_reduced'' (PList (map PStr dropped)) d'" "dropped \<noteq> []"
    using r a d' by (auto simp: apply_raw_reduction_def as_dict_def split: if_splits)
  have "reduct (PDict d') (PDict (AList.delete ''_centralops_reduced'' d'))" by (rule reduct_delete)
  with red d' out show ?thesis by (auto intro: reduct_trans)
qed

lemma ex_reduced:
  "apply_raw_reduction (PDict ex_raw) ex_specs =
     Some [(''alerts'', PList [PDict [(''evidence'', PStr ''abc''), (''id'', PInt 1)], PDict [(''id'', PNone)]]),
           (''_centralops_reduced'', PList [PStr ''alerts[].evidence(~3B)'', PStr ''lineage(dropped)''])]"
  by code_simp

theorem reduction_only_removes_witness:
  "\<exists>out. apply_raw_reduction (PDict ex_raw) ex_specs = Some out \<and>
     reduct (PDict ex_raw) (PDict (AList.delete ''_centralops_reduced'' out))"
  using reduction_only_removes [OF _ ex_reduced] ex_reduced by (auto simp: ex_raw_def)

text \<open>a nested wildcard is accepted and never matches. The specification that drops \<open>b\<close> in the items of a list of
  lists compiles to a path whose first segment is the literal key \<open>a[]\<close>, and the document is not reduced.\<close>

theorem nested_wildcard_never_matches:
  "\<exists>specs. compile_raw_reduction (PList [PDict [(''path'', PStr ''a[][].b''), (''drop'', PBool True)]]) = Inr specs \<and>
     map rs_path_parts specs = [[''a[]'', ''[]'', ''b'']] \<and>
     apply_raw_reduction (PDict [(''a'', PList [PList [PDict [(''b'', PInt 1)]]])]) specs = None"
  by (simp add: compile_raw_reduction_def compile_spec_def dget_def split_path_def split_segment_def list_wildcard_def
      endswith_def suffix_def strip_def py_space_def keep_only_of_def opt_positive_def bind_result_def apply_raw_reduction_def
      apply_spec_def is_global_def Let_def)

end
