(* ===== verification/Mapping_Engine.thy ===== *)
theory Mapping_Engine
  imports Mapping_Operators Payload_Reduction
begin

text \<open>
  The mapping engine, \<open>collectors/normalize/engine.py\<close>: compilation of both versions of the mapping language, application
  of compiled rules to a vendor event, and the LRU cache of compiled versions.

  \<open>menv\<close> holds what is outside the repository or fixed for the process: JMESPath, the switch of the fast path, the
  conversions of the standard library, the JSON decoder and its size limit. Dictionaries are values, so a
  nested target written after a rule that stored a whole sub-object of the event updates a copy of it.
\<close>

record menv =
  me_jm :: jmespath
  me_fast :: bool
  me_cast :: cast_env
  me_loads :: "string \<Rightarrow> pyval option"
  me_max_bytes :: nat

section \<open>Rules\<close>

record compiled_rule =
  cr_target :: string
  cr_target_path :: "string list"
  cr_source :: "resolver option"
  cr_source_str :: string
  cr_extracted :: bool
  cr_const :: "pyval option"
  cr_default :: "pyval option"
  cr_value_map :: "pydict option"
  cr_pre_cast :: "string option"
  cr_type_cast :: "string option"
  cr_required :: bool
  cr_fallbacks :: "(resolver \<times> string) list"
  cr_when :: "compiled_predicate option"
  cr_expected_always_default :: bool
  cr_default_from :: "string option"

datatype any_rule = ScalarRule compiled_rule | ArrayRule array_rule

record compiled_rules =
  cs_preprocess :: "preprocess_op list"
  cs_rules :: "any_rule list"
  cs_reduction :: "reduction_spec list"

section \<open>Compilation\<close>

definition opt_str :: "string \<Rightarrow> pyval \<Rightarrow> mapping_def_error + string option" where
  "opt_str what v = (case v of PNone \<Rightarrow> Inr None | PStr s \<Rightarrow> Inr (Some s) | _ \<Rightarrow> Inl (DefError what))"

definition compile_fallback :: "menv \<Rightarrow> bool \<Rightarrow> pyval \<Rightarrow> mapping_def_error + resolver \<times> string" where
  "compile_fallback me primary_is_extracted fb =
     (case fb of
        PStr e \<Rightarrow>
          if startswith e ''_'' \<noteq> primary_is_extracted then Inl (DefError ''fallback_source: root'')
          else (case compile_source (me_jm me) (me_fast me) e of
                  None \<Rightarrow> Inl (DefError ''fallback_source: invalid expression'')
                | Some r \<Rightarrow> Inr (r, e))
      | _ \<Rightarrow> Inl (DefError ''fallback_source: string''))"

definition compile_source_field :: "menv \<Rightarrow> pydict \<Rightarrow> mapping_def_error + (resolver \<times> string) option" where
  "compile_source_field me rule =
     (if \<not> dhas rule ''source'' then Inr None
      else case dget rule ''source'' of
             PStr e \<Rightarrow>
               if strip e = [] then Inl (DefError ''source: empty'')
               else (case compile_source (me_jm me) (me_fast me) e of
                       None \<Rightarrow> Inl (DefError ''source: invalid expression'')
                     | Some r \<Rightarrow> Inr (Some (r, e)))
           | _ \<Rightarrow> Inl (DefError ''source: string''))"

definition compile_pre_cast :: "menv \<Rightarrow> pyval \<Rightarrow> mapping_def_error + string option" where
  "compile_pre_cast me v =
     bind_result (opt_str ''pre_cast'' v) (\<lambda>c.
       case c of
         None \<Rightarrow> Inr None
       | Some name \<Rightarrow> if map_of (type_casts (me_cast me)) name = None then Inl (DefError ''pre_cast: unknown'') else Inr (Some name))"

definition compile_fallbacks :: "menv \<Rightarrow> bool \<Rightarrow> (resolver \<times> string) option \<Rightarrow> pyval \<Rightarrow> mapping_def_error + (resolver \<times> string) list" where
  "compile_fallbacks me v2 src v =
     (if v = PNone then Inr []
      else if \<not> v2 then Inl (DefError ''fallback_source: requires v2'')
      else case src of
             None \<Rightarrow> Inl (DefError ''fallback_source: requires a source'')
           | Some (_, e) \<Rightarrow>
               (case v of
                  PList fbs \<Rightarrow> mapM_result (compile_fallback me (startswith e ''_'')) fbs
                | _ \<Rightarrow> Inl (DefError ''fallback_source: list'')))"

definition compile_when :: "menv \<Rightarrow> bool \<Rightarrow> pyval \<Rightarrow> mapping_def_error + compiled_predicate option" where
  "compile_when me v2 v =
     (if v = PNone then Inr None
      else if \<not> v2 then Inl (DefError ''when: requires v2'')
      else bind_result (compile_predicate (me_jm me) (me_fast me) v) (\<lambda>p. Inr (Some p)))"

definition compile_always_default :: "bool \<Rightarrow> pydict \<Rightarrow> mapping_def_error + bool" where
  "compile_always_default v2 rule =
     (if dhas rule ''expected_always_default'' \<and> \<not> v2 then Inl (DefError ''expected_always_default: requires v2'')
      else case dget_default rule ''expected_always_default'' (PBool False) of
             PBool b \<Rightarrow> Inr b | _ \<Rightarrow> Inl (DefError ''expected_always_default: bool''))"

text \<open>The membership test of \<open>default_from\<close> in a frozenset raises for an unhashable value; that exception is not
  a definition error but ends the compilation all the same.\<close>

definition compile_default_from :: "bool \<Rightarrow> pyval \<Rightarrow> mapping_def_error + string option" where
  "compile_default_from v2 v =
     (if v = PNone then Inr None
      else if \<not> v2 then Inl (DefError ''default_from: requires v2'')
      else if v = PStr ''ingest_time'' then Inr (Some ''ingest_time'')
      else Inl (DefError ''default_from: invalid''))"

definition compile_single_rule :: "menv \<Rightarrow> bool \<Rightarrow> pyval \<Rightarrow> mapping_def_error + compiled_rule" where
  "compile_single_rule me v2 r =
     (case r of
        PDict rule \<Rightarrow>
          bind_result (target_parts (dget rule ''target'')) (\<lambda>path.
          let target = py_str (dget rule ''target''); has_source = dhas rule ''source''; has_const = dhas rule ''const'' in
          if v2 \<and> startswith target ''_'' then Inl (DefError ''target: reserved'')
          else if has_source \<and> has_const then Inl (DefError ''source and const'')
          else if \<not> has_source \<and> \<not> has_const then Inl (DefError ''source or const'')
          else
            bind_result (compile_source_field me rule) (\<lambda>src.
            bind_result (opt_str ''type_cast'' (dget rule ''type_cast'')) (\<lambda>type_cast.
            bind_result (compile_pre_cast me (dget rule ''pre_cast'')) (\<lambda>pre_cast.
            bind_result (case dget rule ''value_map'' of
                           PNone \<Rightarrow> Inr None | PDict m \<Rightarrow> Inr (Some m) | _ \<Rightarrow> Inl (DefError ''value_map'')) (\<lambda>value_map.
            bind_result (compile_fallbacks me v2 src (dget rule ''fallback_source'')) (\<lambda>fallbacks.
            bind_result (compile_when me v2 (dget rule ''when'')) (\<lambda>pred.
            bind_result (compile_always_default v2 rule) (\<lambda>always.
            bind_result (compile_default_from v2 (dget rule ''default_from'')) (\<lambda>default_from.
              Inr \<lparr>cr_target = target, cr_target_path = path, cr_source = map_option fst src,
                   cr_source_str = (case src of None \<Rightarrow> [] | Some (_, e) \<Rightarrow> e),
                   cr_extracted = (case src of None \<Rightarrow> False | Some (_, e) \<Rightarrow> startswith e ''_''),
                   cr_const = map_of rule ''const'', cr_default = map_of rule ''default'', cr_value_map = value_map,
                   cr_pre_cast = pre_cast, cr_type_cast = type_cast,
                   cr_required = truthy (dget_default rule ''required'' (PBool False)),
                   cr_fallbacks = fallbacks, cr_when = pred, cr_expected_always_default = always,
                   cr_default_from = default_from\<rparr>)))))))))
      | _ \<Rightarrow> Inl (DefError ''rule: object''))"

definition compile_preprocess_op :: "menv \<Rightarrow> pyval \<Rightarrow> mapping_def_error + preprocess_op" where
  "compile_preprocess_op me item =
     (case item of
        PDict d \<Rightarrow>
          bind_result (stripped_str ''preprocess: op'' (dget d ''op'')) (\<lambda>op1.
          if op1 \<noteq> ''json_parse'' then Inl (DefError ''preprocess: unknown op'')
          else bind_result (stripped_str ''preprocess: source'' (dget d ''source'')) (\<lambda>src.
               case compile_source (me_jm me) (me_fast me) src of
                 None \<Rightarrow> Inl (DefError ''preprocess: invalid expression'')
               | Some r \<Rightarrow>
                   bind_result (stripped_str ''preprocess: target'' (dget d ''target'')) (\<lambda>target.
                   if \<not> startswith target ''_'' then Inl (DefError ''preprocess: target must be reserved'')
                   else Inr \<lparr>po_op = op1, po_source = r, po_source_str = src, po_target = target,
                             po_tolerant = truthy (dget_default d ''tolerant'' (PBool False))\<rparr>)))
      | _ \<Rightarrow> Inl (DefError ''preprocess: object''))"

definition compile_v1_rule :: "menv \<Rightarrow> pyval \<Rightarrow> mapping_def_error + any_rule" where
  "compile_v1_rule me r =
     (if (case r of PDict d \<Rightarrow> dhas d ''kind'' | _ \<Rightarrow> False) then Inl (DefError ''kind: requires v2'')
      else bind_result (compile_single_rule me False r) (\<lambda>c. Inr (ScalarRule c)))"

definition compile_v1 :: "menv \<Rightarrow> pyval list \<Rightarrow> mapping_def_error + compiled_rules" where
  "compile_v1 me rules =
     bind_result (mapM_result (compile_v1_rule me) rules) (\<lambda>cs. Inr \<lparr>cs_preprocess = [], cs_rules = cs, cs_reduction = []\<rparr>)"

definition compile_v2_rule :: "menv \<Rightarrow> pyval \<Rightarrow> mapping_def_error + any_rule" where
  "compile_v2_rule me r =
     (case r of
        PDict d \<Rightarrow>
          (let kind = dget_default d ''kind'' (PStr ''scalar'') in
           if kind = PStr ''scalar'' then bind_result (compile_single_rule me True r) (\<lambda>c. Inr (ScalarRule c))
           else if kind = PStr ''array_builder''
           then bind_result (compile_array_builder_rule (me_jm me) (me_fast me) r) (\<lambda>c. Inr (ArrayRule c))
           else Inl (DefError ''kind: unknown''))
      | _ \<Rightarrow> Inl (DefError ''rule: object''))"

definition compile_v2 :: "menv \<Rightarrow> pydict \<Rightarrow> mapping_def_error + compiled_rules" where
  "compile_v2 me payload =
     bind_result (case dget payload ''preprocess'' of
                    PNone \<Rightarrow> Inr []
                  | PList items \<Rightarrow> mapM_result (compile_preprocess_op me) items
                  | _ \<Rightarrow> Inl (DefError ''preprocess: list'')) (\<lambda>ops.
     (case dget payload ''rules'' of
        PList rules \<Rightarrow>
          if rules = [] then Inl (DefError ''rules: empty'')
          else bind_result (mapM_result (compile_v2_rule me) rules) (\<lambda>cs.
               (case compile_raw_reduction (dget payload ''raw_reduction'') of
                  Inl _ \<Rightarrow> Inl (DefError ''raw_reduction'')
                | Inr specs \<Rightarrow> Inr \<lparr>cs_preprocess = ops, cs_rules = cs, cs_reduction = specs\<rparr>))
      | _ \<Rightarrow> Inl (DefError ''rules: list'')))"

definition compile_rules :: "menv \<Rightarrow> pyval \<Rightarrow> int option \<Rightarrow> mapping_def_error + compiled_rules" where
  "compile_rules me rules_or_dict dsl_version =
     bind_result (case dsl_version of
                    Some n \<Rightarrow> if n = 1 \<or> n = 2 then Inr n else Inl (DefError ''dsl_version'')
                  | None \<Rightarrow> (case rules_or_dict of PList _ \<Rightarrow> Inr 1 | PDict _ \<Rightarrow> Inr 2 | _ \<Rightarrow> Inl (DefError ''shape''))) (\<lambda>v.
     (case rules_or_dict of
        PList rules \<Rightarrow> if v = 2 then Inl (DefError ''v2 expects a dict'') else compile_v1 me rules
      | PDict payload \<Rightarrow> if v = 1 then Inl (DefError ''v1 expects a list'') else compile_v2 me payload
      | _ \<Rightarrow> Inl (DefError ''shape'')))"

section \<open>Application\<close>

text \<open>\<open>EscapeErr\<close> is an exception that is not a \<open>MappingError\<close>: the caller does not expect it.\<close>

datatype map_exn = MappingErr string | RequiredErr string | EscapeErr op_exn

definition op_failure :: "string \<Rightarrow> op_exn \<Rightarrow> map_exn" where
  "op_failure what e = (if e = OperatorErr \<or> e = OperatorSizeErr then MappingErr what else EscapeErr e)"

fun first_fallback :: "menv \<Rightarrow> (resolver \<times> string) list \<Rightarrow> pyval \<Rightarrow> pyval option" where
  "first_fallback me [] data_root = Some PNone"
| "first_fallback me ((r, _) # rest) data_root =
     (case resolver_search (me_jm me) r data_root of
        None \<Rightarrow> None
      | Some v \<Rightarrow> if v \<noteq> PNone then Some v else first_fallback me rest data_root)"

definition resolve_value :: "menv \<Rightarrow> compiled_rule \<Rightarrow> pyval \<Rightarrow> pyval \<Rightarrow> pyval option" where
  "resolve_value me rule raw extracted =
     (case cr_const rule of
        Some c \<Rightarrow> Some c
      | None \<Rightarrow>
          (case cr_source rule of
             None \<Rightarrow> None
           | Some r \<Rightarrow>
               (let data_root = (if cr_extracted rule then extracted else raw) in
                case resolver_search (me_jm me) r data_root of
                  None \<Rightarrow> None
                | Some v \<Rightarrow> if v = PNone then first_fallback me (cr_fallbacks rule) data_root else Some v)))"

fun set_path :: "string list \<Rightarrow> pyval \<Rightarrow> pydict \<Rightarrow> pydict" where
  "set_path [] value target = target"
| "set_path [k] value target = AList.update k value target"
| "set_path (k # k' # ks) value target =
     AList.update k (PDict (set_path (k' # ks) value (as_dict (dget target k)))) target"

text \<open>From the resolved value to the value written: default, ingestion time, pre-cast, the check of a required
  field, value map, cast. The flags say whether the default and the ingestion time were used.\<close>

definition map_value :: "menv \<Rightarrow> compiled_rule \<Rightarrow> bool \<Rightarrow> bool \<Rightarrow> pyval \<Rightarrow> op_exn + pyval" where
  "map_value me rule used_default used_ingest value =
     (case cr_value_map rule of
        None \<Rightarrow> Inr value
      | Some m \<Rightarrow>
          if value = PNone \<or> used_default then Inr value
          else (case cr_default rule of
                  Some d \<Rightarrow>
                    if used_ingest then apply_value_map value m
                    else bind_result (value_map_lookup value m) (\<lambda>hit. Inr (case hit of None \<Rightarrow> d | Some v \<Rightarrow> v))
                | None \<Rightarrow> apply_value_map value m))"

definition cast_value :: "menv \<Rightarrow> string option \<Rightarrow> pyval \<Rightarrow> op_exn + pyval" where
  "cast_value me cast value =
     (case cast of
        Some c \<Rightarrow> if c \<noteq> [] \<and> value \<noteq> PNone then apply_type_cast (me_cast me) value c else Inr value
      | None \<Rightarrow> Inr value)"

definition default_used :: "compiled_rule \<Rightarrow> pyval \<Rightarrow> bool" where
  "default_used rule value \<longleftrightarrow> cr_default rule \<noteq> None \<and> value = PNone"

definition defaulted :: "compiled_rule \<Rightarrow> pyval \<Rightarrow> pyval" where
  "defaulted rule value = (case cr_default rule of None \<Rightarrow> value | Some d \<Rightarrow> apply_default value d)"

definition ingest_used :: "compiled_rule \<Rightarrow> int option \<Rightarrow> pyval \<Rightarrow> bool" where
  "ingest_used rule ingest value \<longleftrightarrow>
     defaulted rule value = PNone \<and> cr_default_from rule = Some ''ingest_time'' \<and> ingest \<noteq> None"

definition ingested :: "compiled_rule \<Rightarrow> int option \<Rightarrow> pyval \<Rightarrow> pyval" where
  "ingested rule ingest value =
     (if ingest_used rule ingest value then PInt (the ingest) else defaulted rule value)"

definition final_value :: "menv \<Rightarrow> compiled_rule \<Rightarrow> int option \<Rightarrow> pyval \<Rightarrow> map_exn + pyval" where
  "final_value me rule ingest value =
     (let used_default = default_used rule value; used_ingest = ingest_used rule ingest value;
          v1 = ingested rule ingest value
      in case (if used_default then Inr v1 else cast_value me (cr_pre_cast rule) v1) of
           Inl e \<Rightarrow> Inl (op_failure ''pre_cast'' e)
         | Inr v2 \<Rightarrow>
             if v2 = PNone \<and> cr_required rule then Inl (RequiredErr (cr_target rule))
             else (case map_value me rule used_default used_ingest v2 of
                     Inl e \<Rightarrow> Inl (op_failure ''value_map'' e)
                   | Inr v3 \<Rightarrow>
                       (case cast_value me (cr_type_cast rule) v3 of
                          Inl e \<Rightarrow> Inl (op_failure ''type_cast'' e)
                        | Inr v4 \<Rightarrow> Inr v4)))"

record apply_result =
  ap_output :: pydict
  ap_consumed :: "string list"
  ap_default_hits :: "string list"
  ap_ingest_fallback :: "string list"
  ap_reduced_raw :: "pydict option"

definition source_mark :: "string \<Rightarrow> string" where
  "source_mark e = ''source:'' @ e"

fun run_preprocess :: "menv \<Rightarrow> pyval \<Rightarrow> preprocess_op list \<Rightarrow> pydict \<times> string list \<Rightarrow> map_exn + pydict \<times> string list" where
  "run_preprocess me raw [] st = Inr st"
| "run_preprocess me raw (p # ops) (extracted, consumed) =
     (case resolver_search (me_jm me) (po_source p) raw of
        None \<Rightarrow> Inl (EscapeErr SearchErr)
      | Some sv \<Rightarrow>
          (case apply_preprocess_op (me_loads me) (me_max_bytes me) sv (po_op p) (po_tolerant p) of
             Inr result \<Rightarrow>
               run_preprocess me raw ops
                 (AList.update (po_target p) result extracted,
                  if sv \<noteq> PNone then consumed @ [source_mark (po_source_str p)] else consumed)
           | Inl OperatorSizeErr \<Rightarrow> Inl (MappingErr ''preprocess: size'')
           | Inl OperatorErr \<Rightarrow>
               if po_tolerant p then run_preprocess me raw ops (AList.update (po_target p) PNone extracted, consumed)
               else Inl (MappingErr ''preprocess'')
           | Inl e \<Rightarrow> Inl (EscapeErr e)))"

text \<open>One rule: \<open>None\<close> when its \<open>when\<close> is false, otherwise the value it writes and its notes.\<close>

definition when_holds :: "menv \<Rightarrow> compiled_rule \<Rightarrow> pyval \<Rightarrow> pyval \<Rightarrow> bool" where
  "when_holds me rule raw extracted =
     (case cr_when rule of
        None \<Rightarrow> True
      | Some p \<Rightarrow> evaluate_predicate (me_jm me) p (if cr_extracted rule then extracted else raw))"

definition when_marks :: "compiled_rule \<Rightarrow> string list" where
  "when_marks rule =
     (case cr_when rule of None \<Rightarrow> [] | Some p \<Rightarrow> map source_mark (collect_predicate_source_strs p))"

definition value_marks :: "compiled_rule \<Rightarrow> pyval \<Rightarrow> string list" where
  "value_marks rule value =
     (if cr_source rule \<noteq> None \<and> cr_source_str rule \<noteq> [] then [source_mark (cr_source_str rule)] else []) @
     (if cr_source rule \<noteq> None \<and> value \<noteq> PNone then [cr_target rule] else []) @
     map (source_mark \<circ> snd) (cr_fallbacks rule)"

definition apply_rule :: "menv \<Rightarrow> pyval \<Rightarrow> pyval \<Rightarrow> int option \<Rightarrow> apply_result \<Rightarrow> any_rule \<Rightarrow> map_exn + apply_result" where
  "apply_rule me raw extracted ingest st ar =
     (case ar of
        ArrayRule rule \<Rightarrow>
          (case apply_array_builder (me_jm me) rule raw extracted of
             Inl e \<Rightarrow> Inl (EscapeErr e)
           | Inr obs \<Rightarrow>
               Inr (st\<lparr>ap_consumed := ap_consumed st @ map (\<lambda>i. source_mark (ai_source_str i)) (ar_items rule),
                       ap_output := set_path (ar_target_path rule) (PList (map PDict obs)) (ap_output st)\<rparr>))
      | ScalarRule rule \<Rightarrow>
          (let st1 = st\<lparr>ap_consumed := ap_consumed st @ when_marks rule\<rparr> in
           if \<not> when_holds me rule raw extracted then Inr st1
           else case resolve_value me rule raw extracted of
                  None \<Rightarrow> Inl (MappingErr ''source'')
                | Some value \<Rightarrow>
                    (case final_value me rule ingest value of
                       Inl e \<Rightarrow> Inl e
                     | Inr v \<Rightarrow>
                         Inr (st1\<lparr>ap_consumed := ap_consumed st1 @ value_marks rule value,
                                  ap_default_hits := ap_default_hits st1 @ (if default_used rule value then [cr_target rule] else []),
                                  ap_ingest_fallback := ap_ingest_fallback st1 @ (if ingest_used rule ingest value then [cr_target rule] else []),
                                  ap_output := set_path (cr_target_path rule) v (ap_output st1)\<rparr>))))"

fun apply_rules :: "menv \<Rightarrow> pyval \<Rightarrow> pyval \<Rightarrow> int option \<Rightarrow> any_rule list \<Rightarrow> apply_result \<Rightarrow> map_exn + apply_result" where
  "apply_rules me raw extracted ingest [] st = Inr st"
| "apply_rules me raw extracted ingest (r # rs) st =
     bind_result (apply_rule me raw extracted ingest st r) (apply_rules me raw extracted ingest rs)"

definition apply_compiled :: "menv \<Rightarrow> compiled_rules \<Rightarrow> pydict \<Rightarrow> int option \<Rightarrow> map_exn + apply_result" where
  "apply_compiled me compiled raw ingest =
     bind_result (run_preprocess me (PDict raw) (cs_preprocess compiled) ([], [])) (\<lambda>(extracted, consumed).
     bind_result (apply_rules me (PDict raw) (PDict extracted) ingest (cs_rules compiled)
        \<lparr>ap_output = [], ap_consumed = consumed, ap_default_hits = [], ap_ingest_fallback = [], ap_reduced_raw = None\<rparr>) (\<lambda>st.
       Inr (st\<lparr>ap_reduced_raw :=
         (if cs_reduction compiled \<noteq> [] then apply_raw_reduction (PDict raw) (cs_reduction compiled) else None)\<rparr>)))"

section \<open>The cache of compiled versions\<close>

text \<open>An ordered dictionary, least recently used first.\<close>

type_synonym mapping_cache = "((string \<times> int) \<times> compiled_rules) list"

definition get_compiled ::
  "menv \<Rightarrow> nat \<Rightarrow> string \<Rightarrow> pyval \<Rightarrow> int \<Rightarrow> mapping_cache \<Rightarrow> (mapping_def_error + compiled_rules) \<times> mapping_cache" where
  "get_compiled me max_cache mapping_version_id rules dsl_version cache =
     (let key = (mapping_version_id, dsl_version) in
      case map_of cache key of
        Some c \<Rightarrow> (Inr c, filter (\<lambda>(k, _). k \<noteq> key) cache @ [(key, c)])
      | None \<Rightarrow>
          (case compile_rules me rules (Some dsl_version) of
             Inl e \<Rightarrow> (Inl e, cache)
           | Inr c \<Rightarrow> (Inr c, (if length cache \<ge> max_cache then tl cache else cache) @ [(key, c)])))"

definition engine_apply ::
  "menv \<Rightarrow> nat \<Rightarrow> string \<Rightarrow> pyval \<Rightarrow> pydict \<Rightarrow> int \<Rightarrow> int option \<Rightarrow> mapping_cache \<Rightarrow>
   (mapping_def_error + (map_exn + apply_result)) \<times> mapping_cache" where
  "engine_apply me max_cache mapping_version_id rules raw dsl_version ingest cache =
     (case get_compiled me max_cache mapping_version_id rules dsl_version cache of
        (Inl e, cache') \<Rightarrow> (Inl e, cache')
      | (Inr c, cache') \<Rightarrow> (Inr (apply_compiled me c raw ingest), cache'))"

definition cache_invalidate :: "string \<Rightarrow> mapping_cache \<Rightarrow> mapping_cache" where
  "cache_invalidate mapping_version_id cache = filter (\<lambda>(k, _). fst k \<noteq> mapping_version_id) cache"

end
