(* ===== verification/Event_Envelope.thy ===== *)
theory Event_Envelope
  imports Py_Hash Routing_Engine
begin

text \<open>
  The canonical envelope of an event (\<open>normalize/envelope.py\<close>): the labels under \<open>_centralops\<close>, the normalised block and
  the vendor's event. The name of the host and the time of construction are arguments. The lemmas give what the later
  stages rely on: the roots, the identity of the event and the labels of routing.
\<close>

section \<open>The context\<close>

record envelope_context =
  xc_vendor :: string
  xc_integration_id :: "int option"
  xc_customer_id :: "int option"
  xc_stream :: string
  xc_event_type :: string
  xc_mapping_version_id :: "string option"
  xc_customer_name :: "string option"
  xc_collector_host :: string
  xc_platform :: "string option"
  xc_organization_id :: "int option"
  xc_organization_slug :: "string option"
  xc_data_geography :: "string option"

text \<open>\<open>__post_init__\<close>.\<close>

definition context_init :: "envelope_context \<Rightarrow> envelope_context" where
  "context_init ctx = (if xc_platform ctx = None then ctx\<lparr>xc_platform := Some (xc_vendor ctx)\<rparr> else ctx)"

definition opt_text :: "string option \<Rightarrow> pyval" where
  "opt_text t = (case t of None \<Rightarrow> PNone | Some s \<Rightarrow> PStr s)"

definition opt_int :: "int option \<Rightarrow> pyval" where
  "opt_int t = (case t of None \<Rightarrow> PNone | Some i \<Rightarrow> PInt i)"

section \<open>Construction\<close>

definition compute_event_id :: "pydict \<Rightarrow> string option \<Rightarrow> string" where
  "compute_event_id raw vendor_msg_id =
     (case vendor_msg_id of
        Some (c # m) \<Rightarrow> c # m
      | _ \<Rightarrow> ''sha256:'' @ sha256_hex (json_dumps (PDict raw)))"

definition normalized_block :: "pydict \<Rightarrow> pydict" where
  "normalized_block normalized = (case dget normalized ''normalized'' of PDict d \<Rightarrow> d | _ \<Rightarrow> normalized)"

definition envelope_labels :: "pydict \<Rightarrow> pydict \<Rightarrow> envelope_context \<Rightarrow> string option \<Rightarrow> string \<Rightarrow> pydict" where
  "envelope_labels raw block ctx vendor_msg_id collected_at =
     [(''schema_version'', PStr ''1.1.0''), (''ocsf_version'', PStr ''1.8.0''), (''vendor'', PStr (xc_vendor ctx)),
      (''platform'', opt_text (xc_platform ctx)), (''integration_id'', opt_int (xc_integration_id ctx)),
      (''customer_id'', opt_int (xc_customer_id ctx)), (''customer_name'', opt_text (xc_customer_name ctx)),
      (''organization_id'', opt_int (xc_organization_id ctx)), (''organization_slug'', opt_text (xc_organization_slug ctx)),
      (''severity_id'', dget block ''severity_id''), (''stream'', PStr (xc_stream ctx)),
      (''event_type'', PStr (xc_event_type ctx)), (''mapping_version_id'', opt_text (xc_mapping_version_id ctx)),
      (''collected_at'', PStr collected_at), (''collector_host'', PStr (xc_collector_host ctx)),
      (''event_id'', PStr (compute_event_id raw vendor_msg_id)), (''data_geography'', opt_text (xc_data_geography ctx))]"

definition build_envelope :: "pydict \<Rightarrow> pydict \<Rightarrow> envelope_context \<Rightarrow> string option \<Rightarrow> string \<Rightarrow> pydict" where
  "build_envelope raw normalized ctx0 vendor_msg_id collected_at =
     (let ctx = context_init ctx0; block = normalized_block normalized in
      [(''_centralops'', PDict (envelope_labels raw block ctx vendor_msg_id collected_at)),
       (''normalized'', PDict block), (''raw'', PDict raw)])"

definition has_customer_id :: "pydict \<Rightarrow> bool" where
  "has_customer_id envelope =
     (let cid = dget (as_dict (dget envelope ''_centralops'')) ''customer_id'' in cid \<noteq> PNone \<and> cid \<noteq> PStr [])"

section \<open>What later stages rely on\<close>

lemma build_envelope_roots: "map fst (build_envelope raw n ctx m t) = [''_centralops'', ''normalized'', ''raw'']"
  by (simp add: build_envelope_def Let_def)

lemma build_envelope_raw [simp]: "dget (build_envelope raw n ctx m t) ''raw'' = PDict raw"
  by (simp add: build_envelope_def Let_def dget_def)

lemma build_envelope_normalized [simp]: "dget (build_envelope raw n ctx m t) ''normalized'' = PDict (normalized_block n)"
  by (simp add: build_envelope_def Let_def dget_def)

lemma build_envelope_labels [simp]:
  "event_labels (build_envelope raw n ctx m t) = envelope_labels raw (normalized_block n) (context_init ctx) m t"
  by (simp add: build_envelope_def Let_def dget_def event_labels_def as_dict_def)

lemma context_init_fields [simp]:
  "xc_customer_id (context_init ctx) = xc_customer_id ctx" "xc_organization_id (context_init ctx) = xc_organization_id ctx"
  "xc_data_geography (context_init ctx) = xc_data_geography ctx" "xc_vendor (context_init ctx) = xc_vendor ctx"
  by (simp_all add: context_init_def)

lemma labels_event_id [simp]: "dget (envelope_labels raw b ctx m t) ''event_id'' = PStr (compute_event_id raw m)"
  by (simp add: envelope_labels_def dget_def)

lemma labels_organization [simp]: "dget (envelope_labels raw b ctx m t) ''organization_id'' = opt_int (xc_organization_id ctx)"
  by (simp add: envelope_labels_def dget_def)

lemma labels_geography [simp]: "dget (envelope_labels raw b ctx m t) ''data_geography'' = opt_text (xc_data_geography ctx)"
  by (simp add: envelope_labels_def dget_def)

lemma labels_customer [simp]: "dget (envelope_labels raw b ctx m t) ''customer_id'' = opt_int (xc_customer_id ctx)"
  by (simp add: envelope_labels_def dget_def)

lemma labels_vendor [simp]: "dget (envelope_labels raw b ctx m t) ''vendor'' = PStr (xc_vendor ctx)"
  by (simp add: envelope_labels_def dget_def)

lemma opt_int_simps [simp]: "opt_int x = PNone \<longleftrightarrow> x = None" "opt_int x \<noteq> PStr s"
  by (simp_all add: opt_int_def split: option.splits)

lemma has_customer_id_build [simp]: "has_customer_id (build_envelope raw n ctx m t) \<longleftrightarrow> xc_customer_id ctx \<noteq> None"
  using build_envelope_labels [of raw n ctx m t] by (simp add: has_customer_id_def Let_def event_labels_def)

text \<open>The identity of an event with an id of the vendor is that id, whatever was removed from its payload.\<close>

lemma event_id_of_build:
  "m \<noteq> [] \<Longrightarrow> event_id_of (event_labels (build_envelope raw n ctx (Some m) t)) = m"
  by (cases m) (simp_all add: event_id_of_def Let_def compute_event_id_def)

end
