(* ===== verification/Ocsf_Gate.thy ===== *)
theory Ocsf_Gate
  imports Py_Prelude
begin

text \<open>
  The structural gate of OCSF (\<open>normalize/ocsf/validator.py\<close>), the policy of an organisation on what fails it
  (\<open>collectors/ocsf_policy.py\<close>) and the gate on the events the product itself builds (\<open>_gate_internal_producers\<close> of
  \<open>pipeline.py\<close>). The registry of classes is what \<open>load\<close> makes of a manifest; reading the file is outside the model.
\<close>

section \<open>The registry of classes\<close>

datatype ocsf_reason =
    Reason_Ok
  | Out_Of_Scope
  | Unknown_Class
  | Category_Mismatch
  | Bad_Severity_Id
  | Bad_Activity_Id
  | Type_Uid_Mismatch
  | Bad_Status_Id
  | Missing_Required

fun reason_text :: "ocsf_reason \<Rightarrow> string" where
  "reason_text Reason_Ok = ''ok''"
| "reason_text Out_Of_Scope = ''out_of_scope''"
| "reason_text Unknown_Class = ''unknown_class''"
| "reason_text Category_Mismatch = ''category_mismatch''"
| "reason_text Bad_Severity_Id = ''bad_severity_id''"
| "reason_text Bad_Activity_Id = ''bad_activity_id''"
| "reason_text Type_Uid_Mismatch = ''type_uid_mismatch''"
| "reason_text Bad_Status_Id = ''bad_status_id''"
| "reason_text Missing_Required = ''missing_required''"

definition severity_ids :: "int list" where
  "severity_ids = [0, 1, 2, 3, 4, 5, 6, 99]"

definition engine_provided :: "string list" where
  "engine_provided =
     [''class_uid'', ''category_uid'', ''type_uid'', ''activity_id'', ''severity_id'', ''time'', ''metadata'']"

record class_spec =
  ocs_class_uid :: int
  ocs_name :: string
  ocs_category_uid :: int
  ocs_activity_ids :: "int list"
  ocs_status_ids :: "int list"
  ocs_required :: "string list"

record ocsf_verdict =
  ov_valid :: bool
  ov_reason :: ocsf_reason
  ov_in_scope :: bool
  ov_type_uid :: "int option"
  ov_class_uid :: "int option"
  ov_class_name :: string
  ov_missing :: "string list"

type_synonym ocsf_registry = "(int \<times> class_spec) list"

text \<open>\<open>int(k)\<close> of every key; an entry that cannot be read raises and the whole load with it.\<close>

definition int_keys :: "pyval \<Rightarrow> int list option" where
  "int_keys v =
     (case v of PDict d \<Rightarrow> those (map (\<lambda>(k, _). parse_int k) d) | _ \<Rightarrow> None)"

definition load_class :: "string \<times> pyval \<Rightarrow> (int \<times> class_spec) option" where
  "load_class ke =
     (case ke of
        (uid_str, PDict entry) \<Rightarrow>
          (case (parse_int uid_str, dhas entry ''name'' \<and> dhas entry ''category_uid'', py_int (dget entry ''category_uid''),
                 int_keys (dget_default entry ''activity_ids'' (PDict [])), int_keys (dget_default entry ''status_ids'' (PDict [])),
                 dget_default entry ''required'' (PList [])) of
             (Some uid, True, Some cat, Some acts, Some stats, PList req) \<Rightarrow>
               Some (uid, \<lparr>ocs_class_uid = uid, ocs_name = py_str (dget entry ''name''), ocs_category_uid = cat,
                 ocs_activity_ids = acts, ocs_status_ids = stats, ocs_required = map py_str req\<rparr>)
           | _ \<Rightarrow> None)
      | _ \<Rightarrow> None)"

definition load_registry :: "pydict \<Rightarrow> ocsf_registry option" where
  "load_registry raw =
     (case dget_default raw ''classes'' (PDict []) of
        PDict classes \<Rightarrow> map_option (foldl (\<lambda>m (u, s). AList.update u s m) []) (those (map load_class classes))
      | _ \<Rightarrow> None)"

definition spec_for :: "ocsf_registry \<Rightarrow> int \<Rightarrow> class_spec option" where
  "spec_for reg class_uid = map_of reg class_uid"

section \<open>The structural gate\<close>

text \<open>\<open>_is_ocsf_int\<close>: an int that is not a bool.\<close>

definition ocsf_int :: "pyval \<Rightarrow> int option" where
  "ocsf_int v = (case v of PInt i \<Rightarrow> Some i | _ \<Rightarrow> None)"

definition is_ocsf_int_in :: "int list \<Rightarrow> pyval \<Rightarrow> bool" where
  "is_ocsf_int_in ids v \<longleftrightarrow> (case ocsf_int v of None \<Rightarrow> False | Some i \<Rightarrow> i \<in> set ids)"

definition derive_type_uid :: "int \<Rightarrow> int \<Rightarrow> int" where
  "derive_type_uid class_uid activity_id = class_uid * 100 + activity_id"

definition mk_verdict ::
    "bool \<Rightarrow> ocsf_reason \<Rightarrow> bool \<Rightarrow> int option \<Rightarrow> class_spec option \<Rightarrow> int option \<Rightarrow> string list \<Rightarrow> ocsf_verdict" where
  "mk_verdict valid reason in_scope class_uid spec type_uid missing =
     \<lparr>ov_valid = valid, ov_reason = reason, ov_in_scope = in_scope, ov_type_uid = type_uid, ov_class_uid = class_uid,
      ov_class_name = (case spec of None \<Rightarrow> [] | Some s \<Rightarrow> ocs_name s), ov_missing = missing\<rparr>"

definition gate_spec :: "pydict \<Rightarrow> int \<Rightarrow> class_spec \<Rightarrow> ocsf_verdict" where
  "gate_spec n u spec =
     (let activity = dget n ''activity_id''; expected = derive_type_uid u (case ocsf_int activity of None \<Rightarrow> 0 | Some a \<Rightarrow> a);
          status = dget n ''status_id'';
          bad = (\<lambda>r t. mk_verdict False r True (Some u) (Some spec) t []) in
      if \<not> py_eq (dget n ''category_uid'') (PInt (ocs_category_uid spec)) then bad Category_Mismatch None
      else if \<not> is_ocsf_int_in severity_ids (dget n ''severity_id'') then bad Bad_Severity_Id None
      else if \<not> is_ocsf_int_in (ocs_activity_ids spec) activity then bad Bad_Activity_Id None
      else if \<not> py_eq (dget n ''type_uid'') (PInt expected) then bad Type_Uid_Mismatch (Some expected)
      else if status \<noteq> PNone \<and> \<not> is_ocsf_int_in (ocs_status_ids spec) status then bad Bad_Status_Id (Some expected)
      else mk_verdict True Reason_Ok True (Some u) (Some spec) (Some expected)
             (filter (\<lambda>a. a \<notin> set engine_provided \<and> dget n a = PNone) (ocs_required spec)))"

definition structural_gate :: "pydict \<Rightarrow> ocsf_registry \<Rightarrow> ocsf_verdict" where
  "structural_gate n reg =
     (case ocsf_int (dget n ''class_uid'') of
        None \<Rightarrow> mk_verdict False Unknown_Class True None None None []
      | Some u \<Rightarrow>
          if u < 0 then mk_verdict False Unknown_Class True (Some u) None None []
          else case spec_for reg u of
                 None \<Rightarrow> mk_verdict False Out_Of_Scope False (Some u) None None []
               | Some spec \<Rightarrow> gate_spec n u spec)"

section \<open>The policy of an organisation\<close>

definition enforcement_modes :: "string list" where
  "enforcement_modes = [''tag_and_pass'', ''quarantine'', ''fail_closed'']"

datatype ocsf_action = Act_Pass | Act_Quarantine | Act_Drop

definition ocsf_decide :: "bool \<Rightarrow> bool \<Rightarrow> string \<Rightarrow> ocsf_action" where
  "ocsf_decide valid in_scope mode =
     (if valid \<or> \<not> in_scope then Act_Pass
      else if mode = ''quarantine'' then Act_Quarantine
      else if mode = ''fail_closed'' then Act_Drop
      else Act_Pass)"

definition ocsf_global_default :: "string \<Rightarrow> string" where
  "ocsf_global_default setting = (if setting \<in> set enforcement_modes then setting else ''tag_and_pass'')"

text \<open>The read of the policy row: \<open>None\<close> when it raised, \<open>Some None\<close> when there is no row.\<close>

definition resolve_enforcement_mode :: "string \<Rightarrow> int option \<Rightarrow> string option option \<Rightarrow> string" where
  "resolve_enforcement_mode setting org row =
     (if org = None then ocsf_global_default setting
      else case row of
             Some (Some mode) \<Rightarrow> if mode \<in> set enforcement_modes then mode else ocsf_global_default setting
           | _ \<Rightarrow> ocsf_global_default setting)"

section \<open>Events of the product itself\<close>

definition internal_producer_vendor :: string where
  "internal_producer_vendor = ''centralops''"

definition label_event :: "string \<Rightarrow> pyval \<Rightarrow> pydict \<Rightarrow> pydict" where
  "label_event k v envelope = AList.update ''_centralops'' (PDict (AList.update k v (as_dict (dget envelope ''_centralops'')))) envelope"

definition is_internal :: "pydict \<Rightarrow> bool" where
  "is_internal envelope \<longleftrightarrow>
     (case dget envelope ''_centralops'' of
        PDict cc \<Rightarrow> py_eq (dget cc ''vendor'') (PStr internal_producer_vendor)
      | _ \<Rightarrow> False)"

text \<open>\<open>None\<close> when the validator raises: the registry cannot be loaded, or the block is not a dictionary.\<close>

definition internal_verdict :: "ocsf_registry option \<Rightarrow> pydict \<Rightarrow> ocsf_verdict option" where
  "internal_verdict reg envelope =
     (case reg of
        None \<Rightarrow> None
      | Some r \<Rightarrow>
          (case dget envelope ''normalized'' of
             PDict n \<Rightarrow> Some (structural_gate n r)
           | v \<Rightarrow> if truthy v then None else Some (structural_gate [] r)))"

definition gate_internal :: "ocsf_registry option \<Rightarrow> pydict \<Rightarrow> pydict option" where
  "gate_internal reg envelope =
     (if \<not> is_internal envelope then Some envelope
      else case internal_verdict reg envelope of
             None \<Rightarrow> Some envelope
           | Some v \<Rightarrow>
               if ov_valid v then Some (label_event ''ocsf_valid'' (PBool True) envelope)
               else if \<not> ov_in_scope v then Some (label_event ''ocsf_valid'' (PBool False) envelope)
               else None)"

definition gate_internal_producers :: "ocsf_registry option \<Rightarrow> pydict list \<Rightarrow> pydict list" where
  "gate_internal_producers reg batch = List.map_filter (gate_internal reg) batch"

section \<open>What the gate certifies\<close>

text \<open>The identity and the enumerations of an OCSF object, without the order of the tests.\<close>

definition ocsf_well_formed :: "ocsf_registry \<Rightarrow> pydict \<Rightarrow> bool" where
  "ocsf_well_formed reg n \<longleftrightarrow>
     (\<exists>u spec a s. dget n ''class_uid'' = PInt u \<and> 0 \<le> u \<and> spec_for reg u = Some spec \<and>
        py_eq (dget n ''category_uid'') (PInt (ocs_category_uid spec)) \<and>
        dget n ''severity_id'' = PInt s \<and> s \<in> set severity_ids \<and>
        dget n ''activity_id'' = PInt a \<and> a \<in> set (ocs_activity_ids spec) \<and>
        py_eq (dget n ''type_uid'') (PInt (u * 100 + a)) \<and>
        (dget n ''status_id'' = PNone \<or> (\<exists>t. dget n ''status_id'' = PInt t \<and> t \<in> set (ocs_status_ids spec))))"

lemma ocsf_int_iff [simp]: "ocsf_int v = Some i \<longleftrightarrow> v = PInt i"
  by (cases v) (auto simp: ocsf_int_def)

lemma ocsf_int_PInt [simp]: "ocsf_int (PInt i) = Some i"
  by simp

lemma is_ocsf_int_in_iff: "is_ocsf_int_in ids v \<longleftrightarrow> (\<exists>i. v = PInt i \<and> i \<in> set ids)"
  by (cases v) (auto simp: is_ocsf_int_in_def ocsf_int_def)

lemma gate_valid_iff: "ov_valid (structural_gate n reg) \<longleftrightarrow> ocsf_well_formed reg n"
proof (cases "ocsf_int (dget n ''class_uid'')")
  case None
  then have "dget n ''class_uid'' \<noteq> PInt u" for u by (auto simp: ocsf_int_def)
  with None show ?thesis by (auto simp: structural_gate_def ocsf_well_formed_def mk_verdict_def)
next
  case (Some u)
  then have u: "dget n ''class_uid'' = PInt u" by simp
  show ?thesis
  proof (cases "u < 0 \<or> spec_for reg u = None")
    case True
    with u Some show ?thesis by (auto simp: structural_gate_def ocsf_well_formed_def mk_verdict_def)
  next
    case False
    then obtain spec where s: "spec_for reg u = Some spec" "\<not> u < 0" by auto
    then have "structural_gate n reg = gate_spec n u spec" using Some by (simp add: structural_gate_def)
    then show ?thesis
      using u s by (auto simp: gate_spec_def Let_def ocsf_well_formed_def mk_verdict_def is_ocsf_int_in_iff derive_type_uid_def ocsf_int_def)
  qed
qed

lemma gate_out_of_scope_iff:
  "\<not> ov_in_scope (structural_gate n reg) \<longleftrightarrow> (\<exists>u\<ge>0. dget n ''class_uid'' = PInt u \<and> spec_for reg u = None)"
proof (cases "ocsf_int (dget n ''class_uid'')")
  case None
  then have "dget n ''class_uid'' \<noteq> PInt u" for u by auto
  with None show ?thesis by (auto simp: structural_gate_def mk_verdict_def)
next
  case (Some u)
  then have "dget n ''class_uid'' = PInt u" by simp
  then show ?thesis by (auto simp: structural_gate_def mk_verdict_def gate_spec_def Let_def split: option.splits)
qed

text \<open>An event of the product is discarded exactly when the validator ran and found an object of a known class (or none)
  that is not well formed; all other events are kept, in their order, and only the verdict is written into them.\<close>

lemma gate_internal_discards:
  assumes "dget env ''normalized'' = PDict n"
  shows "gate_internal (Some reg) env = None \<longleftrightarrow>
    is_internal env \<and> \<not> ocsf_well_formed reg n \<and> (\<forall>u\<ge>0. dget n ''class_uid'' = PInt u \<longrightarrow> spec_for reg u \<noteq> None)"
  using assms gate_valid_iff [of n reg] gate_out_of_scope_iff [of n reg]
  by (auto simp: gate_internal_def internal_verdict_def)

lemma dget_label_event [simp]:
  "k \<noteq> ''_centralops'' \<Longrightarrow> dget (label_event l v env) k = dget env k"
  by (simp add: label_event_def dget_def update_conv')

lemma gate_internal_keeps:
  assumes "gate_internal reg env = Some env'"
  shows "env' = env \<or> (is_internal env \<and> (\<exists>b. env' = label_event ''ocsf_valid'' (PBool b) env))"
  using assms by (auto simp: gate_internal_def split: if_splits option.splits)

lemma gate_internal_failing_validator [simp]: "gate_internal_producers None batch = batch"
  by (induction batch) (simp_all add: gate_internal_producers_def gate_internal_def internal_verdict_def List.map_filter_def)

end
