(* ===== verification/Routing_Correct.thy ===== *)
theory Routing_Correct
  imports Routing_Engine
begin

text \<open>
  Correctness of the routing engine. The section on one event states which routes an event takes
  without the loop of the code; the section on a batch gives, for one event, its fate and the copy
  each destination receives, and shows that the fold of \<open>route_batch\<close> implements them for a whole
  batch. The guarantees of the engine (zero loss, one copy per destination, redaction wins, loop
  guard, residency, detection fail-safe) are consequences of that refinement.
\<close>

section \<open>One event\<close>

text \<open>The routes that apply to an event, and the prefix of them up to the first drop or final route.\<close>

definition route_applies :: "pydict \<Rightarrow> compiled_route \<Rightarrow> bool" where
  "route_applies labels r \<longleftrightarrow>
     r_enabled r \<and> matches (r_condition r) labels \<and> canary_pass (r_canary_percent r) (event_id_of labels)"

definition route_stops :: "compiled_route \<Rightarrow> bool" where
  "route_stops r \<longleftrightarrow> r_action r = ''drop'' \<or> r_is_final r"

fun up_to_first :: "('a \<Rightarrow> bool) \<Rightarrow> 'a list \<Rightarrow> 'a list" where
  "up_to_first p [] = []"
| "up_to_first p (x # xs) = (if p x then [x] else x # up_to_first p xs)"

definition taken_routes :: "pydict \<Rightarrow> compiled_route list \<Rightarrow> compiled_route list" where
  "taken_routes labels ordered = up_to_first route_stops (filter (route_applies labels) ordered)"

definition pairs_of :: "compiled_route \<Rightarrow> (string \<times> compiled_route) list" where
  "pairs_of r = map (\<lambda>d. (d, r)) (r_destination_ids r)"

definition routing_spec :: "pydict \<Rightarrow> compiled_route list \<Rightarrow> event_routing" where
  "routing_spec labels ordered =
     (let taken = taken_routes labels ordered;
          drops = filter (\<lambda>r. r_action r = ''drop'') taken
      in \<lparr>er_destinations = (if drops = [] then \<Union> (set (map (set \<circ> r_destination_ids) taken)) else {}),
          er_dropped = (drops \<noteq> []),
          er_matched = (taken \<noteq> []),
          er_matched_route_ids = r_id ` set taken,
          er_assignments = (if drops = [] then concat (map pairs_of taken) else []),
          er_drop_route_id = (if drops = [] then None else Some (r_id (last taken)))\<rparr>)"

lemma up_to_first_subset: "set (up_to_first p xs) \<subseteq> set xs"
  by (induction xs) auto

lemma up_to_first_Nil [simp]: "up_to_first p xs = [] \<longleftrightarrow> xs = []"
  by (cases xs) auto

text \<open>The loop with its three accumulators, for any accumulators.\<close>

lemma evaluate_loop_spec:
  "evaluate_loop labels (event_id_of labels) dests matched as rs =
     (let taken = taken_routes labels rs;
          drops = filter (\<lambda>r. r_action r = ''drop'') taken
      in \<lparr>er_destinations = (if drops = [] then dests \<union> \<Union> (set (map (set \<circ> r_destination_ids) taken)) else {}),
          er_dropped = (drops \<noteq> []),
          er_matched = (matched \<noteq> [] \<or> taken \<noteq> []),
          er_matched_route_ids = set matched \<union> r_id ` set taken,
          er_assignments = (if drops = [] then as @ concat (map pairs_of taken) else []),
          er_drop_route_id = (if drops = [] then None else Some (r_id (last taken)))\<rparr>)"
proof (induction rs arbitrary: dests matched as)
  case Nil
  then show ?case by (simp add: taken_routes_def)
next
  case (Cons r rs)
  show ?case
  proof (cases "route_applies labels r")
    case False
    then have "evaluate_loop labels (event_id_of labels) dests matched as (r # rs) =
               evaluate_loop labels (event_id_of labels) dests matched as rs"
      by (auto simp: route_applies_def)
    with False Cons.IH show ?thesis by (simp add: taken_routes_def)
  next
    case applies: True
    then have en: "r_enabled r" "matches (r_condition r) labels"
      "canary_pass (r_canary_percent r) (event_id_of labels)"
      by (auto simp: route_applies_def)
    show ?thesis
    proof (cases "route_stops r")
      case True
      with applies en show ?thesis
        by (auto simp: taken_routes_def route_stops_def pairs_of_def)
    next
      case False
      have t: "taken_routes labels (r # rs) = r # taken_routes labels rs"
        using applies False by (simp add: taken_routes_def)
      have nd: "r_action r \<noteq> ''drop''" "\<not> r_is_final r" using False by (auto simp: route_stops_def)
      show ?thesis
        using en nd unfolding t
        by (simp add: Cons.IH Let_def pairs_of_def Un_assoc)
    qed
  qed
qed

lemma evaluate_event_eq: "evaluate_event labels ordered = routing_spec labels ordered"
  by (simp add: evaluate_event_def routing_spec_def evaluate_loop_spec Let_def)

section \<open>The route that serves a destination\<close>

text \<open>Among the routes that send an event to one destination, the first that redacts wins, and the first
  one when none redacts.\<close>

definition winner :: "compiled_route list \<Rightarrow> compiled_route option" where
  "winner rs = (case find (\<lambda>r. r_redaction r \<noteq> []) rs of
                  Some r \<Rightarrow> Some r
                | None \<Rightarrow> (case rs of [] \<Rightarrow> None | r # _ \<Rightarrow> Some r))"

definition routes_to :: "string \<Rightarrow> (string \<times> compiled_route) list \<Rightarrow> compiled_route list" where
  "routes_to d as = map snd (filter (\<lambda>p. fst p = d) as)"

lemma routes_to_Cons [simp]:
  "routes_to d ((d', r) # as) = (if d' = d then r # routes_to d as else routes_to d as)"
  by (simp add: routes_to_def)

lemma routes_to_Nil [simp]: "routes_to d [] = []"
  by (simp add: routes_to_def)

lemma winner_Cons_redacting: "r_redaction r \<noteq> [] \<Longrightarrow> winner (r # rs) = Some r"
  by (simp add: winner_def)

lemma winner_drop_second:
  "r_redaction c \<noteq> [] \<or> r_redaction r = [] \<Longrightarrow> winner (c # r # rs) = winner (c # rs)"
  by (auto simp: winner_def split: option.split)

lemma winner_replace:
  "r_redaction c = [] \<Longrightarrow> r_redaction r \<noteq> [] \<Longrightarrow> winner (c # r # rs) = winner (r # rs)"
  by (simp add: winner_def)

lemma winner_None [simp]: "winner rs = None \<longleftrightarrow> rs = []"
  by (cases rs) (auto simp: winner_def split: option.splits)

lemma winner_Some_in: "winner rs = Some r \<Longrightarrow> r \<in> set rs"
  by (cases rs) (auto simp: winner_def find_Some_iff split: option.splits if_splits)

lemma winner_redacts:
  "winner rs = Some r \<Longrightarrow> r' \<in> set rs \<Longrightarrow> r_redaction r' \<noteq> [] \<Longrightarrow> r_redaction r \<noteq> []"
  by (auto simp: winner_def find_Some_iff find_None_iff split: option.splits list.splits)

lemma choose_routes_map_of:
  "map_of (choose_routes chosen as) d =
     (case map_of chosen d of
        None \<Rightarrow> winner (routes_to d as)
      | Some c \<Rightarrow> winner (c # routes_to d as))"
proof (induction as arbitrary: chosen)
  case Nil
  then show ?case by (auto simp: winner_def split: option.splits)
next
  case (Cons p as)
  obtain d' r where p: "p = (d', r)" by (cases p)
  show ?case
  proof (cases "map_of chosen d'")
    case None
    then show ?thesis
      by (cases "d' = d") (simp_all add: p Cons.IH split: option.splits)
  next
    case (Some c)
    show ?thesis
    proof (cases "r_redaction c = [] \<and> r_redaction r \<noteq> []")
      case True
      with Some show ?thesis
        by (cases "d' = d") (simp_all add: p Cons.IH winner_replace split: option.splits)
    next
      case False
      then have "choose_routes chosen (p # as) = choose_routes chosen as"
        using Some by (auto simp: p)
      with Some False show ?thesis
        by (cases "d' = d") (simp_all add: p Cons.IH winner_drop_second split: option.splits)
    qed
  qed
qed

lemma choose_routes_distinct:
  "distinct (map fst chosen) \<Longrightarrow> distinct (map fst (choose_routes chosen as))"
  by (induction chosen as rule: choose_routes.induct)
     (auto simp: distinct_keys_update split: option.splits)

lemma map_of_filter_key:
  "map_of (filter (\<lambda>(d, _). P d) xs) d = (if P d then map_of xs d else None)"
  by (induction xs) auto

section \<open>The fate of one event\<close>

datatype event_fate = FDropped | FRouted | FSampledOut | FFallback string | FUnrouted | FLoopBlocked

text \<open>The destinations an event may go to at all, the routes left for it, and what becomes of it.\<close>

definition dest_permitted :: "route_opts \<Rightarrow> pydict \<Rightarrow> string \<Rightarrow> bool" where
  "dest_permitted opts labels d \<longleftrightarrow>
     \<not> (source_is_wazuh labels \<and> d \<in> set (ro_loop_ids opts)) \<and> \<not> residency_blocks opts labels d"

definition serving_routes ::
  "route_opts \<Rightarrow> compiled_route list \<Rightarrow> pydict \<Rightarrow> (string \<times> compiled_route) list" where
  "serving_routes opts ordered env =
     (let labels = event_labels env in
      filter (\<lambda>(d, _). dest_permitted opts labels d)
        (choose_routes [] (er_assignments (evaluate_event labels ordered))))"

definition sampled_out :: "route_opts \<Rightarrow> pydict \<Rightarrow> compiled_route \<Rightarrow> bool" where
  "sampled_out opts env r = should_sample_out r (event_id_of (event_labels env)) (ro_sampling opts)"

definition fate :: "route_opts \<Rightarrow> compiled_route list \<Rightarrow> pydict \<Rightarrow> event_fate" where
  "fate opts ordered env =
     (let labels = event_labels env; serving = serving_routes opts ordered env in
      if er_dropped (evaluate_event labels ordered) then FDropped
      else if serving = [] then
        (if source_is_wazuh labels \<and>
            (case ro_fallback opts of None \<Rightarrow> True | Some fb \<Rightarrow> fb \<in> set (ro_loop_ids opts))
         then FLoopBlocked
         else case ro_fallback opts of Some fb \<Rightarrow> FFallback fb | None \<Rightarrow> FUnrouted)
      else if list_all (\<lambda>p. sampled_out opts env (snd p)) serving then FSampledOut
      else FRouted)"

text \<open>The copies a destination receives of one event: none or one.\<close>

definition copies_for :: "route_opts \<Rightarrow> compiled_route list \<Rightarrow> string \<Rightarrow> pydict \<Rightarrow> pydict list" where
  "copies_for opts ordered d env =
     (if fate opts ordered env = FFallback d then [env]
      else if fate opts ordered env = FRouted then
        (case map_of (serving_routes opts ordered env) d of
           None \<Rightarrow> []
         | Some r \<Rightarrow> if sampled_out opts env r then [] else [delivered_copy opts r env])
      else [])"

definition sub_of :: "(string \<times> pydict list) list \<Rightarrow> string \<Rightarrow> pydict list" where
  "sub_of sub d = (case map_of sub d of None \<Rightarrow> [] | Some es \<Rightarrow> es)"

lemma sub_of_append [simp]:
  "sub_of (sub_append d e sub) d' = sub_of sub d' @ (if d = d' then [e] else [])"
  by (auto simp: sub_of_def sub_append_def)

lemma sub_of_Nil [simp]: "sub_of [] d = []"
  by (simp add: sub_of_def)

lemma serving_routes_map_of:
  "map_of (serving_routes opts ordered env) d =
     (if dest_permitted opts (event_labels env) d
      then winner (routes_to d (er_assignments (evaluate_event (event_labels env) ordered))) else None)"
  by (simp add: serving_routes_def map_of_filter_key choose_routes_map_of Let_def)

lemma serving_routes_distinct: "distinct (map fst (serving_routes opts ordered env))"
  by (simp add: serving_routes_def Let_def choose_routes_distinct distinct_map_filter)

section \<open>The fold over a batch\<close>

text \<open>Delivery to the serving routes of one event: which copies are appended, whether anything was
  delivered, and that no other counter moves.\<close>

lemma deliver_one_fields:
  fixes opts env st p
  defines "st' \<equiv> deliver_one opts env (event_labels env) st p"
  shows "sub_of (br_sub_batches (fst st')) d = sub_of (br_sub_batches (fst st)) d @
           (if fst p = d \<and> \<not> sampled_out opts env (snd p) then [delivered_copy opts (snd p) env] else [])"
    and "snd st' = (snd st \<or> \<not> sampled_out opts env (snd p))"
    and "br_routed (fst st') = br_routed (fst st)" "br_dropped (fst st') = br_dropped (fst st)"
    and "br_fallback (fst st') = br_fallback (fst st)" "br_unrouted (fst st') = br_unrouted (fst st)"
    and "br_loop_blocked (fst st') = br_loop_blocked (fst st)"
    and "br_unrouted_events (fst st') = br_unrouted_events (fst st)"
    and "br_dropped_events (fst st') = br_dropped_events (fst st)"
    and "br_loop_blocked_events (fst st') = br_loop_blocked_events (fst st)"
  by (auto simp: st'_def deliver_one_def sampled_out_def Let_def split: prod.splits)

lemma deliver_fold_fields:
  fixes opts env ps
  defines "step \<equiv> foldl (deliver_one opts env (event_labels env))"
  shows "sub_of (br_sub_batches (fst (step st ps))) d = sub_of (br_sub_batches (fst st)) d @
           map (\<lambda>p. delivered_copy opts (snd p) env)
             (filter (\<lambda>p. fst p = d \<and> \<not> sampled_out opts env (snd p)) ps)"
    and "snd (step st ps) = (snd st \<or> list_ex (\<lambda>p. \<not> sampled_out opts env (snd p)) ps)"
    and "br_routed (fst (step st ps)) = br_routed (fst st)"
    and "br_dropped (fst (step st ps)) = br_dropped (fst st)"
    and "br_fallback (fst (step st ps)) = br_fallback (fst st)"
    and "br_unrouted (fst (step st ps)) = br_unrouted (fst st)"
    and "br_loop_blocked (fst (step st ps)) = br_loop_blocked (fst st)"
    and "br_unrouted_events (fst (step st ps)) = br_unrouted_events (fst st)"
    and "br_dropped_events (fst (step st ps)) = br_dropped_events (fst st)"
    and "br_loop_blocked_events (fst (step st ps)) = br_loop_blocked_events (fst st)"
  unfolding step_def by (induction ps arbitrary: st) (simp_all add: deliver_one_fields)

text \<open>With distinct destinations the appended copies are the one of the route that serves \<open>d\<close>.\<close>

lemma filter_key_distinct:
  "distinct (map fst ps) \<Longrightarrow>
   filter (\<lambda>p. fst p = d \<and> Q (snd p)) ps =
     (case map_of ps d of None \<Rightarrow> [] | Some r \<Rightarrow> if Q r then [(d, r)] else [])"
proof (induction ps)
  case (Cons p ps)
  show ?case
  proof (cases "fst p = d")
    case True
    with Cons.prems have "map_of ps d = None"
      by (metis distinct.simps(2) list.simps(9) map_of_eq_None_iff list.set_map)
    with True Cons show ?thesis by (cases p) auto
  qed (use Cons in \<open>cases p; auto\<close>)
qed simp

lemma serving_routes_as_code:
  "serving_routes opts ordered env =
     filter (\<lambda>(d, _). \<not> residency_blocks opts (event_labels env) d)
       (loop_filtered opts (event_labels env)
         (choose_routes [] (er_assignments (evaluate_event (event_labels env) ordered))))"
  by (auto simp: serving_routes_def loop_filtered_def dest_permitted_def Let_def filter_filter
      intro!: filter_cong)

lemma serving_routes_empty:
  "er_assignments (evaluate_event (event_labels env) ordered) = [] \<Longrightarrow> serving_routes opts ordered env = []"
  by (simp add: serving_routes_def)

text \<open>The effect of one event on the result, field by field.\<close>

lemma no_destination_fields:
  fixes opts env labels reason res
  defines "res' \<equiv> no_destination opts env labels reason res"
  defines "loop \<equiv> source_is_wazuh labels \<and>
     (case ro_fallback opts of None \<Rightarrow> True | Some fb \<Rightarrow> fb \<in> set (ro_loop_ids opts))"
  shows "sub_of (br_sub_batches res') d = sub_of (br_sub_batches res) d @
           (if \<not> loop \<and> ro_fallback opts = Some d then [env] else [])"
    and "br_fallback res' = br_fallback res + (if \<not> loop \<and> ro_fallback opts \<noteq> None then 1 else 0)"
    and "br_unrouted res' = br_unrouted res + (if \<not> loop \<and> ro_fallback opts = None then 1 else 0)"
    and "br_unrouted_events res' = br_unrouted_events res @ (if \<not> loop \<and> ro_fallback opts = None then [env] else [])"
    and "br_loop_blocked res' = br_loop_blocked res + (if loop then 1 else 0)"
    and "br_routed res' = br_routed res" "br_dropped res' = br_dropped res"
    and "br_dropped_events res' = br_dropped_events res"
    and "map fst (br_loop_blocked_events res') = map fst (br_loop_blocked_events res) @ (if loop then [env] else [])"
  by (auto simp: res'_def loop_def no_destination_def split: option.splits)

lemma fate_dropped:
  "fate opts ordered env = FDropped \<longleftrightarrow> er_dropped (evaluate_event (event_labels env) ordered)"
  by (auto simp: fate_def Let_def split: option.splits if_splits)

text \<open>\<open>route_event\<close> in the three cases of the code.\<close>

lemma route_event_dropped:
  assumes "er_dropped (evaluate_event (event_labels env) ordered)"
  shows "br_sub_batches (route_event opts ordered res env) = br_sub_batches res"
    and "br_dropped (route_event opts ordered res env) = br_dropped res + 1"
    and "map fst (br_dropped_events (route_event opts ordered res env)) = map fst (br_dropped_events res) @ [env]"
    and "br_routed (route_event opts ordered res env) = br_routed res"
    and "br_fallback (route_event opts ordered res env) = br_fallback res"
    and "br_unrouted (route_event opts ordered res env) = br_unrouted res"
    and "br_loop_blocked (route_event opts ordered res env) = br_loop_blocked res"
    and "br_unrouted_events (route_event opts ordered res env) = br_unrouted_events res"
    and "br_loop_blocked_events (route_event opts ordered res env) = br_loop_blocked_events res"
  using assms by (simp_all add: route_event_def Let_def)

lemma route_event_no_destination:
  assumes "\<not> er_dropped (evaluate_event (event_labels env) ordered)" "serving_routes opts ordered env = []"
  shows "\<exists>reason res'. route_event opts ordered res env = no_destination opts env (event_labels env) reason res' \<and>
     br_sub_batches res' = br_sub_batches res \<and> br_dropped res' = br_dropped res \<and>
     br_routed res' = br_routed res \<and> br_fallback res' = br_fallback res \<and>
     br_unrouted res' = br_unrouted res \<and> br_loop_blocked res' = br_loop_blocked res \<and>
     br_unrouted_events res' = br_unrouted_events res \<and> br_dropped_events res' = br_dropped_events res \<and>
     br_loop_blocked_events res' = br_loop_blocked_events res"
proof (cases "er_assignments (evaluate_event (event_labels env) ordered) = []")
  case True
  show ?thesis unfolding route_event_def Let_def if_not_P [OF assms(1)] if_P [OF True]
    by (intro exI conjI) (rule refl, simp_all)
next
  case False
  show ?thesis unfolding route_event_def Let_def if_not_P [OF assms(1)] if_not_P [OF False] route_assigned_def
      if_P [OF assms(2) [unfolded serving_routes_as_code]]
    by (intro exI conjI) (rule refl, simp_all)
qed

lemma route_event_served:
  assumes "\<not> er_dropped (evaluate_event (event_labels env) ordered)" "serving_routes opts ordered env \<noteq> []"
  shows "\<exists>res'. route_event opts ordered res env =
       (case foldl (deliver_one opts env (event_labels env)) (res', False) (serving_routes opts ordered env) of
          (res2, delivered) \<Rightarrow> if delivered then res2\<lparr>br_routed := br_routed res2 + 1\<rparr> else res2) \<and>
     br_sub_batches res' = br_sub_batches res \<and> br_dropped res' = br_dropped res \<and>
     br_routed res' = br_routed res \<and> br_fallback res' = br_fallback res \<and>
     br_unrouted res' = br_unrouted res \<and> br_loop_blocked res' = br_loop_blocked res \<and>
     br_unrouted_events res' = br_unrouted_events res \<and> br_dropped_events res' = br_dropped_events res \<and>
     br_loop_blocked_events res' = br_loop_blocked_events res"
proof -
  have a: "er_assignments (evaluate_event (event_labels env) ordered) \<noteq> []"
    using assms(2) serving_routes_empty by blast
  show ?thesis unfolding route_event_def Let_def if_not_P [OF assms(1)] if_not_P [OF a] route_assigned_def
      serving_routes_as_code [symmetric]
    unfolding if_not_P [OF assms(2)]
    by (intro exI conjI) (rule refl, simp_all)
qed

lemma fate_no_destination:
  assumes "\<not> er_dropped (evaluate_event (event_labels env) ordered)" "serving_routes opts ordered env = []"
  shows "fate opts ordered env =
    (if source_is_wazuh (event_labels env) \<and>
        (case ro_fallback opts of None \<Rightarrow> True | Some fb \<Rightarrow> fb \<in> set (ro_loop_ids opts))
     then FLoopBlocked else case ro_fallback opts of Some fb \<Rightarrow> FFallback fb | None \<Rightarrow> FUnrouted)"
  using assms by (simp add: fate_def Let_def)

lemma fate_served:
  assumes "\<not> er_dropped (evaluate_event (event_labels env) ordered)" "serving_routes opts ordered env \<noteq> []"
  shows "fate opts ordered env =
    (if list_ex (\<lambda>p. \<not> sampled_out opts env (snd p)) (serving_routes opts ordered env)
     then FRouted else FSampledOut)"
  using assms by (auto simp: fate_def Let_def list_ex_iff list_all_iff)

text \<open>The observable part of a result: what goes where, and what is counted.\<close>

definition tally :: "batch_routing \<Rightarrow> nat list" where
  "tally res = [br_routed res, br_dropped res, br_fallback res, br_unrouted res, br_loop_blocked res]"

definition fate_tally :: "event_fate \<Rightarrow> nat list" where
  "fate_tally f = [of_bool (f = FRouted), of_bool (f = FDropped), of_bool (\<exists>d. f = FFallback d),
                   of_bool (f = FUnrouted), of_bool (f = FLoopBlocked)]"

lemma route_event_sub:
  "sub_of (br_sub_batches (route_event opts ordered res env)) d =
     sub_of (br_sub_batches res) d @ copies_for opts ordered d env"
proof (cases "er_dropped (evaluate_event (event_labels env) ordered)")
  case True
  then have "fate opts ordered env = FDropped" by (simp add: fate_dropped)
  with True show ?thesis by (simp add: route_event_dropped copies_for_def)
next
  case nd: False
  show ?thesis
  proof (cases "serving_routes opts ordered env = []")
    case True
    from route_event_no_destination [OF nd True, of res] obtain reason res' where
      e: "route_event opts ordered res env = no_destination opts env (event_labels env) reason res'"
         "br_sub_batches res' = br_sub_batches res" by blast
    show ?thesis unfolding e(1) no_destination_fields e(2)
      by (auto simp: copies_for_def fate_no_destination [OF nd True] split: option.splits)
  next
    case False
    from route_event_served [OF nd False, of res] obtain res' where
      e: "route_event opts ordered res env =
       (case foldl (deliver_one opts env (event_labels env)) (res', False) (serving_routes opts ordered env) of
          (res2, delivered) \<Rightarrow> if delivered then res2\<lparr>br_routed := br_routed res2 + 1\<rparr> else res2)"
      "br_sub_batches res' = br_sub_batches res" by blast
    have "br_sub_batches (route_event opts ordered res env) =
      br_sub_batches (fst (foldl (deliver_one opts env (event_labels env)) (res', False) (serving_routes opts ordered env)))"
      unfolding e(1) by (simp split: prod.splits)
    then show ?thesis
      using map_of_SomeD [of "serving_routes opts ordered env" d]
      by (auto simp: deliver_fold_fields e(2) filter_key_distinct [OF serving_routes_distinct, of _ "\<lambda>r. \<not> sampled_out opts env r"]
          copies_for_def fate_served [OF nd False] list_ex_iff split: option.splits if_splits intro: bexI [of _ "(d, _)"])
  qed
qed

lemma route_event_tally:
  "tally (route_event opts ordered res env) = map2 (+) (tally res) (fate_tally (fate opts ordered env))"
proof (cases "er_dropped (evaluate_event (event_labels env) ordered)")
  case True
  then have "fate opts ordered env = FDropped" by (simp add: fate_dropped)
  with True show ?thesis by (simp add: route_event_dropped tally_def fate_tally_def)
next
  case nd: False
  show ?thesis
  proof (cases "serving_routes opts ordered env = []")
    case True
    from route_event_no_destination [OF nd True, of res] show ?thesis
      by (auto simp: tally_def fate_tally_def no_destination_fields fate_no_destination [OF nd True]
          split: option.splits)
  next
    case False
    from route_event_served [OF nd False, of res] obtain res' where
      e: "route_event opts ordered res env =
       (case foldl (deliver_one opts env (event_labels env)) (res', False) (serving_routes opts ordered env) of
          (res2, delivered) \<Rightarrow> if delivered then res2\<lparr>br_routed := br_routed res2 + 1\<rparr> else res2)"
      and t: "tally res' = tally res"
      by (auto simp: tally_def)
    let ?f = "foldl (deliver_one opts env (event_labels env)) (res', False) (serving_routes opts ordered env)"
    have "tally (route_event opts ordered res env) =
      map2 (+) (tally (fst ?f)) [of_bool (snd ?f), 0, 0, 0, 0]"
      unfolding e by (cases ?f) (simp add: tally_def)
    then show ?thesis using t
      by (simp add: tally_def deliver_fold_fields fate_served [OF nd False] fate_tally_def)
  qed
qed

lemma route_event_lists:
  "br_unrouted_events (route_event opts ordered res env) =
     br_unrouted_events res @ (if fate opts ordered env = FUnrouted then [env] else [])" (is ?U)
  "map fst (br_dropped_events (route_event opts ordered res env)) =
     map fst (br_dropped_events res) @ (if fate opts ordered env = FDropped then [env] else [])" (is ?D)
  "map fst (br_loop_blocked_events (route_event opts ordered res env)) =
     map fst (br_loop_blocked_events res) @ (if fate opts ordered env = FLoopBlocked then [env] else [])" (is ?L)
proof -
  have "?U \<and> ?D \<and> ?L"
  proof (cases "er_dropped (evaluate_event (event_labels env) ordered)")
    case True
    then have "fate opts ordered env = FDropped" by (simp add: fate_dropped)
    with True show ?thesis by (simp add: route_event_dropped)
  next
    case nd: False
    show ?thesis
    proof (cases "serving_routes opts ordered env = []")
      case True
      from route_event_no_destination [OF nd True, of res] show ?thesis
        by (auto simp: no_destination_fields fate_no_destination [OF nd True] split: option.splits)
    next
      case False
      from route_event_served [OF nd False, of res] obtain res' where
        e: "route_event opts ordered res env =
         (case foldl (deliver_one opts env (event_labels env)) (res', False) (serving_routes opts ordered env) of
            (res2, delivered) \<Rightarrow> if delivered then res2\<lparr>br_routed := br_routed res2 + 1\<rparr> else res2)"
        and l: "br_unrouted_events res' = br_unrouted_events res" "br_dropped_events res' = br_dropped_events res"
          "br_loop_blocked_events res' = br_loop_blocked_events res"
        by auto
      let ?f = "foldl (deliver_one opts env (event_labels env)) (res', False) (serving_routes opts ordered env)"
      have "br_unrouted_events (route_event opts ordered res env) = br_unrouted_events (fst ?f)"
        "br_dropped_events (route_event opts ordered res env) = br_dropped_events (fst ?f)"
        "br_loop_blocked_events (route_event opts ordered res env) = br_loop_blocked_events (fst ?f)"
        unfolding e by (cases ?f; simp)+
      then show ?thesis by (simp add: l deliver_fold_fields fate_served [OF nd False])
    qed
  qed
  then show ?U ?D ?L by blast+
qed

text \<open>The fold over the batch.\<close>

lemma route_fold_sub:
  "sub_of (br_sub_batches (foldl (route_event opts ordered) res batch)) d =
     sub_of (br_sub_batches res) d @ concat (map (copies_for opts ordered d) batch)"
  by (induction batch arbitrary: res) (simp_all add: route_event_sub)

lemma route_batch_sub:
  "sub_of (br_sub_batches (route_batch opts batch routes)) d =
     concat (map (copies_for opts (order_routes routes) d) batch)"
  by (simp add: route_batch_def route_fold_sub empty_routing_def)

lemma route_fold_tally:
  "tally (foldl (route_event opts ordered) res batch) =
     map2 (+) (tally res)
       [length (filter (\<lambda>e. fate opts ordered e = FRouted) batch),
        length (filter (\<lambda>e. fate opts ordered e = FDropped) batch),
        length (filter (\<lambda>e. \<exists>d. fate opts ordered e = FFallback d) batch),
        length (filter (\<lambda>e. fate opts ordered e = FUnrouted) batch),
        length (filter (\<lambda>e. fate opts ordered e = FLoopBlocked) batch)]"
proof (induction batch arbitrary: res)
  case Nil
  then show ?case by (simp add: tally_def)
next
  case (Cons e batch)
  show ?case unfolding foldl_Cons Cons.IH route_event_tally
    by (cases "fate opts ordered e") (simp_all add: tally_def fate_tally_def)
qed

lemma route_fold_lists:
  "br_unrouted_events (foldl (route_event opts ordered) res batch) =
     br_unrouted_events res @ filter (\<lambda>e. fate opts ordered e = FUnrouted) batch"
  "map fst (br_dropped_events (foldl (route_event opts ordered) res batch)) =
     map fst (br_dropped_events res) @ filter (\<lambda>e. fate opts ordered e = FDropped) batch"
  "map fst (br_loop_blocked_events (foldl (route_event opts ordered) res batch)) =
     map fst (br_loop_blocked_events res) @ filter (\<lambda>e. fate opts ordered e = FLoopBlocked) batch"
  by (induction batch arbitrary: res) (simp_all add: route_event_lists)

lemma fate_partition:
  "length batch =
     length (filter (\<lambda>e. fate opts ordered e = FRouted) batch) +
     length (filter (\<lambda>e. fate opts ordered e = FDropped) batch) +
     length (filter (\<lambda>e. \<exists>d. fate opts ordered e = FFallback d) batch) +
     length (filter (\<lambda>e. fate opts ordered e = FUnrouted) batch) +
     length (filter (\<lambda>e. fate opts ordered e = FLoopBlocked) batch) +
     length (filter (\<lambda>e. fate opts ordered e = FSampledOut) batch)"
proof (induction batch)
  case (Cons e batch)
  then show ?case by (cases "fate opts ordered e") simp_all
qed simp

lemma copies_for_at_most_one: "length (copies_for opts ordered d env) \<le> 1"
  by (simp add: copies_for_def split: option.splits)

lemma concat_map_filter: "\<forall>x\<in>set xs. \<not> P x \<longrightarrow> f x = [] \<Longrightarrow> concat (map f xs) = concat (map f (filter P xs))"
  by (induction xs) auto

end
