(* ===== verification/Routing_Guarantees.thy ===== *)
theory Routing_Guarantees
  imports Routing_Correct "HOL-Library.Multiset"
begin

text \<open>
  The guarantees of the routing engine: an event takes the routes its declarative description says,
  no event is lost, a destination gets at most one copy, a redacting route wins over a clear-text one
  and hides the masked value from the destination, the loop guard and the residency filter hold, a
  route that feeds detection delivers the event untouched, and the result does not depend on the
  order in which the routes are listed.
\<close>

section \<open>Auxiliary lemmas\<close>

lemma dropped_iff: "er_dropped (evaluate_event labels ordered) \<longleftrightarrow>
  (\<exists>r\<in>set (taken_routes labels ordered). r_action r = ''drop'')"
  by (auto simp: evaluate_event_eq routing_spec_def Let_def filter_empty_conv)

lemma routes_to_append: "routes_to d (as @ bs) = routes_to d as @ routes_to d bs"
  by (simp add: routes_to_def)

lemma routes_to_concat: "routes_to d (concat xss) = concat (map (routes_to d) xss)"
  by (induction xss) (simp_all add: routes_to_append)

lemma routes_to_pairs_of:
  "set (routes_to d (pairs_of r)) = (if d \<in> set (r_destination_ids r) then {r} else {})"
  by (auto simp: routes_to_def pairs_of_def image_iff)

lemma routes_to_assignments:
  "\<not> er_dropped (evaluate_event labels ordered) \<Longrightarrow>
   set (routes_to d (er_assignments (evaluate_event labels ordered))) =
     {r \<in> set (taken_routes labels ordered). d \<in> set (r_destination_ids r)}"
  by (auto simp: evaluate_event_eq routing_spec_def Let_def routes_to_concat routes_to_pairs_of
      split: if_splits)

text \<open>When a destination of a taken route is permitted, some route serves it.\<close>

lemma served_by:
  assumes "\<not> er_dropped (evaluate_event (event_labels env) ordered)"
    and "r \<in> set (taken_routes (event_labels env) ordered)" "d \<in> set (r_destination_ids r)"
    and "dest_permitted opts (event_labels env) d"
  obtains r' where "map_of (serving_routes opts ordered env) d = Some r'"
    "r' \<in> set (taken_routes (event_labels env) ordered)" "d \<in> set (r_destination_ids r')"
    "r_redaction r \<noteq> [] \<longrightarrow> r_redaction r' \<noteq> []"
proof -
  let ?rs = "routes_to d (er_assignments (evaluate_event (event_labels env) ordered))"
  have r: "r \<in> set ?rs" using assms(1-3) by (simp add: routes_to_assignments)
  then obtain r' where w: "winner ?rs = Some r'" by (cases "winner ?rs") auto
  show thesis
    using that [of r'] w winner_Some_in [OF w] winner_redacts [OF w r] assms(1,4)
    by (auto simp: serving_routes_map_of routes_to_assignments)
qed

lemma serving_route_taken:
  assumes "\<not> er_dropped (evaluate_event (event_labels env) ordered)"
    and "map_of (serving_routes opts ordered env) d = Some r"
  shows "r \<in> set (taken_routes (event_labels env) ordered)" "d \<in> set (r_destination_ids r)"
    "dest_permitted opts (event_labels env) d"
proof -
  let ?rs = "routes_to d (er_assignments (evaluate_event (event_labels env) ordered))"
  have w: "dest_permitted opts (event_labels env) d" "winner ?rs = Some r"
    using assms(2) by (auto simp: serving_routes_map_of split: if_splits)
  then show "r \<in> set (taken_routes (event_labels env) ordered)" "d \<in> set (r_destination_ids r)"
    "dest_permitted opts (event_labels env) d"
    using winner_Some_in [OF w(2)] assms(1) by (auto simp: routes_to_assignments)
qed

lemma serving_route_redacts:
  assumes "\<not> er_dropped (evaluate_event (event_labels env) ordered)"
    and "map_of (serving_routes opts ordered env) d = Some r'"
    and "r \<in> set (taken_routes (event_labels env) ordered)" "d \<in> set (r_destination_ids r)"
    and "r_redaction r \<noteq> []"
  shows "r_redaction r' \<noteq> []"
proof -
  let ?rs = "routes_to d (er_assignments (evaluate_event (event_labels env) ordered))"
  have "winner ?rs = Some r'" using assms(2) by (auto simp: serving_routes_map_of split: if_splits)
  moreover have "r \<in> set ?rs" using assms(1,3,4) by (simp add: routes_to_assignments)
  ultimately show ?thesis using assms(5) by (rule winner_redacts)
qed

lemma fate_routed_not_dropped:
  "fate opts ordered env = FRouted \<Longrightarrow> \<not> er_dropped (evaluate_event (event_labels env) ordered)"
  using fate_dropped [of opts ordered env] by simp

lemma copies_for_routed:
  assumes "copies_for opts ordered d env \<noteq> []" "fate opts ordered env \<noteq> FFallback d"
  obtains r where "fate opts ordered env = FRouted" "map_of (serving_routes opts ordered env) d = Some r"
    "\<not> sampled_out opts env r" "copies_for opts ordered d env = [delivered_copy opts r env]"
  using assms by (auto simp: copies_for_def split: if_splits option.splits)

lemma fate_fallback:
  "fate opts ordered env = FFallback d \<Longrightarrow>
   ro_fallback opts = Some d \<and> \<not> (source_is_wazuh (event_labels env) \<and> d \<in> set (ro_loop_ids opts))"
  by (auto simp: fate_def Let_def split: if_splits option.splits)

text \<open>The sort that fixes the evaluation order.\<close>

lemma order_routes_perm:
  assumes "mset rs1 = mset rs2" "distinct (map r_id rs1)"
  shows "order_routes rs1 = order_routes rs2"
proof -
  have "inj_on (\<lambda>r. (r_priority r, r_id r)) (set rs1)"
    using assms(2) by (auto simp: distinct_map inj_on_def)
  then have "sort_key (\<lambda>r. (r_priority r, r_id r)) rs1 = sort_key (\<lambda>r. (r_priority r, r_id r)) rs2"
    using assms(1) by (intro sort_key_inj_key_eq) simp_all
  then show ?thesis by (simp add: order_routes_def)
qed

text \<open>Noninterference of a delivered copy: an envelope that differs at a path outside \<open>_centralops\<close> has
  the same labels, hence the same routing.\<close>

lemma diff_at_map_of: "diff_at p d1 d2 \<Longrightarrow> k \<noteq> hd p \<Longrightarrow> map_of d1 k = map_of d2 k"
  by (cases p) (auto simp: update_conv')

lemma diff_at_labels: "diff_at p e1 e2 \<Longrightarrow> hd p \<noteq> ''_centralops'' \<Longrightarrow> event_labels e1 = event_labels e2"
  by (simp add: event_labels_def dget_def diff_at_map_of)

lemma same_labels_same_routing:
  assumes "event_labels e1 = event_labels e2"
  shows "serving_routes opts ordered e1 = serving_routes opts ordered e2"
    and "sampled_out opts e1 r = sampled_out opts e2 r"
    and "fate opts ordered e1 = fate opts ordered e2"
  using assms by (simp_all add: serving_routes_def sampled_out_def fate_def Let_def)

lemma without_raw_same:
  assumes "AList.delete m o1 = AList.delete m o2" "m \<noteq> ''raw''" "m \<noteq> ''_centralops''"
  shows "map_option (AList.delete m) (without_raw o1) = map_option (AList.delete m) (without_raw o2)"
proof -
  have g: "map_of o1 k = map_of o2 k" if "k \<noteq> m" for k
    using assms(1) that by (metis map_of_delete_other)
  have l: "event_labels (AList.delete ''raw'' o1) = event_labels (AList.delete ''raw'' o2)"
    using assms(3) by (simp add: event_labels_def dget_def delete_conv' g)
  have h: "dhas o1 ''raw'' = dhas o2 ''raw''" using assms(2) by (simp add: dhas_def g)
  show ?thesis using assms
    by (simp add: without_raw_def h l Let_def delete_update_other delete_twist)
       (simp add: delete_twist [of m "''raw''"])
qed

lemma diff_at_update:
  assumes "diff_at p e1 e2" "k \<noteq> hd p"
  shows "diff_at p (AList.update k v e1) (AList.update k v e2)"
proof -
  obtain a ks v1 v2 where e: "p = a # ks" "map_of e1 a = Some v1" "e2 = AList.update a v2 e1" "diff_entry ks v1 v2"
    using assms(1) by (cases p) auto
  then have "AList.update k v e2 = AList.update a v2 (AList.update k v e1)"
    using assms(2) by (simp add: update_commute_present [of a k] dhas_def)
  with e assms(2) show ?thesis by auto
qed

lemma diff_at_with_sample_rate:
  assumes "diff_at p e1 e2" "hd p \<noteq> ''_centralops''"
  shows "diff_at p (with_sample_rate e1 n) (with_sample_rate e2 n)"
  using diff_at_labels [OF assms] assms by (simp add: with_sample_rate_def diff_at_update)

definition masks :: "string list \<Rightarrow> compiled_route \<Rightarrow> bool" where
  "masks p r \<longleftrightarrow>
     list_ex (\<lambda>u. rr_path_parts u = p \<and> (rr_action u = ''mask'' \<or> rr_action u = ''drop_field'')) (r_redaction r)"

lemma delivered_copy_same:
  assumes differ: "diff_at p e1 e2" and p: "hd p \<noteq> ''_centralops''" and m: "masks p r"
  shows "AList.delete ''_centralops_redacted'' (delivered_copy opts r e1) =
         AList.delete ''_centralops_redacted'' (delivered_copy opts r e2)"
proof -
  let ?s = "\<lambda>e. if sample_decorated opts r then with_sample_rate e (r_sample_percent r) else e"
  obtain u where u: "u \<in> set (r_redaction r)" "rr_path_parts u = p"
      "rr_action u = ''mask'' \<or> rr_action u = ''drop_field''"
    using m by (auto simp: masks_def list_ex_iff)
  have "diff_at (rr_path_parts u) (?s e1) (?s e2)"
    using differ diff_at_with_sample_rate [OF differ p] u(2) by simp
  from apply_pii_redaction_same [OF this u(1,3)] obtain o1 o2 where
    o: "apply_pii_redaction (?s e1) (r_redaction r) = Some o1"
       "apply_pii_redaction (?s e2) (r_redaction r) = Some o2"
       "AList.delete ''_centralops_redacted'' o1 = AList.delete ''_centralops_redacted'' o2" by blast
  have "r_redaction r \<noteq> []" using u(1) by auto
  with o(1,2) have "redacted_copy opts r e1 = o1" "redacted_copy opts r e2 = o2"
    by (simp_all add: redacted_copy_def Let_def)
  with o(3) without_raw_same [OF o(3)] show ?thesis
    by (auto simp: delivered_copy_def Let_def split: option.splits)
qed

section \<open>Properties\<close>

text \<open>C33: the evaluation loop of one event computes the declarative routing: an event takes the enabled
  routes whose condition it satisfies and whose canary admits it, in order, up to and including the
  first drop or final one; it is dropped exactly when that prefix contains a drop (which is then its
  last element), and otherwise its destinations and assignments are those of the prefix.\<close>

theorem evaluate_event_refines: "evaluate_event labels ordered = routing_spec labels ordered"
  by (rule evaluate_event_eq)

text \<open>C4: no event is lost. Every event of a batch is counted exactly once as routed, dropped by a rule,
  sent to the fallback, unrouted, suppressed by the loop guard, or reduced by sampling on all of its
  destinations; and the events listed for the dead-letter queue, for the drop log and for the loop log
  are exactly those with that fate, in batch order.\<close>

theorem route_batch_zero_loss:
  fixes opts batch routes
  defines "res \<equiv> route_batch opts batch routes" and "f \<equiv> fate opts (order_routes routes)"
  shows "br_routed res + br_dropped res + br_fallback res + br_unrouted res + br_loop_blocked res +
           length (filter (\<lambda>e. f e = FSampledOut) batch) = length batch \<and>
         br_unrouted_events res = filter (\<lambda>e. f e = FUnrouted) batch \<and>
         map fst (br_dropped_events res) = filter (\<lambda>e. f e = FDropped) batch \<and>
         map fst (br_loop_blocked_events res) = filter (\<lambda>e. f e = FLoopBlocked) batch"
proof -
  have "tally res =
     [length (filter (\<lambda>e. f e = FRouted) batch), length (filter (\<lambda>e. f e = FDropped) batch),
      length (filter (\<lambda>e. \<exists>d. f e = FFallback d) batch), length (filter (\<lambda>e. f e = FUnrouted) batch),
      length (filter (\<lambda>e. f e = FLoopBlocked) batch)]"
    unfolding res_def f_def route_batch_def route_fold_tally by (simp add: tally_def empty_routing_def)
  then have "br_routed res + br_dropped res + br_fallback res + br_unrouted res + br_loop_blocked res +
           length (filter (\<lambda>e. f e = FSampledOut) batch) = length batch"
    using fate_partition [of batch opts "order_routes routes"] by (simp add: tally_def f_def)
  then show ?thesis
    by (simp add: res_def f_def route_batch_def route_fold_lists empty_routing_def)
qed

text \<open>C8: the sub-batch of a destination is, event by event and in batch order, the copy the routing of
  that event gives it, and that is at most one copy per event even when several routes, or one route
  twice, name the destination.\<close>

theorem route_batch_delivery:
  "sub_of (br_sub_batches (route_batch opts batch routes)) d =
     concat (map (copies_for opts (order_routes routes) d) batch) \<and>
   length (sub_of (br_sub_batches (route_batch opts [env] routes)) d) \<le> 1"
  using copies_for_at_most_one by (simp add: route_batch_sub)

text \<open>C3: a masked value does not reach the destination. Let two events differ only in a value that is not an
  object (a scalar or a list), at a path of the event body outside \<open>_centralops\<close>, let every route the event
  takes to a destination mask or drop that path, and let the destination not be the fallback. Then the
  destination receives the same copy of both, up to the marker \<open>_centralops_redacted\<close> that lists the rules
  that fired: routing, sampling, raw removal and the choice between routes depend on the value neither. The
  fallback is excluded because events without a route go there in clear.\<close>

theorem route_mask_noninterference:
  assumes differ: "diff_at p env1 env2" and body: "hd p \<noteq> ''_centralops''"
    and masked: "\<forall>r\<in>set (taken_routes (event_labels env1) (order_routes routes)).
                   d \<in> set (r_destination_ids r) \<longrightarrow> masks p r"
    and no_fallback: "ro_fallback opts \<noteq> Some d"
  shows "map (AList.delete ''_centralops_redacted'') (sub_of (br_sub_batches (route_batch opts [env1] routes)) d) =
         map (AList.delete ''_centralops_redacted'') (sub_of (br_sub_batches (route_batch opts [env2] routes)) d)"
proof -
  let ?o = "order_routes routes"
  have l: "event_labels env1 = event_labels env2" using diff_at_labels [OF differ body] .
  note same = same_labels_same_routing [OF l]
  have "fate opts ?o env2 \<noteq> FFallback d" using no_fallback fate_fallback by blast
  moreover have "masks p r" if "fate opts ?o env2 = FRouted" "map_of (serving_routes opts ?o env2) d = Some r" for r
    using serving_route_taken [OF fate_routed_not_dropped [OF that(1)] that(2)] masked l by simp
  ultimately show ?thesis
    using delivered_copy_same [OF differ body]
    by (simp add: route_batch_sub copies_for_def same split: option.splits)
qed

text \<open>C9: a redacting route wins. If some route an event takes to a destination that is not the fallback redacts,
  then whatever the destination is sent of the event went through a redacting route that the event takes to it.
  (As the fallback it may be sent the event in clear, when no route serves the event.)\<close>

theorem route_redaction_wins:
  assumes "r \<in> set (taken_routes (event_labels env) (order_routes routes))"
    and "d \<in> set (r_destination_ids r)" and "r_redaction r \<noteq> []" and "ro_fallback opts \<noteq> Some d"
    and sent: "x \<in> set (sub_of (br_sub_batches (route_batch opts [env] routes)) d)"
  shows "\<exists>r'\<in>set (taken_routes (event_labels env) (order_routes routes)).
           d \<in> set (r_destination_ids r') \<and> r_redaction r' \<noteq> [] \<and> x = delivered_copy opts r' env"
proof -
  let ?o = "order_routes routes"
  have ff: "fate opts ?o env \<noteq> FFallback d" using assms(4) fate_fallback by blast
  have x: "x \<in> set (copies_for opts ?o d env)" using sent by (simp add: route_batch_sub)
  then have "copies_for opts ?o d env \<noteq> []" by auto
  then obtain r' where r': "fate opts ?o env = FRouted" "map_of (serving_routes opts ?o env) d = Some r'"
      "copies_for opts ?o d env = [delivered_copy opts r' env]"
    by (rule copies_for_routed [OF _ ff])
  note nd = fate_routed_not_dropped [OF r'(1)]
  from serving_route_redacts [OF nd r'(2) assms(1-3)] serving_route_taken [OF nd r'(2)] x r'(3)
  show ?thesis by auto
qed

text \<open>C28: the loop guard. A destination that delivers back to the Wazuh manager receives from a batch
  exactly what it would receive had the events collected from Wazuh not been there, whatever the
  routes and even when it is the configured fallback.\<close>

theorem route_loop_guard:
  assumes "d \<in> set (ro_loop_ids opts)"
  shows "sub_of (br_sub_batches (route_batch opts batch routes)) d =
         sub_of (br_sub_batches (route_batch opts (filter (\<lambda>e. \<not> source_is_wazuh (event_labels e)) batch) routes)) d"
proof -
  let ?o = "order_routes routes"
  have "copies_for opts ?o d e = []" if w: "source_is_wazuh (event_labels e)" for e
  proof (rule ccontr)
    assume c: "copies_for opts ?o d e \<noteq> []"
    have "fate opts ?o e \<noteq> FFallback d" using fate_fallback w assms by blast
    from copies_for_routed [OF c this] obtain r where
      "fate opts ?o e = FRouted" "map_of (serving_routes opts ?o e) d = Some r" .
    then have "dest_permitted opts (event_labels e) d"
      using serving_route_taken(3) fate_routed_not_dropped by blast
    with w assms show False by (simp add: dest_permitted_def)
  qed
  then show ?thesis unfolding route_batch_sub by (intro concat_map_filter) blast
qed

text \<open>An event whose geography conflicts with a destination has no copy there, and the residency of destinations is
  without effect on an event that has no geography.\<close>

lemma copies_for_residency:
  assumes "residency_blocks opts (event_labels e) d" and "ro_fallback opts \<noteq> Some d"
  shows "copies_for opts rs d e = []"
proof (rule ccontr)
  assume c: "copies_for opts rs d e \<noteq> []"
  have "fate opts rs e \<noteq> FFallback d" using fate_fallback assms(2) by blast
  from copies_for_routed [OF c this] obtain r where
    "fate opts rs e = FRouted" "map_of (serving_routes opts rs e) d = Some r" .
  then have "dest_permitted opts (event_labels e) d"
    using serving_route_taken(3) fate_routed_not_dropped by blast
  with assms(1) show False by (simp add: dest_permitted_def)
qed

lemma copies_for_no_geography:
  assumes "event_geography (event_labels e) = None"
  shows "copies_for (opts\<lparr>ro_residency := r\<rparr>) rs d e = copies_for opts rs d e"
proof -
  have "\<not> residency_blocks o1 (event_labels e) x" for o1 x
    using assms by (simp add: residency_blocks_def residency_conflict_def split: option.splits)
  then have serving: "serving_routes (opts\<lparr>ro_residency := r\<rparr>) rs e = serving_routes opts rs e"
    by (simp add: serving_routes_def dest_permitted_def)
  have sampled: "sampled_out (opts\<lparr>ro_residency := r\<rparr>) = sampled_out opts"
    by (simp add: fun_eq_iff sampled_out_def)
  have copy: "delivered_copy (opts\<lparr>ro_residency := r\<rparr>) = delivered_copy opts"
    by (simp add: fun_eq_iff delivered_copy_def redacted_copy_def sample_decorated_def)
  have "fate (opts\<lparr>ro_residency := r\<rparr>) rs e = fate opts rs e"
    by (cases "ro_fallback opts") (simp_all add: fate_def serving sampled Let_def)
  then show ?thesis by (cases "map_of (serving_routes opts rs e) d") (simp_all add: copies_for_def serving sampled copy)
qed

text \<open>C30: residency. A destination that is not the fallback receives from a batch exactly what it would
  receive had the events whose geography conflicts with its declared residency not been there.\<close>

theorem route_residency:
  assumes "ro_fallback opts \<noteq> Some d"
  shows "sub_of (br_sub_batches (route_batch opts batch routes)) d =
         sub_of (br_sub_batches (route_batch opts (filter (\<lambda>e. \<not> residency_blocks opts (event_labels e) d) batch) routes)) d"
  using copies_for_residency [OF _ assms] unfolding route_batch_sub by (intro concat_map_filter) blast

text \<open>the detection fail-safe. While the fail-safe is enforced, an event that is not dropped and takes
  a route to a permitted destination through routes that all feed detection and do not redact arrives
  there exactly as it came, whatever sampling and raw-drop settings those routes carry.\<close>

theorem route_detection_failsafe:
  assumes nd: "\<forall>r\<in>set (taken_routes (event_labels env) (order_routes routes)). r_action r \<noteq> ''drop''"
    and r: "r \<in> set (taken_routes (event_labels env) (order_routes routes))" "d \<in> set (r_destination_ids r)"
    and permitted: "dest_permitted opts (event_labels env) d"
    and feeds: "\<forall>r\<in>set (taken_routes (event_labels env) (order_routes routes)).
                  d \<in> set (r_destination_ids r) \<longrightarrow> r_protect_detection r \<and> r_redaction r = []"
    and enforced: "\<forall>sc. ro_sampling opts = Some sc \<longrightarrow> sc_protect_detection_enforced sc"
  shows "sub_of (br_sub_batches (route_batch opts [env] routes)) d = [env]"
proof -
  let ?o = "order_routes routes"
  have nd': "\<not> er_dropped (evaluate_event (event_labels env) ?o)" using nd by (auto simp: dropped_iff)
  obtain r' where r': "map_of (serving_routes opts ?o env) d = Some r'"
     "r' \<in> set (taken_routes (event_labels env) ?o)" "d \<in> set (r_destination_ids r')"
    using served_by [OF nd' r permitted] by metis
  with feeds have p: "r_protect_detection r'" "r_redaction r' = []" by auto
  have keep: "\<not> sampled_out opts env r'" "delivered_copy opts r' env = env"
    using p enforced
    by (auto simp: sampled_out_def should_sample_out_def delivered_copy_def redacted_copy_def
        sample_decorated_def Let_def split: option.splits)
  have ne: "serving_routes opts ?o env \<noteq> []" using r'(1) by auto
  have "(d, r') \<in> set (serving_routes opts ?o env)" using r'(1) by (rule map_of_SomeD)
  with keep(1) have "fate opts ?o env = FRouted"
    by (auto simp: fate_served [OF nd' ne] list_ex_iff intro: bexI [of _ "(d, r')"])
  with r'(1) keep show ?thesis by (simp add: route_batch_sub copies_for_def)
qed

text \<open>the result of routing does not depend on the order in which the routes are listed.\<close>

theorem route_batch_order_irrelevant:
  assumes "mset routes1 = mset routes2" and "distinct (map r_id routes1)"
  shows "route_batch opts batch routes1 = route_batch opts batch routes2"
  by (simp add: route_batch_def order_routes_perm [OF assms])

subsection \<open>Witnesses\<close>

text \<open>A SIEM route that masks \<open>raw.user.email\<close>, a lake route that does not, and events of two sources.\<close>

definition ex_siem :: compiled_route where
  "ex_siem = \<lparr>r_id = ''r1'', r_name = ''siem'', r_priority = 1, r_condition = [(''vendor'', PStr ''acme'')],
     r_action = ''route'', r_destination_ids = [''siem''], r_is_final = False, r_enabled = True,
     r_canary_percent = 100, r_protect_detection = True, r_sample_percent = 100, r_suppress_key = None,
     r_suppress_allow = 0, r_suppress_window_s = 30, r_redaction = [ex_mask_rule], r_drop_raw = False\<rparr>"

definition ex_lake :: compiled_route where
  "ex_lake = \<lparr>r_id = ''r2'', r_name = ''lake'', r_priority = 2, r_condition = [],
     r_action = ''route'', r_destination_ids = [''lake''], r_is_final = True, r_enabled = True,
     r_canary_percent = 100, r_protect_detection = True, r_sample_percent = 10, r_suppress_key = None,
     r_suppress_allow = 0, r_suppress_window_s = 30, r_redaction = [], r_drop_raw = True\<rparr>"

definition ex_opts :: "string option \<Rightarrow> route_opts" where
  "ex_opts fb = \<lparr>ro_fallback = fb, ro_residency = [(''siem'', Some ''EU''), (''lake'', None)],
     ro_loop_ids = [''siem''],
     ro_sampling = Some \<lparr>sc_enabled = True, sc_protect_detection_enforced = True\<rparr>,
     ro_measure_drop_bytes = False, ro_nbytes = (\<lambda>_. 0)\<rparr>"

definition ex_event :: "string \<Rightarrow> string \<Rightarrow> string \<Rightarrow> pydict" where
  "ex_event plat geo mail =
     [(''_centralops'', PDict [(''event_id'', PStr ''e1''), (''vendor'', PStr ''acme''),
                             (''platform'', PStr plat), (''data_geography'', PStr geo)]),
      (''raw'', PDict [(''user'', PDict [(''email'', PStr mail)])])]"

lemma ex_labels:
  "event_labels (ex_event plat geo mail) =
     [(''event_id'', PStr ''e1''), (''vendor'', PStr ''acme''), (''platform'', PStr plat), (''data_geography'', PStr geo)]"
  by (simp add: event_labels_def ex_event_def dget_def as_dict_def)

lemma ex_ordered: "order_routes [ex_siem, ex_lake] = [ex_siem, ex_lake]"
  by (simp add: order_routes_def ex_siem_def ex_lake_def)

lemma ex_taken: "taken_routes (event_labels (ex_event plat geo mail)) [ex_siem, ex_lake] = [ex_siem, ex_lake]"
  by (simp add: taken_routes_def route_applies_def route_stops_def ex_labels ex_siem_def ex_lake_def
      matches_def match_clause_def compare_values_def canonical_field_def field_aliases_def dget_def
      canary_pass_def)

lemma ex_differ: "diff_at [''raw'', ''user'', ''email''] (ex_event pl g m1) (ex_event pl g m2)"
  by (simp add: ex_event_def)

theorem route_mask_noninterference_witness:
  "map (AList.delete ''_centralops_redacted'')
     (sub_of (br_sub_batches (route_batch (ex_opts None) [ex_event ''p'' ''EU'' ''a@b''] [ex_siem, ex_lake])) ''siem'') =
   map (AList.delete ''_centralops_redacted'')
     (sub_of (br_sub_batches (route_batch (ex_opts None) [ex_event ''p'' ''EU'' ''zz''] [ex_siem, ex_lake])) ''siem'')"
proof (rule route_mask_noninterference [OF ex_differ])
  show "\<forall>r\<in>set (taken_routes (event_labels (ex_event ''p'' ''EU'' ''a@b'')) (order_routes [ex_siem, ex_lake])).
          ''siem'' \<in> set (r_destination_ids r) \<longrightarrow> masks [''raw'', ''user'', ''email''] r"
    unfolding ex_ordered ex_taken by (simp add: masks_def ex_siem_def ex_lake_def ex_mask_rule_def)
qed (simp_all add: ex_opts_def)

lemma ex_siem_copy:
  "copies_for (ex_opts None) [ex_siem, ex_lake] ''siem'' (ex_event ''p'' ''EU'' ''a@b'') =
     [delivered_copy (ex_opts None) ex_siem (ex_event ''p'' ''EU'' ''a@b'')]"
proof -
  let ?e = "ex_event ''p'' ''EU'' ''a@b''"
  have sr: "serving_routes (ex_opts None) [ex_siem, ex_lake] ?e = [(''siem'', ex_siem), (''lake'', ex_lake)]"
    unfolding serving_routes_def evaluate_event_eq routing_spec_def Let_def ex_taken
    by (simp add: pairs_of_def ex_siem_def ex_lake_def dest_permitted_def ex_labels source_is_wazuh_def
        residency_blocks_def residency_conflict_def dest_residency_def event_geography_def ex_opts_def
        dget_def lower_def upper_def lower_char_def)
  have so: "sampled_out (ex_opts None) ?e ex_siem = False"
    by (simp add: sampled_out_def should_sample_out_def ex_siem_def ex_opts_def)
  have nd: "\<not> er_dropped (evaluate_event (event_labels ?e) [ex_siem, ex_lake])"
    unfolding dropped_iff ex_taken by (simp add: ex_siem_def ex_lake_def)
  show ?thesis using sr so by (simp add: copies_for_def fate_served [OF nd])
qed

theorem route_redaction_wins_witness:
  "\<exists>r'\<in>set (taken_routes (event_labels (ex_event ''p'' ''EU'' ''a@b'')) (order_routes [ex_siem, ex_lake])).
     ''siem'' \<in> set (r_destination_ids r') \<and> r_redaction r' \<noteq> [] \<and>
     delivered_copy (ex_opts None) ex_siem (ex_event ''p'' ''EU'' ''a@b'') =
       delivered_copy (ex_opts None) r' (ex_event ''p'' ''EU'' ''a@b'')"
proof (rule route_redaction_wins [of ex_siem])
  show "ex_siem \<in> set (taken_routes (event_labels (ex_event ''p'' ''EU'' ''a@b'')) (order_routes [ex_siem, ex_lake]))"
    unfolding ex_ordered ex_taken by simp
  show "delivered_copy (ex_opts None) ex_siem (ex_event ''p'' ''EU'' ''a@b'')
      \<in> set (sub_of (br_sub_batches (route_batch (ex_opts None) [ex_event ''p'' ''EU'' ''a@b''] [ex_siem, ex_lake])) ''siem'')"
    by (simp add: route_batch_sub ex_ordered ex_siem_copy)
qed (simp_all add: ex_siem_def ex_opts_def)

theorem route_loop_guard_witness:
  "sub_of (br_sub_batches (route_batch (ex_opts (Some ''siem'')) [ex_event ''wazuh'' ''EU'' ''a@b''] [])) ''siem'' = []"
  using route_loop_guard [of "''siem''" "ex_opts (Some ''siem'')" "[ex_event ''wazuh'' ''EU'' ''a@b'']" "[]"]
  by (simp add: ex_opts_def ex_labels source_is_wazuh_def dget_def route_batch_sub)

theorem route_residency_witness:
  "sub_of (br_sub_batches (route_batch (ex_opts None) [ex_event ''p'' ''US'' ''a@b''] [ex_siem, ex_lake])) ''siem'' = []"
  using route_residency [of "ex_opts None" "''siem''" "[ex_event ''p'' ''US'' ''a@b'']" "[ex_siem, ex_lake]"]
  by (simp add: ex_opts_def ex_labels residency_blocks_def residency_conflict_def dest_residency_def
      event_geography_def dget_def lower_def upper_def lower_char_def upper_char_def route_batch_sub)

theorem route_detection_failsafe_witness:
  "sub_of (br_sub_batches (route_batch (ex_opts None) [ex_event ''p'' ''US'' ''a@b''] [ex_siem, ex_lake])) ''lake'' =
     [ex_event ''p'' ''US'' ''a@b'']"
proof (rule route_detection_failsafe [of _ _ ex_lake])
  show "ex_lake \<in> set (taken_routes (event_labels (ex_event ''p'' ''US'' ''a@b'')) (order_routes [ex_siem, ex_lake]))"
    unfolding ex_ordered ex_taken by simp
  show "dest_permitted (ex_opts None) (event_labels (ex_event ''p'' ''US'' ''a@b'')) ''lake''"
    by (simp add: dest_permitted_def residency_blocks_def residency_conflict_def dest_residency_def ex_opts_def)
qed (unfold ex_ordered ex_taken, simp_all add: ex_siem_def ex_lake_def ex_opts_def)

theorem route_batch_order_irrelevant_witness:
  "route_batch (ex_opts None) [ex_event ''p'' ''US'' ''a@b''] [ex_siem, ex_lake] =
   route_batch (ex_opts None) [ex_event ''p'' ''US'' ''a@b''] [ex_lake, ex_siem]"
  by (rule route_batch_order_irrelevant) (simp_all add: ex_siem_def ex_lake_def)

text \<open>the residency filter does not cover the fallback. An event from the United States whose only
  route leads to a destination bound to the European Union is blocked there, counted as blocked, and
  then delivered to that same destination when it is the configured fallback.\<close>

theorem route_residency_fallback_leak:
  defines "res \<equiv> route_batch (ex_opts (Some ''siem'')) [ex_event ''p'' ''US'' ''a@b''] [ex_siem]"
  shows "residency_blocks (ex_opts (Some ''siem'')) (event_labels (ex_event ''p'' ''US'' ''a@b'')) ''siem'' \<and>
         br_residency_blocked res = 1 \<and> sub_of (br_sub_batches res) ''siem'' = [ex_event ''p'' ''US'' ''a@b'']"
  by (simp add: res_def route_batch_def order_routes_def empty_routing_def route_event_def evaluate_event_def
      ex_labels ex_opts_def ex_siem_def residency_blocks_def residency_conflict_def dest_residency_def
      event_geography_def dget_def lower_def upper_def lower_char_def upper_char_def matches_def
      match_clause_def compare_values_def canonical_field_def field_aliases_def canary_pass_def
      route_assigned_def loop_filtered_def no_destination_def source_is_wazuh_def sub_of_def sub_append_def)

end
