(* ===== verification/Quarantine.thy ===== *)
theory Quarantine
  imports Py_Json Event_Envelope Mapping_Engine Ocsf_Gate Routing_Guarantees
begin

text \<open>
  The quarantine of events that cannot be delivered (\<open>collectors/quarantine.py\<close>): the text that is stored, the row, the
  budget of writes of a cycle (\<open>_make_quarantine_budget\<close> of \<open>pipeline.py\<close>) and the second attempt
  (\<open>attempt_reprocess\<close> of \<open>normalize/reprocess.py\<close>). The ellipsis, which lies outside the modelled characters, is
  the parameter \<open>ell\<close>. Every modelled value can be serialised, so the branch for one that cannot has no counterpart.
\<close>

section \<open>The stored payload\<close>

definition reduction_passes :: "(nat \<times> nat) list" where
  "reduction_passes = [(8192, 200), (2048, 50), (512, 20), (256, 5)]"

fun reduce_structure :: "string \<Rightarrow> nat \<Rightarrow> nat \<Rightarrow> pyval \<Rightarrow> pyval"
  and reduce_list :: "string \<Rightarrow> nat \<Rightarrow> nat \<Rightarrow> nat \<Rightarrow> pyval list \<Rightarrow> pyval list"
  and reduce_dict :: "string \<Rightarrow> nat \<Rightarrow> nat \<Rightarrow> pydict \<Rightarrow> pydict"
where
  "reduce_structure ell sc ac (PStr s) =
     (if length s > sc then PStr (take sc s @ ell @ ''[+'' @ nat_str (length s - sc) @ '' chars]'') else PStr s)"
| "reduce_structure ell sc ac (PList xs) =
     PList (reduce_list ell sc ac ac xs @
       (if length xs > ac then [PStr (ell @ ''[+'' @ nat_str (length xs - ac) @ '' items truncados]'')] else []))"
| "reduce_structure ell sc ac (PDict d) = PDict (reduce_dict ell sc ac d)"
| "reduce_structure ell sc ac v = v"
| "reduce_list ell sc ac n [] = []"
| "reduce_list ell sc ac n (x # xs) =
     (case n of 0 \<Rightarrow> [] | Suc m \<Rightarrow> reduce_structure ell sc ac x # reduce_list ell sc ac m xs)"
| "reduce_dict ell sc ac [] = []"
| "reduce_dict ell sc ac ((k, v) # d) = (k, reduce_structure ell sc ac v) # reduce_dict ell sc ac d"

text \<open>\<open>{"_truncated": True, **d}\<close> and the like: later keys overwrite.\<close>

definition spread :: "pydict \<Rightarrow> pydict \<Rightarrow> pydict" where
  "spread base d = foldl (\<lambda>m (k, v). AList.update k v m) base d"

definition small_scalar :: "pyval \<Rightarrow> bool" where
  "small_scalar v = (case v of PStr s \<Rightarrow> length s \<le> 512 | PList _ \<Rightarrow> False | PDict _ \<Rightarrow> False | _ \<Rightarrow> True)"

definition first_fit :: "nat \<Rightarrow> pyval list \<Rightarrow> pyval option" where
  "first_fit limit vs = List.find (\<lambda>v. length (json_compact v) \<le> limit) vs"

definition reduced_candidates :: "string \<Rightarrow> pydict \<Rightarrow> pyval list" where
  "reduced_candidates ell raw =
     map (\<lambda>(sc, ac). PDict (spread [(''_truncated'', PBool True)] (reduce_dict ell sc ac raw))) reduction_passes @
     [PDict (spread [(''_truncated'', PBool True), (''_reduced'', PStr ''scalars_only'')] (filter (small_scalar \<circ> snd) raw))]"

definition oversized_marker :: pyval where
  "oversized_marker = PDict [(''_truncated'', PBool True), (''_reduced'', PStr ''oversized'')]"

definition stored_value :: "string \<Rightarrow> nat \<Rightarrow> pydict \<Rightarrow> pyval" where
  "stored_value ell limit raw =
     (if length (json_compact (PDict raw)) \<le> limit then PDict raw
      else case first_fit limit (reduced_candidates ell raw) of None \<Rightarrow> oversized_marker | Some v \<Rightarrow> v)"

definition serialize_raw :: "string \<Rightarrow> nat \<Rightarrow> pydict \<Rightarrow> string" where
  "serialize_raw ell limit raw = json_compact (stored_value ell limit raw)"

section \<open>Writing a row\<close>

record quarantine_row =
  qr_organization_id :: "int option"
  qr_integration_id :: "int option"
  qr_vendor :: string
  qr_event_type :: "string option"
  qr_raw_payload :: string
  qr_error_kind :: string
  qr_error_detail :: "string option"
  qr_mapping_version_id :: "string option"
  qr_expires_at :: int
  qr_reprocessed_at :: "int option"

record quarantine_args =
  qa_integration_id :: "int option"
  qa_vendor :: string
  qa_event_type :: "string option"
  qa_raw :: pydict
  qa_error_kind :: string
  qa_error_detail :: "string option"
  qa_mapping_version_id :: "string option"
  qa_organization_id :: "int option"

definition clip_detail :: "string option \<Rightarrow> string option" where
  "clip_detail d = (case d of None \<Rightarrow> None | Some s \<Rightarrow> if take 2000 s = [] then None else Some (take 2000 s))"

text \<open>The organisation of the integration as the table has it; \<open>ok\<close> is False when the database raised. Retention is
  seven days.\<close>

definition send_to_quarantine ::
    "string \<Rightarrow> nat \<Rightarrow> int \<Rightarrow> (int \<Rightarrow> int option) \<Rightarrow> bool \<Rightarrow> quarantine_args \<Rightarrow> quarantine_row list \<Rightarrow> bool \<times> quarantine_row list" where
  "send_to_quarantine ell limit now org_of ok a rows =
     (let payload = serialize_raw ell limit (qa_raw a);
          org = (case qa_organization_id a of
                   Some i \<Rightarrow> Some i
                 | None \<Rightarrow> (case qa_integration_id a of None \<Rightarrow> None | Some i \<Rightarrow> org_of i)) in
      if \<not> ok then (False, rows)
      else (True, rows @ [\<lparr>qr_organization_id = org, qr_integration_id = qa_integration_id a, qr_vendor = qa_vendor a,
              qr_event_type = qa_event_type a, qr_raw_payload = payload, qr_error_kind = qa_error_kind a,
              qr_error_detail = clip_detail (qa_error_detail a), qr_mapping_version_id = qa_mapping_version_id a,
              qr_expires_at = now + 7 * 86400, qr_reprocessed_at = None\<rparr>]))"

section \<open>The budget of writes\<close>

type_synonym quarantine_budget = "(string \<times> nat) list"

definition writes_of :: "quarantine_budget \<Rightarrow> string \<Rightarrow> nat" where
  "writes_of w k = (case map_of w k of None \<Rightarrow> 0 | Some n \<Rightarrow> n)"

definition budget_ok :: "string \<Rightarrow> nat \<Rightarrow> quarantine_budget \<Rightarrow> bool \<times> quarantine_budget" where
  "budget_ok kind cap w =
     (let n = writes_of w kind in
      if n \<ge> cap then (False, if n = cap then AList.update kind (n + 1) w else w)
      else (True, AList.update kind (n + 1) w))"

section \<open>The second attempt\<close>

record mapping_store =
  mb_definition :: "string \<Rightarrow> string \<Rightarrow> string option option"
  mb_version :: "string \<Rightarrow> (string \<times> int option) option"

text \<open>\<open>getattr(version, "dsl_version", 1) or 1\<close>.\<close>

definition dsl_or_1 :: "int option \<Rightarrow> int" where
  "dsl_or_1 d = (case d of None \<Rightarrow> 1 | Some i \<Rightarrow> if i = 0 then 1 else i)"

text \<open>\<open>_load_current_mapping\<close> of the pipeline.\<close>

definition load_current_mapping :: "(string \<Rightarrow> pyval) \<Rightarrow> mapping_store \<Rightarrow> string \<Rightarrow> string \<Rightarrow> (string \<times> pyval \<times> int) option" where
  "load_current_mapping cf ms vendor event_type =
     (case mb_definition ms vendor event_type of
        Some (Some (c # vid)) \<Rightarrow>
          (case mb_version ms (c # vid) of
             None \<Rightarrow> None
           | Some (text, dsl) \<Rightarrow> map_option (\<lambda>rules. (c # vid, rules, dsl_or_1 dsl)) (json_loads cf text))
      | _ \<Rightarrow> None)"

text \<open>The texts of the errors are the parameter \<open>pe_message\<close> of the situation.\<close>

record reprocess_env =
  pe_menv :: menv
  pe_float :: "string \<Rightarrow> pyval"
  pe_store :: mapping_store
  pe_cache_size :: nat
  pe_slug :: "int \<Rightarrow> string option"
  pe_host :: string
  pe_now_ms :: int
  pe_now_iso :: string
  pe_message :: "string \<Rightarrow> string"

datatype reprocess_result =
    Reprocessed pydict string
  | Refused string string "string option"

definition last_segment :: "string \<Rightarrow> string" where
  "last_segment s = List.last (split_on (CHR ''.'') s)"

definition reprocess_context :: "reprocess_env \<Rightarrow> string \<Rightarrow> string \<Rightarrow> int \<Rightarrow> int \<Rightarrow> string \<Rightarrow> envelope_context" where
  "reprocess_context env vendor event_type integration_id org version =
     \<lparr>xc_vendor = vendor, xc_integration_id = Some integration_id, xc_customer_id = Some org, xc_stream = last_segment event_type,
      xc_event_type = event_type, xc_mapping_version_id = Some version, xc_customer_name = None, xc_collector_host = pe_host env,
      xc_platform = None, xc_organization_id = Some org, xc_organization_slug = pe_slug env org, xc_data_geography = None\<rparr>"

definition degraded :: "string list \<Rightarrow> pydict \<Rightarrow> pydict" where
  "degraded ts envelope =
     (if ts = [] then envelope else label_event ''degraded_fields'' (PList (map PStr ts)) envelope)"

definition raw_or :: "pydict option \<Rightarrow> pydict \<Rightarrow> pydict" where
  "raw_or reduced raw = (case reduced of None \<Rightarrow> raw | Some d \<Rightarrow> if d = [] then raw else d)"

definition reprocess_apply ::
    "reprocess_env \<Rightarrow> string \<Rightarrow> string \<Rightarrow> int \<Rightarrow> int \<Rightarrow> string \<Rightarrow> pyval \<Rightarrow> int \<Rightarrow> pydict \<Rightarrow> mapping_cache \<Rightarrow>
     reprocess_result option \<times> mapping_cache" where
  "reprocess_apply env vendor event_type integration_id org version rules dsl raw cache =
     (case engine_apply (pe_menv env) (pe_cache_size env) version rules raw dsl (Some (pe_now_ms env)) cache of
        (Inl _, cache') \<Rightarrow> (Some (Refused ''map'' (pe_message env ''mapping_error'') (Some version)), cache')
      | (Inr (Inl (EscapeErr _)), cache') \<Rightarrow> (None, cache')
      | (Inr (Inl _), cache') \<Rightarrow> (Some (Refused ''map'' (pe_message env ''mapping_error'') (Some version)), cache')
      | (Inr (Inr ap), cache') \<Rightarrow>
          (let envelope = degraded (ap_ingest_fallback ap)
                 (build_envelope (raw_or (ap_reduced_raw ap) raw) (ap_output ap)
                    (reprocess_context env vendor event_type integration_id org version) None (pe_now_iso env)) in
           (Some (if has_customer_id envelope then Reprocessed envelope version else Refused ''missing_customer_id'' (pe_message env ''no_customer'') (Some version)),
            cache')))"

text \<open>\<open>attempt_reprocess\<close>; \<open>None\<close> is an exception it lets through. The writer only stores objects; another JSON value is
  outside the model and also \<open>None\<close>.\<close>

definition attempt_reprocess ::
    "reprocess_env \<Rightarrow> string \<Rightarrow> string \<Rightarrow> string option \<Rightarrow> int \<Rightarrow> int \<Rightarrow> mapping_cache \<Rightarrow> reprocess_result option \<times> mapping_cache" where
  "attempt_reprocess env payload vendor event_type integration_id org cache =
     (case json_loads (pe_float env) payload of
        None \<Rightarrow> (Some (Refused ''parse'' (pe_message env ''not_json'') None), cache)
      | Some (PDict raw) \<Rightarrow>
          if dget raw ''_truncated'' = PBool True then (Some (Refused ''map'' (pe_message env ''truncated'') None), cache)
          else (case event_type of
                  Some (c # et) \<Rightarrow>
                    (case mb_definition (pe_store env) vendor (c # et) of
                       Some (Some (v # vid)) \<Rightarrow>
                         (case mb_version (pe_store env) (v # vid) of
                            None \<Rightarrow> (Some (Refused ''missing_mapping'' (pe_message env ''no_version'') (Some (v # vid))), cache)
                          | Some (text, dsl) \<Rightarrow>
                              (case json_loads (pe_float env) text of
                                 None \<Rightarrow> (Some (Refused ''map'' (pe_message env ''rules_not_json'') (Some (v # vid))), cache)
                               | Some rules \<Rightarrow>
                                   reprocess_apply env vendor (c # et) integration_id org (v # vid) rules (dsl_or_1 dsl) raw cache))
                     | _ \<Rightarrow> (Some (Refused ''missing_mapping'' (pe_message env ''no_mapping'') None), cache))
                | _ \<Rightarrow> (Some (Refused ''missing_mapping'' (pe_message env ''no_event_type'') None), cache))
      | Some _ \<Rightarrow> (None, cache))"

text \<open>The task on one row: what becomes of the row and the events it enqueues. \<open>enqueued\<close> is False when the broker raised; the
  mark is only set after a successful enqueue.\<close>

definition mark_failed :: "reprocess_result \<Rightarrow> quarantine_row \<Rightarrow> quarantine_row" where
  "mark_failed r row =
     (case r of
        Reprocessed _ _ \<Rightarrow> row
      | Refused kind detail version \<Rightarrow>
          row\<lparr>qr_error_kind := kind, qr_error_detail := Some detail,
              qr_mapping_version_id := (case version of Some (c # v) \<Rightarrow> Some (c # v) | _ \<Rightarrow> qr_mapping_version_id row)\<rparr>)"

definition reprocess_row ::
    "reprocess_env \<Rightarrow> int \<Rightarrow> (int \<Rightarrow> int option) \<Rightarrow> bool \<Rightarrow> quarantine_row \<Rightarrow> mapping_cache \<Rightarrow>
     quarantine_row \<times> pydict list \<times> mapping_cache" where
  "reprocess_row env now org_of enqueued row cache =
     (if qr_reprocessed_at row \<noteq> None \<or> qr_expires_at row < now then (row, [], cache)
      else case (case qr_integration_id row of None \<Rightarrow> None | Some i \<Rightarrow> org_of i) of
             None \<Rightarrow> (row\<lparr>qr_error_kind := ''missing_customer_id'', qr_error_detail := Some (pe_message env ''no_integration'')\<rparr>, [], cache)
           | Some org \<Rightarrow>
               (case attempt_reprocess env (qr_raw_payload row) (qr_vendor row) (qr_event_type row)
                       (case qr_integration_id row of None \<Rightarrow> 0 | Some i \<Rightarrow> i) org cache of
                  (None, cache') \<Rightarrow> (row, [], cache')
                | (Some (Refused k d v), cache') \<Rightarrow> (mark_failed (Refused k d v) row, [], cache')
                | (Some (Reprocessed envelope version), cache') \<Rightarrow>
                    if \<not> enqueued then (row, [], cache')
                    else (row\<lparr>qr_reprocessed_at := Some now,
                            qr_mapping_version_id := (if version = [] then qr_mapping_version_id row else Some version)\<rparr>, [envelope], cache')))"

section \<open>The budget is one per reason\<close>

fun budget_run :: "(string \<Rightarrow> nat) \<Rightarrow> string list \<Rightarrow> quarantine_budget \<Rightarrow> string list" where
  "budget_run cap [] w = []"
| "budget_run cap (k # ks) w =
     (case budget_ok k (cap k) w of (ok, w') \<Rightarrow> (if ok then [k] else []) @ budget_run cap ks w')"

lemma writes_of_update [simp]: "writes_of (AList.update k n w) k' = (if k' = k then n else writes_of w k')"
  by (simp add: writes_of_def update_conv')

lemma budget_run_count:
  "length (filter ((=) k) (budget_run cap ks w)) = min (cap k - writes_of w k) (length (filter ((=) k) ks))"
proof (induction ks arbitrary: w)
  case (Cons k' ks)
  show ?case using Cons.IH by (auto simp: budget_ok_def Let_def simp del: length_0_conv simp flip: length_0_conv)
qed simp

section \<open>The stored text\<close>

lemma map_of_spread:
  "map_of (spread base d) k = (case map_of (rev d) k of None \<Rightarrow> map_of base k | Some v \<Rightarrow> Some v)"
  unfolding spread_def
  by (induction d arbitrary: base) (auto simp: update_conv' map_add_def split: option.splits if_splits)

lemma distinct_spread: "distinct (map fst base) \<Longrightarrow> distinct (map fst (spread base d))"
  unfolding spread_def by (induction d arbitrary: base) (auto simp: distinct_update)

lemma set_spread: "set (spread base d) \<subseteq> set base \<union> set d"
proof -
  have up: "set (AList.update k v b) \<subseteq> insert (k, v) (set b)" for k v and b :: pydict
    by (induction b) auto
  show ?thesis
    unfolding spread_def
  proof (induction d arbitrary: base)
    case (Cons x d)
    obtain k v where x: "x = (k, v)" by (cases x)
    have "set (foldl (\<lambda>m (k, v). AList.update k v m) (AList.update k v base) d) \<subseteq> set (AList.update k v base) \<union> set d" by (rule Cons)
    with up [of k v base] show ?case by (auto simp: x)
  qed simp
qed

lemma plain_spread:
  "json_plain (PDict d) \<Longrightarrow> json_plain (PDict base) \<Longrightarrow> json_plain (PDict (spread base d))"
  using set_spread [of base d] by (auto simp: distinct_spread)

lemma reduce_dict_keys [simp]: "map fst (reduce_dict ell sc ac d) = map fst d"
  by (induction d) auto

lemma reduce_plain:
  shows "json_plain v \<Longrightarrow> json_plain (reduce_structure ell sc ac v)"
    and "\<forall>x\<in>set xs. json_plain x \<Longrightarrow> \<forall>x\<in>set (reduce_list ell sc ac n xs). json_plain x"
    and "\<forall>x\<in>set d. json_plain (snd x) \<Longrightarrow> \<forall>x\<in>set (reduce_dict ell sc ac d). json_plain (snd x)"
  by (induction ell sc ac v and ell sc ac n xs and ell sc ac d rule: reduce_structure_reduce_list_reduce_dict.induct)
    (auto split: nat.splits)

lemma candidates_plain:
  assumes "json_plain (PDict raw)" and "v \<in> set (reduced_candidates ell raw)"
  shows "json_plain v"
proof -
  have "json_plain (PDict (reduce_dict ell sc ac raw))" for sc ac
    using assms(1) reduce_plain(3) [of raw ell sc ac] by auto
  moreover have "json_plain (PDict (filter (small_scalar \<circ> snd) raw))"
    using assms(1) by (auto simp: distinct_map_filter)
  ultimately show ?thesis
    using assms(2) by (auto simp: reduced_candidates_def reduction_passes_def intro!: plain_spread simp del: json_plain.simps(3))
       (simp_all)
qed

text \<open>Whatever the event, the stored text is within the limit (which the configuration keeps above four kilobytes) and is
  JSON: the event itself when it fits, otherwise an object that says it was cut.\<close>

lemma stored_value_cases:
  "stored_value ell limit raw = PDict raw \<and> length (json_compact (PDict raw)) \<le> limit \<or>
   (\<exists>v\<in>set (reduced_candidates ell raw). stored_value ell limit raw = v \<and> length (json_compact v) \<le> limit) \<or>
   stored_value ell limit raw = oversized_marker"
proof (cases "length (json_compact (PDict raw)) \<le> limit")
  case False
  show ?thesis
  proof (cases "first_fit limit (reduced_candidates ell raw)")
    case (Some v)
    then have "v \<in> set (reduced_candidates ell raw) \<and> length (json_compact v) \<le> limit"
      by (auto simp: first_fit_def find_Some_iff in_set_conv_nth)
    with Some False show ?thesis by (auto simp: stored_value_def)
  qed (use False in \<open>simp add: stored_value_def\<close>)
qed (simp add: stored_value_def)

lemma oversized_length: "length (json_compact oversized_marker) = 42"
  by code_simp

lemma quarantine_payload_bounded: "4096 \<le> limit \<Longrightarrow> length (serialize_raw ell limit raw) \<le> limit"
  using stored_value_cases [of ell limit raw] oversized_length by (auto simp: serialize_raw_def)

lemma quarantine_payload_readable:
  assumes "json_plain (PDict raw)"
  shows "json_loads cf (serialize_raw ell limit raw) = Some (stored_value ell limit raw)"
proof -
  have "json_plain oversized_marker" by (simp add: oversized_marker_def)
  then have "json_plain (stored_value ell limit raw)"
    using stored_value_cases [of ell limit raw] candidates_plain [OF assms] assms by auto
  then show ?thesis by (simp add: serialize_raw_def json_round_trip)
qed

lemma cut_value_marked:
  assumes "json_plain (PDict raw)" and "\<not> dhas raw ''_truncated''" and "stored_value ell limit raw \<noteq> PDict raw"
  shows "\<exists>d. stored_value ell limit raw = PDict d \<and> dget d ''_truncated'' = PBool True"
proof -
  have no: "map_of (rev d) ''_truncated'' = None" if "''_truncated'' \<notin> fst ` set d" for d :: pydict
    using that by (auto simp: map_of_eq_None_iff)
  have raw: "''_truncated'' \<notin> fst ` set raw" using assms(2) by (auto simp: dhas_def map_of_eq_None_iff)
  have red: "''_truncated'' \<notin> fst ` set (reduce_dict ell sc ac raw)" for sc ac
    using raw by (metis reduce_dict_keys list.set_map)
  have filt: "''_truncated'' \<notin> fst ` set (filter P raw)" for P using raw by auto
  have "dget (spread ((''_truncated'', PBool True) # b) d) ''_truncated'' = PBool True" if "''_truncated'' \<notin> fst ` set d" for b d
    using no [OF that] by (simp add: dget_def map_of_spread)
  note marked = this
  have "\<exists>d. v = PDict d \<and> dget d ''_truncated'' = PBool True" if "v \<in> set (reduced_candidates ell raw)" for v
    using that filt by (auto simp: reduced_candidates_def reduction_passes_def intro!: marked red simp del: set_filter)
  moreover have "\<exists>d. oversized_marker = PDict d \<and> dget d ''_truncated'' = PBool True"
    by (simp add: oversized_marker_def dget_def)
  ultimately show ?thesis using stored_value_cases [of ell limit raw] assms(3) by auto
qed

section \<open>What a second attempt sees\<close>


definition ex_quarantine_args :: quarantine_args where
  "ex_quarantine_args = \<lparr>qa_integration_id = Some 1, qa_vendor = ''v'', qa_event_type = Some ''v.a'', qa_raw = [(''id'', PStr ''7'')],
     qa_error_kind = ''map'', qa_error_detail = None, qa_mapping_version_id = None, qa_organization_id = None\<rparr>"

definition ex_quarantine_row :: quarantine_row where
  "ex_quarantine_row = \<lparr>qr_organization_id = Some 2, qr_integration_id = Some 1, qr_vendor = ''v'', qr_event_type = Some ''v.a'',
     qr_raw_payload = json_compact (PDict [(''id'', PStr ''7'')]), qr_error_kind = ''map'', qr_error_detail = None,
     qr_mapping_version_id = None, qr_expires_at = 604800, qr_reprocessed_at = None\<rparr>"

definition ex_reprocess_env :: reprocess_env where
  "ex_reprocess_env =
     \<lparr>pe_menv = \<lparr>me_jm = fast_jmespath, me_fast = True,
        me_cast = \<lparr>ce_iso_ms = (\<lambda>_. None), ce_float_ms = (\<lambda>_. 0), ce_float_of = (\<lambda>_. None), ce_ms_iso = (\<lambda>_. None), ce_percent = (\<lambda>_. 0)\<rparr>,
        me_loads = (\<lambda>_. None), me_max_bytes = 100\<rparr>,
      pe_float = (\<lambda>_. PNone),
      pe_store = \<lparr>mb_definition = (\<lambda>_ _. Some (Some ''v1'')), mb_version = (\<lambda>_. Some (''[]'', Some 1))\<rparr>,
      pe_cache_size = 4, pe_slug = (\<lambda>_. Some ''acme''), pe_host = ''h'', pe_now_ms = 0, pe_now_iso = ''t'', pe_message = (\<lambda>m. m)\<rparr>"

lemma ex_no_rules: "json_loads (\<lambda>_. PNone) ''[]'' = Some (PList [])"
  by code_simp


lemma reprocessed_labels:
  assumes "attempt_reprocess env payload vendor event_type i org cache = (Some (Reprocessed envelope version), cache')"
  shows "event_geography (event_labels envelope) = None" and "startswith (event_id_of (event_labels envelope)) ''sha256:''"
proof -
  obtain raw n ctx ts where e: "envelope = degraded ts (build_envelope raw n ctx None (pe_now_iso env))"
      "xc_data_geography ctx = None"
    using assms
    by (auto simp: attempt_reprocess_def reprocess_apply_def reprocess_context_def Let_def
        split: option.splits pyval.splits list.splits sum.splits prod.splits map_exn.splits if_splits)
  have "dget (event_labels envelope) k = dget (event_labels (build_envelope raw n ctx None (pe_now_iso env))) k"
    if "k \<noteq> ''degraded_fields''" for k
    using that by (auto simp: e(1) degraded_def label_event_def event_labels_def dget_def update_conv' as_dict_def)
  note keep = this
  have "dget (event_labels envelope) ''data_geography'' = PNone" "dget (event_labels envelope) ''event_id'' =
      PStr (compute_event_id raw None)"
    using keep [of "''data_geography''"] keep [of "''event_id''"] e(2) by (simp_all add: opt_text_def)
  then show "event_geography (event_labels envelope) = None" and "startswith (event_id_of (event_labels envelope)) ''sha256:''"
    by (simp_all add: event_geography_def event_id_of_def compute_event_id_def startswith_def)
qed

text \<open>C31: Reprocessing takes an event past the residency of destinations. A live event of an integration whose geography
  conflicts with the residency of a destination (not the fallback) has no copy there. A reprocessed event has lost the
  geography: for any routes it is routed to that destination as if no destination had declared a residency. It has also lost
  the id of the vendor and is identified by a hash.\<close>

theorem reprocess_bypasses_residency:
  assumes again: "attempt_reprocess env payload vendor event_type i org cache = (Some (Reprocessed envelope version), cache')"
    and geography: "xc_data_geography ctx = Some g" "residency_conflict (dest_residency opts dest) (Some g)"
    and fallback: "ro_fallback opts \<noteq> Some dest"
  shows "sub_of (br_sub_batches (route_batch opts [build_envelope raw n ctx m t] routes)) dest = [] \<and>
    sub_of (br_sub_batches (route_batch opts [envelope] routes)) dest =
      sub_of (br_sub_batches (route_batch (opts\<lparr>ro_residency := []\<rparr>) [envelope] routes)) dest \<and>
    startswith (event_id_of (event_labels envelope)) ''sha256:''"
proof -
  have "g \<noteq> []" using geography(2) by (auto simp: residency_conflict_def split: option.splits if_splits)
  then have "residency_blocks opts (event_labels (build_envelope raw n ctx m t)) dest"
    using geography by (simp add: residency_blocks_def event_geography_def opt_text_def)
  from copies_for_residency [OF this fallback] show ?thesis
    using copies_for_no_geography [OF reprocessed_labels(1) [OF again]] reprocessed_labels(2) [OF again] by (simp add: route_batch_sub)
qed

lemma ex_reprocess:
  "\<exists>e v c. attempt_reprocess ex_reprocess_env (json_compact (PDict [(''id'', PStr ''7'')])) ''v'' (Some ''v.a'') 1 2 [] = (Some (Reprocessed e v), c)"
proof -
  let ?c = "[((''v1'', 1), \<lparr>cs_preprocess = [], cs_rules = [], cs_reduction = []\<rparr>)]"
  have "engine_apply (pe_menv ex_reprocess_env) 4 ''v1'' (PList []) [(''id'', PStr ''7'')] 1 (Some 0) [] =
      (Inr (Inr \<lparr>ap_output = [], ap_consumed = [], ap_default_hits = [], ap_ingest_fallback = [], ap_reduced_raw = None\<rparr>), ?c)"
    by code_simp
  moreover note ex_no_rules
  moreover have "json_loads (\<lambda>_. PNone) (json_compact (PDict [(''id'', PStr ''7'')])) = Some (PDict [(''id'', PStr ''7'')])"
    by (rule json_round_trip) simp_all
  ultimately show ?thesis
    by (simp add: attempt_reprocess_def reprocess_apply_def ex_reprocess_env_def dsl_or_1_def degraded_def reprocess_context_def
        dget_def [of "[(''id'', PStr ''7'')]"])
qed

text \<open>A destination bound to the European Union, a route that sends everything there, and an integration in the United States.\<close>

definition ex_eu_opts :: route_opts where
  "ex_eu_opts = \<lparr>ro_fallback = None, ro_residency = [(''eu'', Some ''EU'')], ro_loop_ids = [], ro_sampling = None,
     ro_measure_drop_bytes = False, ro_nbytes = (\<lambda>_. 0)\<rparr>"

definition ex_eu_route :: compiled_route where
  "ex_eu_route = ex_lake\<lparr>r_condition := [], r_destination_ids := [''eu'']\<rparr>"

definition ex_us_context :: envelope_context where
  "ex_us_context = (reprocess_context ex_reprocess_env ''v'' ''v.a'' 1 2 ''v1'')\<lparr>xc_data_geography := Some ''US''\<rparr>"

lemma ex_eu_delivered: "sub_of (br_sub_batches (route_batch (ex_eu_opts\<lparr>ro_residency := []\<rparr>) [e] [ex_eu_route])) ''eu'' \<noteq> []"
  by (simp add: route_batch_sub order_routes_def copies_for_def fate_def serving_routes_def evaluate_event_def ex_eu_route_def ex_lake_def
      ex_eu_opts_def matches_def canary_pass_def dest_permitted_def residency_blocks_def residency_conflict_def dest_residency_def
      sampled_out_def should_sample_out_def Let_def)

theorem reprocess_bypasses_residency_witness:
  "\<exists>e. sub_of (br_sub_batches (route_batch ex_eu_opts [build_envelope [(''id'', PStr ''7'')] [] ex_us_context (Some ''m'') ''t''] [ex_eu_route])) ''eu'' = [] \<and>
     sub_of (br_sub_batches (route_batch ex_eu_opts [e] [ex_eu_route])) ''eu'' \<noteq> []"
proof -
  obtain e v c where r: "attempt_reprocess ex_reprocess_env (json_compact (PDict [(''id'', PStr ''7'')])) ''v'' (Some ''v.a'') 1 2 [] =
      (Some (Reprocessed e v), c)" using ex_reprocess by blast
  have "xc_data_geography ex_us_context = Some ''US''" by (simp add: ex_us_context_def)
  moreover have "residency_conflict (dest_residency ex_eu_opts ''eu'') (Some ''US'')" "ro_fallback ex_eu_opts \<noteq> Some ''eu''"
    by (simp_all add: ex_eu_opts_def dest_residency_def residency_conflict_def lower_def upper_def lower_char_def upper_char_def)
  ultimately show ?thesis
    using reprocess_bypasses_residency [OF r, of ex_us_context "''US''" ex_eu_opts "''eu''"] ex_eu_delivered [of e] by metis
qed

end
