(* ===== verification/Enrich_Policy.thy ===== *)
theory Enrich_Policy
  imports Mapping_Source
begin

text \<open>
  The language of enrichment policies: what an enricher declares (\<open>enrich/contract.py\<close>), the registry
  (\<open>enrich/registry.py\<close>) and the compiler of policies (\<open>enrich/dsl.py\<close>). Messages of a configuration error are
  constructors' texts. A membership test of an unhashable value in a frozenset raises \<open>TypeError\<close>, which is the
  second constructor of the errors.
\<close>

section \<open>Enrichers\<close>

datatype enrich_error = EnrichmentConfigError string | PiiEnricherRefused | PyTypeError

definition key_kinds :: "string list" where
  "key_kinds = [''ip'', ''domain'', ''url'', ''file_hash'', ''cve'', ''mac'', ''user'', ''container_id'']"

definition enricher_modes :: "string list" where
  "enricher_modes = [''local'', ''remote'']"

definition egress_kinds :: "string list" where
  "egress_kinds = [''none'', ''internal'', ''third_party'']"

record enricher_caps =
  ec_key_kinds :: "string list"
  ec_mode :: string
  ec_emits_pii :: bool
  ec_redistributable :: bool
  ec_egress :: string

record enricher_reg =
  er_name :: string
  er_caps :: enricher_caps
  er_required_secrets :: "string list"
  er_output_fields :: "string list"

type_synonym registry = "(string \<times> enricher_reg) list"

definition check_caps :: "enricher_caps \<Rightarrow> enrich_error + unit" where
  "check_caps c =
     (if ec_mode c \<notin> set enricher_modes then Inl (EnrichmentConfigError ''mode'')
      else if ec_egress c \<notin> set egress_kinds then Inl (EnrichmentConfigError ''egress'')
      else if \<not> set (ec_key_kinds c) \<subseteq> set key_kinds then Inl (EnrichmentConfigError ''key_kinds: unknown'')
      else if ec_key_kinds c = [] then Inl (EnrichmentConfigError ''key_kinds: empty'')
      else Inr ())"

text \<open>The capabilities check themselves when they are built, before the registration exists.\<close>

definition register :: "enricher_reg \<Rightarrow> bool \<Rightarrow> registry \<Rightarrow> enrich_error + registry" where
  "register reg embedded_dataset rg =
     bind_result (check_caps (er_caps reg)) (\<lambda>_.
       if strip (er_name reg) = [] then Inl (EnrichmentConfigError ''name'')
       else if ec_emits_pii (er_caps reg) then Inl PiiEnricherRefused
       else if embedded_dataset \<and> \<not> ec_redistributable (er_caps reg) then Inl (EnrichmentConfigError ''not redistributable'')
       else Inr (AList.update (er_name reg) reg rg))"

definition require :: "registry \<Rightarrow> string \<Rightarrow> enrich_error + enricher_reg" where
  "require rg name = (case map_of rg name of None \<Rightarrow> Inl (EnrichmentConfigError ''unknown enricher'') | Some r \<Rightarrow> Inr r)"

section \<open>The compiled form\<close>

definition target_root :: string where
  "target_root = ''_centralops.enrichment.''"

definition tags_path :: "string list" where
  "tags_path = [''_centralops'', ''enrichment_tags'']"

definition sources_path :: "string list" where
  "sources_path = [''_centralops'', ''enrichment'', ''_sources'']"

definition inert_rule_keys :: "string list" where
  "inert_rule_keys = [''entry_ttl_s'']"

definition rule_keys :: "string list" where
  "rule_keys = [''id'', ''enricher'', ''table'', ''source'', ''key'', ''when'', ''outputs'', ''tags'', ''on_miss'', ''on_multi'',
     ''on_error'', ''overwrite'', ''mode'', ''ttl_s'', ''negative_ttl_s'']"

definition key_keys :: "string list" where
  "key_keys = [''source'', ''kind'', ''normalize'']"

definition output_keys :: "string list" where
  "output_keys = [''from'', ''target'', ''default'']"

definition on_miss_values :: "string list" where
  "on_miss_values = [''skip'', ''default'', ''tag'']"

definition on_multi_values :: "string list" where
  "on_multi_values = [''first'', ''error'', ''array'']"

definition on_error_values :: "string list" where
  "on_error_values = [''skip'', ''tag'']"

definition key_normalizers :: "string list" where
  "key_normalizers = [''lower'', ''upper'', ''strip'', ''defang'', ''strip_port'']"

definition max_rules :: nat where
  "max_rules = 64"

record compiled_when =
  cw_predicate :: "compiled_predicate option"
  cw_has_tags :: "string list"
  cw_lacks_tags :: "string list"

record compiled_output =
  co_from_field :: string
  co_target_path :: "string list"
  co_default :: pyval
  co_has_default :: bool

record enrich_rule =
  en_rule_id :: string
  en_enricher :: string
  en_table :: "string option"
  en_source :: "string option"
  en_key_source :: resolver
  en_key_source_str :: string
  en_key_kind :: string
  en_key_normalizers :: "string list"
  en_when :: "compiled_when option"
  en_outputs :: "compiled_output list"
  en_tags :: "string list"
  en_on_miss :: string
  en_on_multi :: string
  en_on_error :: string
  en_overwrite :: bool
  en_mode :: string
  en_ttl_s :: "int option"
  en_negative_ttl_s :: "int option"

record compiled_policy =
  pol_rules :: "enrich_rule list"
  pol_version :: int

definition has_remote :: "compiled_policy \<Rightarrow> bool" where
  "has_remote p = list_ex (\<lambda>r. en_mode r = ''remote'') (pol_rules p)"

definition has_local :: "compiled_policy \<Rightarrow> bool" where
  "has_local p = list_ex (\<lambda>r. en_mode r = ''local'') (pol_rules p)"

definition local_rules :: "compiled_policy \<Rightarrow> enrich_rule list" where
  "local_rules p = filter (\<lambda>r. en_mode r = ''local'') (pol_rules p)"

definition remote_rules :: "compiled_policy \<Rightarrow> enrich_rule list" where
  "remote_rules p = filter (\<lambda>r. en_mode r = ''remote'') (pol_rules p)"

section \<open>The compiler\<close>

definition when_keys :: "string list" where
  "when_keys = [''exists'', ''equals'', ''in'', ''not'', ''has_tag'', ''lacks_tag'']"

text \<open>\<open>tuple(str(t).strip() for t in raw if str(t).strip())\<close>.\<close>

definition clean_tags :: "pyval list \<Rightarrow> string list" where
  "clean_tags vs = filter (\<lambda>t. t \<noteq> []) (map (\<lambda>v. strip (py_str v)) vs)"

definition as_tag_tuple :: "pyval \<Rightarrow> enrich_error + string list" where
  "as_tag_tuple raw =
     (case (case raw of PStr s \<Rightarrow> PList [PStr s] | _ \<Rightarrow> raw) of
        PList vs \<Rightarrow>
          if vs = [] then Inl (EnrichmentConfigError ''tags: empty'')
          else if clean_tags vs = [] then Inl (EnrichmentConfigError ''tags: none valid'')
          else Inr (clean_tags vs)
      | _ \<Rightarrow> Inl (EnrichmentConfigError ''tags: string or list''))"

definition reject_unknown :: "pydict \<Rightarrow> string list \<Rightarrow> enrich_error + unit" where
  "reject_unknown got allowed =
     (if list_all (\<lambda>k. k \<in> set allowed) (map fst got) then Inr () else Inl (EnrichmentConfigError ''unknown key''))"

definition reject_inert :: "pydict \<Rightarrow> enrich_error + unit" where
  "reject_inert got = (if list_ex (dhas got) inert_rule_keys then Inl (EnrichmentConfigError ''inert key'') else Inr ())"

definition compile_enrich_when :: "jmespath \<Rightarrow> bool \<Rightarrow> pyval \<Rightarrow> enrich_error + compiled_when option" where
  "compile_enrich_when jm fp raw =
     (case raw of
        PNone \<Rightarrow> Inr None
      | PDict d \<Rightarrow>
          bind_result (reject_unknown d when_keys) (\<lambda>_.
            case filter (dhas d) when_keys of
              [] \<Rightarrow> Inl (EnrichmentConfigError ''when: no key'')
            | [k] \<Rightarrow>
                (if k = ''has_tag'' then
                   bind_result (as_tag_tuple (dget d ''has_tag'')) (\<lambda>ts.
                     Inr (Some \<lparr>cw_predicate = None, cw_has_tags = ts, cw_lacks_tags = []\<rparr>))
                 else if k = ''lacks_tag'' then
                   bind_result (as_tag_tuple (dget d ''lacks_tag'')) (\<lambda>ts.
                     Inr (Some \<lparr>cw_predicate = None, cw_has_tags = [], cw_lacks_tags = ts\<rparr>))
                 else (case compile_predicate jm fp raw of
                         Inl e \<Rightarrow> Inl (EnrichmentConfigError ''when'')
                       | Inr p \<Rightarrow> Inr (Some \<lparr>cw_predicate = Some p, cw_has_tags = [], cw_lacks_tags = []\<rparr>)))
            | _ \<Rightarrow> Inl (EnrichmentConfigError ''when: several keys''))
      | _ \<Rightarrow> Inl (EnrichmentConfigError ''when: object''))"

text \<open>A string that is not blank, stripped.\<close>

definition nonblank :: "string \<Rightarrow> pyval \<Rightarrow> enrich_error + string" where
  "nonblank what v =
     (case v of PStr s \<Rightarrow> if strip s = [] then Inl (EnrichmentConfigError what) else Inr (strip s)
      | _ \<Rightarrow> Inl (EnrichmentConfigError what))"

definition compile_target :: "pyval \<Rightarrow> enrich_error + string list" where
  "compile_target raw =
     bind_result (nonblank ''target'' raw) (\<lambda>target.
       if \<not> startswith target target_root then Inl (EnrichmentConfigError ''target: root'')
       else let parts = filter (\<lambda>p. p \<noteq> []) (split_on CHR ''.'' target) in
         if length parts < 3 then Inl (EnrichmentConfigError ''target: field'')
         else if take 2 parts = take 2 sources_path \<and> startswith (parts ! 2) ''_'' then Inl (EnrichmentConfigError ''target: reserved'')
         else Inr parts)"

definition compile_norms :: "pyval \<Rightarrow> enrich_error + string list" where
  "compile_norms v =
     (case (if \<not> truthy v then PList [] else case v of PStr s \<Rightarrow> PList [PStr s] | _ \<Rightarrow> v) of
        PList vs \<Rightarrow>
          if list_all (\<lambda>n. n \<in> set key_normalizers) (map py_str vs) then Inr (map py_str vs)
          else Inl (EnrichmentConfigError ''key.normalize: unknown'')
      | _ \<Rightarrow> Inl (EnrichmentConfigError ''key.normalize: list''))"

definition compile_kind :: "enricher_reg \<Rightarrow> pyval \<Rightarrow> enrich_error + string" where
  "compile_kind reg kind =
     (if \<not> hashable kind then Inl PyTypeError
      else case kind of
        PStr k \<Rightarrow>
          if k \<notin> set key_kinds then Inl (EnrichmentConfigError ''key.kind'')
          else if k \<notin> set (ec_key_kinds (er_caps reg)) then Inl (EnrichmentConfigError ''key.kind: not supported'')
          else Inr k
      | _ \<Rightarrow> Inl (EnrichmentConfigError ''key.kind''))"

definition compile_key :: "jmespath \<Rightarrow> bool \<Rightarrow> enricher_reg \<Rightarrow> pyval \<Rightarrow> enrich_error + resolver \<times> string \<times> string \<times> string list" where
  "compile_key jm fp reg raw =
     (case raw of
        PDict d \<Rightarrow>
          bind_result (reject_unknown d key_keys) (\<lambda>_.
          bind_result (nonblank ''key.source'' (dget d ''source'')) (\<lambda>src.
          bind_result (case compile_source jm fp src of None \<Rightarrow> Inl (EnrichmentConfigError ''key.source: invalid'') | Some r \<Rightarrow> Inr r) (\<lambda>resolver.
          bind_result (compile_kind reg (dget d ''kind'')) (\<lambda>kind.
          bind_result (compile_norms (dget d ''normalize'')) (\<lambda>norms.
            Inr (resolver, src, kind, norms))))))
      | _ \<Rightarrow> Inl (EnrichmentConfigError ''key: object''))"

definition compile_output :: "enricher_reg \<Rightarrow> pyval \<Rightarrow> enrich_error + compiled_output" where
  "compile_output reg raw =
     (case raw of
        PDict d \<Rightarrow>
          bind_result (reject_unknown d output_keys) (\<lambda>_.
          bind_result (nonblank ''from'' (dget d ''from'')) (\<lambda>from_field.
          if er_output_fields reg \<noteq> [] \<and> from_field \<notin> set (er_output_fields reg) then Inl (EnrichmentConfigError ''from: unknown field'')
          else bind_result (compile_target (dget d ''target'')) (\<lambda>path.
            Inr \<lparr>co_from_field = from_field, co_target_path = path, co_default = dget d ''default'', co_has_default = dhas d ''default''\<rparr>)))
      | _ \<Rightarrow> Inl (EnrichmentConfigError ''output: object''))"

fun compile_outputs :: "enricher_reg \<Rightarrow> string list list \<Rightarrow> pyval list \<Rightarrow> enrich_error + compiled_output list" where
  "compile_outputs reg seen_targets [] = Inr []"
| "compile_outputs reg seen_targets (raw # raws) =
     bind_result (compile_output reg raw) (\<lambda>out.
       if co_target_path out \<in> set seen_targets then Inl (EnrichmentConfigError ''target: twice'')
       else bind_result (compile_outputs reg (co_target_path out # seen_targets) raws) (\<lambda>outs. Inr (out # outs)))"

definition one_of :: "string \<Rightarrow> string list \<Rightarrow> pyval \<Rightarrow> enrich_error + string" where
  "one_of what allowed v = (if py_str v \<in> set allowed then Inr (py_str v) else Inl (EnrichmentConfigError what))"

definition opt_nonneg :: "pyval \<Rightarrow> enrich_error + int option" where
  "opt_nonneg v =
     (if v = PNone then Inr None
      else case py_int v of
             None \<Rightarrow> Inl (EnrichmentConfigError ''integer'')
           | Some i \<Rightarrow> if i < 0 then Inl (EnrichmentConfigError ''negative'') else Inr (Some i))"

definition opt_nonblank :: "string \<Rightarrow> pyval \<Rightarrow> enrich_error + string option" where
  "opt_nonblank what v = (if v = PNone then Inr None else bind_result (nonblank what v) (\<lambda>s. Inr (Some s)))"

definition compile_rule_tags :: "pyval \<Rightarrow> enrich_error + string list" where
  "compile_rule_tags v =
     (case (if \<not> truthy v then PList [] else case v of PStr s \<Rightarrow> PList [PStr s] | _ \<Rightarrow> v) of
        PList vs \<Rightarrow> Inr (clean_tags vs)
      | _ \<Rightarrow> Inl (EnrichmentConfigError ''tags: list''))"

definition compile_mode :: "enricher_reg \<Rightarrow> pyval \<Rightarrow> enrich_error + string" where
  "compile_mode reg v =
     (let mode = (if truthy v then py_str v else ec_mode (er_caps reg)) in
      if mode \<notin> set enricher_modes then Inl (EnrichmentConfigError ''mode'')
      else if mode = ''local'' \<and> ec_mode (er_caps reg) = ''remote'' then Inl (EnrichmentConfigError ''mode: remote enricher'')
      else Inr mode)"

definition compile_rule_outputs :: "enricher_reg \<Rightarrow> pyval \<Rightarrow> enrich_error + compiled_output list" where
  "compile_rule_outputs reg v =
     (case v of
        PList raws \<Rightarrow> if raws = [] then Inl (EnrichmentConfigError ''outputs: empty'') else compile_outputs reg [] raws
      | _ \<Rightarrow> Inl (EnrichmentConfigError ''outputs: list''))"

definition compile_enrich_rule :: "jmespath \<Rightarrow> bool \<Rightarrow> registry \<Rightarrow> string list \<Rightarrow> pyval \<Rightarrow> enrich_error + enrich_rule" where
  "compile_enrich_rule jm fp rg seen_ids raw =
     (case raw of
        PDict d \<Rightarrow>
          bind_result (reject_inert d) (\<lambda>_.
          bind_result (reject_unknown d rule_keys) (\<lambda>_.
          bind_result (nonblank ''id'' (dget d ''id'')) (\<lambda>rule_id.
          if rule_id \<in> set seen_ids then Inl (EnrichmentConfigError ''id: twice'')
          else
          bind_result (nonblank ''enricher'' (dget d ''enricher'')) (\<lambda>enricher.
          bind_result (require rg enricher) (\<lambda>reg.
          bind_result (compile_key jm fp reg (dget d ''key'')) (\<lambda>(key_source, key_source_str, key_kind, norms).
          bind_result (compile_enrich_when jm fp (dget d ''when'')) (\<lambda>gate.
          bind_result (compile_rule_outputs reg (dget d ''outputs'')) (\<lambda>outputs.
          bind_result (compile_rule_tags (dget d ''tags'')) (\<lambda>tags.
          bind_result (one_of ''on_miss'' on_miss_values (dget_default d ''on_miss'' (PStr ''skip''))) (\<lambda>on_miss.
          if on_miss = ''default'' \<and> \<not> list_ex co_has_default outputs then Inl (EnrichmentConfigError ''on_miss: no default'')
          else
          bind_result (one_of ''on_multi'' on_multi_values (dget_default d ''on_multi'' (PStr ''first''))) (\<lambda>on_multi.
          bind_result (one_of ''on_error'' on_error_values (dget_default d ''on_error'' (PStr ''skip''))) (\<lambda>on_error.
          bind_result (compile_mode reg (dget d ''mode'')) (\<lambda>mode.
          bind_result (opt_nonblank ''table'' (dget d ''table'')) (\<lambda>table.
          bind_result (opt_nonblank ''source'' (dget d ''source'')) (\<lambda>source.
          if er_required_secrets reg \<noteq> [] \<and> source = None then Inl (EnrichmentConfigError ''source: required'')
          else
          bind_result (opt_nonneg (dget d ''ttl_s'')) (\<lambda>ttl.
          bind_result (opt_nonneg (dget d ''negative_ttl_s'')) (\<lambda>negative_ttl.
            Inr \<lparr>en_rule_id = rule_id, en_enricher = enricher, en_table = table, en_source = source,
                 en_key_source = key_source, en_key_source_str = key_source_str, en_key_kind = key_kind,
                 en_key_normalizers = norms, en_when = gate, en_outputs = outputs, en_tags = tags,
                 en_on_miss = on_miss, en_on_multi = on_multi, en_on_error = on_error,
                 en_overwrite = truthy (dget_default d ''overwrite'' (PBool False)), en_mode = mode,
                 en_ttl_s = ttl, en_negative_ttl_s = negative_ttl\<rparr>)))))))))))))))))
      | _ \<Rightarrow> Inl (EnrichmentConfigError ''rule: object''))"

fun compile_enrich_rules :: "jmespath \<Rightarrow> bool \<Rightarrow> registry \<Rightarrow> string list \<Rightarrow> pyval list \<Rightarrow> enrich_error + enrich_rule list" where
  "compile_enrich_rules jm fp rg seen_ids [] = Inr []"
| "compile_enrich_rules jm fp rg seen_ids (raw # raws) =
     bind_result (compile_enrich_rule jm fp rg seen_ids raw) (\<lambda>r.
     bind_result (compile_enrich_rules jm fp rg (en_rule_id r # seen_ids) raws) (\<lambda>rs. Inr (r # rs)))"

definition policy_parts :: "pyval \<Rightarrow> enrich_error + pyval list \<times> int" where
  "policy_parts raw =
     (case raw of
        PList rules \<Rightarrow> Inr (rules, 1)
      | PDict d \<Rightarrow>
          bind_result (reject_unknown d [''version'', ''enrichment'']) (\<lambda>_.
          let v = dget d ''enrichment'' in
          bind_result (if \<not> truthy v then Inr [] else case v of PList rs \<Rightarrow> Inr rs | _ \<Rightarrow> Inl (EnrichmentConfigError ''enrichment: list'')) (\<lambda>rules.
          case py_int (dget_default d ''version'' (PInt 1)) of
            None \<Rightarrow> Inl (EnrichmentConfigError ''version'')
          | Some n \<Rightarrow> Inr (rules, n)))
      | _ \<Rightarrow> Inl (EnrichmentConfigError ''policy: object or list''))"

definition compile_policy :: "jmespath \<Rightarrow> bool \<Rightarrow> registry \<Rightarrow> pyval \<Rightarrow> enrich_error + compiled_policy" where
  "compile_policy jm fp rg raw =
     bind_result (policy_parts raw) (\<lambda>(rules_raw, version).
       if length rules_raw > max_rules then Inl (EnrichmentConfigError ''too many rules'')
       else bind_result (compile_enrich_rules jm fp rg [] rules_raw) (\<lambda>rules.
         Inr \<lparr>pol_rules = rules, pol_version = version\<rparr>))"

section \<open>What a compiled policy guarantees\<close>

definition target_ok :: "string list \<Rightarrow> bool" where
  "target_ok p \<longleftrightarrow> 3 \<le> length p \<and> take 2 p = [''_centralops'', ''enrichment''] \<and> \<not> startswith (p ! 2) ''_''"

definition outputs_ok :: "enricher_reg \<Rightarrow> compiled_output list \<Rightarrow> bool" where
  "outputs_ok reg outs \<longleftrightarrow> distinct (map co_target_path outs) \<and>
     (\<forall>out\<in>set outs. target_ok (co_target_path out) \<and>
        (er_output_fields reg \<noteq> [] \<longrightarrow> co_from_field out \<in> set (er_output_fields reg)))"

definition rule_ok :: "registry \<Rightarrow> enrich_rule \<Rightarrow> bool" where
  "rule_ok rg r \<longleftrightarrow> (\<exists>reg. map_of rg (en_enricher r) = Some reg \<and>
     en_key_kind r \<in> set (ec_key_kinds (er_caps reg)) \<and>
     set (en_key_normalizers r) \<subseteq> set key_normalizers \<and>
     en_outputs r \<noteq> [] \<and> outputs_ok reg (en_outputs r) \<and>
     en_on_miss r \<in> set on_miss_values \<and> en_on_multi r \<in> set on_multi_values \<and> en_on_error r \<in> set on_error_values \<and>
     (en_on_miss r = ''default'' \<longrightarrow> (\<exists>out\<in>set (en_outputs r). co_has_default out)) \<and>
     en_mode r \<in> set enricher_modes \<and> (ec_mode (er_caps reg) = ''remote'' \<longrightarrow> en_mode r = ''remote'') \<and>
     (er_required_secrets reg \<noteq> [] \<longrightarrow> en_source r \<noteq> None))"

definition policy_ok :: "registry \<Rightarrow> compiled_policy \<Rightarrow> bool" where
  "policy_ok rg pol \<longleftrightarrow> length (pol_rules pol) \<le> max_rules \<and> distinct (map en_rule_id (pol_rules pol)) \<and>
     (\<forall>r\<in>set (pol_rules pol). rule_ok rg r)"

lemma split_target_root:
  assumes "startswith t target_root"
  shows "\<exists>rest. filter (\<lambda>p. p \<noteq> []) (split_on CHR ''.'' t) = [''_centralops'', ''enrichment''] @ filter (\<lambda>p. p \<noteq> []) rest"
proof -
  have "t = target_root @ drop (length target_root) t" using assms by (metis append_take_drop_id startswith_def)
  then obtain s where t: "t = ''_centralops'' @ CHR ''.'' # ''enrichment'' @ CHR ''.'' # s" by (auto simp: target_root_def)
  show ?thesis by (auto simp: t split_on_append intro: exI [of _ "split_on CHR ''.'' s"])
qed

lemma compile_target_ok: "compile_target raw = Inr p \<Longrightarrow> target_ok p"
  by (auto simp: compile_target_def bind_result_Inr Let_def target_ok_def sources_path_def dest: split_target_root split: if_splits)

lemma compile_outputs_ok:
  "compile_outputs reg seen raws = Inr outs \<Longrightarrow>
   outputs_ok reg outs \<and> length outs = length raws \<and> set (map co_target_path outs) \<inter> set seen = {}"
proof (induction reg seen raws arbitrary: outs rule: compile_outputs.induct)
  case (2 reg seen raw raws)
  then obtain out outs' where o: "compile_output reg raw = Inr out" "co_target_path out \<notin> set seen"
      "compile_outputs reg (co_target_path out # seen) raws = Inr outs'" "outs = out # outs'"
    by (auto simp: bind_result_Inr split: if_splits)
  have "target_ok (co_target_path out) \<and> (er_output_fields reg \<noteq> [] \<longrightarrow> co_from_field out \<in> set (er_output_fields reg))"
    using o(1) by (auto simp: compile_output_def bind_result_Inr compile_target_ok split: pyval.splits if_splits)
  then show ?case using "2.IH" [OF o(2,3)] o by (auto simp: outputs_ok_def)
qed (simp add: outputs_ok_def)

lemma compile_rule_outputs_ok:
  "compile_rule_outputs reg v = Inr outs \<Longrightarrow> outputs_ok reg outs \<and> outs \<noteq> []"
  using compile_outputs_ok [of reg "[]"] by (fastforce simp: compile_rule_outputs_def split: pyval.splits if_splits)

lemma compile_norms_ok: "compile_norms v = Inr norms \<Longrightarrow> set norms \<subseteq> set key_normalizers"
  by (auto simp: compile_norms_def list_all_iff split: pyval.splits if_splits)

lemma compile_kind_ok: "compile_kind reg v = Inr k \<Longrightarrow> k \<in> set (ec_key_kinds (er_caps reg))"
  by (auto simp: compile_kind_def split: pyval.splits if_splits)

lemma compile_key_ok:
  assumes "compile_key jm fp reg v = Inr (r, e, k, norms)"
  shows "k \<in> set (ec_key_kinds (er_caps reg)) \<and> set norms \<subseteq> set key_normalizers"
  using assms by (cases v) (auto simp: compile_key_def bind_result_Inr dest: compile_norms_ok compile_kind_ok)

lemma compile_mode_ok:
  "compile_mode reg v = Inr m \<Longrightarrow> m \<in> set enricher_modes \<and> (ec_mode (er_caps reg) = ''remote'' \<longrightarrow> m = ''remote'')"
  by (auto simp: compile_mode_def Let_def enricher_modes_def split: if_splits)

lemma one_of_ok: "one_of what allowed v = Inr s \<Longrightarrow> s \<in> set allowed"
  by (simp add: one_of_def split: if_splits)

lemma compile_enrich_rule_ok:
  assumes "compile_enrich_rule jm fp rg seen raw = Inr r"
  shows "rule_ok rg r \<and> en_rule_id r \<notin> set seen"
proof (cases raw)
  case (PDict d)
  from assms [unfolded PDict compile_enrich_rule_def] obtain reg r1 e k norms outs where
      "map_of rg (en_enricher r) = Some reg" "compile_key jm fp reg (dget d ''key'') = Inr (r1, e, k, norms)"
      "en_key_kind r = k" "en_key_normalizers r = norms" "compile_rule_outputs reg (dget d ''outputs'') = Inr (en_outputs r)"
      "one_of ''on_miss'' on_miss_values (dget_default d ''on_miss'' (PStr ''skip'')) = Inr (en_on_miss r)"
      "one_of ''on_multi'' on_multi_values (dget_default d ''on_multi'' (PStr ''first'')) = Inr (en_on_multi r)"
      "one_of ''on_error'' on_error_values (dget_default d ''on_error'' (PStr ''skip'')) = Inr (en_on_error r)"
      "en_on_miss r = ''default'' \<longrightarrow> list_ex co_has_default (en_outputs r)"
      "compile_mode reg (dget d ''mode'') = Inr (en_mode r)"
      "er_required_secrets reg \<noteq> [] \<longrightarrow> en_source r \<noteq> None" "en_rule_id r \<notin> set seen"
    by (auto simp: bind_result_Inr require_def split: if_splits option.splits)
  then show ?thesis
    using compile_key_ok compile_rule_outputs_ok compile_mode_ok one_of_ok
    by (fastforce simp: rule_ok_def list_ex_iff)
qed (use assms in \<open>simp_all add: compile_enrich_rule_def\<close>)

lemma compile_enrich_rules_ok:
  "compile_enrich_rules jm fp rg seen raws = Inr rs \<Longrightarrow>
   length rs = length raws \<and> distinct (map en_rule_id rs) \<and> set (map en_rule_id rs) \<inter> set seen = {} \<and> (\<forall>r\<in>set rs. rule_ok rg r)"
proof (induction jm fp rg seen raws arbitrary: rs rule: compile_enrich_rules.induct)
  case (2 jm fp rg seen raw raws)
  then obtain r rs' where r: "compile_enrich_rule jm fp rg seen raw = Inr r"
      "compile_enrich_rules jm fp rg (en_rule_id r # seen) raws = Inr rs'" "rs = r # rs'"
    by (auto simp: bind_result_Inr)
  show ?case using "2.IH" [OF r(2)] compile_enrich_rule_ok [OF r(1)] r(3) by auto
qed simp

lemma compile_policy_ok: "compile_policy jm fp rg raw = Inr pol \<Longrightarrow> policy_ok rg pol"
  by (auto simp: compile_policy_def bind_result_Inr policy_ok_def dest: compile_enrich_rules_ok split: if_splits)

text \<open>The registries that modules can build: every entry passed its checks.\<close>

inductive registered :: "registry \<Rightarrow> bool" where
  reg_empty: "registered []"
| reg_add: "registered rg \<Longrightarrow> register reg embedded rg = Inr rg' \<Longrightarrow> registered rg'"

lemma registered_entry:
  "registered rg \<Longrightarrow> map_of rg n = Some reg \<Longrightarrow>
   \<not> ec_emits_pii (er_caps reg) \<and> check_caps (er_caps reg) = Inr ()"
proof (induction arbitrary: n reg rule: registered.induct)
  case (reg_add rg reg0 embedded rg')
  then show ?case
    by (auto simp: register_def bind_result_Inr update_conv' split: if_splits)
qed simp

text \<open>C38: A policy that compiles is well formed. It has at most 64 rules with different ids; every rule names an enricher
  that is registered, and so emits no personal data, with a kind of key that enricher resolves; a remote enricher is
  never run in the per-event mode; the targets of a rule are different, lie below \<open>_centralops.enrichment\<close> and do not touch
  the fields reserved to the runtime; the switches have values the applier knows.\<close>

theorem enrich_policy_typed:
  assumes "registered rg" and "compile_policy jm fp rg raw = Inr pol"
  shows "policy_ok rg pol \<and> (\<forall>r\<in>set (pol_rules pol). \<exists>reg. map_of rg (en_enricher r) = Some reg \<and>
    \<not> ec_emits_pii (er_caps reg) \<and> en_key_kind r \<in> set key_kinds)"
proof -
  note ok = compile_policy_ok [OF assms(2)]
  have "\<exists>reg. map_of rg (en_enricher r) = Some reg \<and> \<not> ec_emits_pii (er_caps reg) \<and> en_key_kind r \<in> set key_kinds"
    if r: "r \<in> set (pol_rules pol)" for r
  proof -
    obtain reg where reg: "map_of rg (en_enricher r) = Some reg" "en_key_kind r \<in> set (ec_key_kinds (er_caps reg))"
      using ok r unfolding policy_ok_def rule_ok_def by blast
    with registered_entry [OF assms(1) reg(1)] show ?thesis by (auto simp: check_caps_def split: if_splits)
  qed
  with ok show ?thesis by blast
qed

definition ex_cmdb :: enricher_reg where
  "ex_cmdb = \<lparr>er_name = ''cmdb'', er_caps = \<lparr>ec_key_kinds = [''ip''], ec_mode = ''local'', ec_emits_pii = False,
     ec_redistributable = False, ec_egress = ''none''\<rparr>, er_required_secrets = [], er_output_fields = [''site'']\<rparr>"

definition ex_enrich_policy :: pyval where
  "ex_enrich_policy = PList [PDict [(''id'', PStr ''r1''), (''enricher'', PStr ''cmdb''), (''table'', PStr ''t''),
     (''key'', PDict [(''source'', PStr ''ip''), (''kind'', PStr ''ip''), (''normalize'', PStr ''strip_port'')]),
     (''outputs'', PList [PDict [(''from'', PStr ''site''), (''target'', PStr ''_centralops.enrichment.site'')]]),
     (''tags'', PList [PStr ''known''])]]"

definition ex_enrich_rule :: enrich_rule where
  "ex_enrich_rule = \<lparr>en_rule_id = ''r1'', en_enricher = ''cmdb'', en_table = Some ''t'', en_source = None,
     en_key_source = DotPathResolver ''ip'' [''ip''], en_key_source_str = ''ip'', en_key_kind = ''ip'',
     en_key_normalizers = [''strip_port''], en_when = None,
     en_outputs = [\<lparr>co_from_field = ''site'', co_target_path = [''_centralops'', ''enrichment'', ''site''],
                    co_default = PNone, co_has_default = False\<rparr>],
     en_tags = [''known''], en_on_miss = ''skip'', en_on_multi = ''first'', en_on_error = ''skip'', en_overwrite = False,
     en_mode = ''local'', en_ttl_s = None, en_negative_ttl_s = None\<rparr>"

lemma ex_registered: "registered [(''cmdb'', ex_cmdb)]"
proof -
  have "register ex_cmdb False [] = Inr [(''cmdb'', ex_cmdb)]" by code_simp
  with reg_add [OF reg_empty] show ?thesis .
qed

lemma ex_policy_compiles:
  "compile_policy fast_jmespath True [(''cmdb'', ex_cmdb)] ex_enrich_policy = Inr \<lparr>pol_rules = [ex_enrich_rule], pol_version = 1\<rparr>"
  by code_simp

theorem enrich_policy_typed_witness: "policy_ok [(''cmdb'', ex_cmdb)] \<lparr>pol_rules = [ex_enrich_rule], pol_version = 1\<rparr>"
  using enrich_policy_typed [OF ex_registered ex_policy_compiles] by simp

end
