(* ===== verification/Enrich_Applier.thy ===== *)
theory Enrich_Applier
  imports Enrich_Policy
begin

text \<open>
  The enrichment of one event (\<open>enrich/applier.py\<close>): gate, key, resolution, outputs, tags and provenance, for compiled
  rules in order. The resolution, a table in memory or the answers of a bulk request, is a function of rule and key
  that may raise. Values are copied into the event by the code, so the event is a value of the model.
\<close>

section \<open>Keys\<close>

text \<open>\<open>s.replace(old, new)\<close> for a non-empty \<open>old\<close>.\<close>

function replace_text :: "string \<Rightarrow> string \<Rightarrow> string \<Rightarrow> string" where
  "replace_text old new s =
     (case s of
        [] \<Rightarrow> []
      | c # cs \<Rightarrow>
          if old \<noteq> [] \<and> startswith s old then new @ replace_text old new (drop (length old) s)
          else c # replace_text old new cs)"
  by pat_completeness auto
termination
  by (relation "measure (\<lambda>(old, new, s). length s)") auto

declare replace_text.simps [simp del]

definition defang :: "string \<Rightarrow> string" where
  "defang s =
     replace_text ''hxxps://'' ''https://'' (replace_text ''hxxp://'' ''http://'' (replace_text ''[:]'' '':''
       (replace_text ''(.)'' ''.'' (replace_text ''[.]'' ''.'' s))))"

definition strip_port :: "string \<Rightarrow> string" where
  "strip_port s =
     (if startswith s ''['' then
        (if CHR '']'' \<in> set s then tl (takeWhile (\<lambda>c. c \<noteq> CHR '']'') s) else s)
      else if count_list s CHR '':'' = 1 then takeWhile (\<lambda>c. c \<noteq> CHR '':'') s
      else s)"

definition normalize_one :: "string \<Rightarrow> string \<Rightarrow> string" where
  "normalize_one out nm =
     (if nm = ''lower'' then lower out
      else if nm = ''upper'' then upper out
      else if nm = ''strip'' then strip out
      else if nm = ''defang'' then defang out
      else if nm = ''strip_port'' then strip_port out
      else out)"

definition normalize_key :: "string \<Rightarrow> string list \<Rightarrow> string" where
  "normalize_key value normalizers = foldl normalize_one value normalizers"

definition extract_key :: "jmespath \<Rightarrow> pydict \<Rightarrow> enrich_rule \<Rightarrow> string option" where
  "extract_key jm envelope rule =
     (case resolver_search jm (en_key_source rule) (PDict envelope) of
        None \<Rightarrow> None
      | Some raw \<Rightarrow>
          (case raw of
             PNone \<Rightarrow> None | PDict _ \<Rightarrow> None | PList _ \<Rightarrow> None | PBool _ \<Rightarrow> None
           | _ \<Rightarrow>
               let key = strip (normalize_key (py_str raw) (en_key_normalizers rule))
               in if key = [] then None else Some key))"

section \<open>Paths\<close>

fun path_get :: "string list \<Rightarrow> pyval \<Rightarrow> pyval" where
  "path_get [] cur = cur"
| "path_get (part # path) cur =
     (case cur of
        PDict d \<Rightarrow> let v = dget d part in if v = PNone then PNone else path_get path v
      | _ \<Rightarrow> PNone)"

text \<open>\<open>_set_path\<close>; \<open>None\<close> is the result \<open>False\<close>, which leaves the event as it was. No path of the compiler is empty.\<close>

fun path_set :: "string list \<Rightarrow> pyval \<Rightarrow> pydict \<Rightarrow> pydict option" where
  "path_set [] value cur = None"
| "path_set [part] value cur = Some (AList.update part value cur)"
| "path_set (part # part' # path) value cur =
     (case dget cur part of
        PNone \<Rightarrow> map_option (\<lambda>nxt. AList.update part (PDict nxt) cur) (path_set (part' # path) value [])
      | PDict nxt \<Rightarrow> map_option (\<lambda>nxt'. AList.update part (PDict nxt') cur) (path_set (part' # path) value nxt)
      | _ \<Rightarrow> None)"

section \<open>The gate\<close>

definition current_tags :: "pydict \<Rightarrow> string list" where
  "current_tags envelope =
     (case path_get tags_path (PDict envelope) of
        PList ts \<Rightarrow> List.map_filter (\<lambda>t. case t of PStr s \<Rightarrow> Some s | _ \<Rightarrow> None) ts
      | _ \<Rightarrow> [])"

definition evaluate_when :: "jmespath \<Rightarrow> compiled_when \<Rightarrow> pydict \<Rightarrow> bool" where
  "evaluate_when jm gate envelope =
     (if cw_has_tags gate \<noteq> [] \<or> cw_lacks_tags gate \<noteq> [] then
        (let tags = current_tags envelope in
         if cw_has_tags gate \<noteq> [] \<and> \<not> list_all (\<lambda>t. t \<in> set tags) (cw_has_tags gate) then False
         else if cw_lacks_tags gate \<noteq> [] \<and> list_ex (\<lambda>t. t \<in> set tags) (cw_lacks_tags gate) then False
         else True)
      else case cw_predicate gate of
             Some p \<Rightarrow> evaluate_predicate jm p (PDict envelope)
           | None \<Rightarrow> True)"

section \<open>Writing\<close>

definition list_at :: "string list \<Rightarrow> pydict \<Rightarrow> pyval list" where
  "list_at path envelope = (case path_get path (PDict envelope) of PList xs \<Rightarrow> xs | _ \<Rightarrow> [])"

text \<open>The code appends to the list it finds, or writes an empty list first and appends to that.\<close>

definition put_list :: "string list \<Rightarrow> pyval list \<Rightarrow> pydict \<Rightarrow> pydict" where
  "put_list path xs envelope = (case path_set path (PList xs) envelope of None \<Rightarrow> envelope | Some e \<Rightarrow> e)"

definition add_tag :: "pyval list \<Rightarrow> string \<Rightarrow> pyval list" where
  "add_tag cur tag = (if PStr tag \<in> set cur then cur else cur @ [PStr tag])"

definition add_tags :: "string list \<Rightarrow> pydict \<Rightarrow> pydict" where
  "add_tags tags envelope =
     (if tags = [] then envelope else put_list tags_path (foldl add_tag (list_at tags_path envelope) tags) envelope)"

definition source_entry :: "enrich_rule \<Rightarrow> pyval" where
  "source_entry rule =
     PDict ([(''rule'', PStr (en_rule_id rule)), (''enricher'', PStr (en_enricher rule))] @
       (case en_table rule of Some t \<Rightarrow> if t = [] then [] else [(''table'', PStr t)] | None \<Rightarrow> []))"

definition add_source :: "enrich_rule \<Rightarrow> pydict \<Rightarrow> pydict" where
  "add_source rule envelope = put_list sources_path (list_at sources_path envelope @ [source_entry rule]) envelope"

definition output_payload :: "pydict option \<Rightarrow> bool \<Rightarrow> compiled_output \<Rightarrow> pyval" where
  "output_payload value use_defaults out =
     (case value of
        Some row \<Rightarrow> if dhas row (co_from_field out) then dget row (co_from_field out)
          else if use_defaults \<and> co_has_default out then co_default out else PNone
      | None \<Rightarrow> if use_defaults \<and> co_has_default out then co_default out else PNone)"

definition write_output :: "enrich_rule \<Rightarrow> pydict option \<Rightarrow> bool \<Rightarrow> bool \<times> pydict \<Rightarrow> compiled_output \<Rightarrow> bool \<times> pydict" where
  "write_output rule value use_defaults st out =
     (let payload = output_payload value use_defaults out in
      if payload = PNone then st
      else if \<not> en_overwrite rule \<and> path_get (co_target_path out) (PDict (snd st)) \<noteq> PNone then st
      else case path_set (co_target_path out) payload (snd st) of
             None \<Rightarrow> st
           | Some e \<Rightarrow> (True, e))"

definition write_outputs :: "enrich_rule \<Rightarrow> pydict option \<Rightarrow> bool \<Rightarrow> pydict \<Rightarrow> bool \<times> pydict" where
  "write_outputs rule value use_defaults envelope =
     foldl (write_output rule value use_defaults) (False, envelope) (en_outputs rule)"

section \<open>Applying\<close>

record apply_stats =
  as_events_touched :: int
  as_hits :: "(string \<times> int) list"
  as_misses :: "(string \<times> int) list"
  as_skipped :: "(string \<times> int) list"
  as_errors :: "(string \<times> int) list"

definition bump_rule :: "string \<Rightarrow> (string \<times> int) list \<Rightarrow> (string \<times> int) list" where
  "bump_rule rule_id bucket = AList.update rule_id ((case map_of bucket rule_id of None \<Rightarrow> 0 | Some n \<Rightarrow> n) + 1) bucket"

abbreviation bump_hit :: "string \<Rightarrow> apply_stats \<Rightarrow> apply_stats" where
  "bump_hit i st \<equiv> st\<lparr>as_hits := bump_rule i (as_hits st)\<rparr>"

abbreviation bump_miss :: "string \<Rightarrow> apply_stats \<Rightarrow> apply_stats" where
  "bump_miss i st \<equiv> st\<lparr>as_misses := bump_rule i (as_misses st)\<rparr>"

abbreviation bump_skip :: "string \<Rightarrow> apply_stats \<Rightarrow> apply_stats" where
  "bump_skip i st \<equiv> st\<lparr>as_skipped := bump_rule i (as_skipped st)\<rparr>"

abbreviation bump_error :: "string \<Rightarrow> apply_stats \<Rightarrow> apply_stats" where
  "bump_error i st \<equiv> st\<lparr>as_errors := bump_rule i (as_errors st)\<rparr>"

text \<open>\<open>resolution.get\<close>: it raises, does not answer for the rule, or answers with a value, \<open>PNone\<close> for a miss.\<close>

datatype answer = Raises | Not_Answered | Answered pyval

type_synonym resolution = "string \<Rightarrow> string \<Rightarrow> answer"

definition rows_of :: "pyval list \<Rightarrow> pydict list" where
  "rows_of vs = List.map_filter (\<lambda>v. case v of PDict d \<Rightarrow> Some d | _ \<Rightarrow> None) vs"

definition merge_rows :: "enrich_rule \<Rightarrow> pyval list \<Rightarrow> pydict" where
  "merge_rows rule vs =
     foldl (\<lambda>merged out.
        let vals = filter (\<lambda>v. v \<noteq> PNone) (map (\<lambda>row. dget row (co_from_field out)) (rows_of vs)) in
        if vals = [] then merged else AList.update (co_from_field out) (PList vals) merged) [] (en_outputs rule)"

text \<open>The row of a hit, \<open>None\<close> for what counts as a miss; several rows under \<open>on_multi = "error"\<close> are handled by
  the caller.\<close>

definition hit_row :: "enrich_rule \<Rightarrow> pyval \<Rightarrow> pydict option" where
  "hit_row rule value =
     (case value of
        PList vs \<Rightarrow>
          if en_on_multi rule = ''array'' then (let m = merge_rows rule vs in if m = [] then None else Some m)
          else (case rows_of vs of [] \<Rightarrow> None | r # _ \<Rightarrow> Some r)
      | PDict d \<Rightarrow> Some d
      | _ \<Rightarrow> None)"

record enrich_state =
  es_touched :: bool
  es_envelope :: pydict
  es_stats :: apply_stats

definition touch :: "(pydict \<Rightarrow> pydict) \<Rightarrow> enrich_state \<Rightarrow> enrich_state" where
  "touch f st = st\<lparr>es_touched := True, es_envelope := f (es_envelope st)\<rparr>"

definition count_in :: "(apply_stats \<Rightarrow> apply_stats) \<Rightarrow> enrich_state \<Rightarrow> enrich_state" where
  "count_in f st = st\<lparr>es_stats := f (es_stats st)\<rparr>"

definition tag_error :: "enrich_rule \<Rightarrow> string \<Rightarrow> enrich_state \<Rightarrow> enrich_state" where
  "tag_error rule tag st = (if en_on_error rule = ''tag'' then touch (add_tags [tag]) st else st)"

definition unknown_tags :: "enrich_rule \<Rightarrow> string list" where
  "unknown_tags rule = (if en_tags rule = [] then [''enrich_unknown''] else map (\<lambda>t. t @ ''_unknown'') (en_tags rule))"

definition apply_miss :: "enrich_rule \<Rightarrow> enrich_state \<Rightarrow> enrich_state" where
  "apply_miss rule st =
     (if en_on_miss rule = ''skip'' then st
      else if en_on_miss rule = ''tag'' then touch (add_tags (unknown_tags rule)) st
      else let (wrote, e) = write_outputs rule None True (es_envelope st) in
        if wrote then touch (\<lambda>_. add_source rule e) st else st)"

definition apply_hit :: "enrich_rule \<Rightarrow> pydict \<Rightarrow> enrich_state \<Rightarrow> enrich_state" where
  "apply_hit rule row st =
     (let (wrote, e) = write_outputs rule (Some row) False (es_envelope st) in
      if wrote then touch (\<lambda>_. add_source rule (add_tags (en_tags rule) e)) st else st)"

definition apply_enrich_rule :: "jmespath \<Rightarrow> resolution \<Rightarrow> enrich_state \<Rightarrow> enrich_rule \<Rightarrow> enrich_state" where
  "apply_enrich_rule jm res st rule =
     (let i = en_rule_id rule in
      if (case en_when rule of None \<Rightarrow> False | Some g \<Rightarrow> \<not> evaluate_when jm g (es_envelope st)) then st
      else case extract_key jm (es_envelope st) rule of
        None \<Rightarrow> st
      | Some key \<Rightarrow>
          (case res i key of
             Raises \<Rightarrow> tag_error rule ''enrich_degraded'' (count_in (bump_error i) st)
           | Not_Answered \<Rightarrow> count_in (bump_skip i) st
           | Answered value \<Rightarrow>
               if value = PNone then apply_miss rule (count_in (bump_miss i) st)
               else if is_PList value \<and> en_on_multi rule = ''error''
                 then tag_error rule ''enrich_ambiguous'' (count_in (bump_error i) st)
               else (case hit_row rule value of
                       None \<Rightarrow> count_in (bump_miss i) st
                     | Some row \<Rightarrow> apply_hit rule row (count_in (bump_hit i) st))))"

definition enrich_apply :: "jmespath \<Rightarrow> pydict \<Rightarrow> enrich_rule list \<Rightarrow> resolution \<Rightarrow> apply_stats \<Rightarrow> bool \<times> pydict \<times> apply_stats" where
  "enrich_apply jm envelope rules res stats =
     (if rules = [] then (False, envelope, stats)
      else let st = foldl (apply_enrich_rule jm res) \<lparr>es_touched = False, es_envelope = envelope, es_stats = stats\<rparr> rules in
        (es_touched st, es_envelope st,
         if es_touched st then (es_stats st)\<lparr>as_events_touched := as_events_touched (es_stats st) + 1\<rparr> else es_stats st))"

section \<open>What writing along a path changes\<close>

lemma path_get_PNone [simp]: "path_get p PNone = PNone"
  by (cases p) auto

lemma path_get_fresh [simp]: "p \<noteq> [] \<Longrightarrow> path_get p (PDict []) = PNone"
  by (cases p) (auto simp: dget_def)

lemma path_get_single: "path_get [k] (PDict d) = dget d k"
  by (simp add: Let_def)

lemma path_set_Nil_dom: "path_set p v d = Some d' \<Longrightarrow> p \<noteq> []"
  by (cases p) auto

lemma path_set_same: "path_set p v d = Some d' \<Longrightarrow> path_get p (PDict d') = v"
proof (induction p v d arbitrary: d' rule: path_set.induct)
  case (3 k k' ks v d)
  then show ?case by (cases "dget d k") (fastforce simp del: path_get.simps(2) simp: path_get.simps(2) [of k])+
qed (auto simp: Let_def)

lemma path_set_frame:
  "path_set p v d = Some d' \<Longrightarrow> apart p q \<Longrightarrow> path_get q (PDict d') = path_get q (PDict d)"
proof (induction p v d arbitrary: d' q rule: path_set.induct)
  case (2 k v d)
  then show ?case by (cases q) (auto simp: apart_def)
next
  case (3 k k' ks v d)
  from "3.prems"(2) obtain j js where q: "q = j # js" by (cases q) (auto simp: apart_def)
  show ?case
  proof (cases "j = k")
    case True
    with "3.prems"(2) q have ind: "apart (k' # ks) js" by (auto simp: apart_def)
    then have ne: "js \<noteq> []" by (auto simp: apart_def)
    show ?thesis
      using "3.prems"(1) True q ne "3.IH"(1) [OF _ _ ind] "3.IH"(2) [OF _ _ ind]
      by (cases "dget d k") (fastforce simp: Let_def)+
  qed (use "3.prems"(1) q in \<open>auto split: pyval.splits\<close>)
qed auto

text \<open>A value that is there and is no dictionary survives a write to a path that holds nothing.\<close>

lemma path_set_keeps_leaf:
  assumes "path_set p v d = Some d'" and "path_get p (PDict d) = PNone"
    and "path_get q (PDict d) \<noteq> PNone" and "\<not> is_PDict (path_get q (PDict d))"
  shows "path_get q (PDict d') = path_get q (PDict d)"
  using assms
proof (induction p v d arbitrary: d' q rule: path_set.induct)
  case (2 k v d)
  then show ?case by (cases q) (auto simp: Let_def split: if_splits)
next
  case (3 k k' ks v d)
  show ?case
  proof (cases q)
    case (Cons j js)
    show ?thesis
    proof (cases "j = k")
      case True
      then obtain e where e: "dget d k = PDict e"
        using "3.prems"(1,3) Cons by (cases "dget d k") (auto simp: Let_def)
      then obtain e' where e': "path_set (k' # ks) v e = Some e'" "d' = AList.update k (PDict e') d"
        using "3.prems"(1) by auto
      have "path_get (k' # ks) (PDict e) = PNone" "path_get js (PDict e) \<noteq> PNone" "\<not> is_PDict (path_get js (PDict e))"
        using "3.prems"(2-4) Cons True e by (auto simp: Let_def)
      from "3.IH"(2) [OF e e'(1) this] show ?thesis using e e'(2) Cons True by simp
    qed (use "3.prems"(1) Cons in \<open>auto split: pyval.splits\<close>)
  qed (use "3.prems"(4) in simp)
qed auto

lemma path_set_parent:
  "path_set (k # k' # ks) v d = Some d' \<Longrightarrow> is_PDict (path_get [k] (PDict d'))"
  by (auto simp: Let_def split: pyval.splits)

lemma path_set_grandparent:
  "path_set (k # k' # k'' # ks) v d = Some d' \<Longrightarrow> is_PDict (path_get [k, k'] (PDict d'))"
  by (auto simp: Let_def dget_Cons split: pyval.splits)

lemma path_set_in_dict:
  "is_PDict (path_get [k, k'] (PDict d)) \<Longrightarrow> \<exists>d'. path_set [k, k', k''] v d = Some d'"
  by (auto simp: Let_def split: pyval.splits if_splits)

section \<open>What a rule changes\<close>

definition agree_off :: "string list set \<Rightarrow> pydict \<Rightarrow> pydict \<Rightarrow> bool" where
  "agree_off ps e e' \<longleftrightarrow> (\<forall>q. (\<forall>p\<in>ps. apart p q) \<longrightarrow> path_get q (PDict e') = path_get q (PDict e))"

lemma agree_off_refl [simp]: "agree_off ps e e"
  by (simp add: agree_off_def)

lemma agree_off_trans: "agree_off ps e e1 \<Longrightarrow> agree_off ps' e1 e2 \<Longrightarrow> ps \<subseteq> qs \<Longrightarrow> ps' \<subseteq> qs \<Longrightarrow> agree_off qs e e2"
  unfolding agree_off_def by (metis subsetD)

lemma agree_off_set: "path_set p v e = Some e' \<Longrightarrow> p \<in> ps \<Longrightarrow> agree_off ps e e'"
  by (auto simp: agree_off_def path_set_frame)

lemma agree_off_put: "p \<in> ps \<Longrightarrow> agree_off ps e (put_list p xs e)"
  by (auto simp: put_list_def agree_off_set split: option.splits)

lemma agree_off_at: "agree_off ps e e' \<Longrightarrow> \<forall>p\<in>ps. apart p q \<Longrightarrow> path_get q (PDict e') = path_get q (PDict e)"
  by (simp add: agree_off_def)

lemma target_ok_cases:
  assumes "target_ok p"
  obtains f rest where "p = ''_centralops'' # ''enrichment'' # f # rest" "\<not> startswith f ''_''"
proof -
  obtain a b f rest where p: "p = a # b # f # rest"
    using assms by (cases p; cases "tl p"; cases "tl (tl p)") (auto simp: target_ok_def)
  with assms that show ?thesis by (simp add: target_ok_def)
qed

lemma reserved_independent [simp]:
  "target_ok p \<Longrightarrow> apart p sources_path" "target_ok p \<Longrightarrow> apart p tags_path"
  "apart tags_path sources_path"
  by (auto simp: apart_def sources_path_def tags_path_def startswith_def elim!: target_ok_cases)

definition targets_of :: "enrich_rule \<Rightarrow> string list set" where
  "targets_of r = co_target_path ` set (en_outputs r)"

definition targets_ok :: "enrich_rule \<Rightarrow> bool" where
  "targets_ok r \<longleftrightarrow> (\<forall>p\<in>targets_of r. target_ok p)"

text \<open>Writing the outputs: nothing outside the targets changes, and a write leaves an enrichment object behind.\<close>

definition kept_leaves :: "pydict \<Rightarrow> pydict \<Rightarrow> bool" where
  "kept_leaves e e' \<longleftrightarrow> (\<forall>q. path_get q (PDict e) \<noteq> PNone \<longrightarrow> \<not> is_PDict (path_get q (PDict e)) \<longrightarrow>
     path_get q (PDict e') = path_get q (PDict e))"

lemma write_output_cases:
  "write_output r val dflt st out = st \<or>
   (\<exists>e. write_output r val dflt st out = (True, e) \<and>
      path_set (co_target_path out) (output_payload val dflt out) (snd st) = Some e \<and>
      (en_overwrite r \<or> path_get (co_target_path out) (PDict (snd st)) = PNone))"
  by (auto simp: write_output_def Let_def split: option.splits)

lemma write_outputs_effect:
  assumes "targets_ok r" and "write_outputs r val dflt e = (wrote, e')"
  shows "agree_off (targets_of r) e e' \<and> (\<not> wrote \<longrightarrow> e' = e) \<and>
    (wrote \<longrightarrow> is_PDict (path_get [''_centralops'', ''enrichment''] (PDict e'))) \<and>
    (\<not> en_overwrite r \<longrightarrow> kept_leaves e e')"
proof -
  define P where "P = (\<lambda>st. agree_off (targets_of r) e (snd st) \<and> (\<not> fst st \<longrightarrow> snd st = e) \<and>
    (fst st \<longrightarrow> is_PDict (path_get [''_centralops'', ''enrichment''] (PDict (snd st)))) \<and>
    (\<not> en_overwrite r \<longrightarrow> kept_leaves e (snd st)))"
  have "P (foldl (write_output r val dflt) (False, e) (en_outputs r))"
  proof (rule foldl_invariant)
    show "P (False, e)" by (simp add: P_def kept_leaves_def)
    fix st out assume out: "out \<in> set (en_outputs r)" and P: "P st"
    consider "write_output r val dflt st out = st"
      | e1 where "write_output r val dflt st out = (True, e1)"
          "path_set (co_target_path out) (output_payload val dflt out) (snd st) = Some e1"
          "en_overwrite r \<or> path_get (co_target_path out) (PDict (snd st)) = PNone"
      using write_output_cases by blast
    then show "P (write_output r val dflt st out)"
    proof cases
      case 2
      have t: "co_target_path out \<in> targets_of r" using out by (simp add: targets_of_def)
      then have ok: "target_ok (co_target_path out)" using assms(1) by (simp add: targets_ok_def)
      have "agree_off (targets_of r) e e1"
        using P agree_off_set [OF 2(2) t] agree_off_trans by (metis P_def subset_refl)
      moreover have "is_PDict (path_get [''_centralops'', ''enrichment''] (PDict e1))"
        using 2(2) path_set_grandparent by (metis target_ok_cases [OF ok])
      moreover have "kept_leaves e e1" if "\<not> en_overwrite r"
      proof -
        have "kept_leaves e (snd st)" using P that by (simp add: P_def)
        with 2(2,3) that show ?thesis by (simp add: kept_leaves_def path_set_keeps_leaf)
      qed
      ultimately show ?thesis using 2(1) by (simp add: P_def)
    qed (use P in simp)
  qed
  then show ?thesis using assms(2) by (simp add: P_def write_outputs_def)
qed

abbreviation reserved_paths :: "string list set" where
  "reserved_paths \<equiv> {tags_path, sources_path}"

lemma add_tags_effect: "agree_off {tags_path} e (add_tags ts e)"
  by (simp add: add_tags_def agree_off_put)

lemma list_at_agree: "agree_off ps e e' \<Longrightarrow> \<forall>p\<in>ps. apart p q \<Longrightarrow> list_at q e' = list_at q e"
  by (simp add: list_at_def agree_off_at)

lemma add_source_effect:
  assumes "is_PDict (path_get [''_centralops'', ''enrichment''] (PDict e))"
  shows "list_at sources_path (add_source r e) = list_at sources_path e @ [source_entry r]"
proof -
  obtain e' where e': "path_set sources_path (PList (list_at sources_path e @ [source_entry r])) e = Some e'"
    using path_set_in_dict [OF assms] by (auto simp: sources_path_def)
  then show ?thesis using path_set_same [OF e'] by (simp add: add_source_def put_list_def list_at_def)
qed

text \<open>A rule either records itself as a source, or changes at most the tags; an event it leaves untouched is the same.\<close>

definition rule_effect :: "enrich_rule \<Rightarrow> bool \<Rightarrow> enrich_state \<Rightarrow> enrich_state \<Rightarrow> bool" where
  "rule_effect r wrote st st' \<longleftrightarrow>
     agree_off (if wrote then insert sources_path (insert tags_path (targets_of r)) else {tags_path}) (es_envelope st) (es_envelope st') \<and>
     list_at sources_path (es_envelope st') = list_at sources_path (es_envelope st) @ (if wrote then [source_entry r] else []) \<and>
     (es_touched st \<longrightarrow> es_touched st') \<and> (\<not> es_touched st' \<longrightarrow> es_envelope st' = es_envelope st)"

lemma rule_effect_same [simp]: "rule_effect r False st (count_in f st)" "rule_effect r False st st"
  by (simp_all add: rule_effect_def count_in_def)

lemma rule_effect_count: "rule_effect r w (count_in f st) st' \<longleftrightarrow> rule_effect r w st st'"
  by (simp add: rule_effect_def count_in_def)

lemma rule_effect_tags: "rule_effect r False st (touch (add_tags ts) st)"
  using add_tags_effect by (auto simp: rule_effect_def touch_def intro!: list_at_agree)

lemma rule_effect_write:
  assumes "targets_ok r" and "write_outputs r val dflt (es_envelope st) = (True, e)"
  shows "rule_effect r True st (touch (\<lambda>_. add_source r (add_tags ts e)) st)"
proof -
  let ?ps = "insert sources_path (insert tags_path (targets_of r))" and ?e1 = "add_tags ts e"
  note w = write_outputs_effect [OF assms]
  have dict: "is_PDict (path_get [''_centralops'', ''enrichment''] (PDict ?e1))"
    using w agree_off_at [OF add_tags_effect [of e ts], of "[''_centralops'', ''enrichment'']"] by (simp add: tags_path_def apart_def)
  have "agree_off ?ps (es_envelope st) ?e1"
    by (rule agree_off_trans [OF conjunct1 [OF w] add_tags_effect]) auto
  moreover have "agree_off ?ps ?e1 (add_source r ?e1)" by (simp add: add_source_def agree_off_put)
  ultimately have agree: "agree_off ?ps (es_envelope st) (add_source r ?e1)" 
    by (rule agree_off_trans) simp_all
  have "list_at sources_path ?e1 = list_at sources_path e" using list_at_agree [OF add_tags_effect] by simp
  also have "\<dots> = list_at sources_path (es_envelope st)"
    using w assms(1) by (auto simp: targets_ok_def intro!: list_at_agree)
  finally have "list_at sources_path ?e1 = list_at sources_path (es_envelope st)" .
  with add_source_effect [OF dict, of r] agree show ?thesis by (simp add: rule_effect_def touch_def)
qed

lemma add_tags_Nil [simp]: "add_tags [] e = e"
  by (simp add: add_tags_def)

lemma apply_miss_effect:
  assumes "targets_ok r"
  shows "\<exists>w. rule_effect r w st (apply_miss r st)"
proof -
  obtain wrote e where w: "write_outputs r None True (es_envelope st) = (wrote, e)" by force
  show ?thesis
  proof (cases "en_on_miss r = ''skip'' \<or> en_on_miss r = ''tag''")
    case True
    then show ?thesis by (intro exI [of _ False]) (auto simp: apply_miss_def rule_effect_tags)
  next
    case False
    then show ?thesis using w rule_effect_write [OF assms, of None True st e "[]"]
      by (intro exI [of _ wrote]) (cases wrote, simp_all add: apply_miss_def)
  qed
qed

lemma apply_hit_effect:
  assumes "targets_ok r"
  shows "\<exists>w. rule_effect r w st (apply_hit r row st)"
proof -
  obtain wrote e where w: "write_outputs r (Some row) False (es_envelope st) = (wrote, e)" by force
  then show ?thesis using rule_effect_write [OF assms, of "Some row" False st e]
    by (intro exI [of _ wrote]) (cases wrote, simp_all add: apply_hit_def)
qed

lemma tag_error_effect: "rule_effect r False st (tag_error r tag st)"
  by (simp add: tag_error_def rule_effect_tags)

text \<open>How a rule ends: not at all, with a counter, a tag for the error, a miss or a hit.\<close>

lemma apply_enrich_rule_cases:
  obtains (skipped) "apply_enrich_rule jm res st r = st"
  | (counted) b where "b \<in> {bump_skip (en_rule_id r), bump_miss (en_rule_id r)}" "apply_enrich_rule jm res st r = count_in b st"
  | (error) tag where "apply_enrich_rule jm res st r = tag_error r tag (count_in (bump_error (en_rule_id r)) st)"
  | (miss) "apply_enrich_rule jm res st r = apply_miss r (count_in (bump_miss (en_rule_id r)) st)"
  | (hit) row where "apply_enrich_rule jm res st r = apply_hit r row (count_in (bump_hit (en_rule_id r)) st)"
proof (cases "(case en_when r of None \<Rightarrow> False | Some g \<Rightarrow> \<not> evaluate_when jm g (es_envelope st))")
  case True
  then show thesis by (intro skipped) (simp add: apply_enrich_rule_def Let_def)
next
  case gate: False
  show thesis
  proof (cases "extract_key jm (es_envelope st) r")
    case None
    then show thesis by (intro skipped) (simp add: apply_enrich_rule_def Let_def)
  next
    case (Some key)
    note eq = apply_enrich_rule_def [of jm res st r, unfolded Let_def if_not_P [OF gate] Some option.case]
    show thesis
    proof (cases "res (en_rule_id r) key")
      case (Answered v)
      note eq = eq [unfolded Answered answer.case]
      show thesis
      proof (cases "hit_row r v")
        case None
        then show thesis using eq counted error miss by (auto split: if_splits)
      next
        case (Some row)
        then show thesis using eq error miss hit by (auto split: if_splits)
      qed
    qed (use eq counted error in auto)
  qed
qed

lemma apply_enrich_rule_effect:
  assumes "targets_ok r"
  shows "\<exists>w. rule_effect r w st (apply_enrich_rule jm res st r)"
proof (cases rule: apply_enrich_rule_cases [of jm res st r])
  case miss
  obtain w where "rule_effect r w (count_in (bump_miss (en_rule_id r)) st) (apply_enrich_rule jm res st r)"
    using apply_miss_effect [OF assms] miss by metis
  then show ?thesis unfolding rule_effect_count by blast
next
  case (hit row)
  obtain w where "rule_effect r w (count_in (bump_hit (en_rule_id r)) st) (apply_enrich_rule jm res st r)"
    using apply_hit_effect [OF assms] hit by metis
  then show ?thesis unfolding rule_effect_count by blast
next
  case (error tag)
  have "rule_effect r False (count_in (bump_error (en_rule_id r)) st) (apply_enrich_rule jm res st r)"
    unfolding error by (rule tag_error_effect)
  then show ?thesis unfolding rule_effect_count by blast
qed (use rule_effect_same in \<open>blast | metis\<close>)+

section \<open>Guarantees for an event\<close>

lemma rule_ok_targets: "rule_ok rg r \<Longrightarrow> targets_ok r"
  by (auto simp: rule_ok_def outputs_ok_def targets_ok_def targets_of_def)

definition wrote_by :: "enrich_rule list \<Rightarrow> enrich_rule list \<Rightarrow> enrich_state \<Rightarrow> enrich_state \<Rightarrow> bool" where
  "wrote_by ws rules st st' \<longleftrightarrow> subseq ws rules \<and>
     list_at sources_path (es_envelope st') = list_at sources_path (es_envelope st) @ map source_entry ws \<and>
     agree_off (reserved_paths \<union> (\<Union>w\<in>set ws. targets_of w)) (es_envelope st) (es_envelope st') \<and>
     (es_touched st \<longrightarrow> es_touched st') \<and> (\<not> es_touched st' \<longrightarrow> es_envelope st' = es_envelope st)"

lemma wrote_by_snoc:
  assumes "wrote_by ws rules st st1" and "rule_effect r w st1 st2"
  shows "wrote_by (if w then ws @ [r] else ws) (rules @ [r]) st st2"
proof -
  let ?qs = "reserved_paths \<union> (\<Union>w\<in>set (if w then ws @ [r] else ws). targets_of w)"
  have "agree_off ?qs (es_envelope st) (es_envelope st2)"
    using assms unfolding wrote_by_def rule_effect_def
    by (elim conjE) (rule agree_off_trans, assumption, assumption, auto)
  moreover have "subseq (if w then ws @ [r] else ws) (rules @ [r])"
    using assms(1) by (auto simp: wrote_by_def list_emb_append2)
  ultimately show ?thesis using assms by (auto simp: wrote_by_def rule_effect_def)
qed

lemma apply_rules_wrote_by:
  assumes "\<forall>r\<in>set rules. targets_ok r"
  shows "\<exists>ws. wrote_by ws rules st (foldl (apply_enrich_rule jm res) st rules)"
  using assms
proof (induction rules rule: rev_induct)
  case Nil
  then show ?case by (intro exI [of _ "[]"]) (simp add: wrote_by_def)
next
  case (snoc r rules)
  then obtain ws where "wrote_by ws rules st (foldl (apply_enrich_rule jm res) st rules)" by auto
  with snoc.prems apply_enrich_rule_effect [of r "foldl (apply_enrich_rule jm res) st rules" jm res]
  show ?case using wrote_by_snoc by fastforce
qed

lemma enrich_apply_wrote_by:
  assumes "\<forall>r\<in>set rules. targets_ok r" and "enrich_apply jm env rules res stats = (touched, env', stats')"
  shows "\<exists>ws. subseq ws rules \<and> list_at sources_path env' = list_at sources_path env @ map source_entry ws \<and>
    agree_off (reserved_paths \<union> (\<Union>w\<in>set ws. targets_of w)) env env' \<and> (\<not> touched \<longrightarrow> env' = env)"
  using apply_rules_wrote_by [OF assms(1), of "\<lparr>es_touched = False, es_envelope = env, es_stats = stats\<rparr>" jm res] assms(2)
  by (cases "rules = []") (auto simp: enrich_apply_def wrote_by_def Let_def)

lemma apart_head: "prefix [a, f] p \<Longrightarrow> k \<noteq> a \<Longrightarrow> apart p [k]" "prefix [a, f] p \<Longrightarrow> k \<noteq> f \<Longrightarrow> apart p [a, k]"
  by (auto simp: apart_def prefix_def Cons_eq_append_conv)

lemma policy_targets: "compile_policy jm fp rg raw = Inr pol \<Longrightarrow> set rules \<subseteq> set (pol_rules pol) \<Longrightarrow> \<forall>r\<in>set rules. targets_ok r"
  using compile_policy_ok rule_ok_targets by (fastforce simp: policy_ok_def)

lemma enrich_apply_frame:
  assumes "\<forall>r\<in>set rules. targets_ok r" and "enrich_apply jm env rules res stats = (touched, env', stats')"
  shows "k \<noteq> ''_centralops'' \<Longrightarrow> dget env' k = dget env k"
    and "k \<noteq> ''enrichment'' \<Longrightarrow> k \<noteq> ''enrichment_tags'' \<Longrightarrow>
      path_get [''_centralops'', k] (PDict env') = path_get [''_centralops'', k] (PDict env)"
proof -
  obtain ws where ws: "subseq ws rules" "agree_off (reserved_paths \<union> (\<Union>w\<in>set ws. targets_of w)) env env'"
    using enrich_apply_wrote_by [OF assms] by blast
  have heads: "\<exists>f. (f = ''enrichment'' \<or> f = ''enrichment_tags'') \<and> prefix [''_centralops'', f] p"
    if "p \<in> reserved_paths \<union> (\<Union>w\<in>set ws. targets_of w)" for p
  proof -
    have "p \<in> reserved_paths \<or> target_ok p"
      using that assms(1) list_emb_set [OF ws(1)] unfolding targets_ok_def by blast
    then show ?thesis
    proof
      assume "target_ok p"
      then show ?thesis by (elim target_ok_cases) simp
    qed (auto simp: tags_path_def sources_path_def)
  qed
  have "path_get [k] (PDict env') = path_get [k] (PDict env)" if "k \<noteq> ''_centralops''"
    by (rule agree_off_at [OF ws(2)]) (use heads apart_head(1) that in blast)
  then show "k \<noteq> ''_centralops'' \<Longrightarrow> dget env' k = dget env k" unfolding path_get_single by blast
  show "path_get [''_centralops'', k] (PDict env') = path_get [''_centralops'', k] (PDict env)"
    if "k \<noteq> ''enrichment''" "k \<noteq> ''enrichment_tags''"
    by (rule agree_off_at [OF ws(2)]) (use heads apart_head(2) that in blast)
qed


text \<open>Leaves outside the reserved paths.\<close>

definition leaves_kept :: "enrich_state \<Rightarrow> enrich_state \<Rightarrow> bool" where
  "leaves_kept st st' \<longleftrightarrow> (\<forall>q. apart tags_path q \<longrightarrow> apart sources_path q \<longrightarrow>
     path_get q (PDict (es_envelope st)) \<noteq> PNone \<longrightarrow> \<not> is_PDict (path_get q (PDict (es_envelope st))) \<longrightarrow>
     path_get q (PDict (es_envelope st')) = path_get q (PDict (es_envelope st)))"

lemma leaves_kept_count: "leaves_kept (count_in f st) st' \<longleftrightarrow> leaves_kept st st'" "leaves_kept st (count_in f st)"
  by (simp_all add: leaves_kept_def count_in_def)

lemma leaves_kept_tags: "leaves_kept st (touch (add_tags ts) st)"
  using agree_off_at [OF add_tags_effect] by (simp add: leaves_kept_def touch_def)

lemma leaves_kept_write:
  assumes "targets_ok r" and "\<not> en_overwrite r" and "write_outputs r val dflt (es_envelope st) = (wrote, e)"
  shows "leaves_kept st (touch (\<lambda>_. add_source r (add_tags ts e)) st)"
proof -
  have "path_get q (PDict (add_source r (add_tags ts e))) = path_get q (PDict e)" if "apart tags_path q" "apart sources_path q" for q
    using agree_off_at [OF add_tags_effect [of e ts], of q] that
      agree_off_at [OF agree_off_put [of sources_path "{sources_path}"], of q]
    by (simp add: add_source_def)
  moreover have "kept_leaves (es_envelope st) e" using write_outputs_effect [OF assms(1,3)] assms(2) by simp
  ultimately show ?thesis by (simp add: leaves_kept_def touch_def kept_leaves_def)
qed

lemma apply_miss_leaves: "targets_ok r \<Longrightarrow> \<not> en_overwrite r \<Longrightarrow> leaves_kept st (apply_miss r st)"
  using leaves_kept_write [of r None True st _ _ "[]"]
  by (simp add: apply_miss_def leaves_kept_tags split: prod.splits) (simp add: leaves_kept_def)

lemma apply_hit_leaves: "targets_ok r \<Longrightarrow> \<not> en_overwrite r \<Longrightarrow> leaves_kept st (apply_hit r row st)"
  using leaves_kept_write [of r "Some row" False st _ _ "en_tags r"]
  by (simp add: apply_hit_def split: prod.splits) (simp add: leaves_kept_def)

lemma apply_rule_leaves:
  assumes "targets_ok r" and "\<not> en_overwrite r"
  shows "leaves_kept st (apply_enrich_rule jm res st r)"
proof (cases rule: apply_enrich_rule_cases [of jm res st r])
  case miss
  have "leaves_kept (count_in (bump_miss (en_rule_id r)) st) (apply_enrich_rule jm res st r)"
    unfolding miss by (rule apply_miss_leaves [OF assms])
  then show ?thesis unfolding leaves_kept_count .
next
  case (hit row)
  have "leaves_kept (count_in (bump_hit (en_rule_id r)) st) (apply_enrich_rule jm res st r)"
    unfolding hit by (rule apply_hit_leaves [OF assms])
  then show ?thesis unfolding leaves_kept_count .
next
  case (error tag)
  have "leaves_kept (count_in (bump_error (en_rule_id r)) st) (apply_enrich_rule jm res st r)"
    unfolding error tag_error_def by (simp add: leaves_kept_tags) (simp add: leaves_kept_def)
  then show ?thesis unfolding leaves_kept_count .
qed (auto simp: leaves_kept_count(2), simp add: leaves_kept_def)

text \<open>Enrichment does not overwrite. With rules that do not ask for it, a value that is already in the event and is no
  object (of the vendor, of the mapping or of an earlier rule) is the same afterwards; only the tags and the list
  of sources grow.\<close>

theorem enrich_never_overwrites:
  assumes "compile_policy jm fp rg raw = Inr pol" and "set rules \<subseteq> set (pol_rules pol)"
    and "\<forall>r\<in>set rules. \<not> en_overwrite r"
    and "enrich_apply jm env rules res stats = (touched, env', stats')"
    and "apart tags_path q" and "apart sources_path q"
    and "path_get q (PDict env) \<noteq> PNone" and "\<not> is_PDict (path_get q (PDict env))"
  shows "path_get q (PDict env') = path_get q (PDict env)"
proof -
  note ok = policy_targets [OF assms(1,2)]
  let ?st = "\<lparr>es_touched = False, es_envelope = env, es_stats = stats\<rparr>"
  have "leaves_kept ?st (foldl (apply_enrich_rule jm res) ?st rules)"
  proof (rule foldl_invariant)
    show "leaves_kept ?st ?st" by (simp add: leaves_kept_def)
    fix st r assume "r \<in> set rules" and st: "leaves_kept ?st st"
    then have "leaves_kept st (apply_enrich_rule jm res st r)" using ok assms(3) by (intro apply_rule_leaves) auto
    with st show "leaves_kept ?st (apply_enrich_rule jm res st r)" by (simp add: leaves_kept_def)
  qed
  then show ?thesis using assms(4-8) by (auto simp: enrich_apply_def leaves_kept_def Let_def split: if_splits)
qed

definition ex_enrich_event :: pydict where
  "ex_enrich_event = [(''ip'', PStr ''10.0.0.1:443''), (''raw'', PStr ''x'')]"

definition ex_resolution :: resolution where
  "ex_resolution i key = (if key = ''10.0.0.1'' then Answered (PDict [(''site'', PStr ''hq'')]) else Answered PNone)"

definition ex_stats :: apply_stats where
  "ex_stats = \<lparr>as_events_touched = 0, as_hits = [], as_misses = [], as_skipped = [], as_errors = []\<rparr>"

definition ex_enriched :: pydict where
  "ex_enriched = ex_enrich_event @ [(''_centralops'', PDict [(''enrichment'', PDict [(''site'', PStr ''hq''),
     (''_sources'', PList [source_entry ex_enrich_rule])]), (''enrichment_tags'', PList [PStr ''known''])])]"

lemma ex_enrich_applied:
  "enrich_apply fast_jmespath ex_enrich_event [ex_enrich_rule] ex_resolution ex_stats =
     (True, ex_enriched, ex_stats\<lparr>as_events_touched := 1, as_hits := [(''r1'', 1)]\<rparr>)"
  by code_simp


theorem enrich_never_overwrites_witness: "path_get [''raw''] (PDict ex_enriched) = path_get [''raw''] (PDict ex_enrich_event)"
proof -
  have "apart tags_path [''raw'']" "apart sources_path [''raw'']" by (simp_all add: apart_def tags_path_def sources_path_def)
  then show ?thesis
    using enrich_never_overwrites [OF ex_policy_compiles _ _ ex_enrich_applied, of "[''raw'']"]
    by (simp add: ex_enrich_event_def ex_enrich_rule_def dget_Cons)
qed

end
