(* ===== verification/Inflight_Rules.thy ===== *)
theory Inflight_Rules
  imports Routing_Engine Py_Json
begin

text \<open>
  In-flight detection rules: their compilation from the database row (\<open>inflight/runtime.py\<close>, \<open>compile_row\<close> and below)
  and their evaluation on an event (\<open>inflight/matcher.py\<close>). Reasons of rejection are the code's labels. The conversion
  of a text by \<open>float()\<close> is the parameter \<open>fl\<close>, the one inside \<open>json.loads\<close> the parameter \<open>cf\<close>; floats are rationals.
\<close>

section \<open>Compiled form\<close>

text \<open>The right-hand side of a clause: a value, or the frozenset of an allow or deny list. A membership test of an
  unhashable value in a frozenset raises, which \<open>compare_values\<close> turns into False.\<close>

datatype clause_value = CVal pyval | CSet "pyval list"

record compiled_clause =
  cl_path :: "string list"
  cl_op :: string
  cl_value :: clause_value
  cl_numeric :: bool

record inflight_rule =
  ir_rule_id :: int
  ir_name :: string
  ir_severity_id :: int
  ir_suppression :: int
  ir_group_by_path :: "string list option"
  ir_clauses :: "compiled_clause list"
  ir_emit_event :: bool
  ir_max_dedup_keys :: "int option"
  ir_min_count :: int
  ir_window_seconds :: int
  ir_leg_index :: "nat option"
  ir_legs_total :: nat
  ir_leg_label :: string
  ir_absence :: bool
  ir_forget_seconds :: int

record compiled_rule_set =
  rs_rules :: "inflight_rule list"
  rs_share_paths :: bool

section \<open>Evaluation\<close>

fun resolve_path :: "string list \<Rightarrow> pyval \<Rightarrow> pyval" where
  "resolve_path [] cur = cur"
| "resolve_path (part # path) cur =
     (case cur of
        PDict d \<Rightarrow> let v = dget d part in if v = PNone then PNone else resolve_path path v
      | _ \<Rightarrow> PNone)"

text \<open>\<open>float(value)\<close>, \<open>None\<close> when it raises. Only the number of the result is used.\<close>

fun as_float :: "(string \<Rightarrow> rat option) \<Rightarrow> pyval \<Rightarrow> rat option" where
  "as_float fl (PInt i) = Some (of_int i)"
| "as_float fl (PBool b) = Some (if b then 1 else 0)"
| "as_float fl (PFloat q _) = Some q"
| "as_float fl (PStr s) = fl s"
| "as_float fl _ = None"

definition float_val :: "rat \<Rightarrow> pyval" where
  "float_val q = PFloat q []"

definition coerce_actual :: "(string \<Rightarrow> rat option) \<Rightarrow> compiled_clause \<Rightarrow> pyval \<Rightarrow> pyval" where
  "coerce_actual fl c actual =
     (if cl_numeric c \<and> actual \<noteq> PNone
      then (case as_float fl actual of None \<Rightarrow> PNone | Some q \<Rightarrow> float_val q) else actual)"

definition compare_clause :: "string \<Rightarrow> pyval \<Rightarrow> clause_value \<Rightarrow> bool" where
  "compare_clause op1 actual v =
     (case v of
        CVal w \<Rightarrow> compare_values op1 actual w
      | CSet ws \<Rightarrow>
          if actual \<noteq> PNone \<and> \<not> hashable actual \<and> (op1 = ''in'' \<or> op1 = ''nin'') then False
          else compare_values op1 actual (PList ws))"

definition clause_holds :: "(string \<Rightarrow> rat option) \<Rightarrow> compiled_clause \<Rightarrow> pyval \<Rightarrow> bool" where
  "clause_holds fl c actual = compare_clause (cl_op c) (coerce_actual fl c actual) (cl_value c)"

definition rule_matches :: "(string \<Rightarrow> rat option) \<Rightarrow> pydict \<Rightarrow> inflight_rule \<Rightarrow> bool" where
  "rule_matches fl envelope rule =
     list_all (\<lambda>c. clause_holds fl c (resolve_path (cl_path c) (PDict envelope))) (ir_clauses rule)"

definition evaluate_inflight :: "(string \<Rightarrow> rat option) \<Rightarrow> pydict \<Rightarrow> inflight_rule list \<Rightarrow> inflight_rule list" where
  "evaluate_inflight fl envelope rules = filter (rule_matches fl envelope) rules"

text \<open>\<open>evaluate_ruleset\<close>: the paths already resolved for this event are kept, uncoerced.\<close>

type_synonym path_cache = "(string list \<times> pyval) list"

fun cached_clauses ::
    "(string \<Rightarrow> rat option) \<Rightarrow> pydict \<Rightarrow> compiled_clause list \<Rightarrow> path_cache \<Rightarrow> bool \<times> path_cache" where
  "cached_clauses fl envelope [] cache = (True, cache)"
| "cached_clauses fl envelope (c # cs) cache =
     (let (actual, cache1) =
        (case map_of cache (cl_path c) of
           Some v \<Rightarrow> (v, cache)
         | None \<Rightarrow> let v = resolve_path (cl_path c) (PDict envelope) in (v, (cl_path c, v) # cache))
      in if clause_holds fl c actual then cached_clauses fl envelope cs cache1 else (False, cache1))"

fun cached_rules :: "(string \<Rightarrow> rat option) \<Rightarrow> pydict \<Rightarrow> inflight_rule list \<Rightarrow> path_cache \<Rightarrow> inflight_rule list" where
  "cached_rules fl envelope [] cache = []"
| "cached_rules fl envelope (r # rs) cache =
     (let (ok, cache1) = cached_clauses fl envelope (ir_clauses r) cache
      in (if ok then [r] else []) @ cached_rules fl envelope rs cache1)"

definition evaluate_ruleset :: "(string \<Rightarrow> rat option) \<Rightarrow> pydict \<Rightarrow> compiled_rule_set \<Rightarrow> inflight_rule list" where
  "evaluate_ruleset fl envelope rs =
     (if \<not> rs_share_paths rs then evaluate_inflight fl envelope (rs_rules rs)
      else cached_rules fl envelope (rs_rules rs) [])"

section \<open>Compilation\<close>

record inflight_settings =
  is_max_where_clauses :: nat
  is_max_window_seconds :: int
  is_max_window_count :: int
  is_max_legs :: nat
  is_absence_max_window :: int
  is_absence_max_forget :: int

text \<open>The columns of \<open>CorrelationRule\<close> the compiler reads.\<close>

record rule_row =
  rr_id :: int
  rr_name :: string
  rr_rule_type :: "string option"
  rr_where_json :: "string option"
  rr_legs_json :: "string option"
  rr_group_by_field :: "string option"
  rr_severity_id :: "int option"
  rr_suppression :: "int option"
  rr_emit_event :: bool
  rr_max_dedup_keys :: "int option"
  rr_min_count :: "int option"
  rr_window_seconds :: "int option"
  rr_absence_forget :: "int option"

definition inflight_ops :: "string list" where
  "inflight_ops = [''eq'', ''ne'', ''contains'', ''gt'', ''lt'', ''gte'', ''lte'', ''in'', ''nin'', ''exists'']"

definition numeric_ops :: "string list" where
  "numeric_ops = [''gt'', ''lt'', ''gte'', ''lte'']"

definition negative_ops :: "string list" where
  "negative_ops = [''ne'', ''nin'']"

definition envelope_roots :: "string list" where
  "envelope_roots = [''_centralops'', ''normalized'', ''raw'']"

definition text_or :: "string option \<Rightarrow> string \<Rightarrow> string" where
  "text_or t d = (case t of None \<Rightarrow> d | Some s \<Rightarrow> if s = [] then d else s)"

definition int_or :: "int option \<Rightarrow> int \<Rightarrow> int" where
  "int_or v d = (case v of None \<Rightarrow> d | Some i \<Rightarrow> if i = 0 then d else i)"

definition dicts_of :: "pyval list \<Rightarrow> pydict list" where
  "dicts_of vs = List.map_filter (\<lambda>v. case v of PDict d \<Rightarrow> Some d | _ \<Rightarrow> None) vs"

definition validate_where_json :: "(string \<Rightarrow> pyval) \<Rightarrow> string option \<Rightarrow> string + pydict list" where
  "validate_where_json cf raw =
     (case json_loads cf (text_or raw ''[]'') of
        Some (PList vs) \<Rightarrow> if dicts_of vs = [] then Inl ''empty_where'' else Inr (dicts_of vs)
      | _ \<Rightarrow> Inl ''bad_json'')"

definition leg_ok :: "pydict \<Rightarrow> bool" where
  "leg_ok leg \<longleftrightarrow>
     (case dget leg ''where'' of PList cs \<Rightarrow> dicts_of cs \<noteq> [] | _ \<Rightarrow> False) \<and>
     (case dget leg ''join_path'' of PStr s \<Rightarrow> s \<noteq> [] | _ \<Rightarrow> False) \<and>
     (case dget leg ''stream'' of PNone \<Rightarrow> True | PStr s \<Rightarrow> strip s \<noteq> [] | _ \<Rightarrow> False)"

definition validate_legs_json :: "inflight_settings \<Rightarrow> (string \<Rightarrow> pyval) \<Rightarrow> string option \<Rightarrow> string + pydict list" where
  "validate_legs_json st cf raw =
     (case json_loads cf (text_or raw ''[]'') of
        Some (PList vs) \<Rightarrow>
          (let legs = dicts_of vs in
           if length legs < 2 \<or> length legs \<noteq> length vs then Inl ''bad_legs''
           else if length legs > is_max_legs st then Inl ''legs_over_cap''
           else if list_all leg_ok legs then Inr legs else Inl ''bad_legs'')
      | _ \<Rightarrow> Inl ''bad_legs'')"

definition list_value :: "pyval \<Rightarrow> clause_value option" where
  "list_value v = (case v of PList vs \<Rightarrow> Some (if list_all hashable vs then CSet vs else CVal v) | _ \<Rightarrow> None)"

definition compile_clause :: "(string \<Rightarrow> rat option) \<Rightarrow> pydict \<Rightarrow> string + compiled_clause" where
  "compile_clause fl c =
     (let op1 = (if truthy (dget c ''op'') then py_str (dget c ''op'') else ''eq'') in
      if op1 \<notin> set inflight_ops then Inl ''unknown_op''
      else case dget c ''field'' of
        PStr f \<Rightarrow>
          if f = [] then Inl ''bad_json''
          else let path = split_on CHR ''.'' f; value = dget c ''value'' in
            if op1 = ''in'' \<or> op1 = ''nin'' then
              (case list_value value of
                 None \<Rightarrow> Inl ''bad_json''
               | Some v \<Rightarrow> Inr \<lparr>cl_path = path, cl_op = op1, cl_value = v, cl_numeric = False\<rparr>)
            else if op1 = ''exists'' then
              Inr \<lparr>cl_path = path, cl_op = op1, cl_value = CVal (PBool (truthy value)), cl_numeric = False\<rparr>
            else if op1 \<in> set numeric_ops then
              (case as_float fl value of
                 None \<Rightarrow> Inl ''bad_json''
               | Some q \<Rightarrow> Inr \<lparr>cl_path = path, cl_op = op1, cl_value = CVal (float_val q), cl_numeric = True\<rparr>)
            else Inr \<lparr>cl_path = path, cl_op = op1, cl_value = CVal value, cl_numeric = False\<rparr>
      | _ \<Rightarrow> Inl ''bad_json'')"

definition exists_clause :: "string list \<Rightarrow> compiled_clause" where
  "exists_clause path = \<lparr>cl_path = path, cl_op = ''exists'', cl_value = CVal (PBool True), cl_numeric = False\<rparr>"

definition unguarded_paths :: "compiled_clause list \<Rightarrow> string list list" where
  "unguarded_paths cs =
     sort (remdups (filter (\<lambda>p. p \<notin> cl_path ` set (filter (\<lambda>c. cl_op c = ''exists'') cs))
       (map cl_path (filter (\<lambda>c. cl_op c \<in> set negative_ops) cs))))"

definition compile_clauses :: "inflight_settings \<Rightarrow> (string \<Rightarrow> rat option) \<Rightarrow> pydict list \<Rightarrow> string + compiled_clause list" where
  "compile_clauses st fl clauses_raw =
     (if length clauses_raw > is_max_where_clauses st then Inl ''over_cap''
      else bind_result (mapM_result (compile_clause fl) clauses_raw) (\<lambda>cs.
        Inr (cs @ map exists_clause (unguarded_paths cs))))"

definition base_rule :: "rule_row \<Rightarrow> compiled_clause list \<Rightarrow> inflight_rule" where
  "base_rule row clauses =
     \<lparr>ir_rule_id = rr_id row, ir_name = rr_name row, ir_severity_id = int_or (rr_severity_id row) 4,
      ir_suppression = (case rr_suppression row of None \<Rightarrow> 3600 | Some s \<Rightarrow> s), ir_group_by_path = None,
      ir_clauses = clauses, ir_emit_event = rr_emit_event row,
      ir_max_dedup_keys = (case rr_max_dedup_keys row of None \<Rightarrow> None | Some n \<Rightarrow> if n = 0 then None else Some n),
      ir_min_count = 1, ir_window_seconds = 0, ir_leg_index = None, ir_legs_total = 0, ir_leg_label = [],
      ir_absence = False, ir_forget_seconds = 0\<rparr>"

definition leg_clauses :: "pydict \<Rightarrow> compiled_clause list \<Rightarrow> compiled_clause list" where
  "leg_clauses leg cs =
     (case dget leg ''stream'' of
        PStr s \<Rightarrow> if s = [] then cs
          else cs @ [\<lparr>cl_path = [''_centralops'', ''stream''], cl_op = ''eq'', cl_value = CVal (PStr (strip s)), cl_numeric = False\<rparr>]
      | _ \<Rightarrow> cs)"

definition compile_leg ::
    "inflight_settings \<Rightarrow> (string \<Rightarrow> rat option) \<Rightarrow> rule_row \<Rightarrow> nat \<Rightarrow> nat \<times> pydict \<Rightarrow> string + inflight_rule" where
  "compile_leg st fl row n_legs il =
     (case il of (index, leg) \<Rightarrow>
        bind_result (compile_clauses st fl (case dget leg ''where'' of PList cs \<Rightarrow> dicts_of cs | _ \<Rightarrow> [])) (\<lambda>cs.
          let join_path = split_on CHR ''.'' (py_str (dget leg ''join_path'')) in
          if hd join_path \<notin> set envelope_roots then Inl ''join_root''
          else Inr ((base_rule row (leg_clauses leg cs))\<lparr>ir_group_by_path := Some join_path,
            ir_window_seconds := int_or (rr_window_seconds row) 0, ir_leg_index := Some index, ir_legs_total := n_legs,
            ir_leg_label := (if truthy (dget leg ''label'') then py_str (dget leg ''label'') else ''leg'' @ nat_str index)\<rparr>)))"

definition compile_sequence ::
    "inflight_settings \<Rightarrow> (string \<Rightarrow> pyval) \<Rightarrow> (string \<Rightarrow> rat option) \<Rightarrow> rule_row \<Rightarrow> string + inflight_rule list" where
  "compile_sequence st cf fl row =
     bind_result (validate_legs_json st cf (rr_legs_json row)) (\<lambda>legs.
       let window = int_or (rr_window_seconds row) 0 in
       if window \<le> 0 then Inl ''bad_legs''
       else if window > is_max_window_seconds st then Inl ''window_over_cap''
       else mapM_result (compile_leg st fl row (length legs)) (List.enumerate 0 legs))"

definition min_absence_window :: int where
  "min_absence_window = 60"

definition forget_seconds_for :: "rule_row \<Rightarrow> int \<Rightarrow> int" where
  "forget_seconds_for row window =
     (case rr_absence_forget row of None \<Rightarrow> 3 * window | Some n \<Rightarrow> if n \<le> 0 then 3 * window else n)"

definition compile_absence ::
    "inflight_settings \<Rightarrow> (string \<Rightarrow> pyval) \<Rightarrow> (string \<Rightarrow> rat option) \<Rightarrow> rule_row \<Rightarrow> string + inflight_rule" where
  "compile_absence st cf fl row =
     bind_result (validate_where_json cf (rr_where_json row)) (\<lambda>raw.
     bind_result (compile_clauses st fl raw) (\<lambda>cs.
       let group_by = text_or (rr_group_by_field row) []; window = int_or (rr_window_seconds row) 0;
           forget = forget_seconds_for row window in
       if strip group_by = [] then Inl ''bad_absence''
       else if hd (split_on CHR ''.'' group_by) \<notin> set envelope_roots then Inl ''group_by_root''
       else if window < min_absence_window then Inl ''bad_absence''
       else if window > is_absence_max_window st then Inl ''absence_window_over_cap''
       else if forget < window \<or> forget > is_absence_max_forget st then Inl ''bad_absence''
       else Inr ((base_rule row cs)\<lparr>ir_group_by_path := Some (split_on CHR ''.'' group_by), ir_window_seconds := window,
                   ir_absence := True, ir_forget_seconds := forget\<rparr>)))"

definition compile_classic ::
    "inflight_settings \<Rightarrow> (string \<Rightarrow> pyval) \<Rightarrow> (string \<Rightarrow> rat option) \<Rightarrow> rule_row \<Rightarrow> string + inflight_rule" where
  "compile_classic st cf fl row =
     bind_result (validate_where_json cf (rr_where_json row)) (\<lambda>raw.
     bind_result (compile_clauses st fl raw) (\<lambda>cs.
       let group_by = text_or (rr_group_by_field row) [];
           path = (if group_by = [] then None else Some (split_on CHR ''.'' group_by));
           mc = int_or (rr_min_count row) 1; win = int_or (rr_window_seconds row) 0 in
       if group_by \<noteq> [] \<and> hd (split_on CHR ''.'' group_by) \<notin> set envelope_roots then Inl ''group_by_root''
       else if mc > 1 \<and> win > 0 then
         (if win > is_max_window_seconds st then Inl ''window_over_cap''
          else if mc > is_max_window_count st then Inl ''window_count_over_cap''
          else Inr ((base_rule row cs)\<lparr>ir_group_by_path := path, ir_min_count := mc, ir_window_seconds := win\<rparr>))
       else Inr ((base_rule row cs)\<lparr>ir_group_by_path := path\<rparr>)))"

definition compile_rule_row ::
    "inflight_settings \<Rightarrow> (string \<Rightarrow> pyval) \<Rightarrow> (string \<Rightarrow> rat option) \<Rightarrow> rule_row \<Rightarrow> string + inflight_rule" where
  "compile_rule_row st cf fl row =
     (if text_or (rr_rule_type row) [] = ''sequence'' then bind_result (compile_sequence st cf fl row) (\<lambda>rs. Inr (hd rs))
      else if text_or (rr_rule_type row) [] = ''absence'' then compile_absence st cf fl row
      else compile_classic st cf fl row)"

definition compile_row ::
    "inflight_settings \<Rightarrow> (string \<Rightarrow> pyval) \<Rightarrow> (string \<Rightarrow> rat option) \<Rightarrow> rule_row \<Rightarrow> string + inflight_rule list" where
  "compile_row st cf fl row =
     (if text_or (rr_rule_type row) [] = ''sequence'' then compile_sequence st cf fl row
      else bind_result (compile_rule_row st cf fl row) (\<lambda>r. Inr [r]))"

text \<open>The rules of a cycle: rows that do not compile are counted by their reason and left out; paths are shared when
  one occurs twice.\<close>

definition load_rules ::
    "inflight_settings \<Rightarrow> (string \<Rightarrow> pyval) \<Rightarrow> (string \<Rightarrow> rat option) \<Rightarrow> rule_row list \<Rightarrow> compiled_rule_set \<times> string list" where
  "load_rules st cf fl rows =
     (let results = map (compile_row st cf fl) rows;
          rules = concat (map (\<lambda>r. case r of Inl _ \<Rightarrow> [] | Inr rs \<Rightarrow> rs) results)
      in (\<lparr>rs_rules = rules, rs_share_paths = \<not> distinct (map cl_path (concat (map ir_clauses rules)))\<rparr>,
          List.map_filter (\<lambda>r. case r of Inl e \<Rightarrow> Some e | Inr _ \<Rightarrow> None) results))"

section \<open>The cache changes nothing\<close>

definition cache_true :: "pydict \<Rightarrow> path_cache \<Rightarrow> bool" where
  "cache_true envelope cache \<longleftrightarrow> (\<forall>p v. map_of cache p = Some v \<longrightarrow> v = resolve_path p (PDict envelope))"

lemma cached_clauses_eq:
  assumes "cache_true envelope cache"
  shows "\<exists>cache'. cached_clauses fl envelope cs cache =
      (list_all (\<lambda>c. clause_holds fl c (resolve_path (cl_path c) (PDict envelope))) cs, cache') \<and> cache_true envelope cache'"
  using assms
proof (induction cs arbitrary: cache)
  case (Cons c cs)
  show ?case
  proof (cases "map_of cache (cl_path c)")
    case None
    then have "cache_true envelope ((cl_path c, resolve_path (cl_path c) (PDict envelope)) # cache)"
      using Cons.prems by (simp add: cache_true_def)
    then show ?thesis using Cons.IH None by (simp add: Let_def)
  next
    case (Some v)
    then have "v = resolve_path (cl_path c) (PDict envelope)" using Cons.prems by (simp add: cache_true_def)
    then show ?thesis using Cons Some by (simp add: Let_def)
  qed
qed simp

lemma cached_rules_eq: "cache_true envelope cache \<Longrightarrow> cached_rules fl envelope rs cache = filter (rule_matches fl envelope) rs"
proof (induction rs arbitrary: cache)
  case (Cons r rs)
  obtain cache' where "cached_clauses fl envelope (ir_clauses r) cache = (rule_matches fl envelope r, cache')" "cache_true envelope cache'"
    using cached_clauses_eq [OF Cons.prems, of fl "ir_clauses r"] unfolding rule_matches_def by blast
  then show ?case using Cons.IH by simp
qed simp

text \<open>Sharing the resolved paths between the rules of a cycle is only an optimisation: on every event the rules
  matched are the ones the reference evaluation matches, in the same order.\<close>

theorem inflight_cache_transparent:
  "evaluate_ruleset fl envelope rs = evaluate_inflight fl envelope (rs_rules rs)"
  by (simp add: evaluate_ruleset_def evaluate_inflight_def cached_rules_eq cache_true_def)

section \<open>Negative clauses need their field\<close>

definition guarded :: "compiled_clause list \<Rightarrow> bool" where
  "guarded cs \<longleftrightarrow> (\<forall>c\<in>set cs. cl_op c \<in> set negative_ops \<longrightarrow> (\<exists>g\<in>set cs. cl_path g = cl_path c \<and> cl_op g = ''exists'' \<and>
     cl_numeric g = False \<and> (\<exists>b. cl_value g = CVal (PBool b))))"

lemma compile_clause_exists:
  assumes "compile_clause fl c = Inr k" and "cl_op k = ''exists''"
  shows "cl_numeric k = False \<and> (\<exists>b. cl_value k = CVal (PBool b))"
proof (cases "dget c ''field''")
  case (PStr f)
  with assms show ?thesis
    by (auto simp: compile_clause_def Let_def numeric_ops_def split: if_splits option.splits)
qed (use assms in \<open>simp_all add: compile_clause_def Let_def split: if_splits\<close>)

lemma compile_clauses_guarded:
  assumes "compile_clauses st fl raw = Inr cs"
  shows "guarded cs"
proof -
  obtain ks where ks: "mapM_result (compile_clause fl) raw = Inr ks" "cs = ks @ map exists_clause (unguarded_paths ks)"
    using assms by (auto simp: compile_clauses_def bind_result_Inr split: if_splits)
  have ex: "cl_numeric k = False \<and> (\<exists>b. cl_value k = CVal (PBool b))" if "k \<in> set ks" "cl_op k = ''exists''" for k
  proof -
    have "\<exists>c. compile_clause fl c = Inr k"
      using mapM_result_mem [OF ks(1) that(1)] by blast
    with compile_clause_exists that(2) show ?thesis by blast
  qed
  show ?thesis
    unfolding guarded_def
  proof (intro ballI impI)
    fix c assume c: "c \<in> set cs" "cl_op c \<in> set negative_ops"
    then have "c \<in> set ks" by (auto simp: ks(2) exists_clause_def negative_ops_def)
    show "\<exists>g\<in>set cs. cl_path g = cl_path c \<and> cl_op g = ''exists'' \<and> cl_numeric g = False \<and> (\<exists>b. cl_value g = CVal (PBool b))"
    proof (cases "\<exists>k\<in>set ks. cl_op k = ''exists'' \<and> cl_path k = cl_path c")
      case True
      then show ?thesis using ex ks(2) by force
    next
      case False
      then have "cl_path c \<in> set (unguarded_paths ks)" using \<open>c \<in> set ks\<close> c(2) by (force simp: unguarded_paths_def)
      then show ?thesis by (intro bexI [of _ "exists_clause (cl_path c)"]) (auto simp: ks(2) exists_clause_def)
    qed
  qed
qed

lemma leg_clauses_guarded: "guarded cs \<Longrightarrow> guarded (leg_clauses leg cs)"
  by (fastforce simp: leg_clauses_def guarded_def negative_ops_def split: pyval.splits)

lemma compile_row_guarded:
  assumes "compile_row st cf fl row = Inr rs" and "r \<in> set rs"
  shows "guarded (ir_clauses r)"
proof (cases "text_or (rr_rule_type row) [] = ''sequence''")
  case True
  then obtain legs where legs: "mapM_result (compile_leg st fl row (length legs)) (List.enumerate 0 legs) = Inr rs"
    using assms(1) by (auto simp: compile_row_def compile_sequence_def bind_result_Inr Let_def split: if_splits)
  then obtain il where "compile_leg st fl row (length legs) il = Inr r"
    using mapM_result_mem [OF legs assms(2)] by blast
  then show ?thesis
    by (auto simp: compile_leg_def bind_result_Inr Let_def base_rule_def split: prod.splits if_splits
        intro!: leg_clauses_guarded [OF compile_clauses_guarded])
next
  case False
  then have "compile_absence st cf fl row = Inr r \<or> compile_classic st cf fl row = Inr r"
    using assms by (auto simp: compile_row_def compile_rule_row_def bind_result_Inr split: if_splits)
  then show ?thesis
  proof
    assume "compile_absence st cf fl row = Inr r"
    then show ?thesis by (auto simp: compile_absence_def bind_result_Inr Let_def base_rule_def compile_clauses_guarded split: if_splits)
  next
    assume "compile_classic st cf fl row = Inr r"
    then show ?thesis by (auto simp: compile_classic_def bind_result_Inr Let_def base_rule_def compile_clauses_guarded split: if_splits)
  qed
qed

text \<open>Deny lists fail closed. When a rule loaded for a cycle matches an event, every field it tests with \<open>ne\<close> or
  \<open>nin\<close> is present in the event, unless the rule itself asks for the field to be absent.\<close>

theorem inflight_negative_needs_field:
  assumes "r \<in> set (evaluate_ruleset fl envelope (fst (load_rules st cf fl rows)))"
    and "c \<in> set (ir_clauses r)" and "cl_op c \<in> {''ne'', ''nin''}"
  shows "resolve_path (cl_path c) (PDict envelope) \<noteq> PNone \<or>
    (\<exists>g\<in>set (ir_clauses r). cl_path g = cl_path c \<and> cl_op g = ''exists'' \<and> cl_value g = CVal (PBool False))"
proof -
  have r: "rule_matches fl envelope r" "r \<in> set (rs_rules (fst (load_rules st cf fl rows)))"
    using assms(1) by (auto simp: inflight_cache_transparent evaluate_inflight_def)
  then obtain row rs where "compile_row st cf fl row = Inr rs" "r \<in> set rs"
    by (auto simp: load_rules_def Let_def dest: sym split: sum.splits)
  from compile_row_guarded [OF this] assms(2,3) obtain g b where g: "g \<in> set (ir_clauses r)" "cl_path g = cl_path c"
      "cl_op g = ''exists''" "cl_numeric g = False" "cl_value g = CVal (PBool b)"
    unfolding guarded_def by (force simp: negative_ops_def)
  have "clause_holds fl g (resolve_path (cl_path g) (PDict envelope))"
    using r(1) g(1) by (simp add: rule_matches_def list_all_iff)
  then show ?thesis using g by (cases b) (auto simp: clause_holds_def coerce_actual_def compare_clause_def compare_values_def)
qed

definition ex_settings :: inflight_settings where
  "ex_settings = \<lparr>is_max_where_clauses = 10, is_max_window_seconds = 3600, is_max_window_count = 10000, is_max_legs = 4,
     is_absence_max_window = 604800, is_absence_max_forget = 2592000\<rparr>"

definition ex_row :: rule_row where
  "ex_row = \<lparr>rr_id = 7, rr_name = ''deny'', rr_rule_type = None,
     rr_where_json = Some (json_compact (PList [PDict [(''field'', PStr ''raw.u''), (''op'', PStr ''nin''), (''value'', PList [PStr ''a''])]])),
     rr_legs_json = None, rr_group_by_field = None, rr_severity_id = None, rr_suppression = None, rr_emit_event = False,
     rr_max_dedup_keys = None, rr_min_count = None, rr_window_seconds = None, rr_absence_forget = None\<rparr>"

definition ex_deny :: compiled_clause where
  "ex_deny = \<lparr>cl_path = [''raw'', ''u''], cl_op = ''nin'', cl_value = CSet [PStr ''a''], cl_numeric = False\<rparr>"

definition ex_rule :: inflight_rule where
  "ex_rule = base_rule ex_row [ex_deny, exists_clause [''raw'', ''u'']]"

definition ex_inflight_envelope :: pydict where
  "ex_inflight_envelope = [(''raw'', PDict [(''u'', PStr ''b'')])]"

lemma ex_loaded:
  "evaluate_ruleset (\<lambda>_. None) ex_inflight_envelope (fst (load_rules ex_settings (\<lambda>_. PNone) (\<lambda>_. None) [ex_row])) = [ex_rule]"
  by code_simp

theorem inflight_negative_needs_field_witness: "resolve_path [''raw'', ''u''] (PDict ex_inflight_envelope) \<noteq> PNone"
  using inflight_negative_needs_field [of ex_rule "\<lambda>_. None" ex_inflight_envelope ex_settings "\<lambda>_. PNone" "[ex_row]" ex_deny]
  by (simp add: ex_loaded) (simp add: ex_rule_def ex_deny_def base_rule_def exists_clause_def)

end
