(* ===== verification/Inflight_Window.thy ===== *)
theory Inflight_Window
  imports Cursor_Store
begin

text \<open>
  The sliding window of in-flight rules (\<open>inflight/window.py\<close>): hits are added to the Redis counter of the current
  time slice and the counters of the last slices are summed. The counter commands are the record \<open>counters\<close>, a
  parameter with the locale \<open>counter_laws\<close>; a pipeline that raises fails the flush. Times are whole seconds.
\<close>

section \<open>Slices\<close>

definition n_buckets :: int where
  "n_buckets = 10"

definition bucket_seconds :: "int \<Rightarrow> int" where
  "bucket_seconds window = max 1 (window div n_buckets)"

definition bucket_ids :: "int \<Rightarrow> int \<Rightarrow> int list" where
  "bucket_ids window now =
     (let bs = bucket_seconds window; cur = now div bs; n = max 1 (window div bs) in [cur - n..cur])"

definition window_key :: "string \<Rightarrow> int \<Rightarrow> string" where
  "window_key dk b = ''inflight:win:'' @ dk @ '':'' @ int_str b"

section \<open>The flush\<close>

record 's counters =
  ct_incrby :: "int \<Rightarrow> string \<Rightarrow> int \<Rightarrow> 's \<Rightarrow> 's"
  ct_expire :: "int \<Rightarrow> string \<Rightarrow> int \<Rightarrow> 's \<Rightarrow> 's"
  ct_get :: "int \<Rightarrow> string \<Rightarrow> 's \<Rightarrow> int option"
  ct_exec :: "('s \<Rightarrow> 's) \<Rightarrow> 's \<Rightarrow> bool \<times> 's"

text \<open>The items of a flush: the key of a rule and group, the hits of this cycle, the minimum count and the window.\<close>

type_synonym window_item = "string \<times> int \<times> int \<times> int"

definition bump_item :: "'s counters \<Rightarrow> int \<Rightarrow> window_item \<Rightarrow> 's \<Rightarrow> 's" where
  "bump_item ct ts item s =
     (case item of (dk, hits, mc, win) \<Rightarrow>
        let k = window_key dk (last (bucket_ids win ts))
        in ct_expire ct ts k (win + bucket_seconds win + 5) (ct_incrby ct ts k hits s))"

definition read_item :: "'s counters \<Rightarrow> int \<Rightarrow> 's \<Rightarrow> window_item \<Rightarrow> string \<times> int" where
  "read_item ct ts s item =
     (case item of (dk, hits, mc, win) \<Rightarrow>
        (dk, sum_list (map (\<lambda>b. case ct_get ct ts (window_key dk b) s of None \<Rightarrow> 0 | Some v \<Rightarrow> v) (bucket_ids win ts))))"

definition apply_windows :: "'s counters \<Rightarrow> window_item list \<Rightarrow> int \<Rightarrow> bool \<Rightarrow> 's \<Rightarrow> (string \<times> int) list option \<times> 's" where
  "apply_windows ct items ts read_ok s =
     (if items = [] then (Some [], s)
      else case ct_exec ct (\<lambda>s. foldl (\<lambda>s it. bump_item ct ts it s) s items) s of
        (False, s') \<Rightarrow> (None, s')
      | (True, s') \<Rightarrow> (if read_ok then Some (map (read_item ct ts s') items) else None, s'))"

text \<open>\<open>windowed(rule)\<close>: a missing or falsy minimum is 1, a missing or falsy window 0.\<close>

definition windowed :: "int option \<Rightarrow> int option \<Rightarrow> bool" where
  "windowed min_count window_seconds \<longleftrightarrow>
     (case min_count of None \<Rightarrow> 1 | Some m \<Rightarrow> if m = 0 then 1 else m) > 1 \<and>
     (case window_seconds of None \<Rightarrow> 0 | Some w \<Rightarrow> w) > 0"

section \<open>What the slices cover\<close>

lemma bucket_seconds_pos [simp]: "0 < bucket_seconds w"
  by (simp add: bucket_seconds_def)

text \<open>The window in seconds: with slices of a tenth of it (at least one second) it starts \<open>window div slice\<close> slices before the
  slice of the present time, which is less than a slice away from \<open>window\<close> seconds ago.\<close>

definition window_start :: "int \<Rightarrow> int \<Rightarrow> int" where
  "window_start w now = (let s = max 1 (w div 10) in now - now mod s - max 1 (w div s) * s)"

definition in_window :: "int \<Rightarrow> int \<Rightarrow> int \<Rightarrow> bool" where
  "in_window w now t \<longleftrightarrow> window_start w now \<le> t \<and> t \<le> now"

lemma window_start_near:
  assumes "1 \<le> w"
  shows "\<bar>window_start w now - (now - w)\<bar> < max 1 (w div 10)"
proof -
  let ?s = "max 1 (w div 10)"
  have "?s \<le> w" using assms by auto
  then have "1 \<le> w div ?s" by (simp add: pos_imp_zdiv_pos_iff int_one_le_iff_zero_less)
  moreover have "w div ?s * ?s = w - w mod ?s" by (rule minus_mod_eq_div_mult [symmetric])
  ultimately have "window_start w now - (now - w) = w mod ?s - now mod ?s" by (simp add: window_start_def Let_def)
  moreover have "0 \<le> w mod ?s" "w mod ?s < ?s" "0 \<le> now mod ?s" "now mod ?s < ?s" by simp_all
  ultimately show ?thesis by linarith
qed

definition slices :: "int \<Rightarrow> int" where
  "slices w = max 1 (w div bucket_seconds w)"

lemma bucket_ids_eq: "bucket_ids w now = [now div bucket_seconds w - slices w..now div bucket_seconds w]"
  by (simp add: bucket_ids_def slices_def Let_def)

lemma last_bucket_ids [simp]: "last (bucket_ids w now) = now div bucket_seconds w"
proof -
  have "[a..b] = [a..b - 1] @ [b]" if "a \<le> b" for a b :: int using that by (metis upto_rec2)
  then show ?thesis by (simp add: bucket_ids_eq slices_def)
qed

lemma le_div_iff_mult_le:
  fixes k s t :: int
  assumes "0 < s"
  shows "k \<le> t div s \<longleftrightarrow> k * s \<le> t"
proof
  assume "k \<le> t div s"
  then have "k * s \<le> t div s * s" using assms by (simp add: mult_right_mono)
  also have "\<dots> \<le> t" using assms by (simp flip: minus_mod_eq_div_mult)
  finally show "k * s \<le> t" .
next
  assume "k * s \<le> t"
  then have "k * s div s \<le> t div s" using assms by (rule zdiv_mono1)
  then show "k \<le> t div s" using assms by simp
qed

text \<open>The slices the code sums are those of this window.\<close>

lemma in_window_iff: "t \<le> now \<Longrightarrow> in_window w now t \<longleftrightarrow> now div bucket_seconds w - slices w \<le> t div bucket_seconds w"
proof -
  have "window_start w now = (now div bucket_seconds w - slices w) * bucket_seconds w"
    by (simp add: window_start_def bucket_seconds_def slices_def n_buckets_def Let_def left_diff_distrib minus_mod_eq_div_mult)
  then show ?thesis if "t \<le> now" using that by (simp add: in_window_def le_div_iff_mult_le)
qed

lemma in_window_slice: "t \<le> now \<Longrightarrow> in_window w now t \<longleftrightarrow> t div bucket_seconds w \<in> set (bucket_ids w now)"
  by (simp add: in_window_iff bucket_ids_eq zdiv_mono1)

text \<open>What the window counts. A hit of the last \<open>slices * slice length\<close> seconds is always counted (all of the last
  \<open>window\<close> seconds when the window is a multiple of the slice length), and a hit more than one slice older than that
  never is.\<close>

theorem window_coverage:
  assumes "t \<le> now" and "1 \<le> w"
  shows "(now - t \<le> slices w * bucket_seconds w \<longrightarrow> in_window w now t) \<and>
    (in_window w now t \<longrightarrow> now - t < (slices w + 1) * bucket_seconds w) \<and>
    (bucket_seconds w dvd w \<longrightarrow> now - t \<le> w \<longrightarrow> in_window w now t)"
proof -
  let ?b = "bucket_seconds w" and ?n = "slices w"
  have b: "0 < ?b" by simp
  have near: "in_window w now t" if "now - t \<le> ?n * ?b"
  proof -
    have "now - ?n * ?b = now + (- ?n) * ?b" by simp
    then have "(now - ?n * ?b) div ?b = - ?n + now div ?b" using b by (metis div_mult_self1 less_irrefl)
    moreover have "(now - ?n * ?b) div ?b \<le> t div ?b" using that b by (intro zdiv_mono1) auto
    ultimately show ?thesis using in_window_iff [OF assms(1)] by simp
  qed
  have far: "now - t < (?n + 1) * ?b" if "in_window w now t"
  proof -
    have "now div ?b \<le> t div ?b + ?n" using that in_window_iff [OF assms(1)] by simp
    then have "now div ?b * ?b \<le> (t div ?b + ?n) * ?b" using b by (intro mult_right_mono) (auto simp: less_imp_le)
    moreover have "t div ?b * ?b \<le> t" "now < now div ?b * ?b + ?b"
      using b by (metis div_mult_mod_eq le_add_same_cancel1 pos_mod_sign, metis add_strict_left_mono div_mult_mod_eq pos_mod_bound)
    ultimately show ?thesis by (simp add: algebra_simps)
  qed
  have "?n * ?b = w" if "?b dvd w"
  proof -
    have "?b \<le> w" using assms(2) by (auto simp: bucket_seconds_def n_buckets_def)
    then have "1 \<le> w div ?b" using b by (simp add: pos_imp_zdiv_pos_iff int_one_le_iff_zero_less)
    then show ?thesis using that by (simp add: slices_def)
  qed
  then show ?thesis using near far by auto
qed

theorem window_coverage_witness: "in_window 60 1000 940 \<and> \<not> in_window 60 1000 930"
proof -
  have "bucket_seconds 60 = 6" "slices 60 = 10" by (simp_all add: bucket_seconds_def n_buckets_def slices_def)
  then show ?thesis using window_coverage [of 940 1000 60] window_coverage [of 930 1000 60] by auto
qed

text \<open>For a window that is no multiple of the slice length the slices do not cover the window, although
  \<open>bucket_ids\<close> is documented to: with a window of 109 seconds a hit 109 seconds old is not counted.\<close>

theorem window_not_covered: "bucket_seconds 109 = 10 \<and> 1008 - 899 = (109::int) \<and> \<not> in_window 109 1008 899"
  by (simp add: bucket_seconds_def n_buckets_def in_window_def window_start_def)

section \<open>Laws of the counters\<close>

text \<open>\<open>live s t k\<close> is the counter a read of \<open>k\<close> at time \<open>t\<close> sees if nothing runs in between.\<close>

definition num :: "int option \<Rightarrow> int" where
  "num v = (case v of None \<Rightarrow> 0 | Some n \<Rightarrow> n)"

lemma window_key_inj: "window_key dk b = window_key dk' b' \<longleftrightarrow> dk = dk' \<and> b = b'"
proof
  assume "window_key dk b = window_key dk' b'"
  then have "rev (int_str b) @ CHR '':'' # rev dk = rev (int_str b') @ CHR '':'' # rev dk'"
    by (simp add: window_key_def) (metis append.assoc append_Cons append_Nil rev.simps(2) rev_append rev_swap)
  then show "dk = dk' \<and> b = b'" using int_str_no_colon [of b] int_str_no_colon [of b'] int_str_inj by (auto simp: sep_unique)
qed simp

text \<open>The counters of a key, with the hits that were added: each is the sum of its slice as long as it is read.\<close>

definition counted :: "('s \<Rightarrow> int \<Rightarrow> string \<Rightarrow> int option) \<Rightarrow> string \<Rightarrow> int \<Rightarrow> (int \<times> int) list \<Rightarrow> int \<Rightarrow> 's \<Rightarrow> bool" where
  "counted live dk w hits now s \<longleftrightarrow> (\<forall>b t. now \<le> t \<longrightarrow> t < b * bucket_seconds w + w + bucket_seconds w + 5 \<longrightarrow>
     num (live s t (window_key dk b)) = sum_list (map snd (filter (\<lambda>x. fst x div bucket_seconds w = b) hits)))"

definition hits_of :: "string \<Rightarrow> int \<Rightarrow> window_item list \<Rightarrow> (int \<times> int) list" where
  "hits_of dk ts items = concat (map (\<lambda>(k, h, mc, w). if k = dk then [(ts, h)] else []) items)"

lemma sum_by_bucket:
  assumes "distinct bs"
  shows "sum_list (map (\<lambda>b. sum_list (map snd (filter (\<lambda>x. f x = b) hits))) bs) =
    sum_list (map snd (filter (\<lambda>x. f x \<in> set bs) hits :: (int \<times> int) list))"
proof (induction hits)
  case (Cons x hits)
  have "sum_list (map (\<lambda>b. if f x = b then snd x + g b else g b) bs) = (if f x \<in> set bs then snd x else 0) + sum_list (map g bs)"
    for g :: "_ \<Rightarrow> int" using assms by (induction bs) auto
  from this [of "\<lambda>b. sum_list (map snd (filter (\<lambda>x. f x = b) hits))"] Cons.IH show ?case
    by (simp add: if_distrib [of sum_list] if_distrib [of "map snd"] cong: if_cong)
qed simp

locale counter_laws =
  fixes ct :: "'s counters" and live :: "'s \<Rightarrow> int \<Rightarrow> string \<Rightarrow> int option"
  assumes incrby: "live (ct_incrby ct t k n s) t k = Some (num (live s t k) + n)"
    and incrby_frame: "t \<le> t' \<Longrightarrow> k' \<noteq> k \<Longrightarrow> live (ct_incrby ct t k n s) t' k' = live s t' k'"
    and expire: "t \<le> t' \<Longrightarrow> live (ct_expire ct t k ttl s) t' k' =
        (if k' = k then (if t' < t + ttl then live s t k else None) else live s t' k')"
    and get: "ct_get ct t k s = live s t k"
    and exec_ok: "ct_exec ct f s = (True, s') \<Longrightarrow> \<exists>s0. live s0 = live s \<and> live s' = live (f s0)"
begin

lemma bump_effect:
  assumes "ts \<le> t"
  shows "live (bump_item ct ts (dk, h, mc, w) s) t (window_key dk' b) =
    (if dk' = dk \<and> b = ts div bucket_seconds w
     then (if t < ts + (w + bucket_seconds w + 5) then Some (num (live s ts (window_key dk b)) + h) else None)
     else live s t (window_key dk' b))"
  using assms by (auto simp: bump_item_def Let_def expire incrby incrby_frame window_key_inj)

lemma counted_bump:
  assumes "counted live dk w hits now s" "now \<le> ts" "1 \<le> w" "k = dk \<longrightarrow> w' = w"
  shows "counted live dk w (hits @ (if k = dk then [(ts, h)] else [])) ts (bump_item ct ts (k, h, mc, w') s)"
proof -
  let ?b = "bucket_seconds w"
  have "ts div ?b * ?b \<le> ts" "ts < ts div ?b * ?b + ?b"
    by (metis bucket_seconds_pos div_mult_mod_eq le_add_same_cancel1 pos_mod_sign,
        metis bucket_seconds_pos add_strict_left_mono div_mult_mod_eq pos_mod_bound)
  then show ?thesis
    using assms by (auto simp: counted_def bump_effect num_def algebra_simps)
qed

lemma counted_bumps:
  assumes "counted live dk w hits now s" "now \<le> ts" "1 \<le> w" "\<forall>(k, h, mc, w')\<in>set items. k = dk \<longrightarrow> w' = w"
  shows "counted live dk w (hits @ hits_of dk ts items) (if items = [] then now else ts) (foldl (\<lambda>s it. bump_item ct ts it s) s items)"
  using assms
proof (induction items arbitrary: hits now s)
  case (Cons it items)
  obtain k h mc w' where it: "it = (k, h, mc, w')" by (metis prod_cases4)
  have "counted live dk w (hits @ (if k = dk then [(ts, h)] else [])) ts (bump_item ct ts it s)"
    using counted_bump [OF Cons.prems(1-3)] Cons.prems(4) it by simp
  from Cons.IH [OF this order.refl Cons.prems(3)] Cons.prems(4) it show ?case
    by (auto simp: hits_of_def split: if_splits)
qed (simp add: hits_of_def)

lemma read_total:
  assumes "counted live dk w hits now s" "1 \<le> w" "\<forall>x\<in>set hits. fst x \<le> now"
  shows "snd (read_item ct now s (dk, h, mc, w)) = sum_list (map snd (filter (\<lambda>x. in_window w now (fst x)) hits))"
proof -
  let ?b = "bucket_seconds w"
  have sl: "slices w * ?b \<le> w"
  proof -
    have "?b \<le> w" using assms(2) by (auto simp: bucket_seconds_def n_buckets_def)
    then have "1 \<le> w div ?b" by (simp add: pos_imp_zdiv_pos_iff int_one_le_iff_zero_less)
    then show ?thesis by (simp add: slices_def) (metis add.commute bucket_seconds_pos div_mult_mod_eq le_add_same_cancel2 pos_mod_sign)
  qed
  have fresh: "now < b * ?b + w + ?b + 5" if "b \<in> set (bucket_ids w now)" for b
  proof -
    have "now div ?b \<le> b + slices w" using that by (simp add: bucket_ids_eq)
    then have "now div ?b * ?b \<le> (b + slices w) * ?b" by (intro mult_right_mono) (auto simp: less_imp_le)
    moreover have "now < now div ?b * ?b + ?b" by (metis bucket_seconds_pos add_strict_left_mono div_mult_mod_eq pos_mod_bound)
    ultimately show ?thesis using sl by (simp add: algebra_simps)
  qed
  have "snd (read_item ct now s (dk, h, mc, w)) = sum_list (map (\<lambda>b. num (live s now (window_key dk b))) (bucket_ids w now))"
    by (simp add: read_item_def get num_def)
  also have "\<dots> = sum_list (map (\<lambda>b. sum_list (map snd (filter (\<lambda>x. fst x div ?b = b) hits))) (bucket_ids w now))"
    using assms(1) fresh by (intro arg_cong [where f = sum_list] map_cong) (auto simp: counted_def)
  also have "\<dots> = sum_list (map snd (filter (\<lambda>x. fst x div ?b \<in> set (bucket_ids w now)) hits))"
    by (rule sum_by_bucket) (simp add: bucket_ids_eq)
  also have "\<dots> = sum_list (map snd (filter (\<lambda>x. in_window w now (fst x)) hits))"
    using assms(3) by (intro arg_cong [where f = sum_list] arg_cong2 [where f = map] filter_cong) (auto simp: in_window_slice)
  finally show ?thesis .
qed

end

section \<open>Counting over flushes\<close>

text \<open>Flushes whose writes succeed, at times that do not decrease; the result records the totals that were read.\<close>

inductive flush_run :: "'s counters \<Rightarrow> int \<Rightarrow> 's \<Rightarrow> (int \<times> window_item list) list \<Rightarrow> int \<Rightarrow> 's \<Rightarrow> bool" for ct t0 s0 where
  fr_nil: "flush_run ct t0 s0 [] t0 s0"
| fr_flush: "flush_run ct t0 s0 fs t s \<Longrightarrow> t \<le> now \<Longrightarrow> apply_windows ct items now ok s = (r, s') \<Longrightarrow> items \<noteq> [] \<Longrightarrow>
    fst (ct_exec ct (\<lambda>s. foldl (\<lambda>s it. bump_item ct now it s) s items) s) \<Longrightarrow> flush_run ct t0 s0 (fs @ [(now, items)]) now s'"

definition all_hits :: "string \<Rightarrow> (int \<times> window_item list) list \<Rightarrow> (int \<times> int) list" where
  "all_hits dk fs = concat (map (\<lambda>(ts, items). hits_of dk ts items) fs)"

lemma flush_counted:
  assumes "counter_laws ct live" "flush_run ct t0 s0 fs t s" "\<And>t b. live s0 t (window_key dk b) = None" "1 \<le> w"
    and "\<forall>(ts, items)\<in>set fs. \<forall>(k, h, mc, w')\<in>set items. k = dk \<longrightarrow> w' = w"
  shows "counted live dk w (all_hits dk fs) t s \<and> (\<forall>x\<in>set (all_hits dk fs). fst x \<le> t)"
  using assms(2,5)
proof (induction rule: flush_run.induct)
  case fr_nil
  then show ?case by (simp add: counted_def all_hits_def assms(3) num_def)
next
  case (fr_flush fs t s now items ok r s')
  let ?f = "\<lambda>s. foldl (\<lambda>s it. bump_item ct now it s) s items"
  have e: "ct_exec ct ?f s = (True, s')"
    using fr_flush(3-5) by (cases "ct_exec ct ?f s") (auto simp: apply_windows_def)
  obtain s1 where s1: "live s1 = live s" "live s' = live (?f s1)" using counter_laws.exec_ok [OF assms(1) e] by blast
  have IH: "counted live dk w (all_hits dk fs) t s1" "\<forall>x\<in>set (all_hits dk fs). fst x \<le> t"
    using fr_flush s1(1) by (auto simp: counted_def)
  have "counted live dk w (all_hits dk fs @ hits_of dk now items) now (?f s1)"
    using counter_laws.counted_bumps [OF assms(1) IH(1) fr_flush(2) assms(4), of items] fr_flush(4) fr_flush.prems by simp
  moreover have "all_hits dk (fs @ [(now, items)]) = all_hits dk fs @ hits_of dk now items"
    by (simp add: all_hits_def hits_of_def)
  moreover have "\<forall>x\<in>set (hits_of dk now items). fst x \<le> now"
    by (auto simp: hits_of_def split: if_splits)
  ultimately show ?case using s1(2) IH(2) fr_flush(2) by (auto simp: counted_def)
qed

lemma window_total_exact:
  assumes "counter_laws ct live" and "flush_run ct t0 s0 fs t s" and "\<And>t b. live s0 t (window_key dk b) = None"
    and "1 \<le> w" and "\<forall>(ts, items)\<in>set (fs @ [(now, items)]). \<forall>(k, h, mc, w')\<in>set items. k = dk \<longrightarrow> w' = w"
    and "t \<le> now" and "(dk, h, mc, w) \<in> set items"
    and "apply_windows ct items now ok s = (Some totals, s')"
  shows "(dk, sum_list (map snd (filter (\<lambda>x. in_window w now (fst x)) (all_hits dk (fs @ [(now, items)]))))) \<in> set totals"
proof -
  have ne: "items \<noteq> []" using assms(7) by auto
  let ?f = "\<lambda>s. foldl (\<lambda>s it. bump_item ct now it s) s items"
  have ok: "fst (ct_exec ct ?f s)" "totals = map (read_item ct now s') items"
    using assms(8) ne by (auto simp: apply_windows_def split: prod.splits bool.splits if_splits)
  have "flush_run ct t0 s0 (fs @ [(now, items)]) now s'"
    using fr_flush [OF assms(2,6,8) ne ok(1)] .
  from flush_counted [OF assms(1) this assms(3,4,5)]
  have "snd (read_item ct now s' (dk, h, mc, w)) =
      sum_list (map snd (filter (\<lambda>x. in_window w now (fst x)) (all_hits dk (fs @ [(now, items)]))))"
    using counter_laws.read_total [OF assms(1)] assms(4) by blast
  moreover have "fst (read_item ct now s' (dk, h, mc, w)) = dk" by (simp add: read_item_def)
  ultimately show ?thesis using assms(7) ok(2) by (metis image_eqI list.set_map prod.collapse)
qed

text \<open>The count is exact. After any sequence of flushes that reached Redis, the total a flush reads for a key is the sum
  of the hits, of this flush and of every earlier one, whose time lies in the window: the expiry of the counters never
  removes a slice that is still summed.\<close>

theorem window_count_exact:
  assumes "counter_laws ct live" and "flush_run ct t0 s0 fs t s" and "\<And>t b. live s0 t (window_key dk b) = None"
    and "1 \<le> w" and "\<forall>(ts, items)\<in>set (fs @ [(now, items)]). \<forall>(k, h, mc, w')\<in>set items. k = dk \<longrightarrow> w' = w"
    and "t \<le> now" and "(dk, h, mc, w) \<in> set items"
    and "apply_windows ct items now ok s = (Some totals, s')"
  shows "(dk, sum_list (map snd (filter (\<lambda>x. in_window w now (fst x)) (all_hits dk (fs @ [(now, items)]))))) \<in> set totals"
  by (rule window_total_exact [OF assms])

section \<open>A counter store\<close>

text \<open>Values with an optional expiry time, and a schedule that says which pipelines reach the server.\<close>

type_synonym counter_db = "bool list \<times> (string \<Rightarrow> (int \<times> int option) option)"

definition db_live :: "counter_db \<Rightarrow> int \<Rightarrow> string \<Rightarrow> int option" where
  "db_live s t k = (case snd s k of None \<Rightarrow> None | Some (v, None) \<Rightarrow> Some v
     | Some (v, Some e) \<Rightarrow> if t < e then Some v else None)"

definition mem_counters :: "counter_db counters" where
  "mem_counters = \<lparr>
     ct_incrby = (\<lambda>t k n s. (fst s, (snd s)(k := Some (case snd s k of
        Some (v, e) \<Rightarrow> if db_live s t k = None then (n, None) else (v + n, e) | None \<Rightarrow> (n, None))))),
     ct_expire = (\<lambda>t k ttl s. (fst s, (snd s)(k := map_option (\<lambda>v. (v, Some (t + ttl))) (db_live s t k)))),
     ct_get = (\<lambda>t k s. db_live s t k),
     ct_exec = (\<lambda>f s. case fst s of [] \<Rightarrow> (True, f s) | True # os \<Rightarrow> (True, f (os, snd s)) | False # os \<Rightarrow> (False, (os, snd s)))\<rparr>"

interpretation memc: counter_laws mem_counters db_live
proof
  fix f s s' assume "ct_exec mem_counters f s = (True, s')"
  then have "s' = f s \<or> (\<exists>os. s' = f (os, snd s))"
    by (auto simp: mem_counters_def split: list.splits bool.splits)
  moreover have "db_live (os, snd s) = db_live s" for os by (simp add: db_live_def fun_eq_iff)
  ultimately show "\<exists>s0. db_live s0 = db_live s \<and> db_live s' = db_live (f s0)" by metis
qed (auto simp: mem_counters_def db_live_def num_def split: option.splits)

theorem window_count_exact_witness:
  "(''r'', 5) \<in> set (the (fst (apply_windows mem_counters [(''r'', 2, 5, 60)] 1050 True
      (snd (apply_windows mem_counters [(''r'', 3, 5, 60)] 1000 True ([], \<lambda>_. None))))))"
proof -
  let ?s = "snd (apply_windows mem_counters [(''r'', 3, 5, 60)] 1000 True ([], \<lambda>_. None))"
  have ex: "ct_exec mem_counters f s = (True, f s)" if "fst s = []" for f s using that by (simp add: mem_counters_def)
  have run: "flush_run mem_counters 1000 ([], \<lambda>_. None) ([] @ [(1000, [(''r'', 3, 5, 60)])]) 1000 ?s"
    by (rule fr_flush [OF fr_nil order.refl prod.collapse [symmetric]]) (simp_all add: ex)
  have fst_s: "fst ?s = []" by (simp add: apply_windows_def ex bump_item_def Let_def) (simp add: mem_counters_def)
  let ?a = "apply_windows mem_counters [(''r'', 2, 5, 60)] 1050 True ?s"
  obtain tot s' where a: "?a = (Some tot, s')" using fst_s by (simp add: apply_windows_def ex)
  have "(''r'', sum_list (map snd (filter (\<lambda>x. in_window 60 1050 (fst x)) (all_hits ''r'' ([] @ [(1000, [(''r'', 3, 5, 60)])] @ [(1050, [(''r'', 2, 5, 60)])]))))) \<in> set tot"
    using window_count_exact [OF memc.counter_laws_axioms run, of "''r''" 60 1050 "[(''r'', 2, 5, 60)]" 2 5 True tot s'] a
    by (simp add: db_live_def)
  then show ?thesis using a
    by (simp add: all_hits_def hits_of_def in_window_def window_start_def)
qed

end
