(* ===== verification/Inflight_Accumulator.thy ===== *)
theory Inflight_Accumulator
  imports Inflight_Rules Inflight_Window
begin

text \<open>
  The matches of a cycle and their flush (\<open>inflight/runtime.py\<close>): \<open>InflightAccumulator.add\<close> with the pointer to the event
  that matched, the sliding windows and the global cap applied before detections are written. The digest of a long
  group value is the parameter \<open>dg\<close> (\<open>hashlib.blake2s\<close>), the ellipsis character, which lies outside the modelled
  characters, the parameter \<open>ell\<close>. The rate limit of log messages has no influence on the state and is left out.
\<close>

section \<open>The pointer to an event\<close>

definition detection_event_type :: string where
  "detection_event_type = ''centralops.inflight.detection''"

definition event_text_maxlen :: nat where
  "event_text_maxlen = 120"

definition evidence_text :: "string \<Rightarrow> pyval \<Rightarrow> pyval" where
  "evidence_text ell value =
     (if value = PNone then PNone
      else let text = py_str value in
        if length text \<le> event_text_maxlen then PStr text else PStr (take event_text_maxlen text @ ell))"

definition has_event_type :: "pyval \<Rightarrow> bool" where
  "has_event_type v = (case v of PDict d \<Rightarrow> py_eq (dget d ''event_type'') (PStr detection_event_type) | _ \<Rightarrow> False)"

definition is_self_emitted :: "pydict \<Rightarrow> bool" where
  "is_self_emitted envelope =
     (has_event_type (dget envelope ''_centralops'') \<or>
      (case dget envelope ''raw'' of
         PDict raw \<Rightarrow>
           has_event_type (dget raw ''_centralops'') \<or>
           (case dget raw ''unmapped'' of PDict u \<Rightarrow> truthy (dget u ''centralops_detection'') | _ \<Rightarrow> False)
       | _ \<Rightarrow> False))"

definition number_only :: "bool \<Rightarrow> pyval \<Rightarrow> pyval" where
  "number_only floats v = (case v of PInt i \<Rightarrow> v | PFloat q t \<Rightarrow> if floats then v else PNone | _ \<Rightarrow> PNone)"

definition event_source_pointer :: "string \<Rightarrow> pydict \<Rightarrow> string list option \<Rightarrow> string option \<Rightarrow> pydict" where
  "event_source_pointer ell envelope group_path group_value =
     (let meta = as_dict (dget envelope ''_centralops''); nrm = as_dict (dget envelope ''normalized'');
          ev = (\<lambda>k. evidence_text ell (dget meta k)) in
      [(''event_id'', ev ''event_id''), (''vendor'', ev ''vendor''), (''platform'', ev ''platform''), (''stream'', ev ''stream''),
       (''event_type'', ev ''event_type''), (''event_time'', number_only True (dget nrm ''time'')),
       (''event_class_uid'', number_only False (dget nrm ''class_uid'')), (''customer_name'', ev ''customer_name''),
       (''organization_slug'', ev ''organization_slug''), (''data_geography'', ev ''data_geography''),
       (''group_field'', case group_path of Some p \<Rightarrow> if p = [] then PNone else evidence_text ell (PStr (join ''.'' p)) | None \<Rightarrow> PNone),
       (''group_value'', case group_value of Some v \<Rightarrow> evidence_text ell (PStr v) | None \<Rightarrow> PNone),
       (''self_emitted'', PBool (is_self_emitted envelope))])"

section \<open>Accumulating\<close>

record pending_item =
  pi_rule :: inflight_rule
  pi_integration_id :: "int option"
  pi_source :: pydict
  pi_hits :: int
  pi_token :: string
  pi_legs :: "(nat \<times> pydict) list option"

record inflight_acc =
  ac_pending :: "(string \<times> pending_item) list"
  ac_matches :: "(int \<times> int) list"
  ac_errors :: "((string \<times> int) \<times> int) list"
  ac_overflow :: "(int \<times> int) list"
  ac_keys_per_rule :: "(int \<times> int) list"
  ac_absence_rules :: "(int \<times> inflight_rule) list"

definition empty_acc :: inflight_acc where
  "empty_acc = \<lparr>ac_pending = [], ac_matches = [], ac_errors = [], ac_overflow = [], ac_keys_per_rule = [], ac_absence_rules = []\<rparr>"

definition count_of :: "('k \<times> int) list \<Rightarrow> 'k \<Rightarrow> int" where
  "count_of m k = (case map_of m k of None \<Rightarrow> 0 | Some n \<Rightarrow> n)"

definition bump_by :: "'k \<Rightarrow> int \<Rightarrow> ('k \<times> int) list \<Rightarrow> ('k \<times> int) list" where
  "bump_by k n m = AList.update k (count_of m k + n) m"

text \<open>The errors are kept by reason and rule; the nested dictionary of the code is one over pairs here.\<close>

definition count_error :: "string \<Rightarrow> int \<Rightarrow> int \<Rightarrow> inflight_acc \<Rightarrow> inflight_acc" where
  "count_error reason rule_id amount acc = acc\<lparr>ac_errors := bump_by (reason, rule_id) amount (ac_errors acc)\<rparr>"

definition note_rules :: "inflight_rule list \<Rightarrow> inflight_acc \<Rightarrow> inflight_acc" where
  "note_rules rules acc =
     acc\<lparr>ac_absence_rules := foldl (\<lambda>m r. if ir_absence r then AList.update (ir_rule_id r) r m else m) (ac_absence_rules acc) rules\<rparr>"

record acc_settings =
  as_group_value_len :: nat
  as_keys_per_rule :: int
  as_detections_per_flush :: int

definition group_token :: "(string \<Rightarrow> string) \<Rightarrow> nat \<Rightarrow> string \<Rightarrow> string" where
  "group_token dg cap value = (if length value > cap then take cap value @ ''~'' @ dg value else value)"

definition dedup_key :: "int \<Rightarrow> inflight_rule \<Rightarrow> string \<Rightarrow> string" where
  "dedup_key org rule token =
     ''inflight:'' @ int_str org @ '':'' @ int_str (ir_rule_id rule) @ '':'' @
     (if ir_leg_index rule \<noteq> None then ''seq:'' @ token else token)"

definition add_leg :: "inflight_rule \<Rightarrow> pydict \<Rightarrow> pending_item \<Rightarrow> pending_item" where
  "add_leg rule pointer item =
     (case ir_leg_index rule of
        None \<Rightarrow> item
      | Some i \<Rightarrow>
          let legs = (case pi_legs item of None \<Rightarrow> [] | Some l \<Rightarrow> l) in
          item\<lparr>pi_legs := Some (if map_of legs i = None then AList.update i pointer legs else legs)\<rparr>)"

definition add_keyed ::
    "acc_settings \<Rightarrow> string \<Rightarrow> inflight_rule \<Rightarrow> pydict \<Rightarrow> int \<Rightarrow> int option \<Rightarrow> string \<Rightarrow> string option \<Rightarrow> inflight_acc \<Rightarrow> inflight_acc" where
  "add_keyed st ell rule envelope org integ token group_value acc =
     (let key = dedup_key org rule token; rid = ir_rule_id rule;
          pointer = event_source_pointer ell envelope (ir_group_by_path rule) group_value in
      case map_of (ac_pending acc) key of
        Some item \<Rightarrow>
          acc\<lparr>ac_pending := AList.update key (add_leg rule pointer (item\<lparr>pi_hits := pi_hits item + 1\<rparr>)) (ac_pending acc)\<rparr>
      | None \<Rightarrow>
          if count_of (ac_keys_per_rule acc) rid \<ge> int_or (ir_max_dedup_keys rule) (as_keys_per_rule st)
          then count_error ''key_cap'' rid 1 (acc\<lparr>ac_overflow := bump_by rid 1 (ac_overflow acc)\<rparr>)
          else acc\<lparr>ac_keys_per_rule := bump_by rid 1 (ac_keys_per_rule acc),
                   ac_pending := AList.update key
                     \<lparr>pi_rule = rule, pi_integration_id = integ, pi_source = pointer, pi_hits = 1, pi_token = token,
                      pi_legs = map_option (\<lambda>i. [(i, pointer)]) (ir_leg_index rule)\<rparr> (ac_pending acc)\<rparr>)"

definition acc_add ::
    "acc_settings \<Rightarrow> (string \<Rightarrow> string) \<Rightarrow> string \<Rightarrow> inflight_rule \<Rightarrow> pydict \<Rightarrow> int \<Rightarrow> int option \<Rightarrow> inflight_acc \<Rightarrow> inflight_acc" where
  "acc_add st dg ell rule envelope org integ acc0 =
     (let rid = ir_rule_id rule; acc = acc0\<lparr>ac_matches := bump_by rid 1 (ac_matches acc0)\<rparr> in
      case ir_group_by_path rule of
        None \<Rightarrow> add_keyed st ell rule envelope org integ ''*'' None acc
      | Some path \<Rightarrow>
          (let raw = resolve_path path (PDict envelope) in
           if raw = PNone then count_error ''group_by_unresolved'' rid 1 acc
           else let value = py_str raw; cap = as_group_value_len st in
             add_keyed st ell rule envelope org integ (group_token dg cap value) (Some value)
               (if length value > cap then count_error ''group_value_truncated'' rid 1 acc else acc)))"

section \<open>Every match is accounted for\<close>

lemma count_of_bump [simp]: "count_of (bump_by k n m) k' = count_of m k' + (if k' = k then n else 0)"
  by (simp add: count_of_def bump_by_def update_conv')

definition pending_hits :: "int \<Rightarrow> (string \<times> pending_item) list \<Rightarrow> int" where
  "pending_hits rid p = sum_list (map (\<lambda>(k, it). if ir_rule_id (pi_rule it) = rid then pi_hits it else 0) p)"

definition pending_keys :: "int \<Rightarrow> (string \<times> pending_item) list \<Rightarrow> nat" where
  "pending_keys rid p = length (filter (\<lambda>(k, it). ir_rule_id (pi_rule it) = rid) p)"

lemma pending_hits_update:
  assumes "distinct (map fst p)"
  shows "pending_hits rid (AList.update k it p) = pending_hits rid p + (if ir_rule_id (pi_rule it) = rid then pi_hits it else 0) -
    (case map_of p k of Some old \<Rightarrow> if ir_rule_id (pi_rule old) = rid then pi_hits old else 0 | None \<Rightarrow> 0)"
  using assms by (induction p) (auto simp: pending_hits_def map_of_eq_None_iff split: option.splits)

lemma pending_keys_update:
  assumes "distinct (map fst p)" and "map_of p k = None \<or> (\<exists>old. map_of p k = Some old \<and> ir_rule_id (pi_rule old) = ir_rule_id (pi_rule it))"
  shows "pending_keys rid (AList.update k it p) = pending_keys rid p + (if map_of p k = None \<and> ir_rule_id (pi_rule it) = rid then 1 else 0)"
  using assms by (induction p) (auto simp: pending_keys_def split: if_splits)

definition key_owner :: "int \<Rightarrow> string \<Rightarrow> int \<Rightarrow> bool" where
  "key_owner org key rid \<longleftrightarrow> (\<exists>rest. key = ''inflight:'' @ int_str org @ '':'' @ int_str rid @ '':'' @ rest)"

lemma key_owner_unique: "key_owner org key r \<Longrightarrow> key_owner org key r' \<Longrightarrow> r = r'"
  using int_str_no_colon [of r] int_str_no_colon [of r'] int_str_inj by (auto simp: key_owner_def sep_unique)

lemma dedup_key_owner: "key_owner org (dedup_key org rule token) (ir_rule_id rule)"
  by (auto simp: key_owner_def dedup_key_def)

text \<open>The balance of the counters, with the matches that are counted and not yet placed.\<close>

definition acc_inv :: "int \<Rightarrow> (int \<Rightarrow> int) \<Rightarrow> inflight_acc \<Rightarrow> bool" where
  "acc_inv org open_matches acc \<longleftrightarrow> distinct (map fst (ac_pending acc)) \<and>
     (\<forall>(k, it)\<in>set (ac_pending acc). key_owner org k (ir_rule_id (pi_rule it))) \<and>
     (\<forall>rid. count_of (ac_matches acc) rid = pending_hits rid (ac_pending acc) + count_of (ac_overflow acc) rid +
        count_of (ac_errors acc) (''group_by_unresolved'', rid) + open_matches rid) \<and>
     (\<forall>rid. int (pending_keys rid (ac_pending acc)) = count_of (ac_keys_per_rule acc) rid)"

abbreviation settled :: "int \<Rightarrow> int" where
  "settled \<equiv> \<lambda>_. 0"

abbreviation one_open :: "int \<Rightarrow> int \<Rightarrow> int" where
  "one_open rid \<equiv> \<lambda>r. if r = rid then 1 else 0"

lemma acc_inv_empty: "acc_inv org settled empty_acc"
  by (simp add: acc_inv_def empty_acc_def count_of_def pending_hits_def pending_keys_def)

lemma add_leg_frame [simp]: "pi_rule (add_leg r p it) = pi_rule it" "pi_hits (add_leg r p it) = pi_hits it"
  by (simp_all add: add_leg_def Let_def split: option.splits)

lemma set_alist_update: "set (AList.update k v xs) \<subseteq> insert (k, v) (set xs)"
  by (induction xs) auto

lemma add_keyed_inv:
  assumes "acc_inv org (one_open (ir_rule_id rule)) acc"
  shows "acc_inv org settled (add_keyed st ell rule envelope org integ token gv acc)"
proof -
  let ?key = "dedup_key org rule token" and ?rid = "ir_rule_id rule" and ?p = "ac_pending acc"
  note inv = assms [unfolded acc_inv_def]
  have d: "distinct (map fst ?p)" and own: "\<forall>(k, it)\<in>set ?p. key_owner org k (ir_rule_id (pi_rule it))" using inv by auto
  show ?thesis
  proof (cases "map_of ?p ?key")
    case (Some it)
    have same: "ir_rule_id (pi_rule it) = ?rid"
      using own map_of_SomeD [OF Some] dedup_key_owner key_owner_unique by blast
    let ?it = "add_leg rule (event_source_pointer ell envelope (ir_group_by_path rule) gv) (it\<lparr>pi_hits := pi_hits it + 1\<rparr>)"
    have "\<forall>(k, it)\<in>set (AList.update ?key ?it ?p). key_owner org k (ir_rule_id (pi_rule it))"
      using own set_alist_update [of ?key ?it ?p] same dedup_key_owner [of org rule token] by fastforce
    then show ?thesis
      using inv Some same d by (simp add: add_keyed_def Let_def acc_inv_def pending_hits_update pending_keys_update distinct_keys_update)
  next
    case None
    show ?thesis
    proof (cases "count_of (ac_keys_per_rule acc) ?rid \<ge> int_or (ir_max_dedup_keys rule) (as_keys_per_rule st)")
      case True
      then show ?thesis using inv None by (simp add: add_keyed_def Let_def acc_inv_def count_error_def)
    next
      case False
      let ?it = "\<lparr>pi_rule = rule, pi_integration_id = integ, pi_source = event_source_pointer ell envelope (ir_group_by_path rule) gv,
        pi_hits = 1, pi_token = token, pi_legs = map_option (\<lambda>i. [(i, event_source_pointer ell envelope (ir_group_by_path rule) gv)]) (ir_leg_index rule)\<rparr>"
      have "\<forall>(k, it)\<in>set (AList.update ?key ?it ?p). key_owner org k (ir_rule_id (pi_rule it))"
        using own set_alist_update [of ?key ?it ?p] dedup_key_owner [of org rule token] by fastforce
      then show ?thesis
        using inv None False d by (simp add: add_keyed_def Let_def acc_inv_def pending_hits_update pending_keys_update distinct_keys_update)
    qed
  qed
qed

lemma acc_add_inv:
  assumes "acc_inv org settled acc"
  shows "acc_inv org settled (acc_add st dg ell rule envelope org integ acc)"
proof -
  let ?a = "acc\<lparr>ac_matches := bump_by (ir_rule_id rule) 1 (ac_matches acc)\<rparr>"
  have a: "acc_inv org (one_open (ir_rule_id rule)) ?a" using assms by (simp add: acc_inv_def)
  then have t: "acc_inv org (one_open (ir_rule_id rule)) (count_error ''group_value_truncated'' (ir_rule_id rule) 1 ?a)"
    by (simp add: acc_inv_def count_error_def)
  have u: "acc_inv org settled (count_error ''group_by_unresolved'' (ir_rule_id rule) 1 ?a)"
    using a by (simp add: acc_inv_def count_error_def)
  show ?thesis
    using add_keyed_inv [OF a] add_keyed_inv [OF t] u by (simp add: acc_add_def Let_def split: option.splits)
qed

definition acc_adds ::
    "acc_settings \<Rightarrow> (string \<Rightarrow> string) \<Rightarrow> string \<Rightarrow> int \<Rightarrow> (inflight_rule \<times> pydict \<times> int option) list \<Rightarrow> inflight_acc \<Rightarrow> inflight_acc" where
  "acc_adds st dg ell org ms acc = foldl (\<lambda>a (r, e, i). acc_add st dg ell r e org i a) acc ms"

lemma acc_adds_inv: "acc_inv org settled acc \<Longrightarrow> acc_inv org settled (acc_adds st dg ell org ms acc)"
  unfolding acc_adds_def by (rule foldl_invariant) (auto simp: acc_add_inv split: prod.splits)

lemma add_keyed_matches [simp]: "ac_matches (add_keyed st ell rule envelope org integ token gv acc) = ac_matches acc"
  by (simp add: add_keyed_def Let_def count_error_def split: option.splits)

lemma acc_add_matches: "ac_matches (acc_add st dg ell rule envelope org integ acc) = bump_by (ir_rule_id rule) 1 (ac_matches acc)"
  by (simp add: acc_add_def Let_def count_error_def split: option.splits)

lemma acc_adds_matches:
  "count_of (ac_matches (acc_adds st dg ell org ms acc)) rid =
   count_of (ac_matches acc) rid + int (length (filter (\<lambda>(r, e, i). ir_rule_id r = rid) ms))"
  unfolding acc_adds_def by (induction ms arbitrary: acc) (auto simp: acc_add_matches)

lemma add_keyed_keys:
  "count_of (ac_keys_per_rule (add_keyed st ell rule envelope org integ token gv acc)) rid \<le>
   (if rid = ir_rule_id rule then max (count_of (ac_keys_per_rule acc) rid) (int_or (ir_max_dedup_keys rule) (as_keys_per_rule st))
    else count_of (ac_keys_per_rule acc) rid)"
  by (simp add: add_keyed_def Let_def count_error_def split: option.splits)

lemma acc_add_keys:
  "count_of (ac_keys_per_rule (acc_add st dg ell rule envelope org integ acc)) rid \<le>
   (if rid = ir_rule_id rule then max (count_of (ac_keys_per_rule acc) rid) (int_or (ir_max_dedup_keys rule) (as_keys_per_rule st))
    else count_of (ac_keys_per_rule acc) rid)"
  by (auto simp: acc_add_def Let_def count_error_def intro!: order.trans [OF add_keyed_keys] split: option.splits)

lemma acc_adds_keys:
  assumes "\<forall>(r, e, i)\<in>set ms. ir_rule_id r = rid \<longrightarrow> int_or (ir_max_dedup_keys r) (as_keys_per_rule st) \<le> cap"
    and "count_of (ac_keys_per_rule acc) rid \<le> max 0 cap"
  shows "count_of (ac_keys_per_rule (acc_adds st dg ell org ms acc)) rid \<le> max 0 cap"
  unfolding acc_adds_def
proof (rule foldl_invariant)
  fix a :: inflight_acc and m assume m: "m \<in> set ms" and a: "count_of (ac_keys_per_rule a) rid \<le> max 0 cap"
  obtain r e i where "m = (r, e, i)" by (metis prod_cases3)
  then show "count_of (ac_keys_per_rule (case m of (r, e, i) \<Rightarrow> acc_add st dg ell r e org i a)) rid \<le> max 0 cap"
    using assms(1) m a acc_add_keys [of st dg ell r e org i a rid] by (fastforce split: if_splits)
qed (rule assms(2))

text \<open>C15: No match disappears without a trace. After any sequence of matches of a cycle, the matches of a rule are exactly
  the hits of its pending detections, the matches over its cap of keys and those whose group field was missing; and a
  rule holds at most as many keys as its cap allows.\<close>

theorem inflight_matches_accounted:
  assumes "acc = acc_adds st dg ell org ms empty_acc"
    and "\<forall>(r, e, i)\<in>set ms. ir_rule_id r = rid \<longrightarrow> int_or (ir_max_dedup_keys r) (as_keys_per_rule st) \<le> cap"
  shows "int (length (filter (\<lambda>(r, e, i). ir_rule_id r = rid) ms)) =
      pending_hits rid (ac_pending acc) + count_of (ac_overflow acc) rid + count_of (ac_errors acc) (''group_by_unresolved'', rid) \<and>
    int (pending_keys rid (ac_pending acc)) \<le> max 0 cap"
proof -
  have inv: "acc_inv org settled acc" unfolding assms(1) by (rule acc_adds_inv [OF acc_inv_empty])
  have "count_of (ac_matches acc) rid = int (length (filter (\<lambda>(r, e, i). ir_rule_id r = rid) ms))"
    by (simp add: assms(1) acc_adds_matches empty_acc_def count_of_def [of "[]"])
  moreover have "count_of (ac_keys_per_rule acc) rid \<le> max 0 cap"
    unfolding assms(1) by (rule acc_adds_keys [OF assms(2)]) (simp add: empty_acc_def count_of_def)
  ultimately show ?thesis using inv by (simp add: acc_inv_def)
qed

definition demo_rule :: inflight_rule where
  "demo_rule = \<lparr>ir_rule_id = 7, ir_name = ''r'', ir_severity_id = 4, ir_suppression = 300, ir_group_by_path = None, ir_clauses = [],
     ir_emit_event = False, ir_max_dedup_keys = None, ir_min_count = 5, ir_window_seconds = 60, ir_leg_index = None, ir_legs_total = 0,
     ir_leg_label = [], ir_absence = False, ir_forget_seconds = 0\<rparr>"

definition demo_item :: pending_item where
  "demo_item = \<lparr>pi_rule = demo_rule, pi_integration_id = None, pi_source = [], pi_hits = 2, pi_token = ''*'', pi_legs = None\<rparr>"

theorem inflight_matches_accounted_witness:
  "let acc = acc_adds \<lparr>as_group_value_len = 20, as_keys_per_rule = 1, as_detections_per_flush = 2\<rparr> id [] 3
       [(demo_rule, [], None), (demo_rule, [], Some 4)] empty_acc
   in pending_hits 7 (ac_pending acc) + count_of (ac_overflow acc) 7 + count_of (ac_errors acc) (''group_by_unresolved'', 7) = 2 \<and>
     int (pending_keys 7 (ac_pending acc)) \<le> 1"
  using inflight_matches_accounted [OF refl, of "[(demo_rule, [], None), (demo_rule, [], Some 4)]" 7
      "\<lparr>as_group_value_len = 20, as_keys_per_rule = 1, as_detections_per_flush = 2\<rparr>" 1 id "[]" 3]
  by (simp add: demo_rule_def int_or_def Let_def)

end
