(* ===== verification/Inflight_Correlate.thy ===== *)
theory Inflight_Correlate
  imports Inflight_Accumulator
begin

text \<open>
  Correlation over flushes (\<open>inflight/runtime.py\<close>): the sliding windows and the joining of the legs of a sequence, which
  decide, before detections are written, which pending keys stay. The Redis counters of the windows are those of
  \<open>Inflight_Window\<close>.
\<close>

section \<open>Sliding windows\<close>

definition window_targets :: "inflight_acc \<Rightarrow> window_item list" where
  "window_targets acc =
     map (\<lambda>(k, it). (k, pi_hits it, ir_min_count (pi_rule it), ir_window_seconds (pi_rule it)))
       (filter (\<lambda>(k, it). windowed (Some (ir_min_count (pi_rule it))) (Some (ir_window_seconds (pi_rule it)))) (ac_pending acc))"

text \<open>\<open>acc.count_error(reason, rule_id)\<close> followed by \<open>del acc.pending[key]\<close>.\<close>

definition discard_key :: "string \<Rightarrow> string \<Rightarrow> inflight_acc \<Rightarrow> inflight_acc" where
  "discard_key reason key acc =
     (case map_of (ac_pending acc) key of
        None \<Rightarrow> acc
      | Some it \<Rightarrow> (count_error reason (ir_rule_id (pi_rule it)) 1 acc)\<lparr>ac_pending := AList.delete key (ac_pending acc)\<rparr>)"

definition window_evidence :: "int \<Rightarrow> int \<Rightarrow> int \<Rightarrow> pending_item \<Rightarrow> pending_item" where
  "window_evidence tot win min_count it =
     it\<lparr>pi_source := AList.update ''window''
          (PDict [(''count'', PInt tot), (''seconds'', PInt win), (''min_count'', PInt min_count)]) (pi_source it)\<rparr>"

definition judge_window :: "(string \<times> int) list \<Rightarrow> nat \<times> inflight_acc \<Rightarrow> window_item \<Rightarrow> nat \<times> inflight_acc" where
  "judge_window totals ha item =
     (case (ha, item) of ((held, acc), (key, hits, min_count, win)) \<Rightarrow>
        let tot = count_of totals key in
        if tot < min_count then (Suc held, discard_key ''window_below'' key acc)
        else (held, acc\<lparr>ac_pending := map (\<lambda>(k, it). (k, if k = key then window_evidence tot win min_count it else it)) (ac_pending acc)\<rparr>))"

definition apply_sliding_windows :: "'s counters \<Rightarrow> int \<Rightarrow> bool \<Rightarrow> inflight_acc \<Rightarrow> 's \<Rightarrow> (nat \<times> inflight_acc) \<times> 's" where
  "apply_sliding_windows ct now read_ok acc s =
     (let targets = window_targets acc in
      if targets = [] then ((0, acc), s)
      else case apply_windows ct targets now read_ok s of
        (None, s') \<Rightarrow> ((length targets, foldl (\<lambda>a t. discard_key ''window_unavailable'' (fst t) a) acc targets), s')
      | (Some totals, s') \<Rightarrow> (foldl (judge_window totals) (0, acc) targets, s'))"

section \<open>Sequences\<close>

text \<open>The hash commands of Redis as a parameter: setting a field, the expiry of a key, reading all fields, deleting fields, deleting keys
  (\<open>False\<close> when the call raises) and a pipeline, which may fail.\<close>

record 's hashes =
  hs_hset :: "int \<Rightarrow> string \<Rightarrow> string \<Rightarrow> string \<Rightarrow> 's \<Rightarrow> 's"
  hs_expire :: "int \<Rightarrow> string \<Rightarrow> int \<Rightarrow> 's \<Rightarrow> 's"
  hs_getall :: "int \<Rightarrow> string \<Rightarrow> 's \<Rightarrow> (string \<times> string) list"
  hs_hdel :: "int \<Rightarrow> string \<Rightarrow> string list \<Rightarrow> 's \<Rightarrow> 's"
  hs_delete :: "int \<Rightarrow> string list \<Rightarrow> 's \<Rightarrow> bool \<times> 's"
  hs_exec :: "('s \<Rightarrow> 's) \<Rightarrow> 's \<Rightarrow> bool \<times> 's"

definition seq_key :: "string \<Rightarrow> string" where
  "seq_key k = ''inflight:seq:'' @ k"

definition is_sequence :: "pending_item \<Rightarrow> bool" where
  "is_sequence it \<longleftrightarrow> ir_leg_index (pi_rule it) \<noteq> None \<and> ir_legs_total (pi_rule it) > 1"

definition seq_targets :: "inflight_acc \<Rightarrow> (string \<times> pending_item) list" where
  "seq_targets acc = filter (\<lambda>(k, it). is_sequence it) (ac_pending acc)"

definition item_legs :: "pending_item \<Rightarrow> (nat \<times> pydict) list" where
  "item_legs it = (case pi_legs it of None \<Rightarrow> [] | Some l \<Rightarrow> l)"

definition write_seq :: "'s hashes \<Rightarrow> int \<Rightarrow> string \<times> pending_item \<Rightarrow> 's \<Rightarrow> 's" where
  "write_seq hs now x s =
     (case x of (k, it) \<Rightarrow>
        hs_expire hs now (seq_key k) (ir_window_seconds (pi_rule it) + 5)
          (foldl (\<lambda>s (i, p). hs_hset hs now (seq_key k) (nat_str i) (json_spaced (PDict p)) s) s (item_legs it)))"

definition legs_seen :: "(string \<Rightarrow> pyval) \<Rightarrow> (string \<times> string) list \<Rightarrow> (int \<times> pyval) list" where
  "legs_seen cf state =
     foldl (\<lambda>m (field, raw). case (parse_int field, json_loads cf raw) of
              (Some i, Some v) \<Rightarrow> AList.update i v m | _ \<Rightarrow> m) [] state"

text \<open>\<open>dict(legs_seen[index], leg_index=index)\<close>. Only objects are ever stored; \<open>dict\<close> of anything else is taken to raise.\<close>

definition leg_entry :: "(int \<times> pyval) list \<Rightarrow> int \<Rightarrow> unit + pyval" where
  "leg_entry seen i =
     (case map_of seen i of Some (PDict d) \<Rightarrow> Inr (PDict (AList.update ''leg_index'' (PInt i) d)) | _ \<Rightarrow> Inl ())"

definition sequence_evidence :: "pyval list \<Rightarrow> pending_item \<Rightarrow> pending_item" where
  "sequence_evidence legs it =
     it\<lparr>pi_source := AList.update ''sequence''
          (PDict [(''legs'', PInt (int (ir_legs_total (pi_rule it)))), (''window_seconds'', PInt (ir_window_seconds (pi_rule it)))])
          (AList.update ''legs'' (PList legs) (pi_source it))\<rparr>"

fun judge_sequences ::
    "(string \<Rightarrow> pyval) \<Rightarrow> ((string \<times> pending_item) \<times> (string \<times> string) list) list \<Rightarrow> nat \<Rightarrow> string list \<Rightarrow> inflight_acc \<Rightarrow>
     inflight_acc + nat \<times> string list \<times> inflight_acc" where
  "judge_sequences cf [] held shut acc = Inr (held, shut, acc)"
| "judge_sequences cf (((key, it), state) # rest) held shut acc =
     (let seen = legs_seen cf state in
      if length seen < ir_legs_total (pi_rule it)
      then judge_sequences cf rest (Suc held) shut (discard_key ''sequence_below'' key acc)
      else case mapM_result (leg_entry seen) (sort (map fst seen)) of
        Inl u \<Rightarrow> Inl acc
      | Inr legs \<Rightarrow>
          judge_sequences cf rest held (shut @ [seq_key key])
            (acc\<lparr>ac_pending := map (\<lambda>(k, i). (k, if k = key then sequence_evidence legs i else i)) (ac_pending acc)\<rparr>))"

text \<open>\<open>_apply_sequences\<close>; \<open>Inl\<close> is an exception that leaves it, with the accumulator as it was then.\<close>

definition apply_sequences ::
    "'s hashes \<Rightarrow> (string \<Rightarrow> pyval) \<Rightarrow> int \<Rightarrow> bool \<Rightarrow> inflight_acc \<Rightarrow> 's \<Rightarrow> (inflight_acc + nat \<times> inflight_acc) \<times> 's" where
  "apply_sequences hs cf now read_ok acc s =
     (let targets = seq_targets acc;
          unavailable = Inr (length targets, foldl (\<lambda>a t. discard_key ''sequence_unavailable'' (fst t) a) acc targets) in
      if targets = [] then (Inr (0, acc), s)
      else case hs_exec hs (\<lambda>s. foldl (\<lambda>s x. write_seq hs now x s) s targets) s of
        (False, s') \<Rightarrow> (unavailable, s')
      | (True, s') \<Rightarrow>
          if \<not> read_ok then (unavailable, s')
          else case judge_sequences cf (map (\<lambda>x. (x, hs_getall hs now (seq_key (fst x)) s')) targets) 0 [] acc of
            Inl u \<Rightarrow> (Inl u, s')
          | Inr (held, shut, acc') \<Rightarrow> (Inr (held, acc'), if shut = [] then s' else snd (hs_delete hs now shut s')))"

section \<open>The window decides\<close>

lemma delete_length: "distinct (map fst p) \<Longrightarrow> map_of p k = Some v \<Longrightarrow> Suc (length (AList.delete k p)) = length p"
proof (induction p)
  case (Cons x p)
  have "AList.delete k p = p" if "fst x = k"
    using Cons.prems(1) that by (auto simp: AList.delete_eq filter_id_conv image_iff)
  with Cons show ?case by (cases x) (auto split: if_splits)
qed simp

lemma map_of_map_key: "map_of (map (\<lambda>(k, v). (k, if k = k0 then f v else v)) p) k = (if k = k0 then map_option f (map_of p k) else map_of p k)"
  by (induction p) auto

lemma fst_map_key [simp]: "map fst (map (\<lambda>(k, v). (k, if k = k0 then f v else v)) p) = map fst p"
  by (induction p) auto

lemma discard_key_pending [simp]: "ac_pending (discard_key e k acc) = (if map_of (ac_pending acc) k = None then ac_pending acc else AList.delete k (ac_pending acc))"
  by (simp add: discard_key_def count_error_def split: option.splits)

lemma fst_delete: "fst ` set (AList.delete k p) = fst ` set p - {k}"
  by (induction p) auto

text \<open>Keys taken out one after the other.\<close>

lemma discard_keys:
  assumes "distinct ks" and "distinct (map fst (ac_pending acc))" and "set ks \<subseteq> fst ` set (ac_pending acc)"
  shows "distinct (map fst (ac_pending (foldl (\<lambda>a k. discard_key e k a) acc ks))) \<and>
    map_of (ac_pending (foldl (\<lambda>a k. discard_key e k a) acc ks)) k = (if k \<in> set ks then None else map_of (ac_pending acc) k) \<and>
    length ks + length (ac_pending (foldl (\<lambda>a k. discard_key e k a) acc ks)) = length (ac_pending acc)"
  using assms
proof (induction ks arbitrary: acc)
  case (Cons k0 ks)
  obtain it where it: "map_of (ac_pending acc) k0 = Some it"
    using Cons.prems(3) by (metis insert_subset list.simps(15) map_of_eq_None_iff not_None_eq)
  let ?a = "discard_key e k0 acc"
  have p: "ac_pending ?a = AList.delete k0 (ac_pending acc)" using it by simp
  have "distinct (map fst (ac_pending ?a))" unfolding p using Cons.prems(2) by (rule distinct_delete)
  moreover have "set ks \<subseteq> fst ` set (ac_pending ?a)" using Cons.prems(1,3) unfolding p by (auto simp: fst_delete)
  ultimately have "distinct (map fst (ac_pending (foldl (\<lambda>a k. discard_key e k a) ?a ks))) \<and>
    map_of (ac_pending (foldl (\<lambda>a k. discard_key e k a) ?a ks)) k = (if k \<in> set ks then None else map_of (ac_pending ?a) k) \<and>
    length ks + length (ac_pending (foldl (\<lambda>a k. discard_key e k a) ?a ks)) = length (ac_pending ?a)"
    using Cons.IH Cons.prems(1) by simp
  then show ?case using delete_length [OF Cons.prems(2) it] by (auto simp: p delete_conv' simp del: discard_key_pending)
qed simp

text \<open>One verdict: the key leaves, or its item is annotated.\<close>

lemma verdict_step:
  assumes "distinct (map fst p)" and "map_of p k0 = Some it" and "K \<subseteq> fst ` set p" and "k0 \<notin> K"
    and "p' = (if b then AList.delete k0 p else map (\<lambda>(k, i). (k, if k = k0 then f i else i)) p)"
  shows "distinct (map fst p')" and "K \<subseteq> fst ` set p'" and "(if b then 1 else 0) + length p' = length p"
    and "map_of p' k = (if k = k0 then if b then None else Some (f it) else map_of p k)"
proof -
  show "distinct (map fst p')" using assms(1) by (auto simp: assms(5) distinct_delete simp del: map_map)
  have "fst ` set (map (\<lambda>(k, it). (k, if k = k0 then f it else it)) q) = fst ` set q" for q
    by (metis fst_map_key list.set_map)
  then show "K \<subseteq> fst ` set p'" using assms(3,4) by (simp only: assms(5) fst_delete split: if_split) blast
  show "(if b then 1 else 0) + length p' = length p" using delete_length [OF assms(1,2)] by (simp add: assms(5))
  show "map_of p' k = (if k = k0 then if b then None else Some (f it) else map_of p k)"
    using assms(2) by (auto simp: assms(5) delete_conv' map_of_map_key)
qed

lemma judge_windows:
  assumes "foldl (judge_window totals) (n, acc) ts = (n', acc')" and "distinct (map fst ts)"
    and "distinct (map fst (ac_pending acc))" and "fst ` set ts \<subseteq> fst ` set (ac_pending acc)"
  shows "(map_of (ac_pending acc') k = None \<longleftrightarrow> map_of (ac_pending acc) k = None \<or>
      (\<exists>h mc w. (k, h, mc, w) \<in> set ts \<and> count_of totals k < mc)) \<and>
    (k \<notin> fst ` set ts \<longrightarrow> map_of (ac_pending acc') k = map_of (ac_pending acc) k) \<and>
    n' + length (ac_pending acc') = n + length (ac_pending acc)"
  using assms
proof (induction ts arbitrary: n acc)
  case (Cons t ts)
  obtain k0 h0 mc0 w0 where t: "t = (k0, h0, mc0, w0)" by (metis prod_cases4)
  obtain it where it: "map_of (ac_pending acc) k0 = Some it"
    using Cons.prems(4) t by (metis fst_conv image_insert insert_subset list.simps(15) map_of_eq_None_iff not_None_eq)
  obtain n1 a1 where s: "judge_window totals (n, acc) t = (n1, a1)" by force
  have p: "ac_pending a1 = (if count_of totals k0 < mc0 then AList.delete k0 (ac_pending acc) else
      map (\<lambda>(k, i). (k, if k = k0 then window_evidence (count_of totals k0) w0 mc0 i else i)) (ac_pending acc))"
    and n1: "n1 = (if count_of totals k0 < mc0 then Suc n else n)"
    using s it t by (auto simp: judge_window_def Let_def split: if_splits)
  have K: "fst ` set ts \<subseteq> fst ` set (ac_pending acc)" "k0 \<notin> fst ` set ts" using Cons.prems(2,4) t by auto
  note step = verdict_step [OF Cons.prems(3) it K p]
  have other: "(k0, h, mc, w) \<notin> set ts" for h mc w using K(2) by force
  have "foldl (judge_window totals) (n1, a1) ts = (n', acc')" using Cons.prems(1) s by simp
  from Cons.IH [OF this _ step(1,2)] Cons.prems(2)
  have ih: "(map_of (ac_pending acc') k = None \<longleftrightarrow> map_of (ac_pending a1) k = None \<or>
      (\<exists>h mc w. (k, h, mc, w) \<in> set ts \<and> count_of totals k < mc)) \<and>
    (k \<notin> fst ` set ts \<longrightarrow> map_of (ac_pending acc') k = map_of (ac_pending a1) k) \<and>
    n' + length (ac_pending acc') = n1 + length (ac_pending a1)" by simp
  show ?case using ih [unfolded step(4)] step(3) n1 it other by (cases "k = k0") (auto simp: t split: if_splits)
qed simp

lemma window_targets_fst: "distinct (map fst (ac_pending acc)) \<Longrightarrow> distinct (map fst (window_targets acc))"
  unfolding window_targets_def by (simp add: o_def split_def distinct_map_filter)

lemma window_targets_mem:
  assumes "distinct (map fst (ac_pending acc))" "map_of (ac_pending acc) k = Some it"
  shows "(k, h, mc, w) \<in> set (window_targets acc) \<longleftrightarrow> h = pi_hits it \<and> mc = ir_min_count (pi_rule it) \<and> w = ir_window_seconds (pi_rule it) \<and>
    windowed (Some (ir_min_count (pi_rule it))) (Some (ir_window_seconds (pi_rule it)))"
proof -
  have "(k, i) \<in> set (ac_pending acc) \<longleftrightarrow> i = it" for i
    by (metis assms map_of_eq_Some_iff option.inject)
  then show ?thesis by (auto simp: window_targets_def)
qed

lemma window_targets_sub: "fst ` set (window_targets acc) \<subseteq> fst ` set (ac_pending acc)"
  by (force simp: window_targets_def)

lemma apply_windows_fst: "apply_windows ct items now ok s = (Some totals, s') \<Longrightarrow> map fst totals = map fst items"
  by (auto simp: apply_windows_def read_item_def o_def case_prod_beta split: if_splits prod.splits bool.splits)

text \<open>C20: The window decides which keys become detections. When the counters are readable, a pending key of a rule with a
  window stays exactly when the hits of the flushes whose counters were written to Redis, this one included, at times from
  \<open>window_start\<close> to now reach the minimum count; the start is less than a slice (a tenth of the window, at least a second)
  away from \<open>window_seconds\<close> ago. When Redis fails no such key stays. Keys of other rules are untouched, and every key that
  left is counted as held back.\<close>

theorem sliding_window_gate:
  assumes "counter_laws ct live" and "flush_run ct t0 s0 fs t s" and "\<And>t b. live s0 t (window_key k b) = None"
    and "t \<le> now" and "distinct (map fst (ac_pending acc))" and "map_of (ac_pending acc) k = Some it"
    and "windowed (Some (ir_min_count (pi_rule it))) (Some (ir_window_seconds (pi_rule it)))"
    and "\<forall>(ts, items)\<in>set fs. \<forall>(k', h, mc, w')\<in>set items. k' = k \<longrightarrow> w' = ir_window_seconds (pi_rule it)"
    and "apply_sliding_windows ct now ok acc s = ((held, acc'), s')"
  shows "(map_of (ac_pending acc') k \<noteq> None \<longleftrightarrow> fst (apply_windows ct (window_targets acc) now ok s) \<noteq> None \<and>
      ir_min_count (pi_rule it) \<le> sum_list (map snd (filter (\<lambda>x. window_start (ir_window_seconds (pi_rule it)) now \<le> fst x \<and> fst x \<le> now)
        (all_hits k (fs @ [(now, window_targets acc)]))))) \<and>
    \<bar>window_start (ir_window_seconds (pi_rule it)) now - (now - ir_window_seconds (pi_rule it))\<bar> <
      max 1 (ir_window_seconds (pi_rule it) div 10) \<and>
    (\<forall>k'. k' \<notin> fst ` set (window_targets acc) \<longrightarrow> map_of (ac_pending acc') k' = map_of (ac_pending acc) k') \<and>
    held + length (ac_pending acc') = length (ac_pending acc)"
proof -
  let ?ts = "window_targets acc" and ?w = "ir_window_seconds (pi_rule it)"
  have mem: "(k, pi_hits it, ir_min_count (pi_rule it), ?w) \<in> set ?ts" using window_targets_mem [OF assms(5,6)] assms(7) by simp
  have only: "\<forall>(k', h, mc, w')\<in>set ?ts. k' = k \<longrightarrow> w' = ?w" using window_targets_mem [OF assms(5,6)] by auto
  obtain r s1 where aw: "apply_windows ct ?ts now ok s = (r, s1)" by force
  note dist = window_targets_fst [OF assms(5)]
  have ne: "?ts \<noteq> []" using mem by auto
  have w: "1 \<le> ?w" using assms(7) by (simp add: windowed_def)
  note near = window_start_near [OF w, of now]
  show ?thesis
  proof (cases r)
    case None
    have "foldl (\<lambda>a t. discard_key ''window_unavailable'' (fst t) a) acc ?ts =
        foldl (\<lambda>a k. discard_key ''window_unavailable'' k a) acc (map fst ?ts)" by (simp add: foldl_map)
    then have o: "held = length ?ts" "acc' = foldl (\<lambda>a k. discard_key ''window_unavailable'' k a) acc (map fst ?ts)"
      using assms(9) aw None ne by (simp_all add: apply_sliding_windows_def Let_def)
    have "k \<in> fst ` set ?ts" using mem by force
    then show ?thesis using discard_keys [OF dist assms(5)] window_targets_sub [of acc] aw None near unfolding o by simp
  next
    case (Some totals)
    have o: "foldl (judge_window totals) (0, acc) ?ts = (held, acc')"
      using assms(9) aw Some ne by (simp add: apply_sliding_windows_def Let_def)
    have "\<forall>(ts, items)\<in>set (fs @ [(now, ?ts)]). \<forall>(k', h, mc, w')\<in>set items. k' = k \<longrightarrow> w' = ?w"
      using assms(8) only by auto
    from window_total_exact [OF assms(1-3) w this assms(4) mem aw [unfolded Some]]
    have "count_of totals k = sum_list (map snd (filter (\<lambda>x. window_start ?w now \<le> fst x \<and> fst x \<le> now) (all_hits k (fs @ [(now, ?ts)]))))"
      using dist apply_windows_fst [OF aw [unfolded Some]] by (simp add: count_of_def in_window_def)
    moreover note judge_windows [OF o dist assms(5) window_targets_sub]
    ultimately show ?thesis using aw Some assms(6) window_targets_mem [OF assms(5,6)] mem near by auto
  qed
qed


section \<open>The legs decide\<close>

lemma parse_int_unsigned:
  assumes "strip s = c # r" "c \<noteq> CHR ''-''" "c \<noteq> CHR ''+''"
  shows "parse_int s = map_option int (parse_nat (c # r))"
  using assms by (cases c) (auto simp: parse_int_def split: bool.splits)

lemma update_fresh: "k \<notin> fst ` set xs \<Longrightarrow> AList.update k v xs = xs @ [(k, v)]"
  by (induction xs) auto

lemma parse_int_nat_str [simp]: "parse_int (nat_str n) = Some (int n)"
proof -
  have d: "list_all is_digit (nat_str n)" "digits_value (nat_str n) = n" using nat_str_digits [of n] by auto
  have "\<not> py_space c" if "is_digit c" for c using that by (auto simp: is_digit_def py_space_def Let_def)
  then have sp: "\<not> py_space c" if "c \<in> set (nat_str n)" for c using d(1) that by (auto simp: list_all_iff)
  have s: "strip (nat_str n) = nat_str n"
  proof -
    have "dropWhile py_space xs = xs" if "set xs \<subseteq> set (nat_str n)" for xs using that sp by (cases xs) auto
    then show ?thesis by (simp add: strip_def)
  qed
  have u: "CHR ''_'' \<notin> set (nat_str n)" using d(1) by (auto simp: list_all_iff is_digit_def)
  have "parse_nat (nat_str n) = Some n" using d by (simp add: parse_nat_def split_on_single [OF u])
  moreover have "hd (nat_str n) \<noteq> CHR ''-''" "hd (nat_str n) \<noteq> CHR ''+''" using hd_nat_str_digit [of n] by (auto simp: is_digit_def)
  ultimately show ?thesis
    using parse_int_unsigned [of "nat_str n" "hd (nat_str n)" "tl (nat_str n)"] s by simp
qed

text \<open>A stored hash of a sequence: the fields are leg numbers, the values pointers.\<close>

definition leg_field :: "nat \<Rightarrow> string \<times> string \<Rightarrow> bool" where
  "leg_field n x \<longleftrightarrow> (\<exists>i<n. \<exists>p. x = (nat_str i, json_spaced (PDict p)) \<and> json_plain (PDict p))"

lemma spaced_round_trip: "json_plain v \<Longrightarrow> json_loads cf (json_spaced v) = Some v"
  by (rule json_round_trip) (auto simp: json_ws_def)

lemma leg_field_parse:
  assumes "leg_field n (f, raw)"
  obtains i p where "i < n" "f = nat_str i" "parse_int f = Some (int i)" "json_loads cf raw = Some (PDict p)"
  using assms spaced_round_trip [of _ cf] by (auto simp: leg_field_def simp del: json_print.simps)

lemma legs_seen_snoc: "legs_seen cf (st @ [(f, raw)]) = (case (parse_int f, json_loads cf raw) of
    (Some i, Some v) \<Rightarrow> AList.update i v (legs_seen cf st) | _ \<Rightarrow> legs_seen cf st)"
  by (simp add: legs_seen_def split: option.splits)

lemma legs_seen_wf:
  assumes "distinct (map fst st)" and "\<forall>x\<in>set st. leg_field n x"
  shows "distinct (map fst (legs_seen cf st)) \<and> fst ` set (legs_seen cf st) = {int i | i. nat_str i \<in> fst ` set st} \<and>
    length (legs_seen cf st) = length st \<and> (\<forall>(i, v)\<in>set (legs_seen cf st). \<exists>d. v = PDict d)"
  using assms
proof (induction st rule: rev_induct)
  case (snoc x st)
  obtain f raw where x: "x = (f, raw)" by force
  obtain i p where ip: "f = nat_str i" "parse_int f = Some (int i)" "json_loads cf raw = Some (PDict p)"
    using snoc.prems(2) x by (auto elim: leg_field_parse [of n f raw cf])
  let ?l = "legs_seen cf st"
  have ih: "distinct (map fst ?l)" "fst ` set ?l = {int i | i. nat_str i \<in> fst ` set st}"
      "length ?l = length st" "\<forall>(i, v)\<in>set ?l. \<exists>d. v = PDict d" using snoc by auto
  have new: "int i \<notin> fst ` set ?l" using snoc.prems(1) x ip(1) ih(2) by auto
  have "legs_seen cf (st @ [x]) = ?l @ [(int i, PDict p)]" using ip update_fresh [OF new] by (simp add: x legs_seen_snoc)
  then show ?case using ih new ip(1) by (auto simp: x dest: nat_str_inj)
qed (simp add: legs_seen_def)


lemma leg_entries:
  assumes "\<forall>(i, v)\<in>set seen. \<exists>d. v = PDict d"
  shows "\<exists>legs. mapM_result (leg_entry seen) (sort (map fst seen)) = Inr legs"
proof -
  have "\<exists>y. leg_entry seen i = Inr y" if i: "i \<in> fst ` set seen" for i
  proof -
    obtain v where v: "map_of seen i = Some v" using i by (cases "map_of seen i") (auto simp: map_of_eq_None_iff)
    then obtain d where "v = PDict d" using assms map_of_SomeD [OF v] by blast
    then show ?thesis using v by (simp add: leg_entry_def)
  qed
  moreover have "(\<forall>x\<in>set xs. \<exists>y. g x = Inr y) \<Longrightarrow> \<exists>ys. mapM_result g xs = Inr ys" for g :: "int \<Rightarrow> unit + pyval" and xs
    by (induction xs) auto
  ultimately show ?thesis by simp
qed

definition whole :: "(string \<times> pending_item) \<times> (string \<times> string) list \<Rightarrow> bool" where
  "whole x \<longleftrightarrow> ir_legs_total (pi_rule (snd (fst x))) \<le> length (snd x)"

lemma judge_sequences_spec:
  assumes "\<forall>((k, it), st)\<in>set xs. distinct (map fst st) \<and> (\<forall>x\<in>set st. leg_field (ir_legs_total (pi_rule it)) x)"
    and "distinct (map (fst \<circ> fst) xs)" and "distinct (map fst (ac_pending acc))" and "fst ` fst ` set xs \<subseteq> fst ` set (ac_pending acc)"
  shows "\<exists>held' shut' acc'. judge_sequences cf xs held shut acc = Inr (held', shut', acc') \<and>
    (\<forall>k. map_of (ac_pending acc') k = None \<longleftrightarrow> map_of (ac_pending acc) k = None \<or> (\<exists>it st. ((k, it), st) \<in> set xs \<and> \<not> whole ((k, it), st))) \<and>
    (\<forall>k. k \<notin> fst ` fst ` set xs \<longrightarrow> map_of (ac_pending acc') k = map_of (ac_pending acc) k) \<and>
    held' + length (ac_pending acc') = held + length (ac_pending acc) \<and>
    set shut' = set shut \<union> (\<lambda>x. seq_key (fst (fst x))) ` {x \<in> set xs. whole x}"
  using assms
proof (induction xs arbitrary: held shut acc)
  case (Cons x xs)
  obtain k0 it0 st where x: "x = ((k0, it0), st)" by (metis prod.collapse)
  let ?seen = "legs_seen cf st"
  have seen: "length ?seen = length st" "\<forall>(i, v)\<in>set ?seen. \<exists>d. v = PDict d"
    using legs_seen_wf [of st "ir_legs_total (pi_rule it0)" cf] Cons.prems(1) x by auto
  obtain legs where legs: "mapM_result (leg_entry ?seen) (sort (map fst ?seen)) = Inr legs" using leg_entries [OF seen(2)] by blast
  obtain it where it: "map_of (ac_pending acc) k0 = Some it"
    using Cons.prems(4) x by (metis fst_conv image_insert insert_subset list.simps(15) map_of_eq_None_iff not_None_eq)
  define a1 where "a1 = (if whole x then acc\<lparr>ac_pending := map (\<lambda>(k, i). (k, if k = k0 then sequence_evidence legs i else i)) (ac_pending acc)\<rparr>
    else discard_key ''sequence_below'' k0 acc)"
  have p: "ac_pending a1 = (if \<not> whole x then AList.delete k0 (ac_pending acc)
      else map (\<lambda>(k, i). (k, if k = k0 then sequence_evidence legs i else i)) (ac_pending acc))" using it by (simp add: a1_def)
  have run: "judge_sequences cf (x # xs) held shut acc =
      judge_sequences cf xs (if whole x then held else Suc held) (if whole x then shut @ [seq_key k0] else shut) a1"
    using seen(1) legs by (simp add: x a1_def whole_def Let_def not_le)
  have K: "fst ` fst ` set xs \<subseteq> fst ` set (ac_pending acc)" "k0 \<notin> fst ` fst ` set xs" using Cons.prems(2,4) x by (auto simp: image_image)
  note step = verdict_step [OF Cons.prems(3) it K p]
  have other: "((k0, i), t) \<notin> set xs" for i t using K(2) by force
  have prem: "\<forall>((k, it), st)\<in>set xs. distinct (map fst st) \<and> (\<forall>x\<in>set st. leg_field (ir_legs_total (pi_rule it)) x)"
      "distinct (map (fst \<circ> fst) xs)" using Cons.prems(1,2) by (simp_all add: o_def)
  from Cons.IH [OF prem step(1,2), of "if whole x then held else Suc held" "if whole x then shut @ [seq_key k0] else shut"]
  obtain held' shut' acc' where ih0: "judge_sequences cf (x # xs) held shut acc = Inr (held', shut', acc') \<and>
      (\<forall>k. map_of (ac_pending acc') k = None \<longleftrightarrow> map_of (ac_pending a1) k = None \<or> (\<exists>it st. ((k, it), st) \<in> set xs \<and> \<not> whole ((k, it), st))) \<and>
      (\<forall>k. k \<notin> fst ` fst ` set xs \<longrightarrow> map_of (ac_pending acc') k = map_of (ac_pending a1) k) \<and>
      held' + length (ac_pending acc') = (if whole x then held else Suc held) + length (ac_pending a1) \<and>
      set shut' = set (if whole x then shut @ [seq_key k0] else shut) \<union> (\<lambda>x. seq_key (fst (fst x))) ` {x \<in> set xs. whole x}"
    unfolding run by (elim exE)
  note ih = ih0 [THEN conjunct1] ih0 [THEN conjunct2, THEN conjunct1, rule_format]
    ih0 [THEN conjunct2, THEN conjunct2, THEN conjunct1, rule_format]
    ih0 [THEN conjunct2, THEN conjunct2, THEN conjunct2, THEN conjunct1] ih0 [THEN conjunct2, THEN conjunct2, THEN conjunct2, THEN conjunct2]
  have "map_of (ac_pending acc') k = None \<longleftrightarrow> map_of (ac_pending acc) k = None \<or> (\<exists>it st. ((k, it), st) \<in> set (x # xs) \<and> \<not> whole ((k, it), st))" for k
    unfolding ih(2) step(4) using it other by (cases "k = k0") (auto simp: x)
  moreover have "k \<notin> fst ` fst ` set (x # xs) \<Longrightarrow> map_of (ac_pending acc') k = map_of (ac_pending acc) k" for k
    using ih(3) [of k] step(4) by (auto simp: x)
  moreover have "held' + length (ac_pending acc') = held + length (ac_pending acc)" using ih(4) step(3) by (simp split: if_splits)
  moreover have "{y \<in> set (x # xs). whole y} = (if whole x then insert x {y \<in> set xs. whole y} else {y \<in> set xs. whole y})" by auto
  then have "set shut' = set shut \<union> (\<lambda>x. seq_key (fst (fst x))) ` {y \<in> set (x # xs). whole y}" using ih(5) by (simp add: x)
  ultimately show ?case using ih(1) by blast
qed simp

lemma seq_key_inj [simp]: "seq_key k = seq_key k' \<longleftrightarrow> k = k'"
  by (simp add: seq_key_def)

definition stored_legs :: "pending_item \<Rightarrow> string \<rightharpoonup> string" where
  "stored_legs it = map_of (map (\<lambda>(i, p). (nat_str i, json_spaced (PDict p))) (rev (item_legs it)))"

text \<open>The laws of the hash commands: \<open>live s t k\<close> is what a read of \<open>k\<close> at time \<open>t\<close> sees if nothing runs in between.\<close>

locale hash_laws =
  fixes hs :: "'s hashes" and live :: "'s \<Rightarrow> int \<Rightarrow> string \<Rightarrow> string \<rightharpoonup> string"
  assumes hset: "live (hs_hset hs t k fld v s) t k' = (if k' = k then (live s t k)(fld \<mapsto> v) else live s t k')"
    and hset_frame: "t \<le> t' \<Longrightarrow> k' \<noteq> k \<Longrightarrow> live (hs_hset hs t k fld v s) t' k' = live s t' k'"
    and expire: "t \<le> t' \<Longrightarrow> live (hs_expire hs t k ttl s) t' k' =
        (if k' = k then (if t' < t + ttl then live s t k else Map.empty) else live s t' k')"
    and getall: "map_of (hs_getall hs t k s) = live s t k" "distinct (map fst (hs_getall hs t k s))"
    and hdel: "t \<le> t' \<Longrightarrow> live (hs_hdel hs t k fs s) t' k' = (if k' = k then live s t' k |` (- set fs) else live s t' k')"
    and delete_ok: "hs_delete hs t ks s = (True, s') \<Longrightarrow> t \<le> t' \<Longrightarrow> live s' t' k = (if k \<in> set ks then Map.empty else live s t' k)"
    and exec_ok: "hs_exec hs f s = (True, s') \<Longrightarrow> \<exists>s0. live s0 = live s \<and> live s' = live (f s0)"
begin

lemma hsets_effect:
  "live (foldl (\<lambda>s (i, p). hs_hset hs t k (nat_str i) (json_spaced (PDict p)) s) s ls) t k' =
   (if k' = k then live s t k ++ map_of (map (\<lambda>(i, p). (nat_str i, json_spaced (PDict p))) (rev ls)) else live s t k')"
  by (induction ls arbitrary: s) (auto simp: hset map_add_def fun_eq_iff split: option.splits simp del: json_print.simps)

lemma write_effect:
  assumes "0 < ir_window_seconds (pi_rule it) + 5"
  shows "live (write_seq hs t (k, it) s) t (seq_key k') =
    (if k' = k then live s t (seq_key k) ++ stored_legs it else live s t (seq_key k'))"
  using assms by (simp add: write_seq_def expire hsets_effect stored_legs_def del: json_print.simps)

lemma writes_effect:
  assumes "distinct (map fst ts)" and "\<forall>(k, it)\<in>set ts. 0 < ir_window_seconds (pi_rule it) + 5" and "(k, it) \<in> set ts"
  shows "live (foldl (\<lambda>s x. write_seq hs t x s) s ts) t (seq_key k) = live s t (seq_key k) ++ stored_legs it"
proof -
  have skip: "live (foldl (\<lambda>s x. write_seq hs t x s) s ts) t (seq_key k) = live s t (seq_key k)"
    if "k \<notin> fst ` set ts" "\<forall>(k, it)\<in>set ts. 0 < ir_window_seconds (pi_rule it) + 5" for ts s
    using that by (induction ts arbitrary: s) (auto simp: write_effect)
  show ?thesis using assms
  proof (induction ts arbitrary: s)
    case (Cons x ts)
    show ?case
    proof (cases "x = (k, it)")
      case True
      have "k \<notin> fst ` set ts" using Cons.prems(1) True by simp
      then show ?thesis using skip [of ts] Cons.prems(2) True by (simp add: write_effect)
    next
      case False
      then have "(k, it) \<in> set ts" "fst x \<noteq> k" using Cons.prems(1,3) by (auto simp: rev_image_eqI)
      then show ?thesis using Cons by (cases x) (auto simp: write_effect)
    qed
  qed simp
qed

end

lemma all_legs:
  assumes "distinct (map fst st)" and "\<forall>x\<in>set st. leg_field n x"
  shows "n \<le> length st \<longleftrightarrow> (\<forall>i<n. nat_str i \<in> fst ` set st)"
proof -
  have sub: "fst ` set st \<subseteq> nat_str ` {..<n}" using assms(2) by (auto simp: leg_field_def)
  have card: "card (fst ` set st) = length st" using assms(1) by (metis distinct_card length_map list.set_map)
  have n: "card (nat_str ` {..<n}) = n" using nat_str_inj by (simp add: card_image inj_on_def)
  show ?thesis
  proof
    assume "n \<le> length st"
    then have "fst ` set st = nat_str ` {..<n}" using sub card n by (intro card_seteq) auto
    then show "\<forall>i<n. nat_str i \<in> fst ` set st" by auto
  next
    assume "\<forall>i<n. nat_str i \<in> fst ` set st"
    then have "nat_str ` {..<n} \<subseteq> fst ` set st" by auto
    then show "n \<le> length st" using card_mono [of "fst ` set st" "nat_str ` {..<n}"] card n by simp
  qed
qed

text \<open>What earlier flushes left for the pending sequences: only legs of their rule, with readable pointers.\<close>

definition seq_wf :: "('s \<Rightarrow> int \<Rightarrow> string \<Rightarrow> string \<rightharpoonup> string) \<Rightarrow> 's \<Rightarrow> int \<Rightarrow> inflight_acc \<Rightarrow> bool" where
  "seq_wf live s now acc \<longleftrightarrow> (\<forall>(k, it)\<in>set (seq_targets acc). 0 < ir_window_seconds (pi_rule it) + 5 \<and>
     (\<forall>(i, p)\<in>set (item_legs it). i < ir_legs_total (pi_rule it) \<and> json_plain (PDict p)) \<and>
     (\<forall>f v. live s now (seq_key k) f = Some v \<longrightarrow> leg_field (ir_legs_total (pi_rule it)) (f, v)))"

lemma stored_legs_field:
  assumes "\<forall>(i, p)\<in>set (item_legs it). i < n \<and> json_plain (PDict p)" and "stored_legs it f = Some v"
  shows "leg_field n (f, v)"
  using assms map_of_SomeD [OF assms(2) [unfolded stored_legs_def]] by (fastforce simp: leg_field_def simp del: json_print.simps json_plain.simps)

lemma stored_legs_dom: "stored_legs it (nat_str i) \<noteq> None \<longleftrightarrow> i \<in> fst ` set (item_legs it)"
proof -
  have "stored_legs it (nat_str i) \<noteq> None \<longleftrightarrow> nat_str i \<in> nat_str ` fst ` set (item_legs it)"
    unfolding stored_legs_def by (auto simp: map_of_eq_None_iff image_image split_def simp del: json_print.simps)
  then show ?thesis using nat_str_inj by auto
qed

lemma seq_targets_mem:
  assumes "distinct (map fst (ac_pending acc))" "map_of (ac_pending acc) k = Some it" "is_sequence it"
  shows "(k, i) \<in> set (seq_targets acc) \<longleftrightarrow> i = it"
  using assms(3) map_of_eq_Some_iff [OF assms(1), of k i] assms(2) by (auto simp: seq_targets_def)

lemma seq_targets_keys:
  "distinct (map fst (ac_pending acc)) \<Longrightarrow> distinct (map fst (seq_targets acc))" "fst ` set (seq_targets acc) \<subseteq> fst ` set (ac_pending acc)"
  by (auto simp: seq_targets_def distinct_map_filter)

text \<open>The hashes read after the write.\<close>

lemma read_legs:
  assumes "hash_laws hs live" and "seq_wf live s now acc" and "distinct (map fst (ac_pending acc))"
    and "hs_exec hs (\<lambda>s. foldl (\<lambda>s x. write_seq hs now x s) s (seq_targets acc)) s = (True, s')" and "(k, it) \<in> set (seq_targets acc)"
  shows "\<forall>x\<in>set (hs_getall hs now (seq_key k) s'). leg_field (ir_legs_total (pi_rule it)) x"
    and "nat_str i \<in> fst ` set (hs_getall hs now (seq_key k) s') \<longleftrightarrow> i \<in> fst ` set (item_legs it) \<or> live s now (seq_key k) (nat_str i) \<noteq> None"
proof -
  note laws = hash_laws.getall [OF assms(1)]
  have wf: "0 < ir_window_seconds (pi_rule it) + 5" "\<forall>(i, p)\<in>set (item_legs it). i < ir_legs_total (pi_rule it) \<and> json_plain (PDict p)"
      "\<forall>f v. live s now (seq_key k) f = Some v \<longrightarrow> leg_field (ir_legs_total (pi_rule it)) (f, v)"
    and pos: "\<forall>(k, it)\<in>set (seq_targets acc). 0 < ir_window_seconds (pi_rule it) + 5"
    using assms(2,5) unfolding seq_wf_def by blast+
  obtain s0 where s0: "live s0 = live s" "live s' = live (foldl (\<lambda>s x. write_seq hs now x s) s0 (seq_targets acc))"
    using hash_laws.exec_ok [OF assms(1,4)] by blast
  have m: "map_of (hs_getall hs now (seq_key k) s') = live s now (seq_key k) ++ stored_legs it"
    unfolding laws(1) s0(2) hash_laws.writes_effect [OF assms(1) seq_targets_keys(1) [OF assms(3)] pos assms(5)] s0(1) ..
  show "\<forall>x\<in>set (hs_getall hs now (seq_key k) s'). leg_field (ir_legs_total (pi_rule it)) x"
  proof
    fix x assume "x \<in> set (hs_getall hs now (seq_key k) s')"
    then have "(live s now (seq_key k) ++ stored_legs it) (fst x) = Some (snd x)"
      unfolding m [symmetric] using map_of_eq_Some_iff [OF laws(2)] by simp
    then show "leg_field (ir_legs_total (pi_rule it)) x"
      using wf(3) stored_legs_field [OF wf(2)] by (cases x) (auto simp: map_add_Some_iff)
  qed
  have "nat_str i \<in> fst ` set (hs_getall hs now (seq_key k) s') \<longleftrightarrow> (live s now (seq_key k) ++ stored_legs it) (nat_str i) \<noteq> None"
    unfolding m [symmetric] by (simp add: map_of_eq_None_iff)
  then show "nat_str i \<in> fst ` set (hs_getall hs now (seq_key k) s') \<longleftrightarrow> i \<in> fst ` set (item_legs it) \<or> live s now (seq_key k) (nat_str i) \<noteq> None"
    using stored_legs_dom [of it i] by auto
qed

text \<open>A sequence becomes a detection only when it is complete. After a flush that reached Redis, a pending sequence stays
  exactly when each of its legs was matched in this flush or is still stored from an earlier one; when Redis fails no
  sequence stays. Pending keys of other rules are untouched and every key that left is counted as held back.\<close>

theorem sequence_gate:
  assumes "hash_laws hs live" and "seq_wf live s now acc" and "distinct (map fst (ac_pending acc))"
    and "map_of (ac_pending acc) k = Some it" and "is_sequence it"
  shows "\<exists>held acc' s'. apply_sequences hs cf now ok acc s = (Inr (held, acc'), s') \<and>
    (map_of (ac_pending acc') k \<noteq> None \<longleftrightarrow> ok \<and> fst (hs_exec hs (\<lambda>s. foldl (\<lambda>s x. write_seq hs now x s) s (seq_targets acc)) s) \<and>
      (\<forall>i<ir_legs_total (pi_rule it). i \<in> fst ` set (item_legs it) \<or> live s now (seq_key k) (nat_str i) \<noteq> None)) \<and>
    (\<forall>k'. k' \<notin> fst ` set (seq_targets acc) \<longrightarrow> map_of (ac_pending acc') k' = map_of (ac_pending acc) k') \<and>
    held + length (ac_pending acc') = length (ac_pending acc)"
proof -
  let ?ts = "seq_targets acc" and ?n = "ir_legs_total (pi_rule it)"
  note keys = seq_targets_keys(1) [OF assms(3)] seq_targets_keys(2) [of acc]
  have mem: "(k, it) \<in> set ?ts" using seq_targets_mem [OF assms(3-5)] by simp
  have ne: "?ts \<noteq> []" using mem by auto
  obtain r s1 where ex: "hs_exec hs (\<lambda>s. foldl (\<lambda>s x. write_seq hs now x s) s ?ts) s = (r, s1)" by force
  show ?thesis
  proof (cases "r \<and> ok")
    case False
    have fold: "foldl (\<lambda>a t. discard_key ''sequence_unavailable'' (fst t) a) acc ?ts =
        foldl (\<lambda>a k. discard_key ''sequence_unavailable'' k a) acc (map fst ?ts)" by (simp add: foldl_map)
    have "k \<in> fst ` set ?ts" using mem by force
    then show ?thesis
      using discard_keys [OF keys(1) assms(3), of "''sequence_unavailable''"] keys(2) ex ne False
      by (cases r) (simp_all add: apply_sequences_def Let_def fold)
  next
    case True
    let ?xs = "map (\<lambda>x. (x, hs_getall hs now (seq_key (fst x)) s1)) ?ts"
    note ex1 = ex [unfolded True [THEN conjunct1, THEN eqTrueI]]
    note legs = read_legs [OF assms(1-3)]
    have wf: "\<forall>((k, it), st)\<in>set ?xs. distinct (map fst st) \<and> (\<forall>x\<in>set st. leg_field (ir_legs_total (pi_rule it)) x)"
      using hash_laws.getall(2) [OF assms(1)] legs(1) ex True by auto
    have xs: "distinct (map (fst \<circ> fst) ?xs)" "fst ` fst ` set ?xs \<subseteq> fst ` set (ac_pending acc)"
      using keys by (simp_all add: o_def image_image)
    obtain held shut acc' where j: "judge_sequences cf ?xs 0 [] acc = Inr (held, shut, acc')"
        "\<And>k. map_of (ac_pending acc') k = None \<longleftrightarrow> map_of (ac_pending acc) k = None \<or> (\<exists>it st. ((k, it), st) \<in> set ?xs \<and> \<not> whole ((k, it), st))"
        "\<And>k. k \<notin> fst ` fst ` set ?xs \<Longrightarrow> map_of (ac_pending acc') k = map_of (ac_pending acc) k"
        "held + length (ac_pending acc') = length (ac_pending acc)"
      using judge_sequences_spec [OF wf xs(1) assms(3) xs(2), of cf 0 "[]"] by auto
    have w: "whole ((k, it), hs_getall hs now (seq_key k) s1) \<longleftrightarrow>
        (\<forall>i<?n. i \<in> fst ` set (item_legs it) \<or> live s now (seq_key k) (nat_str i) \<noteq> None)"
      using all_legs [OF hash_laws.getall(2) [OF assms(1)] legs(1)] legs(2) ex True mem by (simp add: whole_def)
    have "((k, it'), st) \<in> set ?xs \<longleftrightarrow> it' = it \<and> st = hs_getall hs now (seq_key k) s1" for it' st
      using seq_targets_mem [OF assms(3-5)] by (auto simp: image_iff)
    then have "map_of (ac_pending acc') k = None \<longleftrightarrow> \<not> whole ((k, it), hs_getall hs now (seq_key k) s1)"
      unfolding j(2) [of k] using assms(4) by simp
    then have "map_of (ac_pending acc') k \<noteq> None \<longleftrightarrow> (\<forall>i<?n. i \<in> fst ` set (item_legs it) \<or> live s now (seq_key k) (nat_str i) \<noteq> None)"
      unfolding w [symmetric] by simp
    moreover have "fst ` fst ` set ?xs = fst ` set ?ts" by (simp add: image_image)
    ultimately show ?thesis using j(1,3,4) ex True ne by (simp add: apply_sequences_def Let_def)
  qed
qed

section \<open>A hash store\<close>

text \<open>Hashes with an optional expiry time, and a schedule that says which pipelines reach the server.\<close>

type_synonym hash_db = "bool list \<times> (string \<Rightarrow> ((string \<times> string) list \<times> int option) option)"

definition db_fields :: "hash_db \<Rightarrow> int \<Rightarrow> string \<Rightarrow> (string \<times> string) list" where
  "db_fields s t k = (case snd s k of None \<Rightarrow> [] | Some (h, None) \<Rightarrow> h | Some (h, Some e) \<Rightarrow> if t < e then h else [])"

definition mem_hashes :: "hash_db hashes" where
  "mem_hashes = \<lparr>
     hs_hset = (\<lambda>t k f v s. (fst s, (snd s)(k := Some (AList.update f v (db_fields s t k),
        case snd s k of Some (h, e) \<Rightarrow> if db_fields s t k = [] then None else e | None \<Rightarrow> None)))),
     hs_expire = (\<lambda>t k ttl s. (fst s, (snd s)(k := Some (db_fields s t k, Some (t + ttl))))),
     hs_getall = (\<lambda>t k s. AList.clearjunk (db_fields s t k)),
     hs_hdel = (\<lambda>t k fs s. (fst s, (snd s)(k := map_option (map_prod (filter (\<lambda>x. fst x \<notin> set fs)) id) (snd s k)))),
     hs_delete = (\<lambda>t ks s. (True, (fst s, \<lambda>k. if k \<in> set ks then None else snd s k))),
     hs_exec = (\<lambda>f s. case fst s of [] \<Rightarrow> (True, f s) | True # os \<Rightarrow> (True, f (os, snd s)) | False # os \<Rightarrow> (False, (os, snd s)))\<rparr>"

lemma map_of_filter_fields: "map_of (filter (\<lambda>x. fst x \<notin> set fs) xs) f = (map_of xs |` (- set fs)) f"
  by (induction xs) (auto simp: restrict_map_def)

interpretation memh: hash_laws mem_hashes "\<lambda>s t k. map_of (db_fields s t k)"
proof
  fix f s s' assume "hs_exec mem_hashes f s = (True, s')"
  then have "s' = f s \<or> (\<exists>os. s' = f (os, snd s))"
    by (auto simp: mem_hashes_def split: list.splits bool.splits)
  moreover have "(\<lambda>t k. map_of (db_fields (os, snd s) t k)) = (\<lambda>t k. map_of (db_fields s t k))" for os by (simp add: db_fields_def fun_eq_iff)
  ultimately show "\<exists>s0. (\<lambda>t k. map_of (db_fields s0 t k)) = (\<lambda>t k. map_of (db_fields s t k)) \<and>
      (\<lambda>t k. map_of (db_fields s' t k)) = (\<lambda>t k. map_of (db_fields (f s0) t k))" by metis
qed (auto simp: mem_hashes_def db_fields_def map_of_clearjunk distinct_clearjunk update_conv' map_of_filter_fields fun_eq_iff split: option.splits if_splits)

definition demo_leg :: "nat \<Rightarrow> pending_item" where
  "demo_leg i = demo_item\<lparr>pi_rule := demo_rule\<lparr>ir_leg_index := Some i, ir_legs_total := 3\<rparr>, pi_legs := Some [(i, [(''event_id'', PStr ''e'')])]\<rparr>"

lemma demo_item_simps [simp]: "ir_min_count (pi_rule demo_item) = 5" "ir_window_seconds (pi_rule demo_item) = 60"
  by (simp_all add: demo_item_def demo_rule_def)

text \<open>Hits of an earlier flush at time 1000, one more flush 50 seconds later: three and two hits reach the minimum of five.\<close>

theorem sliding_window_gate_witness:
  "\<exists>held acc' s'. apply_sliding_windows mem_counters 1050 True (empty_acc\<lparr>ac_pending := [(''r'', demo_item)]\<rparr>)
      (snd (apply_windows mem_counters [(''r'', 3, 5, 60)] 1000 True ([], \<lambda>_. None))) = ((held, acc'), s') \<and>
    map_of (ac_pending acc') ''r'' \<noteq> None \<and> held = 0"
proof -
  let ?s = "snd (apply_windows mem_counters [(''r'', 3, 5, 60)] 1000 True ([], \<lambda>_. None))"
  let ?acc = "empty_acc\<lparr>ac_pending := [(''r'', demo_item)]\<rparr>"
  have ex: "ct_exec mem_counters f s = (True, f s)" if "fst s = []" for f s using that by (simp add: mem_counters_def)
  have run: "flush_run mem_counters 1000 ([], \<lambda>_. None) ([] @ [(1000, [(''r'', 3, 5, 60)])]) 1000 ?s"
    by (rule fr_flush [OF fr_nil order.refl prod.collapse [symmetric]]) (simp_all add: ex)
  have fst_s: "fst ?s = []" by (simp add: apply_windows_def ex bump_item_def Let_def) (simp add: mem_counters_def)
  have w: "windowed (Some 5) (Some 60)" by (simp add: windowed_def)
  have ts: "window_targets ?acc = [(''r'', 2, 5, 60)]" by (simp add: window_targets_def demo_item_def demo_rule_def w)
  obtain held acc' s' where o: "apply_sliding_windows mem_counters 1050 True ?acc ?s = ((held, acc'), s')" by (metis prod.collapse)
  have ok: "fst (apply_windows mem_counters [(''r'', 2, 5, 60)] 1050 True ?s) \<noteq> None" using fst_s by (simp add: apply_windows_def ex)
  have "(map_of (ac_pending acc') ''r'' \<noteq> None \<longleftrightarrow> fst (apply_windows mem_counters (window_targets ?acc) 1050 True ?s) \<noteq> None \<and>
      ir_min_count (pi_rule demo_item) \<le> sum_list (map snd (filter (\<lambda>x. window_start (ir_window_seconds (pi_rule demo_item)) 1050 \<le> fst x \<and> fst x \<le> 1050)
        (all_hits ''r'' (([] @ [(1000, [(''r'', 3, 5, 60)])]) @ [(1050, window_targets ?acc)]))))) \<and>
    \<bar>window_start (ir_window_seconds (pi_rule demo_item)) 1050 - (1050 - ir_window_seconds (pi_rule demo_item))\<bar> <
      max 1 (ir_window_seconds (pi_rule demo_item) div 10) \<and>
    (\<forall>k'. k' \<notin> fst ` set (window_targets ?acc) \<longrightarrow> map_of (ac_pending acc') k' = map_of (ac_pending ?acc) k') \<and>
    held + length (ac_pending acc') = length (ac_pending ?acc)"
    by (rule sliding_window_gate [OF memc.counter_laws_axioms run _ _ _ _ _ _ o])
      (simp_all add: db_live_def demo_item_def demo_rule_def w)
  moreover have "sum_list (map snd (filter (\<lambda>x. window_start 60 1050 \<le> fst x \<and> fst x \<le> 1050) (all_hits ''r'' [(1000, [(''r'', 3, 5, 60)]), (1050, [(''r'', 2, 5, 60)])]))) = 5"
    by (simp add: all_hits_def hits_of_def window_start_def)
  ultimately have g: "map_of (ac_pending acc') ''r'' \<noteq> None" "held + length (ac_pending acc') = 1"
    using ok by (simp_all add: ts demo_item_simps)
  then have "0 < length (ac_pending acc')" by auto
  then have "held = 0" using g(2) by linarith
  then show ?thesis using g(1) o by blast
qed

text \<open>Two of three legs are stored, the third is matched.\<close>

definition demo_stored :: hash_db where
  "demo_stored = ([], [seq_key ''k'' \<mapsto> ([(''0'', json_spaced (PDict [])), (''1'', json_spaced (PDict []))], Some 200)])"

theorem sequence_gate_witness:
  "\<exists>held acc' s'. apply_sequences mem_hashes PStr 120 True (empty_acc\<lparr>ac_pending := [(''k'', demo_leg 2)]\<rparr>) demo_stored = (Inr (held, acc'), s') \<and>
    map_of (ac_pending acc') ''k'' \<noteq> None"
proof -
  let ?acc = "empty_acc\<lparr>ac_pending := [(''k'', demo_leg 2)]\<rparr>" and ?live = "\<lambda>s t k. map_of (db_fields s t k)"
  have seq: "is_sequence (demo_leg 2)" by (simp add: is_sequence_def demo_leg_def)
  have lt: "seq_targets ?acc = [(''k'', demo_leg 2)]" using seq by (simp add: seq_targets_def)
  have legs: "item_legs (demo_leg 2) = [(2, [(''event_id'', PStr ''e'')])]" "ir_legs_total (pi_rule (demo_leg 2)) = 3"
      "ir_window_seconds (pi_rule (demo_leg 2)) = 60"
    by (simp_all add: item_legs_def demo_leg_def demo_item_def demo_rule_def)
  have digits: "nat_str 0 = ''0''" "nat_str 1 = ''1''" "nat_str 2 = ''2''" by code_simp+
  have "leg_field 3 (''0'', json_spaced (PDict []))" "leg_field 3 (''1'', json_spaced (PDict []))"
    unfolding leg_field_def using digits by (metis Pair_inject json_plain.simps(3) distinct.simps(1) empty_iff list.map(1) list.set(1) zero_less_numeral one_less_numeral_iff semiring_norm(77))+
  then have wf: "seq_wf ?live demo_stored 120 ?acc"
    by (simp add: seq_wf_def lt legs db_fields_def demo_stored_def del: json_print.simps)
  have "\<exists>held acc' s'. apply_sequences mem_hashes PStr 120 True ?acc demo_stored = (Inr (held, acc'), s') \<and>
    (map_of (ac_pending acc') ''k'' \<noteq> None \<longleftrightarrow> True \<and> fst (hs_exec mem_hashes (\<lambda>s. foldl (\<lambda>s x. write_seq mem_hashes 120 x s) s (seq_targets ?acc)) demo_stored) \<and>
      (\<forall>i<ir_legs_total (pi_rule (demo_leg 2)). i \<in> fst ` set (item_legs (demo_leg 2)) \<or> ?live demo_stored 120 (seq_key ''k'') (nat_str i) \<noteq> None)) \<and>
    (\<forall>k'. k' \<notin> fst ` set (seq_targets ?acc) \<longrightarrow> map_of (ac_pending acc') k' = map_of (ac_pending ?acc) k') \<and>
    held + length (ac_pending acc') = length (ac_pending ?acc)"
    by (rule sequence_gate [OF memh.hash_laws_axioms wf _ _ seq]) simp_all
  moreover have "fst (hs_exec mem_hashes f demo_stored)" for f by (simp add: mem_hashes_def demo_stored_def)
  moreover have "\<forall>i<ir_legs_total (pi_rule (demo_leg 2)). i \<in> fst ` set (item_legs (demo_leg 2)) \<or> ?live demo_stored 120 (seq_key ''k'') (nat_str i) \<noteq> None"
  proof (intro allI impI)
    fix i assume "i < ir_legs_total (pi_rule (demo_leg 2))"
    then have "i = 0 \<or> i = 1 \<or> i = 2" using legs(2) by linarith
    then show "i \<in> fst ` set (item_legs (demo_leg 2)) \<or> ?live demo_stored 120 (seq_key ''k'') (nat_str i) \<noteq> None"
      using digits legs(1) by (auto simp: db_fields_def demo_stored_def simp del: nat_str.simps)
  qed
  ultimately show ?thesis by blast
qed

text \<open>The window of a sequence is renewed by every leg: a flush that writes one leg keeps all legs stored before it for
  another window, so legs of one detection may be much further apart than the window of the rule.\<close>

theorem sequence_renewed:
  assumes "hash_laws hs live" and "t \<le> t'"
  shows "live (write_seq hs t (k, it) s) t' (seq_key k) =
    (if t' < t + (ir_window_seconds (pi_rule it) + 5) then live s t (seq_key k) ++ stored_legs it else Map.empty)"
  using hash_laws.expire [OF assms] hash_laws.hsets_effect [OF assms(1)]
  by (simp add: write_seq_def stored_legs_def del: json_print.simps)

end
