(* ===== verification/Inflight_Flush.thy ===== *)
theory Inflight_Flush
  imports Inflight_Correlate
begin

text \<open>
  The cap on the detections of a flush (\<open>_apply_flush_cap\<close> of \<open>inflight/runtime.py\<close>), applied to the pending keys that the
  sliding windows and the sequences of \<open>Inflight_Correlate\<close> left: the keys are taken in rounds over the rules until the
  cap is reached, the others are dropped and charged to their rule.
\<close>

section \<open>The cap\<close>

definition rule_of :: "string \<times> pending_item \<Rightarrow> int" where
  "rule_of x = ir_rule_id (pi_rule (snd x))"

definition group_keys :: "(string \<times> pending_item) list \<Rightarrow> (int \<times> string list) list" where
  "group_keys p =
     foldl (\<lambda>g x. AList.update (rule_of x) ((case map_of g (rule_of x) of None \<Rightarrow> [] | Some ks \<Rightarrow> ks) @ [fst x]) g) [] p"

text \<open>One round over the rules, and the rounds. The set of kept keys is a list in the order of insertion.\<close>

fun take_round :: "string list list \<Rightarrow> nat \<Rightarrow> nat \<Rightarrow> string list \<Rightarrow> bool \<times> string list" where
  "take_round [] rodada cap kept = (False, kept)"
| "take_round (ks # kss) rodada cap kept =
     (if rodada \<ge> length ks then take_round kss rodada cap kept
      else let kept1 = (if ks ! rodada \<in> set kept then kept else kept @ [ks ! rodada]) in
        if length kept1 \<ge> cap then (True, kept1) else (True, snd (take_round kss rodada cap kept1)))"

lemma take_round_progress: "take_round kss r cap kept = (True, kept') \<Longrightarrow> \<exists>ks\<in>set kss. r < length ks"
  by (induction kss arbitrary: kept) (auto simp: Let_def split: if_splits)

lemma rounds_decrease:
  assumes "take_round kss r cap kept = (True, kept')"
  shows "sum_list (map (\<lambda>ks. length ks - Suc r) kss) < sum_list (map (\<lambda>ks. length ks - r) kss)"
proof -
  obtain ks where "ks \<in> set kss" "r < length ks" using take_round_progress [OF assms] by blast
  then show ?thesis
  proof (induction kss)
    case (Cons a kss)
    have le: "sum_list (map (\<lambda>ks. length ks - Suc r) kss) \<le> sum_list (map (\<lambda>ks. length ks - r) kss)"
      by (rule sum_list_mono) simp
    show ?case
    proof (cases "ks = a")
      case True
      then show ?thesis using Cons.prems(2) le by simp
    next
      case False
      then have "sum_list (map (\<lambda>ks. length ks - Suc r) kss) < sum_list (map (\<lambda>ks. length ks - r) kss)"
        using Cons by auto
      then show ?thesis by (simp add: add_le_less_mono diff_le_mono2)
    qed
  qed simp
qed

function round_robin :: "string list list \<Rightarrow> nat \<Rightarrow> nat \<Rightarrow> string list \<Rightarrow> string list" where
  "round_robin kss rodada cap kept =
     (if length kept \<ge> cap then kept
      else case take_round kss rodada cap kept of
             (False, kept1) \<Rightarrow> kept1
           | (True, kept1) \<Rightarrow> round_robin kss (Suc rodada) cap kept1)"
  by pat_completeness auto
termination
  by (relation "measure (\<lambda>(kss, r, cap, kept). sum_list (map (\<lambda>ks. length ks - r) kss))") (auto intro: rounds_decrease [OF sym])

declare round_robin.simps [simp del]

definition drop_counts :: "(string \<times> pending_item) list \<Rightarrow> (int \<times> int) list" where
  "drop_counts dropped = foldl (\<lambda>m x. bump_by (rule_of x) 1 m) [] dropped"

definition apply_flush_cap :: "acc_settings \<Rightarrow> inflight_acc \<Rightarrow> nat \<times> inflight_acc" where
  "apply_flush_cap st acc =
     (let cap = nat (max 0 (as_detections_per_flush st)); p = ac_pending acc in
      if length p \<le> cap then (0, acc)
      else let kept = round_robin (map snd (group_keys p)) 0 cap [];
               p' = filter (\<lambda>x. fst x \<in> set kept) p;
               dropped = filter (\<lambda>x. fst x \<notin> set kept) p
           in (length p - length p',
               foldl (\<lambda>a (rid, n). count_error ''flush_cap'' rid n a) (acc\<lparr>ac_pending := p'\<rparr>) (drop_counts dropped)))"

section \<open>Rounds are fair\<close>

definition keys_at :: "nat \<Rightarrow> string list list \<Rightarrow> string set" where
  "keys_at r kss = (\<Union>ks\<in>set kss. set (take r ks))"

definition apart_lists :: "string list list \<Rightarrow> bool" where
  "apart_lists kss \<longleftrightarrow> distinct (concat kss)"

lemma take_Suc_conv: "r < length ks \<Longrightarrow> set (take (Suc r) ks) = insert (ks ! r) (set (take r ks))"
  by (simp add: take_Suc_conv_app_nth)

lemma keys_at_simps [simp]: "keys_at r [] = {}" "keys_at r (ks # kss) = set (take r ks) \<union> keys_at r kss"
  "keys_at r (xs @ ys) = keys_at r xs \<union> keys_at r ys"
  by (auto simp: keys_at_def)

lemma keys_at_full: "\<forall>ks\<in>set kss. length ks \<le> r \<Longrightarrow> keys_at r kss = set (concat kss)"
  by (auto simp: keys_at_def)

lemma keys_at_mono: "keys_at r kss \<subseteq> keys_at (Suc r) kss"
  using set_take_subset_set_take [of r "Suc r"] by (fastforce simp: keys_at_def)

text \<open>A round takes the next key of the rules up to some rule, of all of them unless the cap was reached.\<close>

lemma take_round_split:
  assumes "distinct kept" and "length kept < cap" and "keys_at r kss \<subseteq> set kept" and "take_round kss r cap kept = (adv, kept')"
  shows "\<exists>as bs. kss = as @ bs \<and> set kept' = set kept \<union> keys_at (Suc r) as \<and> distinct kept' \<and> length kept' \<le> cap \<and>
    (length kept' < cap \<longrightarrow> bs = []) \<and> (\<not> adv \<longrightarrow> (\<forall>ks\<in>set kss. length ks \<le> r) \<and> kept' = kept)"
  using assms
proof (induction kss arbitrary: kept adv kept')
  case (Cons ks kss)
  have sub: "set (take r ks) \<subseteq> set kept" "keys_at r kss \<subseteq> set kept" using Cons.prems(3) by auto
  show ?case
  proof (cases "r < length ks")
    case False
    then have "take_round kss r cap kept = (adv, kept')" using Cons.prems(4) by simp
    from Cons.IH [OF Cons.prems(1,2) sub(2) this] obtain as bs where ab: "kss = as @ bs"
        "set kept' = set kept \<union> keys_at (Suc r) as" "distinct kept'" "length kept' \<le> cap"
        "length kept' < cap \<longrightarrow> bs = []" "\<not> adv \<longrightarrow> (\<forall>ks\<in>set kss. length ks \<le> r) \<and> kept' = kept" by blast
    have "set (take (Suc r) ks) \<subseteq> set kept" using sub False by simp
    then have "set kept' = set kept \<union> keys_at (Suc r) (ks # as)" using ab(2) by auto
    then show ?thesis using ab False by (intro exI [of _ "ks # as"] exI [of _ bs]) simp
  next
    case True
    define k1 where "k1 = (if ks ! r \<in> set kept then kept else kept @ [ks ! r])"
    have k1: "distinct k1" "length k1 \<le> cap" "set k1 = set kept \<union> set (take (Suc r) ks)"
      using Cons.prems(1,2) sub(1) take_Suc_conv [OF True] by (auto simp: k1_def)
    show ?thesis
    proof (cases "length k1 \<ge> cap")
      case stop: True
      then have "adv" "kept' = k1" using Cons.prems(4) True by (simp_all add: k1_def [symmetric] Let_def)
      then show ?thesis using k1 stop by (intro exI [of _ "[ks]"] exI [of _ kss]) simp
    next
      case False
      then obtain a where a: "adv" "take_round kss r cap k1 = (a, kept')"
        using Cons.prems(4) True by (cases "take_round kss r cap k1") (simp_all add: k1_def [symmetric] Let_def)
      have lt: "length k1 < cap" and sub1: "keys_at r kss \<subseteq> set k1" using False sub(2) k1(3) by auto
      from Cons.IH [OF k1(1) lt sub1 a(2)] obtain as bs where ab: "kss = as @ bs"
          "set kept' = set k1 \<union> keys_at (Suc r) as" "distinct kept'" "length kept' \<le> cap" "length kept' < cap \<longrightarrow> bs = []"
        by blast
      then have "set kept' = set kept \<union> keys_at (Suc r) (ks # as)" using k1(3) by auto
      then show ?thesis using ab a(1) by (intro exI [of _ "ks # as"] exI [of _ bs]) simp
    qed
  qed
qed auto

lemma round_robin_split:
  assumes "distinct kept" and "length kept \<le> cap" and "set kept = keys_at r kss"
  shows "\<exists>R as bs. kss = as @ bs \<and> set (round_robin kss r cap kept) = keys_at (Suc R) as \<union> keys_at R bs \<and>
    distinct (round_robin kss r cap kept) \<and> length (round_robin kss r cap kept) \<le> cap \<and>
    (length (round_robin kss r cap kept) < cap \<longrightarrow> set (round_robin kss r cap kept) = set (concat kss))"
  using assms
proof (induction kss r cap kept rule: round_robin.induct)
  case (1 kss r cap kept)
  show ?case
  proof (cases "length kept \<ge> cap")
    case True
    then have "round_robin kss r cap kept = kept" by (simp add: round_robin.simps)
    then show ?thesis using "1.prems" True by (intro exI [of _ r] exI [of _ "[]"] exI [of _ kss]) simp
  next
    case False
    obtain adv k1 where tr: "take_round kss r cap kept = (adv, k1)" by force
    have lt: "length kept < cap" and sub: "keys_at r kss \<subseteq> set kept" using False "1.prems"(3) by auto
    from take_round_split [OF "1.prems"(1) lt sub tr] obtain as bs where ab: "kss = as @ bs"
        "set k1 = set kept \<union> keys_at (Suc r) as" "distinct k1" "length k1 \<le> cap" "length k1 < cap \<longrightarrow> bs = []"
        "\<not> adv \<longrightarrow> (\<forall>ks\<in>set kss. length ks \<le> r) \<and> k1 = kept" by blast
    have k1: "set k1 = keys_at (Suc r) as \<union> keys_at r bs"
      using ab(1,2) "1.prems"(3) keys_at_mono [of r as] by auto
    show ?thesis
    proof (cases adv)
      case True
      then have rr: "round_robin kss r cap kept = round_robin kss (Suc r) cap k1"
        using False tr by (subst round_robin.simps) simp
      show ?thesis
      proof (cases "length k1 < cap")
        case lt: True
        then have "set k1 = keys_at (Suc r) kss" using ab(1,5) k1 by simp
        from "1.IH" [OF False tr [symmetric] _ ab(3,4) this] True show ?thesis unfolding rr by simp
      next
        case stop: False
        then have "round_robin kss (Suc r) cap k1 = k1" by (simp add: round_robin.simps)
        then show ?thesis using rr ab stop k1 by (intro exI [of _ r] exI [of _ as] exI [of _ bs]) simp
      qed
    next
      case no: False
      then have rr: "round_robin kss r cap kept = kept" "set kept = set (concat kss)"
        using False tr ab(6) "1.prems"(3) keys_at_full [of kss r] by (simp_all add: round_robin.simps)
      then show ?thesis using "1.prems" by (intro exI [of _ r] exI [of _ "[]"] exI [of _ kss]) simp
    qed
  qed
qed

section \<open>What the cap keeps\<close>

lemma group_keys_map_of:
  "map_of (group_keys p) r = (if \<exists>x\<in>set p. rule_of x = r then Some (map fst (filter (\<lambda>x. rule_of x = r) p)) else None)"
proof (induction p arbitrary: r rule: rev_induct)
  case (snoc x p)
  have "group_keys (p @ [x]) = AList.update (rule_of x) ((case map_of (group_keys p) (rule_of x) of None \<Rightarrow> [] | Some ks \<Rightarrow> ks) @ [fst x]) (group_keys p)"
    by (simp add: group_keys_def)
  moreover have "filter (\<lambda>y. rule_of y = rule_of x) p = []" if "\<not> (\<exists>y\<in>set p. rule_of y = rule_of x)"
    using that by (simp add: filter_empty_conv)
  ultimately show ?case using snoc [of r] snoc [of "rule_of x"] by (auto simp: update_conv')
qed (simp add: group_keys_def)

lemma group_keys_distinct: "distinct (map fst (group_keys p))"
  unfolding group_keys_def by (rule foldl_invariant) (auto simp: distinct_update)

lemma group_keys_mem:
  "(r, ks) \<in> set (group_keys p) \<Longrightarrow> ks = map fst (filter (\<lambda>x. rule_of x = r) p)"
  using map_of_is_SomeI [OF group_keys_distinct] group_keys_map_of [of p r] by (auto split: if_splits)

lemma group_keys_all: "set (concat (map snd (group_keys p))) = fst ` set p"
proof
  show "set (concat (map snd (group_keys p))) \<subseteq> fst ` set p" using group_keys_mem by fastforce
  show "fst ` set p \<subseteq> set (concat (map snd (group_keys p)))"
  proof
    fix k assume "k \<in> fst ` set p"
    then obtain x where x: "x \<in> set p" "k = fst x" by auto
    then have "map_of (group_keys p) (rule_of x) = Some (map fst (filter (\<lambda>y. rule_of y = rule_of x) p))"
      by (auto simp: group_keys_map_of)
    then show "k \<in> set (concat (map snd (group_keys p)))" using x by (force dest: map_of_SomeD)
  qed
qed

lemma group_keys_disjoint:
  assumes "distinct (map fst p)" "(r, ks) \<in> set (group_keys p)" "(r', ks') \<in> set (group_keys p)" "r \<noteq> r'"
  shows "set ks \<inter> set ks' = {}"
  using assms group_keys_mem [OF assms(2)] group_keys_mem [OF assms(3)] by (auto simp: distinct_map inj_on_def) 

definition kept_keys :: "nat \<Rightarrow> (string \<times> pending_item) list \<Rightarrow> string list" where
  "kept_keys cap p = round_robin (map snd (group_keys p)) 0 cap []"

lemma kept_keys_split:
  assumes "distinct (map fst p)"
  shows "distinct (kept_keys cap p) \<and> length (kept_keys cap p) \<le> cap \<and> set (kept_keys cap p) \<subseteq> fst ` set p \<and>
    (length (kept_keys cap p) < cap \<longrightarrow> set (kept_keys cap p) = fst ` set p) \<and>
    (\<exists>R. \<forall>(r, ks)\<in>set (group_keys p). \<exists>n. R \<le> n \<and> n \<le> Suc R \<and> set (kept_keys cap p) \<inter> set ks = set (take n ks))"
proof -
  let ?kss = "map snd (group_keys p)" and ?kept = "kept_keys cap p"
  have "\<exists>R as bs. ?kss = as @ bs \<and> set ?kept = keys_at (Suc R) as \<union> keys_at R bs \<and> distinct ?kept \<and> length ?kept \<le> cap \<and>
      (length ?kept < cap \<longrightarrow> set ?kept = set (concat ?kss))"
    unfolding kept_keys_def by (rule round_robin_split) (auto simp: keys_at_def)
  then obtain R as bs where ab: "?kss = as @ bs" "set ?kept = keys_at (Suc R) as \<union> keys_at R bs"
      "distinct ?kept" "length ?kept \<le> cap" "length ?kept < cap \<longrightarrow> set ?kept = set (concat ?kss)"
    by blast
  have sub: "set ?kept \<subseteq> fst ` set p"
  proof -
    have "set ?kept \<subseteq> set (concat ?kss)" unfolding ab(1,2) by (auto simp: keys_at_def dest: in_set_takeD)
    then show ?thesis unfolding group_keys_all .
  qed
  have "\<exists>n. R \<le> n \<and> n \<le> Suc R \<and> set ?kept \<inter> set ks = set (take n ks)" if ks: "(r, ks) \<in> set (group_keys p)" for r ks
  proof -
    have other: "set ks' \<inter> set ks = {}" if k': "ks' \<in> set (as @ bs)" "ks' \<noteq> ks" for ks'
    proof -
      obtain r' where r': "(r', ks') \<in> set (group_keys p)" using k'(1) ab(1) [symmetric] by auto
      then have "r' \<noteq> r" using ks k'(2) group_keys_mem by blast
      then show ?thesis using group_keys_disjoint [OF assms r' ks] by simp
    qed
    have mem: "ks \<in> set (as @ bs)" using ks ab(1) [symmetric] by force
    have own: "set (take n ks') \<inter> set ks = (if ks' = ks then set (take n ks) else {})" if "ks' \<in> set (as @ bs)" for n ks'
      using other [OF that] set_take_subset [of n ks'] set_take_subset [of n ks] by auto
    have "set ?kept \<inter> set ks = (\<Union>ks'\<in>set as. set (take (Suc R) ks') \<inter> set ks) \<union> (\<Union>ks'\<in>set bs. set (take R ks') \<inter> set ks)"
      unfolding ab(2) keys_at_def by blast
    also have "\<dots> = (if ks \<in> set as then set (take (Suc R) ks) else {}) \<union> (if ks \<in> set bs then set (take R ks) else {})"
      using own by (auto split: if_splits)
    also have "\<dots> = set (take (if ks \<in> set as then Suc R else R) ks)"
      using mem set_take_subset_set_take [of R "Suc R" ks] by auto
    finally show ?thesis by (intro exI [of _ "if ks \<in> set as then Suc R else R"]) simp
  qed
  then show ?thesis using ab(3-5) sub group_keys_all by blast
qed

lemma pending_keys_rule_of: "pending_keys r p = length (filter (\<lambda>x. rule_of x = r) p)"
  unfolding pending_keys_def rule_of_def by (intro arg_cong [where f = length] filter_cong) auto

lemma count_errors_fold:
  "ac_pending (foldl (\<lambda>a (rid, n). count_error e rid n a) acc ds) = ac_pending acc \<and>
   ac_matches (foldl (\<lambda>a (rid, n). count_error e rid n a) acc ds) = ac_matches acc \<and>
   count_of (ac_errors (foldl (\<lambda>a (rid, n). count_error e rid n a) acc ds)) (e', r) =
     count_of (ac_errors acc) (e', r) + (if e' = e then sum_list (map snd (filter (\<lambda>x. fst x = r) ds)) else 0)"
  by (induction ds arbitrary: acc) (auto simp: count_error_def)

lemma distinct_sum_lookup: "distinct (map fst ds) \<Longrightarrow> sum_list (map snd (filter (\<lambda>x. fst x = r) ds)) = count_of ds r"
proof (induction ds)
  case (Cons d ds)
  have "filter (\<lambda>x. fst x = r) ds = []" if "fst d = r"
  proof -
    have "fst d \<notin> fst ` set ds" using Cons.prems by simp
    then show ?thesis using that unfolding filter_empty_conv by (metis image_eqI)
  qed
  with Cons show ?case by (cases d) (auto simp: count_of_def)
qed (simp add: count_of_def)

lemma drop_counts_spec:
  "distinct (map fst (drop_counts xs)) \<and> count_of (drop_counts xs) r = int (length (filter (\<lambda>x. rule_of x = r) xs))"
proof (induction xs rule: rev_induct)
  case (snoc x xs)
  have "drop_counts (xs @ [x]) = bump_by (rule_of x) 1 (drop_counts xs)" by (simp add: drop_counts_def)
  moreover have "distinct (map fst (bump_by (rule_of x) 1 (drop_counts xs)))" using snoc by (simp add: bump_by_def distinct_update)
  ultimately show ?case using snoc by simp
qed (simp add: drop_counts_def count_of_def)

lemma filter_length_card:
  assumes "distinct (map fst p)"
  shows "length (filter Q p) = card (fst ` {x \<in> set p. Q x})"
proof -
  have "distinct p" using assms by (simp add: distinct_map)
  then have "length (filter Q p) = card {x \<in> set p. Q x}" by (metis distinct_card distinct_filter set_filter)
  also have "\<dots> = card (fst ` {x \<in> set p. Q x})"
    using assms by (intro card_image [symmetric]) (auto simp: distinct_map intro: inj_on_subset)
  finally show ?thesis .
qed

lemma kept_of_rule:
  assumes "distinct (map fst p)" and "\<exists>x\<in>set p. rule_of x = r" and "set kept \<inter> set ks = set (take n ks)"
    and "ks = map fst (filter (\<lambda>x. rule_of x = r) p)"
  shows "pending_keys r (filter (\<lambda>x. fst x \<in> set kept) p) = min n (pending_keys r p)"
proof -
  have d: "distinct ks" using assms(1,4) by (simp add: distinct_map_filter)
  have "pending_keys r (filter (\<lambda>x. fst x \<in> set kept) p) = card (fst ` {x \<in> set p. rule_of x = r \<and> fst x \<in> set kept})"
    using filter_length_card [OF assms(1)] by (simp add: pending_keys_rule_of conj_commute)
  also have "fst ` {x \<in> set p. rule_of x = r \<and> fst x \<in> set kept} = set kept \<inter> set ks" using assms(4) by auto
  also have "card \<dots> = min n (length ks)" using assms(3) d by (simp add: distinct_card min.commute)
  also have "length ks = pending_keys r p" using assms(4) by (simp add: pending_keys_rule_of)
  finally show ?thesis .
qed

abbreviation kept_part :: "nat \<Rightarrow> (string \<times> pending_item) list \<Rightarrow> (string \<times> pending_item) list" where
  "kept_part cap p \<equiv> filter (\<lambda>x. fst x \<in> set (kept_keys cap p)) p"

lemma kept_length:
  assumes "distinct (map fst p)" and "cap < length p"
  shows "length (kept_part cap p) = cap"
proof -
  note k = kept_keys_split [OF assms(1), of cap]
  have "length (kept_part cap p) = card (set (kept_keys cap p))"
    using filter_length_card [OF assms(1)] k by (auto intro!: arg_cong [where f = card])
  also have "\<dots> = length (kept_keys cap p)" using k by (simp add: distinct_card)
  also have "\<dots> = cap"
  proof (rule ccontr)
    assume "length (kept_keys cap p) \<noteq> cap"
    then have "set (kept_keys cap p) = fst ` set p" using k le_neq_implies_less by blast
    then have "length (kept_keys cap p) = length p" using k assms(1) by (metis distinct_card length_map set_map)
    then show False using k assms(2) by simp
  qed
  finally show ?thesis .
qed

lemma pending_keys_none: "\<not> (\<exists>x\<in>set p. rule_of x = r) \<Longrightarrow> set q \<subseteq> set p \<Longrightarrow> pending_keys r q = 0"
  by (auto simp: pending_keys_rule_of filter_empty_conv)

lemma kept_fair:
  assumes "distinct (map fst p)" and lost: "pending_keys r (kept_part cap p) < pending_keys r p"
  shows "pending_keys s (kept_part cap p) \<le> Suc (pending_keys r (kept_part cap p))"
proof -
  obtain R where R: "\<forall>(r, ks)\<in>set (group_keys p). \<exists>n. R \<le> n \<and> n \<le> Suc R \<and> set (kept_keys cap p) \<inter> set ks = set (take n ks)"
    using kept_keys_split [OF assms(1), of cap] by blast
  have per_rule: "\<exists>n. R \<le> n \<and> n \<le> Suc R \<and> pending_keys r (kept_part cap p) = min n (pending_keys r p)"
    if r: "\<exists>x\<in>set p. rule_of x = r" for r
  proof -
    let ?ks = "map fst (filter (\<lambda>x. rule_of x = r) p)"
    have "(r, ?ks) \<in> set (group_keys p)" using group_keys_map_of [of p r] r by (auto intro: map_of_SomeD)
    with R obtain n where "R \<le> n" "n \<le> Suc R" "set (kept_keys cap p) \<inter> set ?ks = set (take n ?ks)" by blast
    then show ?thesis using kept_of_rule [OF assms(1) r] by blast
  qed
  show ?thesis
  proof (cases "\<exists>x\<in>set p. rule_of x = s")
    case True
    have "\<exists>x\<in>set p. rule_of x = r" using lost pending_keys_none [of p r p] by force
    with per_rule obtain n where "R \<le> n" "pending_keys r (kept_part cap p) = min n (pending_keys r p)" by blast
    moreover obtain m where "m \<le> Suc R" "pending_keys s (kept_part cap p) = min m (pending_keys s p)" using per_rule [OF True] by blast
    ultimately show ?thesis using lost by linarith
  qed (simp add: pending_keys_none [of p s])
qed

lemma kept_charged:
  "int (pending_keys r p - pending_keys r (filter Q p)) = int (length (filter (\<lambda>x. rule_of x = r) (filter (\<lambda>x. \<not> Q x) p)))"
proof -
  have "length (filter P xs) = length (filter P (filter Q xs)) + length (filter P (filter (\<lambda>x. \<not> Q x) xs))" for P Q and xs :: "'x list"
    by (induction xs) auto
  from this [of "\<lambda>x. rule_of x = r" p Q] show ?thesis by (simp add: pending_keys_rule_of)
qed

text \<open>C19: The cap of a flush is exact, accounted for and fair. When more keys are pending than a flush may write, exactly as
  many as it may write remain; every rule is charged with the keys it lost, no match is forgotten; and a rule that
  lost a key keeps at most one key fewer than any other rule, so that a noisy rule cannot silence the others.\<close>

theorem flush_cap_fair:
  assumes "distinct (map fst (ac_pending acc))" and "apply_flush_cap st acc = (lost, acc')"
  shows "length (ac_pending acc') = min (length (ac_pending acc)) (nat (as_detections_per_flush st)) \<and>
    lost = length (ac_pending acc) - length (ac_pending acc') \<and> ac_matches acc' = ac_matches acc \<and>
    (\<forall>r. count_of (ac_errors acc') (''flush_cap'', r) = count_of (ac_errors acc) (''flush_cap'', r) +
       int (pending_keys r (ac_pending acc) - pending_keys r (ac_pending acc'))) \<and>
    (\<forall>r s. pending_keys r (ac_pending acc') < pending_keys r (ac_pending acc) \<longrightarrow>
       pending_keys s (ac_pending acc') \<le> Suc (pending_keys r (ac_pending acc')))"
proof (cases "length (ac_pending acc) \<le> nat (max 0 (as_detections_per_flush st))")
  case True
  then show ?thesis using assms(2) by (auto simp: apply_flush_cap_def Let_def max_def split: if_splits)
next
  case False
  let ?p = "ac_pending acc" and ?cap = "nat (max 0 (as_detections_per_flush st))"
  let ?d = "filter (\<lambda>x. fst x \<notin> set (kept_keys ?cap ?p)) ?p"
  have acc': "acc' = foldl (\<lambda>a (rid, n). count_error ''flush_cap'' rid n a) (acc\<lparr>ac_pending := kept_part ?cap ?p\<rparr>) (drop_counts ?d)"
      "lost = length ?p - length (kept_part ?cap ?p)"
    using assms(2) False by (auto simp: apply_flush_cap_def Let_def kept_keys_def)
  have p': "ac_pending acc' = kept_part ?cap ?p" unfolding acc'(1) by (simp add: count_errors_fold)
  have "count_of (ac_errors acc') (''flush_cap'', r) = count_of (ac_errors acc) (''flush_cap'', r) +
       int (pending_keys r ?p - pending_keys r (kept_part ?cap ?p))" for r
    unfolding acc'(1) kept_charged using drop_counts_spec [of ?d r] by (simp add: count_errors_fold distinct_sum_lookup)
  moreover have "length (kept_part ?cap ?p) = min (length ?p) (nat (as_detections_per_flush st))"
    using kept_length [OF assms(1), of ?cap] False by (auto simp: max_def split: if_splits)
  ultimately show ?thesis using kept_fair [OF assms(1)] p' acc' by (simp add: count_errors_fold)
qed

definition demo_noisy :: inflight_acc where
  "demo_noisy = empty_acc\<lparr>ac_pending := [(''a'', demo_item), (''b'', demo_item), (''c'', demo_item),
     (''d'', demo_item\<lparr>pi_rule := demo_rule\<lparr>ir_rule_id := 8\<rparr>\<rparr>)]\<rparr>"

theorem flush_cap_fair_witness:
  "let r = apply_flush_cap \<lparr>as_group_value_len = 20, as_keys_per_rule = 50, as_detections_per_flush = 2\<rparr> demo_noisy
   in fst r = 2 \<and> length (ac_pending (snd r)) = 2"
proof -
  have d: "distinct (map fst (ac_pending demo_noisy))" "length (ac_pending demo_noisy) = 4" by (simp_all add: demo_noisy_def)
  from flush_cap_fair [OF d(1) prod.collapse [symmetric], of "\<lparr>as_group_value_len = 20, as_keys_per_rule = 50, as_detections_per_flush = 2\<rparr>"]
  show ?thesis using d(2) by (simp add: Let_def)
qed

end
