(* ===== verification/Inflight_Detections.thy ===== *)
theory Inflight_Detections
  imports Inflight_Accumulator
begin

text \<open>
  Writing detections: \<open>DetectionRepository.record\<close>, \<open>get\<close> and \<open>set_status\<close> of \<open>db/repository.py\<close> on the table
  \<open>detections\<close>, and \<open>_flush_sync\<close> of \<open>inflight/runtime.py\<close>, which records the pending keys one by one. The table is a
  list of rows with increasing identifiers; times are microseconds. A transaction that raises leaves the table as it was.
\<close>

section \<open>The table\<close>

record detection =
  dt_id :: nat
  dt_organization_id :: int
  dt_source :: string
  dt_dedup_key :: string
  dt_severity_id :: int
  dt_rule_id :: string
  dt_rule_name :: string
  dt_integration_id :: "int option"
  dt_suppression :: int
  dt_first_seen :: int
  dt_last_seen :: int
  dt_count :: int
  dt_status :: string
  dt_updated_at :: int

record detection_args =
  da_organization_id :: int
  da_source :: string
  da_dedup_key :: string
  da_severity_id :: int
  da_rule_id :: string
  da_rule_name :: string
  da_integration_id :: "int option"
  da_suppression :: int

text \<open>\<open>order_by(id.desc()).first()\<close>.\<close>

definition last_by_id :: "detection list \<Rightarrow> detection option" where
  "last_by_id rows =
     foldl (\<lambda>best r. case best of None \<Rightarrow> Some r | Some b \<Rightarrow> if dt_id b < dt_id r then Some r else best) None rows"

definition open_detection :: "int \<Rightarrow> string \<Rightarrow> detection list \<Rightarrow> detection option" where
  "open_detection org key db =
     last_by_id (filter (\<lambda>r. dt_organization_id r = org \<and> dt_dedup_key r = key \<and> dt_status r \<noteq> ''closed'') db)"

definition next_id :: "detection list \<Rightarrow> nat" where
  "next_id db = Suc (foldl max 0 (map dt_id db))"

definition new_detection :: "int \<Rightarrow> detection_args \<Rightarrow> nat \<Rightarrow> detection" where
  "new_detection now a i =
     \<lparr>dt_id = i, dt_organization_id = da_organization_id a, dt_source = da_source a, dt_dedup_key = da_dedup_key a,
      dt_severity_id = da_severity_id a, dt_rule_id = da_rule_id a, dt_rule_name = da_rule_name a,
      dt_integration_id = da_integration_id a, dt_suppression = da_suppression a, dt_first_seen = now, dt_last_seen = now,
      dt_count = 1, dt_status = ''open'', dt_updated_at = now\<rparr>"

definition suppressed_at :: "int \<Rightarrow> detection \<Rightarrow> bool" where
  "suppressed_at now r \<longleftrightarrow> now - dt_suppression r * 1000000 \<le> dt_last_seen r"

definition record_detection :: "int \<Rightarrow> detection_args \<Rightarrow> detection list \<Rightarrow> detection \<times> detection list" where
  "record_detection now a db =
     (case open_detection (da_organization_id a) (da_dedup_key a) db of
        Some e \<Rightarrow>
          if suppressed_at now e
          then let e' = e\<lparr>dt_count := dt_count e + 1, dt_last_seen := now, dt_updated_at := now\<rparr>
               in (e', map (\<lambda>r. if dt_id r = dt_id e then e' else r) db)
          else let d = new_detection now a (next_id db) in (d, db @ [d])
      | None \<Rightarrow> let d = new_detection now a (next_id db) in (d, db @ [d]))"

definition get_detection :: "nat \<Rightarrow> detection list \<Rightarrow> detection option" where
  "get_detection i db = List.find (\<lambda>r. dt_id r = i) db"

definition set_status :: "int \<Rightarrow> nat \<Rightarrow> string \<Rightarrow> detection list \<Rightarrow> detection list" where
  "set_status now i st db = map (\<lambda>r. if dt_id r = i then r\<lparr>dt_status := st, dt_updated_at := now\<rparr> else r) db"

section \<open>The flush\<close>

record detection_emit =
  em_dedup_key :: string
  em_detection_id :: nat
  em_rule_id :: int
  em_rule_name :: string
  em_severity_id :: int
  em_integration_id :: "int option"
  em_source :: pydict
  em_emit_event :: bool

definition item_args :: "int \<Rightarrow> string \<Rightarrow> pending_item \<Rightarrow> detection_args" where
  "item_args org key it =
     \<lparr>da_organization_id = org, da_source = ''inflight'', da_dedup_key = key, da_severity_id = ir_severity_id (pi_rule it),
      da_rule_id = int_str (ir_rule_id (pi_rule it)), da_rule_name = ir_name (pi_rule it),
      da_integration_id = pi_integration_id it, da_suppression = ir_suppression (pi_rule it)\<rparr>"

definition item_emit :: "string \<Rightarrow> pending_item \<Rightarrow> detection \<Rightarrow> detection_emit" where
  "item_emit key it det =
     \<lparr>em_dedup_key = key, em_detection_id = dt_id det, em_rule_id = ir_rule_id (pi_rule it), em_rule_name = ir_name (pi_rule it),
      em_severity_id = ir_severity_id (pi_rule it), em_integration_id = pi_integration_id it, em_source = pi_source it,
      em_emit_event = ir_emit_event (pi_rule it)\<rparr>"

text \<open>\<open>sched key\<close> is the time at which the key is recorded and whether the call succeeds. The result says whether all keys
  were recorded; when not it is \<open>InflightFlushInterrupted\<close>, with the keys written and the tickets so far.\<close>

fun flush_sync ::
    "(string \<Rightarrow> int \<times> bool) \<Rightarrow> int \<Rightarrow> (string \<times> pending_item) list \<Rightarrow> string list \<Rightarrow> detection_emit list \<Rightarrow> detection list \<Rightarrow>
     bool \<times> string list \<times> detection_emit list \<times> detection list" where
  "flush_sync sched org [] written emits db = (True, written, emits, db)"
| "flush_sync sched org ((key, it) # rest) written emits db =
     (if \<not> snd (sched key) then (False, written, emits, db)
      else let (det, db') = record_detection (fst (sched key)) (item_args org key it) db in
        flush_sync sched org rest (written @ [key]) (if dt_count det = 1 then emits @ [item_emit key it det] else emits) db')"

section \<open>Suppression\<close>

definition same_key :: "detection \<Rightarrow> detection \<Rightarrow> bool" where
  "same_key a b \<longleftrightarrow> dt_organization_id a = dt_organization_id b \<and> dt_dedup_key a = dt_dedup_key b"

definition of_key :: "int \<Rightarrow> string \<Rightarrow> detection \<Rightarrow> bool" where
  "of_key org key r \<longleftrightarrow> dt_organization_id r = org \<and> dt_dedup_key r = key"

text \<open>A later detection of a key was first seen after the suppression window of the earlier one had run out.\<close>

definition spaced :: "detection list \<Rightarrow> bool" where
  "spaced db \<longleftrightarrow> sorted_wrt (\<lambda>a b. same_key a b \<longrightarrow> dt_last_seen a + dt_suppression a * 1000000 < dt_first_seen b) db"

definition table_ok :: "int \<Rightarrow> detection list \<Rightarrow> bool" where
  "table_ok now db \<longleftrightarrow> sorted_wrt (<) (map dt_id db) \<and> spaced db \<and>
     (\<forall>r\<in>set db. dt_first_seen r \<le> dt_last_seen r \<and> dt_last_seen r \<le> now \<and> dt_status r = ''open'' \<and> 1 \<le> dt_count r)"

lemma foldl_max_ge: "a \<le> foldl max a xs \<and> (\<forall>x\<in>set xs. x \<le> foldl max a xs)" for a :: nat
proof (induction xs arbitrary: a)
  case (Cons y xs)
  from this [of "max a y"] show ?case by auto
qed simp

lemma next_id_fresh: "r \<in> set db \<Longrightarrow> dt_id r < next_id db"
  using foldl_max_ge [of 0 "map dt_id db"] by (simp add: next_id_def less_Suc_eq_le)

lemma last_by_id_snoc: "last_by_id (rs @ [r]) =
    (case last_by_id rs of None \<Rightarrow> Some r | Some b \<Rightarrow> if dt_id b < dt_id r then Some r else Some b)"
  by (auto simp: last_by_id_def split: option.splits)

lemma last_by_id_sorted: "sorted_wrt (<) (map dt_id rs) \<Longrightarrow> last_by_id rs = (if rs = [] then None else Some (last rs))"
proof (induction rs rule: rev_induct)
  case (snoc r rs)
  moreover have "rs \<noteq> [] \<Longrightarrow> dt_id (last rs) < dt_id r" using snoc.prems by (simp add: sorted_wrt_append)
  ultimately show ?case by (auto simp: sorted_wrt_append last_by_id_snoc)
qed (simp add: last_by_id_def)

lemma last_match:
  assumes "filter P db \<noteq> []"
  shows "\<exists>xs ys. db = xs @ last (filter P db) # ys \<and> P (last (filter P db)) \<and> (\<forall>r\<in>set ys. \<not> P r)"
  using assms
proof (induction db rule: rev_induct)
  case (snoc r db)
  show ?case
  proof (cases "P r")
    case False
    then obtain xs ys where "db = xs @ last (filter P db) # ys" "P (last (filter P db))" "\<forall>r\<in>set ys. \<not> P r"
      using snoc by auto
    then show ?thesis using False by (intro exI [of _ xs] exI [of _ "ys @ [r]"]) simp
  next
    case True
    then show ?thesis by (intro exI [of _ db] exI [of _ "[]"]) simp
  qed
qed simp

lemma open_detection_cases:
  assumes "table_ok now db"
  shows "open_detection org key db = None \<and> (\<forall>r\<in>set db. \<not> of_key org key r) \<or>
    (\<exists>e xs ys. open_detection org key db = Some e \<and> db = xs @ e # ys \<and> of_key org key e \<and> (\<forall>r\<in>set ys. \<not> of_key org key r))"
proof -
  have f: "filter (\<lambda>r. dt_organization_id r = org \<and> dt_dedup_key r = key \<and> dt_status r \<noteq> ''closed'') db = filter (of_key org key) db"
    using assms by (intro filter_cong) (auto simp: table_ok_def of_key_def)
  have "sorted_wrt (<) (map dt_id (filter (of_key org key) db))"
    using assms by (simp add: table_ok_def sorted_wrt_map sorted_wrt_filter)
  then have o: "open_detection org key db = (if filter (of_key org key) db = [] then None else Some (last (filter (of_key org key) db)))"
    by (simp add: open_detection_def f last_by_id_sorted)
  show ?thesis
  proof (cases "filter (of_key org key) db = []")
    case True
    then show ?thesis using o by (auto simp: filter_empty_conv)
  next
    case False
    then show ?thesis using o last_match [OF False] by auto
  qed
qed

text \<open>Every row of a key of which the last detection is no longer suppressed has run out.\<close>

lemma expired_rows:
  assumes "table_ok now db" and "db = xs @ e # ys" and "of_key org key e" and "\<forall>r\<in>set ys. \<not> of_key org key r"
    and "\<not> suppressed_at now e" and "r \<in> set db" and "of_key org key r"
  shows "dt_last_seen r + dt_suppression r * 1000000 < now"
proof -
  have e: "dt_last_seen e + dt_suppression e * 1000000 < now" using assms(5) by (simp add: suppressed_at_def)
  have "r = e \<or> r \<in> set xs" using assms(2,4,6,7) by auto
  moreover have "dt_last_seen r + dt_suppression r * 1000000 < dt_first_seen e" if "r \<in> set xs"
    using assms(1,3,7) that by (auto simp: assms(2) table_ok_def spaced_def sorted_wrt_append same_key_def of_key_def)
  moreover have "dt_first_seen e \<le> now" using assms(1) by (auto simp: assms(2) table_ok_def)
  ultimately show ?thesis using e by fastforce
qed

lemma append_ok:
  assumes "table_ok now db" and "\<forall>r\<in>set db. of_key (da_organization_id a) (da_dedup_key a) r \<longrightarrow> dt_last_seen r + dt_suppression r * 1000000 < now"
  shows "table_ok now (db @ [new_detection now a (next_id db)])"
  using assms next_id_fresh [of _ db]
  by (auto simp: table_ok_def spaced_def sorted_wrt_append same_key_def of_key_def new_detection_def)

lemma bump_ok:
  assumes "table_ok now (xs @ e # ys)" and "of_key org key e" and "\<forall>r\<in>set ys. \<not> of_key org key r"
    and "e' = e\<lparr>dt_count := dt_count e + 1, dt_last_seen := now, dt_updated_at := now\<rparr>"
  shows "table_ok now (xs @ e' # ys)"
proof -
  have "\<not> same_key e' r" if "r \<in> set ys" for r using assms(2,3,4) that by (auto simp: same_key_def of_key_def)
  then show ?thesis using assms(1) by (fastforce simp: table_ok_def spaced_def sorted_wrt_append assms(4) same_key_def)
qed

lemma bump_map:
  assumes "sorted_wrt (<) (map dt_id (xs @ e # ys))"
  shows "map (\<lambda>r. if dt_id r = dt_id e then e' else r) (xs @ e # ys) = xs @ e' # ys"
  using assms by (force simp: sorted_wrt_append intro!: map_idI)

definition calls_of :: "int \<Rightarrow> string \<Rightarrow> detection list \<Rightarrow> int" where
  "calls_of org key db = sum_list (map dt_count (filter (of_key org key) db))"

text \<open>One call: the table stays in order and exactly one call is added to the key.\<close>

lemma record_step:
  assumes "table_ok now db" and "record_detection now a db = (det, db')"
  shows "table_ok now db' \<and> calls_of org key db' = calls_of org key db +
      (if org = da_organization_id a \<and> key = da_dedup_key a then 1 else 0) \<and>
    (dt_count det = 1 \<longleftrightarrow> db' = db @ [det])"
proof -
  let ?o = "da_organization_id a" and ?k = "da_dedup_key a"
  have new: "table_ok now (db @ [new_detection now a (next_id db)]) \<Longrightarrow> det = new_detection now a (next_id db) \<Longrightarrow> db' = db @ [det] \<Longrightarrow> ?thesis"
    by (auto simp: calls_of_def of_key_def new_detection_def)
  from open_detection_cases [OF assms(1), of ?o ?k] show ?thesis
  proof (elim disjE exE conjE)
    assume "open_detection ?o ?k db = None" "\<forall>r\<in>set db. \<not> of_key ?o ?k r"
    then show ?thesis using assms append_ok [OF assms(1), of a] by (intro new) (auto simp: record_detection_def Let_def)
  next
    fix e xs ys assume o: "open_detection ?o ?k db = Some e" and db: "db = xs @ e # ys" and e: "of_key ?o ?k e"
      and ys: "\<forall>r\<in>set ys. \<not> of_key ?o ?k r"
    show ?thesis
    proof (cases "suppressed_at now e")
      case True
      let ?e = "e\<lparr>dt_count := dt_count e + 1, dt_last_seen := now, dt_updated_at := now\<rparr>"
      have ids: "sorted_wrt (<) (map dt_id (xs @ e # ys))" using assms(1) by (simp add: table_ok_def db)
      have r: "det = ?e" "db' = xs @ ?e # ys" using assms(2) o True bump_map [OF ids, of ?e] by (auto simp: record_detection_def Let_def db)
      have "1 \<le> dt_count e" using assms(1) by (auto simp: table_ok_def db)
      moreover have "table_ok now db'" unfolding r using bump_ok [OF assms(1) [unfolded db] e ys] by simp
      ultimately show ?thesis using e by (auto simp: calls_of_def of_key_def r db)
    next
      case False
      have "table_ok now (db @ [new_detection now a (next_id db)])"
        using append_ok [OF assms(1), of a] expired_rows [OF assms(1) db e ys False] by blast
      then show ?thesis using assms(2) o False by (intro new) (auto simp: record_detection_def Let_def)
    qed
  qed
qed

section \<open>Calls over time\<close>

text \<open>Calls at times that do not decrease.\<close>

fun record_all :: "(int \<times> detection_args) list \<Rightarrow> detection list \<Rightarrow> detection list" where
  "record_all [] db = db"
| "record_all ((now, a) # cs) db = record_all cs (snd (record_detection now a db))"

lemma table_ok_mono: "table_ok now db \<Longrightarrow> now \<le> now' \<Longrightarrow> table_ok now' db"
  by (fastforce simp: table_ok_def)

lemma record_all_ok:
  assumes "table_ok now db" and "sorted (now # map fst cs)"
  shows "table_ok (last (now # map fst cs)) (record_all cs db) \<and>
    calls_of org key (record_all cs db) = calls_of org key db +
      int (length (filter (\<lambda>(t, a). da_organization_id a = org \<and> da_dedup_key a = key) cs))"
  using assms
proof (induction cs arbitrary: now db)
  case (Cons c cs)
  obtain t a where c: "c = (t, a)" by force
  obtain det db' where r: "record_detection t a db = (det, db')" by force
  have "table_ok t db" using Cons.prems table_ok_mono c by auto
  from record_step [OF this r, of org key] have s: "table_ok t db'"
      "calls_of org key db' = calls_of org key db + (if org = da_organization_id a \<and> key = da_dedup_key a then 1 else 0)" by auto
  from Cons.IH [OF s(1)] Cons.prems(2) s(2) show ?case by (auto simp: c r)
qed simp


definition demo_args :: detection_args where
  "demo_args = \<lparr>da_organization_id = 3, da_source = ''inflight'', da_dedup_key = ''k'', da_severity_id = 4, da_rule_id = ''7'',
     da_rule_name = ''r'', da_integration_id = None, da_suppression = 60\<rparr>"


end
