(* ===== verification/Inflight_Absence.thy ===== *)
theory Inflight_Absence
  imports Inflight_Correlate Inflight_Detections
begin

text \<open>
  Rules on the absence of events (\<open>inflight/absence.py\<close>): the flush records which groups were seen, with a heartbeat, and
  a periodic tick decides which known groups are silent. The Redis hashes are those of \<open>Inflight_Correlate\<close>, the
  detections those of \<open>Inflight_Detections\<close>. \<open>float(text)\<close> is the parameter \<open>fl\<close>; the rows of collection state that
  belong to a pinned stream are an argument (\<open>None\<close> when the query raises).
\<close>

section \<open>Keys\<close>

definition absence_prefix :: "int \<Rightarrow> int \<Rightarrow> string" where
  "absence_prefix org rid = ''absence:'' @ int_str org @ '':'' @ int_str rid"

definition seen_key :: "int \<Rightarrow> int \<Rightarrow> string" where
  "seen_key org rid = absence_prefix org rid @ '':seen''"

definition meta_key :: "int \<Rightarrow> int \<Rightarrow> string" where
  "meta_key org rid = absence_prefix org rid @ '':meta''"

definition alerted_key :: "int \<Rightarrow> int \<Rightarrow> string" where
  "alerted_key org rid = absence_prefix org rid @ '':alerted''"

definition absence_dedup_key :: "int \<Rightarrow> int \<Rightarrow> string \<Rightarrow> string" where
  "absence_dedup_key org rid token = absence_prefix org rid @ '':'' @ token"

definition state_ttl_slack :: int where
  "state_ttl_slack = 24 * 60 * 60"

record absence_settings =
  ab_max_keys :: int
  ab_grace :: int
  ab_observer_max_age :: int
  ab_auto_close :: bool

definition stream_pinned_by :: "compiled_clause list \<Rightarrow> string option" where
  "stream_pinned_by cs =
     (case List.find (\<lambda>c. cl_path c = [''_centralops'', ''stream''] \<and> cl_op c = ''eq'' \<and>
             (case cl_value c of CVal (PStr v) \<Rightarrow> strip v \<noteq> [] | _ \<Rightarrow> False)) cs of
        None \<Rightarrow> None
      | Some c \<Rightarrow> (case cl_value c of CVal (PStr v) \<Rightarrow> Some (strip v) | _ \<Rightarrow> None))"

section \<open>Presence, in the flush\<close>

definition presence_rules :: "inflight_acc \<Rightarrow> (int \<times> inflight_rule) list" where
  "presence_rules acc =
     foldl (\<lambda>m (k, it). if ir_absence (pi_rule it) \<and> map_of m (ir_rule_id (pi_rule it)) = None
                        then AList.update (ir_rule_id (pi_rule it)) (pi_rule it) m else m)
       (ac_absence_rules acc) (ac_pending acc)"

text \<open>The tokens seen in this cycle for a rule, in the order of the pending keys.\<close>

definition seen_now :: "int \<Rightarrow> inflight_acc \<Rightarrow> string list" where
  "seen_now rid acc =
     foldl (\<lambda>ts (k, it). if ir_absence (pi_rule it) \<and> ir_rule_id (pi_rule it) = rid \<and> pi_token it \<notin> set ts then ts @ [pi_token it] else ts)
       [] (ac_pending acc)"

text \<open>Which tokens are written: known ones always, new ones while the budget lasts. The second result counts the rest.\<close>

fun admit_tokens :: "(string \<times> bool) list \<Rightarrow> int \<Rightarrow> string list \<times> nat" where
  "admit_tokens [] budget = ([], 0)"
| "admit_tokens ((token, present) # rest) budget =
     (if present then (let (ts, n) = admit_tokens rest budget in (token # ts, n))
      else if budget > 0 then (let (ts, n) = admit_tokens rest (budget - 1) in (token # ts, n))
      else (let (ts, n) = admit_tokens rest budget in (ts, Suc n)))"

text \<open>\<open>HLEN\<close> and \<open>HMGET\<close> of the first pipeline are read off the fields of the hash.\<close>

definition presence_plan :: "'s hashes \<Rightarrow> absence_settings \<Rightarrow> int \<Rightarrow> int \<Rightarrow> inflight_acc \<Rightarrow> 's \<Rightarrow> int \<Rightarrow> string list \<times> nat" where
  "presence_plan hs st ts org acc s rid =
     (let h = hs_getall hs ts (seen_key org rid) s
      in admit_tokens (map (\<lambda>t. (t, map_of h t \<noteq> None)) (seen_now rid acc)) (max 0 (ab_max_keys st - int (length h))))"

definition write_presence :: "'s hashes \<Rightarrow> int \<Rightarrow> int \<Rightarrow> int \<times> inflight_rule \<times> string list \<Rightarrow> 's \<Rightarrow> 's" where
  "write_presence hs ts org x s =
     (case x of (rid, rule, tokens) \<Rightarrow>
        let ttl = ir_forget_seconds rule + state_ttl_slack in
        hs_expire hs ts (meta_key org rid) ttl
          (hs_expire hs ts (seen_key org rid) ttl
            (hs_hset hs ts (meta_key org rid) ''last_cycle'' (int_str ts)
              (foldl (\<lambda>s t. hs_hset hs ts (seen_key org rid) t (int_str ts) s) s tokens))))"

definition presence_unavailable :: "(int \<times> inflight_rule) list \<Rightarrow> inflight_acc \<Rightarrow> inflight_acc" where
  "presence_unavailable rules acc = foldl (\<lambda>a (rid, r). count_error ''absence_unavailable'' rid 1 a) acc rules"

text \<open>The commands of the second pipeline, rule by rule in the order of the identifiers.\<close>

definition presence_writes ::
    "'s hashes \<Rightarrow> absence_settings \<Rightarrow> int \<Rightarrow> int \<Rightarrow> inflight_acc \<Rightarrow> 's \<Rightarrow> (int \<times> inflight_rule \<times> string list) list" where
  "presence_writes hs st ts org acc s =
     map (\<lambda>rid. (rid, the (map_of (presence_rules acc) rid), fst (presence_plan hs st ts org acc s rid)))
       (sort (map fst (presence_rules acc)))"

definition apply_absence_presence ::
    "'s hashes \<Rightarrow> absence_settings \<Rightarrow> int \<Rightarrow> bool \<Rightarrow> int \<Rightarrow> inflight_acc \<Rightarrow> 's \<Rightarrow> nat \<times> inflight_acc \<times> 's" where
  "apply_absence_presence hs st ts read_ok org acc s =
     (let rules = presence_rules acc;
          acc1 = acc\<lparr>ac_pending := filter (\<lambda>(k, it). \<not> ir_absence (pi_rule it)) (ac_pending acc)\<rparr>;
          order = sort (map fst rules);
          removed = sum_list (map (\<lambda>rid. length (seen_now rid acc)) order) in
      if rules = [] then (0, acc1, s)
      else if \<not> read_ok then (removed, presence_unavailable rules acc1, s)
      else
        let plans = map (\<lambda>rid. (rid, presence_plan hs st ts org acc s rid)) order;
            acc2 = foldl (\<lambda>a (rid, ts, n). if n = 0 then a else count_error ''absence_key_cap'' rid (int n) a) acc1 plans in
        case hs_exec hs (\<lambda>s'. foldl (\<lambda>s' x. write_presence hs ts org x s') s' (presence_writes hs st ts org acc s)) s of
          (True, s') \<Rightarrow> (removed, acc2, s')
        | (False, s') \<Rightarrow> (removed, presence_unavailable rules acc2, s'))"

section \<open>Silence, in the tick\<close>

record tick_result =
  tk_rules :: nat
  tk_evaluated :: nat
  tk_skipped_lock :: nat
  tk_unobservable :: nat
  tk_lagging :: nat
  tk_unavailable :: nat
  tk_rejected :: nat
  tk_alerted :: nat
  tk_bumped :: nat
  tk_recovered :: nat
  tk_forgotten :: nat
  tk_tracked :: nat
  tk_silent :: nat
  tk_errors :: nat
  tk_states :: "(int \<times> string) list"

text \<open>\<open>_source_lagging\<close>: a row with an old watermark whose last run was capped.\<close>

definition source_lagging :: "(rat option \<times> bool) list option \<Rightarrow> int \<Rightarrow> rat \<Rightarrow> bool" where
  "source_lagging rows window now =
     (case rows of
        None \<Rightarrow> False
      | Some rs \<Rightarrow> list_ex (\<lambda>(wm, capped). case wm of None \<Rightarrow> False | Some t \<Rightarrow> capped \<and> now - t > of_int window) rs)"

text \<open>\<open>_close_detection\<close>; the last argument says whether the emission of the status event succeeds. The status is
  committed before the emission.\<close>

definition close_detection :: "absence_settings \<Rightarrow> int \<Rightarrow> bool \<Rightarrow> string \<Rightarrow> detection list \<Rightarrow> bool \<times> detection list" where
  "close_detection st now_us emit_ok raw_id db =
     (if \<not> ab_auto_close st then (False, db)
      else case parse_int raw_id of
        None \<Rightarrow> (False, db)
      | Some i \<Rightarrow>
          (case (if i < 0 then None else get_detection (nat i) db) of
             None \<Rightarrow> (False, db)
           | Some d \<Rightarrow> if dt_status d = ''closed'' then (False, db) else (emit_ok, set_status now_us (nat i) ''closed'' db)))"

datatype verdict = Forget | Silent rat | Recovered | Fresh

definition classify :: "(string \<Rightarrow> rat option) \<Rightarrow> rat \<Rightarrow> int \<Rightarrow> int \<Rightarrow> int \<Rightarrow> (string \<times> string) list \<Rightarrow> string \<times> string \<Rightarrow> verdict" where
  "classify fl now window grace forget alerted x =
     (case fl (snd x) of
        None \<Rightarrow> Forget
      | Some ls \<Rightarrow>
          let age = now - ls in
          if age > of_int forget then Forget
          else if age > of_int (window + grace) then Silent ls
          else if map_of alerted (fst x) \<noteq> None then Recovered
          else Fresh)"

definition to_forget_of :: "(string \<times> verdict) list \<Rightarrow> string list" where
  "to_forget_of vs = map fst (filter (\<lambda>x. snd x = Forget) vs)"

definition recovered_of :: "(string \<times> verdict) list \<Rightarrow> string list" where
  "recovered_of vs = map fst (filter (\<lambda>x. snd x = Recovered) vs)"

definition candidates_of :: "(string \<times> verdict) list \<Rightarrow> (string \<times> rat) list" where
  "candidates_of vs = List.map_filter (\<lambda>(t, v). case v of Silent ls \<Rightarrow> Some (t, ls) | _ \<Rightarrow> None) vs"

text \<open>Closing the detections of tokens that were alerted: the number closed and the table.\<close>

definition close_all ::
    "absence_settings \<Rightarrow> int \<Rightarrow> (string \<Rightarrow> bool) \<Rightarrow> (string \<times> string) list \<Rightarrow> string list \<Rightarrow> detection list \<Rightarrow> nat \<times> detection list" where
  "close_all st now_us emit_ok alerted tokens db =
     foldl (\<lambda>(n, db) t. case map_of alerted t of
              None \<Rightarrow> (n, db)
            | Some raw \<Rightarrow> (case close_detection st now_us (emit_ok t) raw db of (c, db') \<Rightarrow> (if c then Suc n else n, db')))
       (0, db) tokens"

definition absence_args :: "int \<Rightarrow> inflight_rule \<Rightarrow> string \<Rightarrow> detection_args" where
  "absence_args org rule token =
     \<lparr>da_organization_id = org, da_source = ''inflight'', da_dedup_key = absence_dedup_key org (ir_rule_id rule) token,
      da_severity_id = ir_severity_id rule, da_rule_id = int_str (ir_rule_id rule), da_rule_name = ir_name rule,
      da_integration_id = None, da_suppression = ir_suppression rule\<rparr>"

text \<open>\<open>int(x)\<close> of a float: truncation towards zero.\<close>

definition trunc :: "rat \<Rightarrow> int" where
  "trunc q = (if q < 0 then - \<lfloor>- q\<rfloor> else \<lfloor>q\<rfloor>)"

definition absence_emit :: "int \<Rightarrow> inflight_rule \<Rightarrow> int \<Rightarrow> rat \<Rightarrow> string \<Rightarrow> rat \<Rightarrow> detection \<Rightarrow> detection_emit" where
  "absence_emit org rule forget now token ls det =
     \<lparr>em_dedup_key = absence_dedup_key org (ir_rule_id rule) token, em_detection_id = dt_id det, em_rule_id = ir_rule_id rule,
      em_rule_name = ir_name rule, em_severity_id = ir_severity_id rule, em_integration_id = None,
      em_source = [
        (''group_field'', case ir_group_by_path rule of Some p \<Rightarrow> (if join ''.'' p = [] then PNone else PStr (join ''.'' p)) | None \<Rightarrow> PNone),
        (''group_value'', PStr token),
        (''stream'', case stream_pinned_by (ir_clauses rule) of None \<Rightarrow> PNone | Some v \<Rightarrow> PStr v),
        (''absence'', PDict [
           (''last_seen'', PInt (trunc ls)), (''silent_for_seconds'', PInt (trunc (now - ls))),
           (''expected_within_seconds'', PInt (ir_window_seconds rule)), (''forget_after_seconds'', PInt forget)])],
      em_emit_event = ir_emit_event rule\<rparr>"

record alert_state =
  al_budget :: int
  al_db :: "detection list"
  al_errors :: nat
  al_bumped :: nat
  al_emits :: "detection_emit list"
  al_newly :: "(string \<times> nat) list"

text \<open>One candidate whose recording was tried at the time and with the outcome that \<open>sched\<close> gives.\<close>

definition alert_one ::
    "(string \<Rightarrow> int \<times> bool) \<Rightarrow> int \<Rightarrow> inflight_rule \<Rightarrow> int \<Rightarrow> rat \<Rightarrow> (string \<times> string) list \<Rightarrow> string \<times> rat \<Rightarrow> alert_state \<Rightarrow> alert_state" where
  "alert_one sched org rule forget now alerted c a =
     (case c of (token, ls) \<Rightarrow>
        if \<not> snd (sched token) then a\<lparr>al_errors := Suc (al_errors a)\<rparr>
        else case record_detection (fst (sched token)) (absence_args org rule token) (al_db a) of
          (det, db') \<Rightarrow>
            let a1 = a\<lparr>al_budget := al_budget a - 1, al_db := db'\<rparr> in
            if dt_count det = 1
            then a1\<lparr>al_newly := AList.update token (dt_id det) (al_newly a), al_emits := al_emits a @ [absence_emit org rule forget now token ls det]\<rparr>
            else a1\<lparr>al_bumped := Suc (al_bumped a),
                    al_newly := (if map_of alerted token = None then AList.update token (dt_id det) (al_newly a) else al_newly a)\<rparr>)"

fun alert_loop ::
    "(string \<Rightarrow> int \<times> bool) \<Rightarrow> int \<Rightarrow> inflight_rule \<Rightarrow> int \<Rightarrow> rat \<Rightarrow> (string \<times> string) list \<Rightarrow> (string \<times> rat) list \<Rightarrow> alert_state \<Rightarrow> alert_state" where
  "alert_loop sched org rule forget now alerted [] a = a"
| "alert_loop sched org rule forget now alerted (c # cs) a =
     (if al_budget a \<le> 0 then a
      else alert_loop sched org rule forget now alerted cs (alert_one sched org rule forget now alerted c a))"

text \<open>What the surroundings contribute to the tick of a rule: whether this process owns the lock (also when the lock raises),
  whether the reading pipeline succeeds, the collection state of the pinned stream, the time and outcome of recording a
  token, the outcome of emitting a status event, and the wall clock in microseconds.\<close>

record tick_env =
  te_owned :: bool
  te_read_ok :: bool
  te_lag :: "(rat option \<times> bool) list option"
  te_sched :: "string \<Rightarrow> int \<times> bool"
  te_emit_ok :: "string \<Rightarrow> bool"
  te_now_us :: int

record 's tick_state =
  ts_result :: tick_result
  ts_budget :: int
  ts_db :: "detection list"
  ts_store :: 's

definition on_result :: "(tick_result \<Rightarrow> tick_result) \<Rightarrow> 's tick_state \<Rightarrow> 's tick_state" where
  "on_result f x = x\<lparr>ts_result := f (ts_result x)\<rparr>"

definition note_state ::
    "'s hashes \<Rightarrow> int \<Rightarrow> int \<Rightarrow> int \<Rightarrow> rat \<Rightarrow> string \<Rightarrow> (string \<times> nat) list \<Rightarrow> 's tick_state \<Rightarrow> 's tick_state" where
  "note_state hs org rid ttl now state extra x =
     (let fields = [(''last_tick'', int_str (trunc now)), (''state'', state)] @ map (\<lambda>(k, n). (k, nat_str n)) extra in
      x\<lparr>ts_result := (ts_result x)\<lparr>tk_states := AList.update rid state (tk_states (ts_result x))\<rparr>,
        ts_store := snd (hs_exec hs (\<lambda>s. hs_expire hs (trunc now) (meta_key org rid) ttl
           (foldl (\<lambda>s (f, v). hs_hset hs (trunc now) (meta_key org rid) f v s) s fields)) (ts_store x))\<rparr>)"

definition forget_of :: "inflight_rule \<Rightarrow> int" where
  "forget_of rule = (if ir_forget_seconds rule = 0 then 3 * ir_window_seconds rule else ir_forget_seconds rule)"

text \<open>The decision once both guards have passed: the tickets of new detections and the new state.\<close>

definition decide_silence ::
    "'s hashes \<Rightarrow> absence_settings \<Rightarrow> (string \<Rightarrow> rat option) \<Rightarrow> tick_env \<Rightarrow> int \<Rightarrow> inflight_rule \<Rightarrow> rat \<Rightarrow>
     (string \<times> string) list \<Rightarrow> (string \<times> string) list \<Rightarrow> 's tick_state \<Rightarrow> detection_emit list \<times> 's tick_state" where
  "decide_silence hs ab fl env org rule now seen alerted x =
     (let rid = ir_rule_id rule; t = trunc now; forget = forget_of rule; ttl = forget + state_ttl_slack;
          vs = map (\<lambda>e. (fst e, classify fl now (ir_window_seconds rule) (ab_grace ab) forget alerted e)) seen;
          fg = to_forget_of vs; rc = recovered_of vs; cs = candidates_of vs;
          s1 = (if fg = [] then ts_store x
                else snd (hs_exec hs (\<lambda>s. let fa = filter (\<lambda>u. map_of alerted u \<noteq> None) fg; s' = hs_hdel hs t (seen_key org rid) fg s
                                          in if fa = [] then s' else hs_hdel hs t (alerted_key org rid) fa s') (ts_store x)));
          (n1, db1) = close_all ab (te_now_us env) (te_emit_ok env) alerted fg (ts_db x);
          (n2, db2) = close_all ab (te_now_us env) (te_emit_ok env) alerted rc db1;
          s2 = (if rc = [] then s1 else snd (hs_exec hs (hs_hdel hs t (alerted_key org rid) rc) s1));
          a = alert_loop (te_sched env) org rule forget now alerted cs
                \<lparr>al_budget = ts_budget x, al_db = db2, al_errors = 0, al_bumped = 0, al_emits = [], al_newly = []\<rparr>;
          s3 = (if al_newly a = [] then s2
                else snd (hs_exec hs (\<lambda>s. hs_expire hs t (alerted_key org rid) ttl
                       (foldl (\<lambda>s (u, i). hs_hset hs t (alerted_key org rid) u (nat_str i) s) s (al_newly a))) s2));
          r = ts_result x;
          r' = r\<lparr>tk_recovered := tk_recovered r + n1 + n2, tk_forgotten := tk_forgotten r + length fg,
                 tk_errors := tk_errors r + al_errors a, tk_evaluated := Suc (tk_evaluated r),
                 tk_alerted := tk_alerted r + length (al_emits a), tk_bumped := tk_bumped r + al_bumped a,
                 tk_tracked := tk_tracked r + (length seen - length fg), tk_silent := tk_silent r + length cs\<rparr>
      in (al_emits a,
          note_state hs org rid ttl now ''ok'' [(''tracked'', length seen - length fg), (''silent'', length cs)]
            \<lparr>ts_result = r', ts_budget = al_budget a, ts_db = al_db a, ts_store = s3\<rparr>))"

definition evaluate_absence_rule ::
    "'s hashes \<Rightarrow> absence_settings \<Rightarrow> (string \<Rightarrow> rat option) \<Rightarrow> tick_env \<Rightarrow> int \<Rightarrow> inflight_rule \<Rightarrow> rat \<Rightarrow> 's tick_state \<Rightarrow>
     detection_emit list \<times> 's tick_state" where
  "evaluate_absence_rule hs ab fl env org rule now x0 =
     (let rid = ir_rule_id rule; t = trunc now; ttl = forget_of rule + state_ttl_slack;
          x = on_result (\<lambda>r. r\<lparr>tk_rules := Suc (tk_rules r)\<rparr>) x0; s = ts_store x;
          seen = hs_getall hs t (seen_key org rid) s in
      if \<not> te_owned env then ([], on_result (\<lambda>r. r\<lparr>tk_skipped_lock := Suc (tk_skipped_lock r)\<rparr>) x)
      else if \<not> te_read_ok env then
        ([], on_result (\<lambda>r. r\<lparr>tk_unavailable := Suc (tk_unavailable r), tk_states := AList.update rid ''unavailable'' (tk_states r)\<rparr>) x)
      else case Option.bind (map_of (hs_getall hs t (meta_key org rid) s) ''last_cycle'') fl of
        None \<Rightarrow>
          ([], note_state hs org rid ttl now ''unobservable'' [(''tracked'', length seen)]
                 (on_result (\<lambda>r. r\<lparr>tk_unobservable := Suc (tk_unobservable r)\<rparr>) x))
      | Some last_cycle \<Rightarrow>
          if now - last_cycle > of_int (ab_observer_max_age ab) then
            ([], note_state hs org rid ttl now ''unobservable'' [(''tracked'', length seen)]
                   (on_result (\<lambda>r. r\<lparr>tk_unobservable := Suc (tk_unobservable r)\<rparr>) x))
          else if stream_pinned_by (ir_clauses rule) \<noteq> None \<and> source_lagging (te_lag env) (ir_window_seconds rule) now then
            ([], note_state hs org rid ttl now ''lagging'' [(''tracked'', length seen)]
                   (on_result (\<lambda>r. r\<lparr>tk_lagging := Suc (tk_lagging r)\<rparr>) x))
          else decide_silence hs ab fl env org rule now seen (hs_getall hs t (alerted_key org rid) s) x)"

text \<open>\<open>evaluate_absence_rules_once\<close> over the rows of the enabled absence rules, each with its organization and surroundings.\<close>

definition tick_row ::
    "'s hashes \<Rightarrow> absence_settings \<Rightarrow> inflight_settings \<Rightarrow> (string \<Rightarrow> pyval) \<Rightarrow> (string \<Rightarrow> rat option) \<Rightarrow> rat \<Rightarrow>
     detection_emit list \<times> 's tick_state \<Rightarrow> int \<times> rule_row \<times> tick_env \<Rightarrow> detection_emit list \<times> 's tick_state" where
  "tick_row hs ab ist cf fl now ex row =
     (case (ex, row) of ((emits, x), (org, rr, env)) \<Rightarrow>
        (case compile_rule_row ist cf fl rr of
           Inl _ \<Rightarrow> (emits, on_result (\<lambda>r. r\<lparr>tk_rejected := Suc (tk_rejected r)\<rparr>) x)
         | Inr rule \<Rightarrow>
             if \<not> ir_absence rule then (emits, on_result (\<lambda>r. r\<lparr>tk_rejected := Suc (tk_rejected r)\<rparr>) x)
             else (case evaluate_absence_rule hs ab fl env org rule now x of (es, x') \<Rightarrow> (emits @ es, x'))))"

definition empty_result :: tick_result where
  "empty_result = \<lparr>tk_rules = 0, tk_evaluated = 0, tk_skipped_lock = 0, tk_unobservable = 0, tk_lagging = 0, tk_unavailable = 0,
     tk_rejected = 0, tk_alerted = 0, tk_bumped = 0, tk_recovered = 0, tk_forgotten = 0, tk_tracked = 0, tk_silent = 0, tk_errors = 0,
     tk_states = []\<rparr>"

definition absence_tick ::
    "'s hashes \<Rightarrow> absence_settings \<Rightarrow> inflight_settings \<Rightarrow> (string \<Rightarrow> pyval) \<Rightarrow> (string \<Rightarrow> rat option) \<Rightarrow> bool \<Rightarrow> bool \<Rightarrow> int \<Rightarrow> rat \<Rightarrow>
     (int \<times> rule_row \<times> tick_env) list \<Rightarrow> detection list \<Rightarrow> 's \<Rightarrow> detection_emit list \<times> 's tick_state" where
  "absence_tick hs ab ist cf fl enabled redis_ok max_alerts now rows db s =
     (let x = \<lparr>ts_result = empty_result, ts_budget = max_alerts, ts_db = db, ts_store = s\<rparr> in
      if \<not> enabled then ([], x)
      else if \<not> redis_ok then ([], on_result (\<lambda>r. r\<lparr>tk_unavailable := Suc (tk_unavailable r)\<rparr>) x)
      else foldl (tick_row hs ab ist cf fl now) ([], x) rows)"

section \<open>Who is alerted\<close>

lemma candidates_mem: "(token, ls) \<in> set (candidates_of vs) \<longleftrightarrow> (token, Silent ls) \<in> set vs"
  by (induction vs) (auto simp: candidates_of_def List.map_filter_simps split: option.splits verdict.splits)

lemma classify_silent:
  "classify fl now w g f alerted x = Silent ls \<longleftrightarrow>
   fl (snd x) = Some ls \<and> now - ls \<le> of_int f \<and> of_int (w + g) < now - ls"
  by (auto simp: classify_def Let_def split: option.splits)

lemma alert_one_cases:
  obtains (failed) "alert_one sched org rule forget now alerted c a = a\<lparr>al_errors := Suc (al_errors a)\<rparr>"
  | (emitted) det db' where "alert_one sched org rule forget now alerted c a = a\<lparr>al_budget := al_budget a - 1, al_db := db',
        al_newly := AList.update (fst c) (dt_id det) (al_newly a), al_emits := al_emits a @ [absence_emit org rule forget now (fst c) (snd c) det]\<rparr>"
  | (bumped) db' n where "alert_one sched org rule forget now alerted c a = a\<lparr>al_budget := al_budget a - 1, al_db := db',
        al_bumped := Suc (al_bumped a), al_newly := n\<rparr>"
proof (cases "snd (sched (fst c))")
  case False
  then show thesis using failed by (cases c) (simp add: alert_one_def)
next
  case True
  obtain det db' where r: "record_detection (fst (sched (fst c))) (absence_args org rule (fst c)) (al_db a) = (det, db')" by force
  show thesis
  proof (cases "dt_count det = 1")
    case one: True
    then show thesis using True r emitted [where det = det and db' = db'] by (cases c) (simp add: alert_one_def Let_def)
  next
    case False
    then show thesis using True r
      bumped [where db' = db' and n = "if map_of alerted (fst c) = None then AList.update (fst c) (dt_id det) (al_newly a) else al_newly a"]
      by (cases c) (simp add: alert_one_def Let_def)
  qed
qed

lemma alert_loop_emits:
  "e \<in> set (al_emits (alert_loop sched org rule forget now alerted cs a)) \<Longrightarrow>
   e \<in> set (al_emits a) \<or> (\<exists>c\<in>set cs. em_dedup_key e = absence_dedup_key org (ir_rule_id rule) (fst c))"
proof (induction cs arbitrary: a)
  case (Cons c cs)
  let ?a = "alert_one sched org rule forget now alerted c a"
  show ?case
  proof (cases "al_budget a \<le> 0")
    case False
    then have "e \<in> set (al_emits ?a) \<or> (\<exists>c\<in>set cs. em_dedup_key e = absence_dedup_key org (ir_rule_id rule) (fst c))"
      using Cons by simp
    moreover have "e \<in> set (al_emits ?a) \<Longrightarrow> e \<in> set (al_emits a) \<or> em_dedup_key e = absence_dedup_key org (ir_rule_id rule) (fst c)"
      by (cases rule: alert_one_cases [of sched org rule forget now alerted c a]) (auto simp: absence_emit_def)
    ultimately show ?thesis by auto
  qed (use Cons.prems in simp)
qed simp

lemma alert_loop_budget:
  "int (length (al_emits (alert_loop sched org rule forget now alerted cs a))) + int (al_bumped (alert_loop sched org rule forget now alerted cs a)) +
     al_budget (alert_loop sched org rule forget now alerted cs a) =
   int (length (al_emits a)) + int (al_bumped a) + al_budget a \<and>
   min 0 (al_budget a) \<le> al_budget (alert_loop sched org rule forget now alerted cs a)"
proof (induction cs arbitrary: a)
  case (Cons c cs)
  let ?a = "alert_one sched org rule forget now alerted c a"
  have "int (length (al_emits ?a)) + int (al_bumped ?a) + al_budget ?a = int (length (al_emits a)) + int (al_bumped a) + al_budget a \<and>
      al_budget a - 1 \<le> al_budget ?a"
    by (cases rule: alert_one_cases [of sched org rule forget now alerted c a]) auto
  then show ?case using Cons.IH [of ?a] by auto
qed simp

text \<open>When every recording succeeds, a tick never looks past the candidates its budget pays for. Keys that were alerted
  before are paid for again, so the same first keys use up every tick.\<close>

lemma alert_loop_prefix:
  assumes "\<forall>c\<in>set (take (nat (al_budget a)) cs). snd (sched (fst c))"
  shows "alert_loop sched org rule forget now alerted cs a = alert_loop sched org rule forget now alerted (take (nat (al_budget a)) cs) a"
  using assms
proof (induction cs arbitrary: a)
  case (Cons c cs)
  show ?case
  proof (cases "al_budget a \<le> 0")
    case False
    let ?a = "alert_one sched org rule forget now alerted c a"
    obtain n where n: "nat (al_budget a) = Suc n" using False by (cases "nat (al_budget a)") auto
    have "snd (sched (fst c))" using Cons.prems n by simp
    then have b: "al_budget ?a = al_budget a - 1" by (auto simp: alert_one_def Let_def split: prod.splits)
    then have "nat (al_budget ?a) = n" using n by simp
    then show ?thesis using Cons False n by simp
  qed (simp add: nat_eq_iff)
qed simp

lemma decide_emits:
  assumes "decide_silence hs ab fl env org rule now seen alerted x = (emits, x')" and "e \<in> set emits"
  shows "\<exists>token raw ls. (token, raw) \<in> set seen \<and> em_dedup_key e = absence_dedup_key org (ir_rule_id rule) token \<and>
    fl raw = Some ls \<and> of_int (ir_window_seconds rule + ab_grace ab) < now - ls \<and> now - ls \<le> of_int (forget_of rule)"
proof -
  let ?vs = "map (\<lambda>e. (fst e, classify fl now (ir_window_seconds rule) (ab_grace ab) (forget_of rule) alerted e)) seen"
  obtain a where "emits = al_emits (alert_loop (te_sched env) org rule (forget_of rule) now alerted (candidates_of ?vs) a)" "al_emits a = []"
    using assms(1) by (auto simp: decide_silence_def Let_def split: prod.splits)
  then obtain c where c: "c \<in> set (candidates_of ?vs)" "em_dedup_key e = absence_dedup_key org (ir_rule_id rule) (fst c)"
    using alert_loop_emits assms(2) by fastforce
  then have "(fst c, Silent (snd c)) \<in> set ?vs" using candidates_mem [of "fst c" "snd c"] by simp
  then obtain r where "r \<in> set seen" "fst r = fst c" "classify fl now (ir_window_seconds rule) (ab_grace ab) (forget_of rule) alerted r = Silent (snd c)"
    by auto
  then show ?thesis using c(2) classify_silent [of fl now "ir_window_seconds rule" "ab_grace ab" "forget_of rule" alerted r "snd c"]
    by (metis prod.collapse)
qed

lemma decide_budget:
  assumes "decide_silence hs ab fl env org rule now seen alerted x = (emits, x')" and "0 \<le> ts_budget x"
  shows "int (length emits) \<le> ts_budget x - ts_budget x' \<and> 0 \<le> ts_budget x'"
proof -
  let ?vs = "map (\<lambda>e. (fst e, classify fl now (ir_window_seconds rule) (ab_grace ab) (forget_of rule) alerted e)) seen"
  obtain a where a: "emits = al_emits (alert_loop (te_sched env) org rule (forget_of rule) now alerted (candidates_of ?vs) a)"
      "ts_budget x' = al_budget (alert_loop (te_sched env) org rule (forget_of rule) now alerted (candidates_of ?vs) a)"
      "al_emits a = []" "al_bumped a = 0" "al_budget a = ts_budget x"
    using assms(1) by (auto simp: decide_silence_def Let_def note_state_def split: prod.splits)
  show ?thesis
    using alert_loop_budget [of "te_sched env" org rule "forget_of rule" now alerted "candidates_of ?vs" a] assms(2) unfolding a by auto
qed

definition heartbeat :: "'s hashes \<Rightarrow> (string \<Rightarrow> rat option) \<Rightarrow> int \<Rightarrow> int \<Rightarrow> rat \<Rightarrow> 's \<Rightarrow> rat option" where
  "heartbeat hs fl org rid now s = Option.bind (map_of (hs_getall hs (trunc now) (meta_key org rid) s) ''last_cycle'') fl"

lemma tick_emits:
  assumes "evaluate_absence_rule hs ab fl env org rule now x = (emits, x')" and "e \<in> set emits"
  shows "te_owned env \<and> te_read_ok env \<and>
    (\<exists>lc. heartbeat hs fl org (ir_rule_id rule) now (ts_store x) = Some lc \<and> now - lc \<le> of_int (ab_observer_max_age ab)) \<and>
    \<not> (stream_pinned_by (ir_clauses rule) \<noteq> None \<and> source_lagging (te_lag env) (ir_window_seconds rule) now) \<and>
    (\<exists>token raw ls. (token, raw) \<in> set (hs_getall hs (trunc now) (seen_key org (ir_rule_id rule)) (ts_store x)) \<and>
      em_dedup_key e = absence_dedup_key org (ir_rule_id rule) token \<and> fl raw = Some ls \<and>
      of_int (ir_window_seconds rule + ab_grace ab) < now - ls \<and> now - ls \<le> of_int (forget_of rule))"
proof -
  have own: "te_owned env" "te_read_ok env" using assms by (auto simp: evaluate_absence_rule_def Let_def split: if_splits)
  obtain lc where lc: "heartbeat hs fl org (ir_rule_id rule) now (ts_store x) = Some lc" "\<not> now - lc > of_int (ab_observer_max_age ab)"
    using assms own by (auto simp: evaluate_absence_rule_def heartbeat_def Let_def on_result_def split: if_splits option.splits)
  have lag: "\<not> (stream_pinned_by (ir_clauses rule) \<noteq> None \<and> source_lagging (te_lag env) (ir_window_seconds rule) now)"
    using assms own lc by (auto simp: evaluate_absence_rule_def heartbeat_def Let_def on_result_def split: if_splits)
  let ?x = "on_result (\<lambda>r. r\<lparr>tk_rules := Suc (tk_rules r)\<rparr>) x"
  have "decide_silence hs ab fl env org rule now (hs_getall hs (trunc now) (seen_key org (ir_rule_id rule)) (ts_store x))
      (hs_getall hs (trunc now) (alerted_key org (ir_rule_id rule)) (ts_store x)) ?x = (emits, x')"
    using assms own lc lag by (auto simp: evaluate_absence_rule_def heartbeat_def Let_def on_result_def split: if_splits)
  from decide_emits [OF this assms(2)] own lc lag show ?thesis by auto
qed


text \<open>A rule whose keys are forgotten before window and grace have passed never alerts. With the default settings (a grace of
  300 seconds, keys forgotten after three windows) this is every rule with a window of at most 150 seconds.\<close>

theorem absence_short_window_never_alerts:
  assumes "forget_of rule \<le> ir_window_seconds rule + ab_grace ab"
  shows "fst (evaluate_absence_rule hs ab fl env org rule now x) = []"
proof (rule ccontr)
  assume "fst (evaluate_absence_rule hs ab fl env org rule now x) \<noteq> []"
  then obtain e where "e \<in> set (fst (evaluate_absence_rule hs ab fl env org rule now x))" by (meson last_in_set)
  from tick_emits [OF prod.collapse [symmetric] this] obtain ls :: rat where
      ls: "of_int (ir_window_seconds rule + ab_grace ab) < now - ls" "now - ls \<le> of_int (forget_of rule)" by blast
  have "of_int (forget_of rule) \<le> (of_int (ir_window_seconds rule + ab_grace ab) :: rat)" using assms of_int_le_iff by blast
  then show False using ls by linarith
qed

section \<open>A sighting protects a key\<close>

lemma absence_keys_inj [simp]:
  "seen_key org r = seen_key org r' \<longleftrightarrow> r = r'" "meta_key org r = meta_key org r' \<longleftrightarrow> r = r'"
  "seen_key org r \<noteq> meta_key org r'" "meta_key org r' \<noteq> seen_key org r"
  "absence_dedup_key org r t = absence_dedup_key org r t' \<longleftrightarrow> t = t'"
  using int_str_no_colon [of r] int_str_no_colon [of r'] int_str_inj [of r r']
  by (auto simp: seen_key_def meta_key_def absence_prefix_def absence_dedup_key_def sep_unique)

context hash_laws
begin

lemma sets_effect:
  "live (foldl (\<lambda>s u. hs_hset hs t k u v s) s us) t k' = (if k' = k then (\<lambda>f. if f \<in> set us then Some v else live s t k f) else live s t k')"
  by (induction us arbitrary: s) (auto simp: hset fun_eq_iff)

lemma sets_frame: "t \<le> t' \<Longrightarrow> k' \<noteq> k \<Longrightarrow> live (foldl (\<lambda>s u. hs_hset hs t k u v s) s us) t' k' = live s t' k'"
  by (induction us arbitrary: s) (auto simp: hset_frame)

lemma write_presence_effect:
  assumes "ts \<le> t'" and "t' < ts + (ir_forget_seconds rule + state_ttl_slack)"
  shows "live (write_presence hs ts org (rid, rule, us) s) t' (seen_key org rid) =
      (\<lambda>f. if f \<in> set us then Some (int_str ts) else live s ts (seen_key org rid) f)"
    and "live (write_presence hs ts org (rid, rule, us) s) t' (meta_key org rid) ''last_cycle'' = Some (int_str ts)"
  using assms by (simp_all add: write_presence_def Let_def expire hset sets_effect)

lemma write_presence_frame:
  assumes "ts \<le> t'" and "rid' \<noteq> fst x"
  shows "live (write_presence hs ts org x s) t' (seen_key org rid') = live s t' (seen_key org rid')"
    and "live (write_presence hs ts org x s) t' (meta_key org rid') = live s t' (meta_key org rid')"
  using assms by (auto simp: write_presence_def Let_def expire hset_frame sets_frame split: prod.splits)

lemma writes_presence:
  assumes "distinct (map fst ws)" and "(rid, rule, us) \<in> set ws" and "ts \<le> t'" and "t' < ts + (ir_forget_seconds rule + state_ttl_slack)"
  shows "(\<forall>u\<in>set us. live (foldl (\<lambda>s x. write_presence hs ts org x s) s ws) t' (seen_key org rid) u = Some (int_str ts)) \<and>
    live (foldl (\<lambda>s x. write_presence hs ts org x s) s ws) t' (meta_key org rid) ''last_cycle'' = Some (int_str ts)"
proof -
  have skip: "live (foldl (\<lambda>s x. write_presence hs ts org x s) s ws) t' (seen_key org rid) = live s t' (seen_key org rid) \<and>
      live (foldl (\<lambda>s x. write_presence hs ts org x s) s ws) t' (meta_key org rid) = live s t' (meta_key org rid)"
    if "rid \<notin> fst ` set ws" for ws s
    using that assms(3) by (induction ws arbitrary: s) (simp_all add: write_presence_frame)
  show ?thesis using assms(1,2)
  proof (induction ws arbitrary: s)
    case (Cons w ws)
    show ?case
    proof (cases "w = (rid, rule, us)")
      case True
      have "rid \<notin> fst ` set ws" using Cons.prems(1) True by simp
      then show ?thesis using skip [of ws] True write_presence_effect [OF assms(3,4)] by simp
    next
      case False
      then show ?thesis using Cons by auto
    qed
  qed simp
qed

end

lemma presence_rules_distinct:
  assumes "distinct (map fst (ac_absence_rules acc))"
  shows "distinct (map fst (presence_rules acc))"
  unfolding presence_rules_def by (rule foldl_invariant) (auto simp: assms distinct_update split: prod.splits)

text \<open>C17: A key that was just seen is not reported as silent. When a flush has recorded a sighting of a key, a tick that reads
  this state within the window and the grace raises no alert for the key.\<close>

theorem absence_no_false_alarm:
  assumes "hash_laws hs live" and "distinct (map fst (ac_absence_rules acc))"
    and "map_of (presence_rules acc) (ir_rule_id rule) = Some rule"
    and "apply_absence_presence hs ab ts True org acc s = (removed, acc', s')"
    and "fst (hs_exec hs (\<lambda>s'. foldl (\<lambda>s' x. write_presence hs ts org x s') s' (presence_writes hs ab ts org acc s)) s)"
    and "token \<in> set (fst (presence_plan hs ab ts org acc s (ir_rule_id rule)))"
    and "ts \<le> trunc now" and "trunc now < ts + (ir_forget_seconds rule + state_ttl_slack)"
    and "fl (int_str ts) = Some (of_int ts)" and "now - of_int ts \<le> of_int (ir_window_seconds rule + ab_grace ab)"
    and "ts_store x = s'" and "e \<in> set (fst (evaluate_absence_rule hs ab fl env org rule now x))"
  shows "em_dedup_key e \<noteq> absence_dedup_key org (ir_rule_id rule) token"
proof
  assume tok: "em_dedup_key e = absence_dedup_key org (ir_rule_id rule) token"
  let ?rid = "ir_rule_id rule" and ?ws = "presence_writes hs ab ts org acc s"
  let ?f = "\<lambda>s'. foldl (\<lambda>s' x. write_presence hs ts org x s') s' ?ws"
  have ne: "presence_rules acc \<noteq> []" using assms(3) by auto
  have ex: "hs_exec hs ?f s = (True, s')"
    using assms(4,5) ne by (cases "hs_exec hs ?f s") (auto simp: apply_absence_presence_def Let_def)
  obtain s0 where s0: "live s' = live (?f s0)" using hash_laws.exec_ok [OF assms(1) ex] by blast
  have "?rid \<in> fst ` set (presence_rules acc)" using assms(3) by (metis map_of_SomeD fst_conv image_eqI)
  then have mem: "(?rid, rule, fst (presence_plan hs ab ts org acc s ?rid)) \<in> set ?ws"
    using assms(3) by (force simp: presence_writes_def)
  have d: "distinct (map fst ?ws)" using presence_rules_distinct [OF assms(2)] by (simp add: presence_writes_def o_def)
  have sighted: "live s' (trunc now) (seen_key org ?rid) token = Some (int_str ts)"
    using hash_laws.writes_presence [OF assms(1) d mem assms(7,8)] assms(6) unfolding s0 by blast
  from tick_emits [OF prod.collapse [symmetric] assms(12)] assms(11) tok obtain raw ls where
      r: "(token, raw) \<in> set (hs_getall hs (trunc now) (seen_key org ?rid) s')" "fl raw = Some ls"
        "of_int (ir_window_seconds rule + ab_grace ab) < now - ls" by auto
  have "raw = int_str ts"
    using map_of_is_SomeI [OF hash_laws.getall(2) [OF assms(1)] r(1)] sighted hash_laws.getall(1) [OF assms(1)] by simp
  then show False using r assms(9,10) by simp
qed

section \<open>An example\<close>

text \<open>Group \<open>db1\<close> was last seen at time 0; a flush at time 1000 sees \<open>db2\<close>; the tick at time 1000 alerts \<open>db1\<close> only.\<close>

definition demo_absence :: inflight_rule where
  "demo_absence = demo_rule\<lparr>ir_absence := True, ir_window_seconds := 600, ir_forget_seconds := 1800, ir_group_by_path := Some [''raw'', ''db'']\<rparr>"

definition demo_seen_acc :: inflight_acc where
  "demo_seen_acc = empty_acc\<lparr>ac_pending := [(''k'', demo_item\<lparr>pi_rule := demo_absence, pi_token := ''db2''\<rparr>)]\<rparr>"

definition demo_absence_settings :: absence_settings where
  "demo_absence_settings = \<lparr>ab_max_keys = 100, ab_grace = 300, ab_observer_max_age = 900, ab_auto_close = True\<rparr>"

definition demo_watch :: hash_db where
  "demo_watch = ([], [seen_key 3 7 \<mapsto> ([(''db1'', ''0'')], None)])"

definition demo_fl :: "string \<Rightarrow> rat option" where
  "demo_fl t = map_option of_int (parse_int t)"

definition demo_env :: tick_env where
  "demo_env = \<lparr>te_owned = True, te_read_ok = True, te_lag = None, te_sched = (\<lambda>t. (1000000000, True)), te_emit_ok = (\<lambda>t. True),
     te_now_us = 1000000000\<rparr>"

definition demo_tick :: "hash_db tick_state" where
  "demo_tick = \<lparr>ts_result = empty_result, ts_budget = 5, ts_db = [],
     ts_store = snd (snd (apply_absence_presence mem_hashes demo_absence_settings 1000 True 3 demo_seen_acc demo_watch))\<rparr>"

lemma decide_fst:
  "fst (decide_silence hs ab fl env org rule now seen alerted x) =
   (let vs = map (\<lambda>e. (fst e, classify fl now (ir_window_seconds rule) (ab_grace ab) (forget_of rule) alerted e)) seen;
        db = snd (close_all ab (te_now_us env) (te_emit_ok env) alerted (recovered_of vs)
               (snd (close_all ab (te_now_us env) (te_emit_ok env) alerted (to_forget_of vs) (ts_db x)))) in
    al_emits (alert_loop (te_sched env) org rule (forget_of rule) now alerted (candidates_of vs)
      \<lparr>al_budget = ts_budget x, al_db = db, al_errors = 0, al_bumped = 0, al_emits = [], al_newly = []\<rparr>))"
  by (simp add: decide_silence_def Let_def split: prod.splits)

lemma demo_store:
  "hs_getall mem_hashes 1000 (seen_key 3 7) (ts_store demo_tick) = [(''db1'', ''0''), (''db2'', ''1000'')]"
  "hs_getall mem_hashes 1000 (meta_key 3 7) (ts_store demo_tick) = [(''last_cycle'', ''1000'')]"
  "hs_getall mem_hashes 1000 (alerted_key 3 7) (ts_store demo_tick) = []"
  by code_simp+

lemma demo_decided:
  "map em_dedup_key (fst (decide_silence hs demo_absence_settings demo_fl demo_env 3 demo_absence 1000
     [(''db1'', ''0''), (''db2'', ''1000'')] [] (on_result f demo_tick))) = [''absence:3:7:db1'']"
proof -
  have "ts_db (on_result f demo_tick) = []" "ts_budget (on_result f demo_tick) = 5" by (simp_all add: on_result_def demo_tick_def)
  then show ?thesis unfolding decide_fst by (simp only:) code_simp
qed

lemma demo_ticked:
  "map em_dedup_key (fst (evaluate_absence_rule mem_hashes demo_absence_settings demo_fl demo_env 3 demo_absence 1000 demo_tick)) = [''absence:3:7:db1'']"
proof -
  have st: "ts_store (on_result f demo_tick) = ts_store demo_tick" for f by (simp add: on_result_def)
  have v: "trunc 1000 = 1000" "ir_rule_id demo_absence = 7" "te_owned demo_env" "te_read_ok demo_env" "demo_fl ''1000'' = Some 1000"
    "stream_pinned_by (ir_clauses demo_absence) = None" "\<not> of_int (ab_observer_max_age demo_absence_settings) < (1000 :: rat) - 1000"
    by code_simp+
  show ?thesis unfolding evaluate_absence_rule_def Let_def using v by (simp add: st demo_store demo_decided)
qed


theorem absence_no_false_alarm_witness:
  "\<exists>e. e \<in> set (fst (evaluate_absence_rule mem_hashes demo_absence_settings demo_fl demo_env 3 demo_absence 1000 demo_tick)) \<and>
     em_dedup_key e \<noteq> absence_dedup_key 3 7 ''db2''"
proof -
  let ?r = "evaluate_absence_rule mem_hashes demo_absence_settings demo_fl demo_env 3 demo_absence 1000 demo_tick"
  let ?p = "apply_absence_presence mem_hashes demo_absence_settings 1000 True 3 demo_seen_acc demo_watch"
  obtain e where e: "e \<in> set (fst ?r)" using demo_ticked by (cases "fst ?r") auto
  have p: "?p = (fst ?p, fst (snd ?p), snd (snd ?p))" by simp
  have rid: "ir_rule_id demo_absence = 7" by (simp add: demo_absence_def demo_rule_def)
  have rules: "map_of (presence_rules demo_seen_acc) (ir_rule_id demo_absence) = Some demo_absence"
    by (simp add: presence_rules_def demo_seen_acc_def empty_acc_def demo_item_def demo_absence_def)
  have ex: "fst (hs_exec mem_hashes f demo_watch)" for f by (simp add: mem_hashes_def demo_watch_def)
  have tok: "''db2'' \<in> set (fst (presence_plan mem_hashes demo_absence_settings 1000 3 demo_seen_acc demo_watch (ir_rule_id demo_absence)))"
    unfolding rid by code_simp
  have v: "trunc 1000 = 1000" "demo_fl (int_str 1000) = Some (of_int 1000)"
    "(1000 :: rat) - of_int 1000 \<le> of_int (ir_window_seconds demo_absence + ab_grace demo_absence_settings)"
    "0 < ir_forget_seconds demo_absence + state_ttl_slack"
    by code_simp+
  have "em_dedup_key e \<noteq> absence_dedup_key 3 (ir_rule_id demo_absence) ''db2''"
    by (rule absence_no_false_alarm [OF memh.hash_laws_axioms _ rules p ex tok _ _ v(2,3) _ e])
      (simp_all add: v demo_seen_acc_def empty_acc_def demo_tick_def)
  then show ?thesis using e rid by auto
qed

theorem absence_short_window_never_alerts_witness:
  "fst (evaluate_absence_rule mem_hashes demo_absence_settings demo_fl demo_env 3 (demo_absence\<lparr>ir_window_seconds := 150, ir_forget_seconds := 450\<rparr>) 1000 demo_tick) = []"
  by (rule absence_short_window_never_alerts) (simp add: forget_of_def demo_absence_settings_def)

end
