(* ===== verification/Inflight_Cycle.thy ===== *)
theory Inflight_Cycle
  imports Inflight_Flush Inflight_Absence
begin

text \<open>
  The end of a collection cycle (\<open>flush_inflight\<close> of \<open>inflight/runtime.py\<close>): presence, sequences, sliding windows and the cap
  in the order of the code, then the writing of the detections with the account of what was lost. Every key that was
  pending is written or charged to its rule under one reason. The tickets handed to the emission of events are part of
  the result; the emission and the mirroring of the counters are not modelled.
\<close>

section \<open>The flush\<close>

definition count_lost :: "string list \<Rightarrow> inflight_acc \<Rightarrow> inflight_acc" where
  "count_lost written acc =
     foldl (\<lambda>a (k, it). if k \<in> set written then a else count_error ''flush_lost'' (ir_rule_id (pi_rule it)) 1 a) acc (ac_pending acc)"

record write_result =
  wr_known :: bool
  wr_emits :: "detection_emit list"
  wr_suppressed :: nat
  wr_written :: "string list"
  wr_acc :: inflight_acc
  wr_db :: "detection list"

text \<open>The write: \<open>dispatched\<close> is False when the thread could not be started, and then everything counts as lost.\<close>

definition flush_write :: "(string \<Rightarrow> int \<times> bool) \<Rightarrow> bool \<Rightarrow> int \<Rightarrow> inflight_acc \<Rightarrow> detection list \<Rightarrow> write_result" where
  "flush_write sched dispatched org acc db =
     (if ac_pending acc = [] then
        \<lparr>wr_known = False, wr_emits = [], wr_suppressed = 0, wr_written = [], wr_acc = acc, wr_db = db\<rparr>
      else if \<not> dispatched then
        \<lparr>wr_known = False, wr_emits = [], wr_suppressed = 0, wr_written = [], wr_acc = count_lost [] acc, wr_db = db\<rparr>
      else case flush_sync sched org (ac_pending acc) [] [] db of
        (True, written, emits, db') \<Rightarrow>
          \<lparr>wr_known = True, wr_emits = emits, wr_suppressed = length (ac_pending acc) - length emits, wr_written = written,
           wr_acc = acc, wr_db = db'\<rparr>
      | (False, written, emits, db') \<Rightarrow>
          \<lparr>wr_known = True, wr_emits = emits, wr_suppressed = length (remdups written) - length emits, wr_written = written,
           wr_acc = count_lost written acc, wr_db = db'\<rparr>)"

record ('h, 'c) flush_env =
  fe_hashes :: "'h hashes"
  fe_counters :: "'c counters"
  fe_absence :: absence_settings
  fe_settings :: acc_settings
  fe_float :: "string \<Rightarrow> pyval"
  fe_now :: int
  fe_presence_ok :: bool
  fe_sequence_ok :: bool
  fe_window_ok :: bool
  fe_sched :: "string \<Rightarrow> int \<times> bool"
  fe_dispatched :: bool
  fe_emit_all :: bool

text \<open>What the stages before the write leave. An exception of the sequences is caught, with the keys as they were then.\<close>

definition after_stages :: "('h, 'c) flush_env \<Rightarrow> int \<Rightarrow> inflight_acc \<Rightarrow> 'h \<Rightarrow> 'c \<Rightarrow> inflight_acc \<times> 'h \<times> 'c" where
  "after_stages env org acc h c =
     (let (_, acc1, h1) = apply_absence_presence (fe_hashes env) (fe_absence env) (fe_now env) (fe_presence_ok env) org acc h;
          (r2, h2) = apply_sequences (fe_hashes env) (fe_float env) (fe_now env) (fe_sequence_ok env) acc1 h1;
          acc2 = (case r2 of Inl a \<Rightarrow> a | Inr (_, a) \<Rightarrow> a);
          ((_, acc3), c3) = apply_sliding_windows (fe_counters env) (fe_now env) (fe_window_ok env) acc2 c;
          (_, acc4) = apply_flush_cap (fe_settings env) acc3
      in (acc4, h2, c3))"

text \<open>The result: the tickets to emit, how the write ended, and the stores.\<close>

definition flush_inflight ::
    "('h, 'c) flush_env \<Rightarrow> int \<Rightarrow> inflight_acc \<Rightarrow> detection list \<Rightarrow> 'h \<Rightarrow> 'c \<Rightarrow> detection_emit list \<times> write_result \<times> 'h \<times> 'c" where
  "flush_inflight env org acc db h c =
     (let (acc1, h1, c1) = after_stages env org acc h c;
          w = flush_write (fe_sched env) (fe_dispatched env) org acc1 db;
          emits = (if wr_known w \<and> (fe_emit_all env \<or> list_ex em_emit_event (wr_emits w)) then wr_emits w else [])
      in (emits, w, h1, c1))"

section \<open>What is charged\<close>

definition flush_reasons :: "string list" where
  "flush_reasons = [''sequence_unavailable'', ''sequence_below'', ''window_unavailable'', ''window_below'', ''flush_cap'', ''flush_lost'']"

text \<open>The pending keys of a rule and the keys charged to it: no stage changes their sum.\<close>

definition charge :: "int \<Rightarrow> inflight_acc \<Rightarrow> int" where
  "charge r acc = int (pending_keys r (ac_pending acc)) + sum_list (map (\<lambda>e. count_of (ac_errors acc) (e, r)) flush_reasons)"

definition settled_at :: "int \<Rightarrow> int \<Rightarrow> inflight_acc \<Rightarrow> bool" where
  "settled_at r n acc \<longleftrightarrow> distinct (map fst (ac_pending acc)) \<and> charge r acc = n"

lemma sum_reasons_bump:
  assumes "e \<in> set flush_reasons"
  shows "sum_list (map (\<lambda>e'. count_of (bump_by (e, r') n m) (e', r)) flush_reasons) =
    sum_list (map (\<lambda>e'. count_of m (e', r)) flush_reasons) + (if r = r' then n else 0)"
  using assms by (auto simp: flush_reasons_def)

lemma pending_keys_delete:
  assumes "distinct (map fst p)" and "map_of p k = Some it"
  shows "pending_keys r p = pending_keys r (AList.delete k p) + (if ir_rule_id (pi_rule it) = r then 1 else 0)"
  using assms
proof (induction p)
  case (Cons x p)
  have "AList.delete k p = p" if "fst x = k"
    using Cons.prems(1) that by (auto simp: AList.delete_eq filter_id_conv image_iff)
  with Cons show ?case by (cases x) (auto simp: pending_keys_def split: if_splits)
qed simp

lemma discard_settled:
  assumes "settled_at r n acc" and "e \<in> set flush_reasons"
  shows "settled_at r n (discard_key e k acc)"
proof (cases "map_of (ac_pending acc) k")
  case (Some it)
  have "distinct (map fst (ac_pending acc))" using assms(1) by (simp add: settled_at_def)
  then show ?thesis
    using assms(1) Some pending_keys_delete [OF _ Some, of r]
    by (auto simp: settled_at_def charge_def discard_key_def count_error_def distinct_delete sum_reasons_bump [OF assms(2)] simp del: count_of_bump)
qed (use assms(1) in \<open>simp add: discard_key_def\<close>)

lemma annotate_settled:
  assumes "settled_at r n acc" and "\<And>it. pi_rule (f it) = pi_rule it"
  shows "settled_at r n (acc\<lparr>ac_pending := map (\<lambda>(k, it). (k, if k = k0 then f it else it)) (ac_pending acc)\<rparr>)"
proof -
  have "pending_keys r (map (\<lambda>(k, it). (k, if k = k0 then f it else it)) p) = pending_keys r p" for p
    by (induction p) (auto simp: pending_keys_def assms(2) split: if_splits)
  then show ?thesis using assms(1) by (auto simp: settled_at_def charge_def simp del: map_map)
qed

lemma windows_settled:
  assumes "settled_at r n acc" and "apply_sliding_windows ct now ok acc s = ((held, acc'), s')"
  shows "settled_at r n acc'"
proof -
  have d: "settled_at r n (foldl (\<lambda>a t. discard_key ''window_unavailable'' (fst t) a) acc ts)" for ts :: "window_item list"
    by (rule foldl_invariant) (auto simp: assms(1) discard_settled flush_reasons_def)
  have ev: "pi_rule (window_evidence a b c it) = pi_rule it" for a b c it by (simp add: window_evidence_def)
  have j: "settled_at r n (snd (judge_window totals x t))" if "settled_at r n (snd x)" for totals x t
    using that by (cases x; cases t)
      (auto simp: judge_window_def Let_def discard_settled flush_reasons_def intro!: annotate_settled [OF _ ev])
  have "settled_at r n (snd (foldl (judge_window totals) (k, acc) ts))" for totals k ts
    by (rule foldl_invariant [where P = "\<lambda>x. settled_at r n (snd x)"]) (auto simp: assms(1) j)
  then show ?thesis using assms d by (auto simp: apply_sliding_windows_def Let_def split: if_splits prod.splits option.splits) (metis snd_conv)+
qed

lemma judge_sequences_settled:
  assumes "settled_at r n acc" and "judge_sequences cf xs held shut acc = res"
  shows "settled_at r n (case res of Inl a \<Rightarrow> a | Inr (_, _, a) \<Rightarrow> a)"
proof -
  have ev: "pi_rule (sequence_evidence legs it) = pi_rule it" for legs it by (simp add: sequence_evidence_def)
  show ?thesis using assms
  proof (induction cf xs held shut acc arbitrary: res rule: judge_sequences.induct)
    case (2 cf key it state rest held shut acc)
    show ?case
    proof (cases "length (legs_seen cf state) < ir_legs_total (pi_rule it)")
      case True
      have "settled_at r n (discard_key ''sequence_below'' key acc)" using "2.prems"(1) by (simp add: discard_settled flush_reasons_def)
      then show ?thesis using "2.IH"(1) [OF refl True] "2.prems"(2) True by (auto simp: Let_def)
    next
      case False
      show ?thesis
      proof (cases "mapM_result (leg_entry (legs_seen cf state)) (sort (map fst (legs_seen cf state)))")
        case (Inl u)
        then show ?thesis using "2.prems" False by (auto simp: Let_def)
      next
        case (Inr legs)
        show ?thesis using "2.IH"(2) [OF refl False Inr] annotate_settled [OF "2.prems"(1), of "sequence_evidence legs" key, OF ev] "2.prems"(2) False Inr
          by (auto simp: Let_def)
      qed
    qed
  qed auto
qed

lemma sequences_settled:
  assumes "settled_at r n acc" and "apply_sequences hs cf now ok acc s = (res, s')"
  shows "settled_at r n (case res of Inl a \<Rightarrow> a | Inr (_, a) \<Rightarrow> a)"
proof -
  have d: "settled_at r n (foldl (\<lambda>a t. discard_key ''sequence_unavailable'' (fst t) a) acc ts)" for ts :: "(string \<times> pending_item) list"
    by (rule foldl_invariant) (auto simp: assms(1) discard_settled flush_reasons_def)
  consider "res = Inr (0, acc)" | "res = Inr (length (seq_targets acc), foldl (\<lambda>a t. discard_key ''sequence_unavailable'' (fst t) a) acc (seq_targets acc))"
    | a xs where "judge_sequences cf xs 0 [] acc = Inl a" "res = Inl a"
    | a xs h sh where "judge_sequences cf xs 0 [] acc = Inr (h, sh, a)" "res = Inr (h, a)"
    using assms(2) by (auto simp: apply_sequences_def Let_def split: if_splits prod.splits bool.splits sum.splits)
  then show ?thesis
  proof cases
    case 3
    then show ?thesis using judge_sequences_settled [OF assms(1) 3(1)] by simp
  next
    case 4
    then show ?thesis using judge_sequences_settled [OF assms(1) 4(1)] by simp
  qed (use assms(1) d in auto)
qed

lemma cap_settled:
  assumes "settled_at r n acc" and "apply_flush_cap st acc = (lost, acc')"
  shows "settled_at r n acc'"
proof (cases "length (ac_pending acc) \<le> nat (max 0 (as_detections_per_flush st))")
  case False
  let ?p = "ac_pending acc" and ?kept = "round_robin (map snd (group_keys (ac_pending acc))) 0 (nat (max 0 (as_detections_per_flush st))) []"
  let ?d = "filter (\<lambda>x. fst x \<notin> set ?kept) ?p" and ?k = "filter (\<lambda>x. fst x \<in> set ?kept) ?p"
  have acc': "acc' = foldl (\<lambda>a (rid, n). count_error ''flush_cap'' rid n a) (acc\<lparr>ac_pending := ?k\<rparr>) (drop_counts ?d)"
    using assms(2) False by (auto simp: apply_flush_cap_def Let_def)
  have cnt: "count_of (ac_errors acc') (e, r) = count_of (ac_errors acc) (e, r) +
      (if e = ''flush_cap'' then int (length (filter (\<lambda>x. rule_of x = r) ?d)) else 0)" for e
    unfolding acc' using drop_counts_spec [of ?d r] by (simp add: count_errors_fold distinct_sum_lookup)
  have "int (pending_keys r ?p) = int (pending_keys r ?k) + int (length (filter (\<lambda>x. rule_of x = r) ?d))"
  proof -
    have "length (filter P xs) = length (filter P (filter Q xs)) + length (filter P (filter (\<lambda>x. \<not> Q x) xs))" for P Q and xs :: "'x list"
      by (induction xs) auto
    from this [of "\<lambda>x. rule_of x = r" ?p "\<lambda>x. fst x \<in> set ?kept"] show ?thesis by (simp add: pending_keys_rule_of)
  qed
  moreover have "ac_pending acc' = ?k" unfolding acc' by (simp add: count_errors_fold)
  moreover have "distinct (map fst ?k)" using assms(1) by (simp add: settled_at_def distinct_map_filter)
  ultimately show ?thesis using assms(1) by (simp add: settled_at_def charge_def cnt flush_reasons_def)
qed (use assms in \<open>simp add: apply_flush_cap_def Let_def\<close>)

lemma presence_counts:
  assumes "apply_absence_presence hs ab ts ok org acc s = (m, acc', s')"
  shows "ac_pending acc' = filter (\<lambda>(k, it). \<not> ir_absence (pi_rule it)) (ac_pending acc) \<and>
    (\<forall>e r. e \<noteq> ''absence_key_cap'' \<longrightarrow> e \<noteq> ''absence_unavailable'' \<longrightarrow> count_of (ac_errors acc') (e, r) = count_of (ac_errors acc) (e, r))"
proof -
  have u: "ac_pending (presence_unavailable rules a) = ac_pending a \<and>
      (\<forall>e r. e \<noteq> ''absence_unavailable'' \<longrightarrow> count_of (ac_errors (presence_unavailable rules a)) (e, r) = count_of (ac_errors a) (e, r))" for rules a
    unfolding presence_unavailable_def by (induction rules arbitrary: a) (auto simp: count_error_def)
  have c: "ac_pending (foldl (\<lambda>a (rid, ts, n). if n = 0 then a else count_error ''absence_key_cap'' rid (int n) a) a ps) = ac_pending a \<and>
      (\<forall>e r. e \<noteq> ''absence_key_cap'' \<longrightarrow>
        count_of (ac_errors (foldl (\<lambda>a (rid, ts, n). if n = 0 then a else count_error ''absence_key_cap'' rid (int n) a) a ps)) (e, r) =
        count_of (ac_errors a) (e, r))" for a and ps :: "(int \<times> string list \<times> nat) list"
    by (induction ps arbitrary: a) (auto simp: count_error_def)
  show ?thesis using assms by (auto simp: apply_absence_presence_def Let_def u c split: if_splits prod.splits bool.splits)
qed

lemma stages_settled:
  assumes "distinct (map fst (ac_pending acc))" and "after_stages env org acc h c = (acc', h', c')"
  shows "distinct (map fst (ac_pending acc')) \<and>
    int (pending_keys r (filter (\<lambda>(k, it). \<not> ir_absence (pi_rule it)) (ac_pending acc))) =
    int (pending_keys r (ac_pending acc')) +
      sum_list (map (\<lambda>e. count_of (ac_errors acc') (e, r) - count_of (ac_errors acc) (e, r)) flush_reasons)"
proof -
  obtain m acc1 h1 where p: "apply_absence_presence (fe_hashes env) (fe_absence env) (fe_now env) (fe_presence_ok env) org acc h = (m, acc1, h1)"
    by (metis prod_cases3)
  obtain r2 h2 where q: "apply_sequences (fe_hashes env) (fe_float env) (fe_now env) (fe_sequence_ok env) acc1 h1 = (r2, h2)" by force
  define acc2 where "acc2 = (case r2 of Inl a \<Rightarrow> a | Inr (_, a) \<Rightarrow> a)"
  obtain held acc3 c3 where w: "apply_sliding_windows (fe_counters env) (fe_now env) (fe_window_ok env) acc2 c = ((held, acc3), c3)"
    by (metis prod.collapse)
  obtain lost acc4 where f: "apply_flush_cap (fe_settings env) acc3 = (lost, acc4)" by force
  have acc': "acc' = acc4" using assms(2) by (simp add: after_stages_def p q w f acc2_def [symmetric] split: prod.splits)
  note pres = presence_counts [OF p]
  have "distinct (map fst (ac_pending acc1))" using assms(1) pres by (simp add: distinct_map_filter)
  then have "settled_at r (charge r acc1) acc1" by (simp add: settled_at_def)
  then have "settled_at r (charge r acc1) acc2" unfolding acc2_def by (rule sequences_settled [OF _ q])
  then have "settled_at r (charge r acc1) acc'" unfolding acc' using windows_settled [OF _ w] cap_settled [OF _ f] by blast
  moreover have "charge r acc1 = int (pending_keys r (filter (\<lambda>(k, it). \<not> ir_absence (pi_rule it)) (ac_pending acc))) +
      sum_list (map (\<lambda>e. count_of (ac_errors acc) (e, r)) flush_reasons)"
    using pres by (simp add: charge_def flush_reasons_def)
  ultimately show ?thesis by (simp add: settled_at_def charge_def flush_reasons_def)
qed

lemma count_lost_spec:
  "ac_pending (count_lost ks acc) = ac_pending acc \<and>
   count_of (ac_errors (count_lost ks acc)) (e, r) = count_of (ac_errors acc) (e, r) +
     (if e = ''flush_lost'' then int (pending_keys r (filter (\<lambda>x. fst x \<notin> set ks) (ac_pending acc))) else 0)"
proof -
  let ?f = "\<lambda>a (k, it). if k \<in> set ks then a else count_error ''flush_lost'' (ir_rule_id (pi_rule it)) 1 a"
  have "ac_pending (foldl ?f a p) = ac_pending a \<and> count_of (ac_errors (foldl ?f a p)) (e, r) = count_of (ac_errors a) (e, r) +
      (if e = ''flush_lost'' then int (pending_keys r (filter (\<lambda>x. fst x \<notin> set ks) p)) else 0)" for a p
    by (induction p arbitrary: a) (auto simp: count_error_def pending_keys_def)
  then show ?thesis by (simp add: count_lost_def)
qed

text \<open>Every key that was written has a detection.\<close>

lemma open_detection_in:
  assumes "open_detection org key db = Some e"
  shows "e \<in> set db \<and> of_key org key e"
proof -
  have "last_by_id rs = Some e \<Longrightarrow> e \<in> set rs" for rs
    by (induction rs rule: rev_induct) (auto simp: last_by_id_snoc last_by_id_def [of "[]"] split: option.splits if_splits)
  then show ?thesis using assms by (fastforce simp: open_detection_def of_key_def)
qed

definition has_detection :: "int \<Rightarrow> detection list \<Rightarrow> string \<Rightarrow> bool" where
  "has_detection org db key \<longleftrightarrow> (\<exists>d\<in>set db. of_key org key d)"

lemma record_present:
  assumes "record_detection now a db = (det, db')" and "distinct (map dt_id db)"
  shows "distinct (map dt_id db') \<and> has_detection (da_organization_id a) db' (da_dedup_key a) \<and> (\<forall>org key. has_detection org db key \<longrightarrow> has_detection org db' key)"
proof -
  have new: ?thesis if "db' = db @ [new_detection now a (next_id db)]"
  proof -
    have "next_id db \<notin> dt_id ` set db" using next_id_fresh [of _ db] by fastforce
    then show ?thesis using that assms(2) by (auto simp: has_detection_def of_key_def new_detection_def)
  qed
  show ?thesis
  proof (cases "open_detection (da_organization_id a) (da_dedup_key a) db")
    case None
    then show ?thesis using assms(1) by (intro new) (auto simp: record_detection_def Let_def)
  next
    case (Some e)
    note e = open_detection_in [OF Some]
    show ?thesis
    proof (cases "suppressed_at now e")
      case True
      let ?e = "e\<lparr>dt_count := dt_count e + 1, dt_last_seen := now, dt_updated_at := now\<rparr>"
      define g where "g = (\<lambda>r. if dt_id r = dt_id e then ?e else r)"
      have db': "db' = map g db" using assms(1) Some True by (auto simp: record_detection_def Let_def g_def)
      have only: "r = e" if "r \<in> set db" "dt_id r = dt_id e" for r using assms(2) e that by (auto simp: distinct_map inj_on_def)
      have "dt_id \<circ> g = dt_id" by (auto simp: fun_eq_iff g_def)
      then have "map dt_id db' = map dt_id db" unfolding db' by simp
      moreover have same: "of_key org key (g r) \<longleftrightarrow> of_key org key r" if "r \<in> set db" for r org key
        using only [OF that] by (auto simp: of_key_def g_def)
      have "has_detection org db' key \<longleftrightarrow> has_detection org db key" for org key
        by (simp add: has_detection_def db' same cong: bex_cong)
      ultimately show ?thesis using e assms(2) by (auto simp: has_detection_def)
    next
      case False
      then show ?thesis using assms(1) Some by (intro new) (auto simp: record_detection_def Let_def)
    qed
  qed
qed

lemma flush_sync_written:
  assumes "flush_sync sched org p w0 es db = (done_all, w, es', db')" and "distinct (map dt_id db)" and "\<forall>k\<in>set w0. has_detection org db k"
  shows "(\<exists>n. w = w0 @ map fst (take n p)) \<and> (done_all \<longrightarrow> w = w0 @ map fst p) \<and> (\<forall>k\<in>set w. has_detection org db' k)"
  using assms
proof (induction sched org p w0 es db rule: flush_sync.induct)
  case (2 sched org key it rest w0 es db)
  show ?case
  proof (cases "snd (sched key)")
    case False
    then show ?thesis using "2.prems" by (auto intro: exI [of _ 0])
  next
    case True
    obtain det db1 where r: "record_detection (fst (sched key)) (item_args org key it) db = (det, db1)" by force
    have p: "distinct (map dt_id db1)" "\<forall>k\<in>set (w0 @ [key]). has_detection org db1 k"
      using record_present [OF r "2.prems"(2)] "2.prems"(3) by (auto simp: item_args_def)
    have "flush_sync sched org rest (w0 @ [key]) (if dt_count det = 1 then es @ [item_emit key it det] else es) db1 = (done_all, w, es', db')"
      using "2.prems"(1) True r by simp
    from "2.IH" [OF _ r [symmetric] refl this p] True obtain n where
        "w = (w0 @ [key]) @ map fst (take n rest)" "done_all \<longrightarrow> w = (w0 @ [key]) @ map fst rest" "\<forall>k\<in>set w. has_detection org db' k" by auto
    then show ?thesis by (auto intro!: exI [of _ "Suc n"])
  qed
qed (auto intro: exI [of _ 0])

lemma pending_split:
  "pending_keys r p = pending_keys r (filter (\<lambda>x. fst x \<in> K) p) + pending_keys r (filter (\<lambda>x. fst x \<notin> K) p)"
  by (induction p) (auto simp: pending_keys_def)

lemma write_accounts:
  assumes "w = flush_write sched disp org acc db" and "distinct (map dt_id db)"
  shows "ac_pending (wr_acc w) = ac_pending acc \<and> (\<forall>k\<in>set (wr_written w). has_detection org (wr_db w) k) \<and>
    set (wr_written w) \<subseteq> fst ` set (ac_pending acc) \<and>
    (\<forall>e r. count_of (ac_errors (wr_acc w)) (e, r) = count_of (ac_errors acc) (e, r) +
       (if e = ''flush_lost'' then int (pending_keys r (filter (\<lambda>x. fst x \<notin> set (wr_written w)) (ac_pending acc))) else 0))"
proof (cases "ac_pending acc = [] \<or> \<not> disp")
  case True
  then show ?thesis using count_lost_spec [of "[]" acc] by (auto simp: assms(1) flush_write_def pending_keys_def)
next
  case False
  obtain d wr es db' where f: "flush_sync sched org (ac_pending acc) [] [] db = (d, wr, es, db')" by (metis prod_cases4)
  note fs = flush_sync_written [OF f assms(2)]
  have sub: "set wr \<subseteq> fst ` set (ac_pending acc)" using fs set_take_subset by fastforce
  have full: "d \<Longrightarrow> filter (\<lambda>x. fst x \<notin> set wr) (ac_pending acc) = []" using fs by (auto simp: filter_empty_conv)
  show ?thesis using False f fs sub full count_lost_spec [of wr acc]
    by (cases d) (auto simp: assms(1) flush_write_def pending_keys_def)
qed


section \<open>An example\<close>

definition demo_flush_env :: "(hash_db, counter_db) flush_env" where
  "demo_flush_env = \<lparr>fe_hashes = mem_hashes, fe_counters = mem_counters, fe_absence = demo_absence_settings,
     fe_settings = \<lparr>as_group_value_len = 20, as_keys_per_rule = 50, as_detections_per_flush = 2\<rparr>, fe_float = PStr, fe_now = 1000,
     fe_presence_ok = True, fe_sequence_ok = True, fe_window_ok = True, fe_sched = (\<lambda>k. (1000000000, k \<noteq> ''b'')),
     fe_dispatched = True, fe_emit_all = False\<rparr>"

text \<open>Four keys of two rules without window, a cap of two, and a write that fails: all are accounted for.\<close>

definition demo_full_acc :: inflight_acc where
  "demo_full_acc = empty_acc\<lparr>ac_pending := map (\<lambda>(k, i). (k, demo_item\<lparr>pi_rule := demo_rule\<lparr>ir_min_count := 1, ir_rule_id := i\<rparr>\<rparr>))
     [(''a'', 7), (''b'', 8), (''c'', 7), (''d'', 7)]\<rparr>"


end
