(* ===== verification/Delivery_DLQ.thy ===== *)
theory Delivery_DLQ
  imports Py_Prelude
begin

text \<open>
  The dead-letter queue of the delivery layer, \<open>collectors/delivery.py\<close>, and the methods of
  \<open>DestinationRepository\<close> (\<open>db/repository.py\<close>) that the drain uses.

  The table is an association list in order of creation whose key is the pair of the unique constraint
  (destination, event id). The database is outside the repository: whether a transaction raises is an
  argument, and a transaction that raises is rolled back. The text serialiser and the source of fresh
  identifiers are arguments too.
\<close>

section \<open>Rows\<close>

record rejected_event =
  re_event_id :: string
  re_reason :: string
  re_error_kind :: string

record dlq_row =
  dl_org :: "int option"
  dl_kind :: string
  dl_detail :: string
  dl_payload :: string

type_synonym dlq = "((string \<times> string) \<times> dlq_row) list"

text \<open>Insert under a savepoint; on the unique violation update the reason of the existing row.\<close>

definition dlq_upsert :: "string \<Rightarrow> string \<Rightarrow> dlq_row \<Rightarrow> dlq \<Rightarrow> dlq" where
  "dlq_upsert destination_id event_id row tbl =
     (case map_of tbl (destination_id, event_id) of
        None \<Rightarrow> tbl @ [((destination_id, event_id), row)]
      | Some old \<Rightarrow>
          AList.update (destination_id, event_id) (old\<lparr>dl_kind := dl_kind row, dl_detail := dl_detail row\<rparr>) tbl)"

definition envelope_meta :: "pydict \<Rightarrow> pydict" where
  "envelope_meta envelope = as_dict (dget envelope ''_centralops'')"

definition build_event_map :: "pydict list \<Rightarrow> (string \<times> pydict) list" where
  "build_event_map batch =
     foldl (\<lambda>m envelope.
       let eid = dget (envelope_meta envelope) ''event_id'' in
       if truthy eid then AList.update (py_str eid) envelope m else m) [] batch"

definition payload_text :: "(pydict \<Rightarrow> string option) \<Rightarrow> pydict \<Rightarrow> string" where
  "payload_text dumps envelope = (case dumps envelope of None \<Rightarrow> ''{}'' | Some t \<Rightarrow> t)"

definition row_org :: "pydict \<Rightarrow> int option \<Rightarrow> int option" where
  "row_org envelope dest_org =
     (case dget (envelope_meta envelope) ''organization_id'' of
        PInt i \<Rightarrow> Some i
      | PBool b \<Rightarrow> Some (if b then 1 else 0)
      | _ \<Rightarrow> dest_org)"

section \<open>Persisting rejections and whole batches\<close>

definition rejected_row ::
  "(pydict \<Rightarrow> string option) \<Rightarrow> int option \<Rightarrow> (string \<times> pydict) list \<Rightarrow> rejected_event \<Rightarrow> dlq_row" where
  "rejected_row dumps dest_org event_map rej =
     (let envelope = (case map_of event_map (re_event_id rej) of None \<Rightarrow> [] | Some e \<Rightarrow> e) in
      \<lparr>dl_org = row_org envelope dest_org, dl_kind = re_error_kind rej, dl_detail = re_reason rej,
       dl_payload = payload_text dumps envelope\<rparr>)"

definition persist_rejected_to_dlq ::
  "(pydict \<Rightarrow> string option) \<Rightarrow> bool \<Rightarrow> string \<Rightarrow> int option \<Rightarrow> rejected_event list \<Rightarrow> pydict list \<Rightarrow> dlq \<Rightarrow> bool \<times> dlq" where
  "persist_rejected_to_dlq dumps raises destination_id dest_org rejected batch tbl =
     (if rejected = [] then (True, tbl)
      else if raises then (False, tbl)
      else (True, foldl (\<lambda>t rej. dlq_upsert destination_id (re_event_id rej)
                                  (rejected_row dumps dest_org (build_event_map batch) rej) t) tbl rejected))"

text \<open>The texts for the operator, by kind of error, are an argument.\<close>

definition detail_for_kind :: "(string \<times> string) list \<times> string \<Rightarrow> string \<Rightarrow> string" where
  "detail_for_kind texts error_kind =
     (case map_of (fst texts) error_kind of None \<Rightarrow> snd texts | Some t \<Rightarrow> t)"

definition batch_event_id :: "(nat \<Rightarrow> string) \<Rightarrow> nat \<times> pydict \<Rightarrow> string" where
  "batch_event_id fresh ie =
     (let eid = dget (envelope_meta (snd ie)) ''event_id'' in if truthy eid then py_str eid else fresh (fst ie))"

definition persist_batch_dlq ::
  "(pydict \<Rightarrow> string option) \<Rightarrow> (nat \<Rightarrow> string) \<Rightarrow> (string \<times> string) list \<times> string \<Rightarrow> bool \<Rightarrow> pydict list \<Rightarrow>
   string \<Rightarrow> string \<Rightarrow> int option \<Rightarrow> string option \<Rightarrow> dlq \<Rightarrow> bool \<times> dlq" where
  "persist_batch_dlq dumps fresh texts raises batch destination_id error_kind organization_id error_detail tbl =
     (if batch = [] then (True, tbl)
      else if raises then (False, tbl)
      else (True, foldl (\<lambda>t ie. dlq_upsert destination_id (batch_event_id fresh ie)
              \<lparr>dl_org = organization_id, dl_kind = error_kind,
               dl_detail = (case error_detail of Some (c # cs) \<Rightarrow> c # cs | _ \<Rightarrow> detail_for_kind texts error_kind),
               dl_payload = payload_text dumps (snd ie)\<rparr> t)
            tbl (zip [0 ..< length batch] batch)))"

section \<open>The repository methods of the drain\<close>

definition list_dlq_for_reprocess ::
  "string \<Rightarrow> string list option \<Rightarrow> int option \<Rightarrow> bool \<Rightarrow> dlq \<Rightarrow> dlq" where
  "list_dlq_for_reprocess destination_id event_ids org_id global_scope tbl =
     filter (\<lambda>((d, e), row).
       d = destination_id \<and>
       (global_scope \<or> org_id = None \<or> dl_org row = org_id \<or> dl_org row = None) \<and>
       (case event_ids of Some (i # is) \<Rightarrow> e \<in> set (i # is) | _ \<Rightarrow> True)) tbl"

definition dlq_kind_reprocessing :: string where
  "dlq_kind_reprocessing = ''reprocessing''"

definition mark_reprocessing :: "(string \<times> string) list \<Rightarrow> dlq \<Rightarrow> dlq" where
  "mark_reprocessing ids tbl =
     map (\<lambda>(k, row). if k \<in> set ids then (k, row\<lparr>dl_kind := dlq_kind_reprocessing\<rparr>) else (k, row)) tbl"

definition delete_dlq_entries :: "(string \<times> string) list \<Rightarrow> dlq \<Rightarrow> dlq" where
  "delete_dlq_entries ids tbl = filter (\<lambda>(k, _). k \<notin> set ids) tbl"

definition update_dlq_error :: "string \<times> string \<Rightarrow> string \<Rightarrow> string \<Rightarrow> dlq \<Rightarrow> dlq" where
  "update_dlq_error k error_kind error_detail tbl =
     (case map_of tbl k of
        None \<Rightarrow> tbl
      | Some row \<Rightarrow> AList.update k (row\<lparr>dl_kind := error_kind, dl_detail := error_detail\<rparr>) tbl)"

section \<open>One row per destination and event\<close>

definition dlq_inv :: "dlq \<Rightarrow> bool" where
  "dlq_inv tbl \<longleftrightarrow> distinct (map fst tbl)"

lemma dlq_upsert_lookup:
  "map_of (dlq_upsert d e row tbl) k =
     (if k = (d, e)
      then Some (case map_of tbl (d, e) of
                   None \<Rightarrow> row | Some old \<Rightarrow> old\<lparr>dl_kind := dl_kind row, dl_detail := dl_detail row\<rparr>)
      else map_of tbl k)"
  by (auto simp: dlq_upsert_def map_add_def update_conv' split: option.splits)

lemma dlq_upsert_inv: "dlq_inv tbl \<Longrightarrow> dlq_inv (dlq_upsert d e row tbl)"
  by (auto simp: dlq_inv_def dlq_upsert_def distinct_keys_update map_of_eq_None_iff split: option.splits)

lemma dlq_upsert_idem: "dlq_upsert d e row (dlq_upsert d e row tbl) = dlq_upsert d e row tbl"
proof (cases "map_of tbl (d, e)")
  case None
  have app: "map_of tbl k = None \<Longrightarrow> AList.update k v (tbl @ [(k, w)]) = tbl @ [(k, v)]" for k and v w :: dlq_row
    by (induction tbl) (auto split: if_splits)
  show ?thesis using None by (simp add: dlq_upsert_def app map_add_def)
next
  case (Some old)
  then show ?thesis by (simp add: dlq_upsert_def)
qed

lemma delete_dlq_entries_lookup:
  "map_of (delete_dlq_entries ids tbl) k = (if k \<in> set ids then None else map_of tbl k)"
  by (induction tbl) (auto simp: delete_dlq_entries_def)

text \<open>A fold of upserts keeps every earlier row, and every key it writes ends with the reason written last.\<close>

lemma upserts_keep:
  "map_of tbl k = Some old \<Longrightarrow>
   \<exists>row. map_of (foldl (\<lambda>t x. dlq_upsert d (key x) (rowof x) t) tbl xs) k = Some row \<and> dl_payload row = dl_payload old"
proof (induction xs arbitrary: tbl old)
  case (Cons x xs)
  have "\<exists>row. map_of (dlq_upsert d (key x) (rowof x) tbl) k = Some row \<and> dl_payload row = dl_payload old"
    using Cons.prems by (auto simp: dlq_upsert_lookup)
  then show ?case using Cons.IH by fastforce
qed auto

lemma upserts_present:
  "x \<in> set xs \<Longrightarrow>
   \<exists>row. map_of (foldl (\<lambda>t x. dlq_upsert d (key x) (rowof x) t) tbl xs) (d, key x) = Some row \<and>
     (\<exists>y\<in>set xs. key y = key x \<and> dl_kind row = dl_kind (rowof y))"
proof (induction xs rule: rev_induct)
  case (snoc y xs)
  show ?case
  proof (cases "key y = key x")
    case True
    then show ?thesis
      by (auto simp: dlq_upsert_lookup split: option.splits)
  next
    case False
    with snoc show ?thesis by (auto simp: dlq_upsert_lookup)
  qed
qed simp

lemma upserts_new_payload:
  assumes "map_of tbl (d, e) = None" "x \<in> set xs" "key x = e"
    and "\<forall>y\<in>set xs. key y = e \<longrightarrow> dl_payload (rowof y) = p"
  shows "\<exists>row. map_of (foldl (\<lambda>t x. dlq_upsert d (key x) (rowof x) t) tbl xs) (d, e) = Some row \<and> dl_payload row = p"
  using assms
proof (induction xs arbitrary: tbl)
  case (Cons y ys)
  show ?case
  proof (cases "key y = e")
    case True
    have "map_of (dlq_upsert d (key y) (rowof y) tbl) (d, e) = Some (rowof y)"
      using Cons.prems(1) True by (simp add: dlq_upsert_lookup)
    from upserts_keep [OF this, of d key rowof ys] Cons.prems(4) True show ?thesis by auto
  next
    case False
    with Cons show ?thesis by (auto simp: dlq_upsert_lookup)
  qed
qed simp

lemma upserts_inv: "dlq_inv tbl \<Longrightarrow> dlq_inv (foldl (\<lambda>t x. dlq_upsert d (key x) (rowof x) t) tbl xs)"
  by (rule foldl_invariant) (auto intro: dlq_upsert_inv)

text \<open>When no write carries the kind \<open>m\<close>, a key that is written, or was there without \<open>m\<close>, is there without \<open>m\<close>.\<close>

lemma upserts_unmarked:
  assumes "\<forall>x\<in>set xs. dl_kind (rowof x) \<noteq> m"
    and "(\<exists>row. map_of tbl (d, i) = Some row \<and> dl_kind row \<noteq> m) \<or> (\<exists>x\<in>set xs. key x = i)"
  shows "\<exists>row. map_of (foldl (\<lambda>t x. dlq_upsert d (key x) (rowof x) t) tbl xs) (d, i) = Some row \<and> dl_kind row \<noteq> m"
  using assms
proof (induction xs arbitrary: tbl)
  case (Cons y ys)
  have "(\<exists>row. map_of (dlq_upsert d (key y) (rowof y) tbl) (d, i) = Some row \<and> dl_kind row \<noteq> m) \<or> (\<exists>x\<in>set ys. key x = i)"
    using Cons.prems by (auto simp: dlq_upsert_lookup split: option.splits)
  with Cons.IH Cons.prems(1) show ?case by simp
qed simp

text \<open>A whole batch: every event has its row, of the kind given, unless the write fails.\<close>

lemma persist_batch_present:
  assumes "n < length batch"
  shows "\<exists>row. map_of (snd (persist_batch_dlq dumps fresh texts False batch d kind org detail tbl))
           (d, batch_event_id fresh (n, batch ! n)) = Some row \<and> dl_kind row = kind"
proof -
  have "(n, batch ! n) \<in> set (zip [0 ..< length batch] batch)"
    using assms by (auto simp: in_set_zip intro!: exI [of _ n])
  from upserts_present [OF this, of d "batch_event_id fresh" "\<lambda>ie.
      \<lparr>dl_org = org, dl_kind = kind,
       dl_detail = (case detail of Some (c # cs) \<Rightarrow> c # cs | _ \<Rightarrow> detail_for_kind texts kind),
       dl_payload = payload_text dumps (snd ie)\<rparr>" tbl] assms
  show ?thesis by (auto simp: persist_batch_dlq_def)
qed

lemma persist_batch_row:
  assumes "n < length batch"
  shows "\<exists>row. map_of (snd (persist_batch_dlq dumps fresh texts False batch d kind org detail tbl))
           (d, batch_event_id fresh (n, batch ! n)) = Some row"
  using persist_batch_present [OF assms] by fast

lemma persist_batch_dlq_raises [simp]:
  "snd (persist_batch_dlq dumps fresh texts True batch d kind org detail tbl) = tbl"
  by (simp add: persist_batch_dlq_def)

end
