(* ===== verification/Dispatch.thy ===== *)
theory Dispatch
  imports Delivery_DLQ Py_Hash
begin

text \<open>
  Delivery to one destination: batching, retry and dispatch of \<open>collectors/pipeline.py\<close> (\<open>_chunk_batch\<close>,
  \<open>_send_chunk_with_retry\<close>, \<open>dispatch_batch_to_destination\<close>), per-destination aggregation
  (\<open>collectors/reduction/aggregate.py\<close>), admission control (\<open>collectors/load_shedder.py\<close>), the Celery tasks around it
  (\<open>collectors/tasks.py\<close>) and the drain of the dead-letter queue.

  Everything outside the process is the environment record \<open>denv\<close>, functions on a world \<open>'w\<close>: the clock,
  the breaker operations, the sink, and whether a database transaction raises. The operations return the
  outcomes of the send attempts they made, which the code exports as its delivery metrics.
\<close>

section \<open>Results and policies\<close>

record delivery_result =
  dr_accepted :: nat
  dr_rejected :: "rejected_event list"
  dr_retryable :: bool

datatype delivery_exn = TransientDeliveryError | BreakerOpenExn | OtherRetryable string | OtherExn string

datatype send_outcome = SendTimeout | SendResult delivery_result | SendRaises delivery_exn

record 'w denv =
  dv_late :: "'w \<Rightarrow> bool"
  dv_backoff :: "nat \<Rightarrow> 'w \<Rightarrow> 'w"
  dv_check :: "'w \<Rightarrow> (delivery_exn + unit) \<times> 'w"
  dv_failure :: "'w \<Rightarrow> (delivery_exn + unit) \<times> 'w"
  dv_success :: "'w \<Rightarrow> (delivery_exn + unit) \<times> 'w"
  dv_send :: "pydict list \<Rightarrow> 'w \<Rightarrow> send_outcome \<times> 'w"
  dv_db_raises :: "'w \<Rightarrow> bool"
  dv_dumps :: "pydict \<Rightarrow> string option"
  dv_fresh :: "nat \<Rightarrow> string"
  dv_texts :: "(string \<times> string) list \<times> string"
  dv_nbytes :: "pydict \<Rightarrow> nat"
  dv_exn_text :: "delivery_exn \<Rightarrow> string"

record delivery_policy =
  dp_max_items :: nat
  dp_max_bytes :: int
  dp_retry_enabled :: bool
  dp_max_retries :: nat
  dp_max_elapsed_ms :: nat
  dp_shadow :: bool
  dp_group_by :: "string list"
  dp_max_groups :: nat

record dest_config =
  dc_id :: string
  dc_org :: "int option"
  dc_policy :: delivery_policy

section \<open>Chunks\<close>

fun chunk_loop ::
  "(pydict \<Rightarrow> nat) \<Rightarrow> nat \<Rightarrow> int \<Rightarrow> pydict list \<Rightarrow> nat \<Rightarrow> pydict list \<Rightarrow> pydict list list" where
  "chunk_loop nbytes max_items max_bytes cur cur_bytes [] = (if cur \<noteq> [] then [cur] else [])"
| "chunk_loop nbytes max_items max_bytes cur cur_bytes (ev # rest) =
     (let ev_bytes = (if max_bytes > 0 then nbytes ev else 0) in
      if cur \<noteq> [] \<and> (length cur \<ge> max_items \<or> (max_bytes > 0 \<and> int (cur_bytes + ev_bytes) > max_bytes))
      then cur # chunk_loop nbytes max_items max_bytes [ev] ev_bytes rest
      else chunk_loop nbytes max_items max_bytes (cur @ [ev]) (cur_bytes + ev_bytes) rest)"

definition chunk_batch :: "(pydict \<Rightarrow> nat) \<Rightarrow> pydict list \<Rightarrow> nat \<Rightarrow> int \<Rightarrow> pydict list list" where
  "chunk_batch nbytes batch max_items max_bytes =
     (if batch = [] then [[]] else chunk_loop nbytes max_items max_bytes [] 0 batch)"

section \<open>One chunk with retries\<close>

text \<open>The loop over the attempts; the first number is how many are left.\<close>

fun send_attempts ::
  "'w denv \<Rightarrow> dest_config \<Rightarrow> nat \<Rightarrow> pydict list \<Rightarrow> nat \<Rightarrow> nat \<Rightarrow> 'w \<Rightarrow> dlq \<Rightarrow>
   (delivery_exn + delivery_result) \<times> send_outcome list \<times> 'w \<times> dlq"
where
  "send_attempts env dc max_retries chunk 0 attempt w tbl = (Inl TransientDeliveryError, [], w, tbl)"
| "send_attempts env dc max_retries chunk (Suc left) attempt w tbl =
     (if attempt > 0 \<and> dp_max_elapsed_ms (dc_policy dc) > 0 \<and> dv_late env w
      then (Inl TransientDeliveryError, [], w, tbl)
      else
        (let w1 = (if attempt > 0 then dv_backoff env (attempt - 1) w else w) in
         case dv_check env w1 of
           (Inl e, w2) \<Rightarrow> (Inl e, [], w2, tbl)
         | (Inr _, w2) \<Rightarrow>
             (case dv_send env chunk w2 of
                (SendRaises e, w3) \<Rightarrow> (Inl e, [SendRaises e], w3, tbl)
              | (SendTimeout, w3) \<Rightarrow>
                  (case dv_failure env w3 of
                     (Inl e, w4) \<Rightarrow> (Inl e, [SendTimeout], w4, tbl)
                   | (Inr _, w4) \<Rightarrow>
                       if attempt \<ge> max_retries then (Inl TransientDeliveryError, [SendTimeout], w4, tbl)
                       else (case send_attempts env dc max_retries chunk left (attempt + 1) w4 tbl of
                               (r, outs, st) \<Rightarrow> (r, SendTimeout # outs, st)))
              | (SendResult r, w3) \<Rightarrow>
                  if dr_rejected r \<noteq> [] \<and> \<not> dr_retryable r then
                    (case persist_rejected_to_dlq (dv_dumps env) (dv_db_raises env w3) (dc_id dc) (dc_org dc)
                            (dr_rejected r) chunk tbl of
                       (False, tbl') \<Rightarrow> (Inl TransientDeliveryError, [SendResult r], w3, tbl')
                     | (True, tbl') \<Rightarrow>
                         if dr_accepted r > 0
                         then (case dv_success env w3 of
                                 (Inl e, w4) \<Rightarrow> (Inl e, [SendResult r], w4, tbl')
                               | (Inr _, w4) \<Rightarrow> (Inr r, [SendResult r], w4, tbl'))
                         else (Inr r, [SendResult r], w3, tbl'))
                  else if dr_retryable r then
                    (case dv_failure env w3 of
                       (Inl e, w4) \<Rightarrow> (Inl e, [SendResult r], w4, tbl)
                     | (Inr _, w4) \<Rightarrow>
                         if dr_accepted r > 0 \<or> dr_rejected r \<noteq> [] \<or> attempt \<ge> max_retries
                         then (Inl TransientDeliveryError, [SendResult r], w4, tbl)
                         else (case send_attempts env dc max_retries chunk left (attempt + 1) w4 tbl of
                                 (res, outs, st) \<Rightarrow> (res, SendResult r # outs, st)))
                  else if dr_accepted r > 0
                  then (case dv_success env w3 of
                          (Inl e, w4) \<Rightarrow> (Inl e, [SendResult r], w4, tbl)
                        | (Inr _, w4) \<Rightarrow> (Inr r, [SendResult r], w4, tbl))
                  else (Inr r, [SendResult r], w3, tbl))))"

definition effective_retries :: "delivery_policy \<Rightarrow> nat" where
  "effective_retries dp = (if dp_retry_enabled dp then dp_max_retries dp else 0)"

definition send_chunk_with_retry ::
  "'w denv \<Rightarrow> dest_config \<Rightarrow> pydict list \<Rightarrow> 'w \<Rightarrow> dlq \<Rightarrow>
   (delivery_exn + delivery_result) \<times> send_outcome list \<times> 'w \<times> dlq" where
  "send_chunk_with_retry env dc chunk w tbl =
     (let max_retries = effective_retries (dc_policy dc) in
      send_attempts env dc max_retries chunk (max_retries + 1) 0 w tbl)"

section \<open>Aggregation\<close>

definition group_key :: "string list \<Rightarrow> pydict \<Rightarrow> string list" where
  "group_key group_by env = map (\<lambda>k. py_str (dget_default (envelope_meta env) k (PStr []))) group_by"

fun group_loop ::
  "string list \<Rightarrow> nat \<Rightarrow> (string list \<times> pydict list) list \<Rightarrow> pydict list \<Rightarrow> (string list \<times> pydict list) list option" where
  "group_loop group_by max_groups groups [] = Some groups"
| "group_loop group_by max_groups groups (env # rest) =
     (case map_of groups (group_key group_by env) of
        None \<Rightarrow> if length groups \<ge> max_groups then None
                else group_loop group_by max_groups (groups @ [(group_key group_by env, [env])]) rest
      | Some evs \<Rightarrow> group_loop group_by max_groups (AList.update (group_key group_by env) (evs @ [env]) groups) rest)"

definition group_event :: "string list \<Rightarrow> string list \<times> pydict list \<Rightarrow> pydict" where
  "group_event group_by g =
     (case g of (key, evs) \<Rightarrow>
      (case evs of
         [e] \<Rightarrow> e
       | _ \<Rightarrow>
          (let first = hd evs in
           AList.update ''_aggregate''
             (PDict [(''count'', PInt (int (length evs))),
                     (''group'', PDict (foldl (\<lambda>d (k, v). AList.update k (PStr v) d) [] (zip group_by key)))])
             (AList.update ''_centralops'' (PDict (envelope_meta first)) first))))"

definition coalesce ::
  "(pydict \<Rightarrow> nat) \<Rightarrow> pydict list \<Rightarrow> string list \<Rightarrow> nat \<Rightarrow> pydict list \<times> nat \<times> nat" where
  "coalesce nbytes batch group_by max_groups =
     (if group_by = [] \<or> batch = [] then (batch, 0, 0)
      else case group_loop group_by max_groups [] batch of
             None \<Rightarrow> (batch, 0, 0)
           | Some groups \<Rightarrow>
               (map (group_event group_by) groups,
                sum_list (map (\<lambda>(_, evs). sum_list (map nbytes (tl evs))) groups),
                sum_list (map (\<lambda>(_, evs). length evs - 1) groups)))"

section \<open>Dispatch of a batch\<close>

definition batch_org_id :: "pydict list \<Rightarrow> int option" where
  "batch_org_id batch =
     (case batch of
        [] \<Rightarrow> None
      | e # _ \<Rightarrow>
          (case dget (envelope_meta e) ''organization_id'' of
             PInt i \<Rightarrow> Some i
           | PFloat q s \<Rightarrow> if q = of_int \<lfloor>q\<rfloor> then Some \<lfloor>q\<rfloor> else None
           | PStr s \<Rightarrow> parse_int s
           | _ \<Rightarrow> None))"

record dispatch_totals =
  dt_accepted :: nat
  dt_rejected :: nat
  dt_rejected_ids :: "string list"

text \<open>The loop over the chunks; an exception leaves it.\<close>

fun dispatch_chunks ::
  "'w denv \<Rightarrow> dest_config \<Rightarrow> dispatch_totals \<Rightarrow> pydict list list \<Rightarrow> 'w \<Rightarrow> dlq \<Rightarrow>
   (delivery_exn + dispatch_totals) \<times> send_outcome list list \<times> 'w \<times> dlq"
where
  "dispatch_chunks env dc tot [] w tbl = (Inr tot, [], w, tbl)"
| "dispatch_chunks env dc tot (chunk # chunks) w tbl =
     (case send_chunk_with_retry env dc chunk w tbl of
        (Inl e, outs, w1, tbl1) \<Rightarrow> (Inl e, [outs], w1, tbl1)
      | (Inr r, outs, w1, tbl1) \<Rightarrow>
          (let tot' = \<lparr>dt_accepted = dt_accepted tot + dr_accepted r,
                       dt_rejected = dt_rejected tot + length (dr_rejected r),
                       dt_rejected_ids = dt_rejected_ids tot @
                         (if dr_rejected r \<noteq> [] \<and> \<not> dr_retryable r then map re_event_id (dr_rejected r) else [])\<rparr>
           in case dispatch_chunks env dc tot' chunks w1 tbl1 of
                (res, logs, st) \<Rightarrow> (res, outs # logs, st)))"

datatype dispatch_outcome =
    DestinationMissing
  | CrossTenant
  | ShadowFormatted
  | Dispatched dispatch_totals "pydict list"
  | DispatchRaised delivery_exn

text \<open>The envelopes recorded as delivered in the lineage.\<close>

definition lineage_envelopes :: "dispatch_totals \<Rightarrow> pydict list \<Rightarrow> pydict list" where
  "lineage_envelopes tot batch =
     (if dt_accepted tot = 0 then []
      else if dt_rejected_ids tot = [] then batch
      else filter (\<lambda>e. case dget (envelope_meta e) ''event_id'' of PStr i \<Rightarrow> i \<notin> set (dt_rejected_ids tot) | _ \<Rightarrow> True) batch)"

definition dispatch_batch_to_destination ::
  "'w denv \<Rightarrow> bool \<Rightarrow> dest_config option \<Rightarrow> string \<Rightarrow> pydict list \<Rightarrow> 'w \<Rightarrow> dlq \<Rightarrow>
   dispatch_outcome \<times> send_outcome list list \<times> 'w \<times> dlq"
where
  "dispatch_batch_to_destination env aggregate_on config destination_id batch w tbl =
     (case config of
        None \<Rightarrow>
          (DestinationMissing, [], w,
           snd (persist_batch_dlq (dv_dumps env) (dv_fresh env) (dv_texts env) (dv_db_raises env w) batch
                  destination_id ''destination_missing'' (batch_org_id batch) None tbl))
      | Some dc \<Rightarrow>
          if dc_org dc \<noteq> None \<and> batch_org_id batch \<noteq> None \<and> dc_org dc \<noteq> batch_org_id batch then
            (CrossTenant, [], w,
             snd (persist_batch_dlq (dv_dumps env) (dv_fresh env) (dv_texts env) (dv_db_raises env w) batch
                    destination_id ''cross_tenant_destination'' (batch_org_id batch) None tbl))
          else
            (let dp = dc_policy dc;
                 batch' = (if aggregate_on \<and> dp_group_by dp \<noteq> []
                           then fst (coalesce (dv_nbytes env) batch (dp_group_by dp) (dp_max_groups dp)) else batch)
             in if dp_shadow dp then (ShadowFormatted, [], w, tbl)
                else case dispatch_chunks env dc \<lparr>dt_accepted = 0, dt_rejected = 0, dt_rejected_ids = []\<rparr>
                            (chunk_batch (dv_nbytes env) batch' (dp_max_items dp) (dp_max_bytes dp)) w tbl of
                       (Inl e, logs, st) \<Rightarrow> (DispatchRaised e, logs, st)
                     | (Inr tot, logs, st) \<Rightarrow> (Dispatched tot (lineage_envelopes tot batch'), logs, st)))"

section \<open>The tasks\<close>

definition retryable_exn :: "delivery_exn \<Rightarrow> bool" where
  "retryable_exn e = (case e of TransientDeliveryError \<Rightarrow> True | OtherRetryable _ \<Rightarrow> True | _ \<Rightarrow> False)"

text \<open>What a run of the dispatch task does with the message: acknowledge it, raise for Celery's automatic
  retry, or hand the batch to the dead-letter task with a kind (and raise or not).\<close>

datatype task_end = TaskOk | TaskRaiseRetry delivery_exn | TaskToDlq string | TaskToDlqRaise string delivery_exn

definition run_dispatch_to_destination :: "dispatch_outcome \<Rightarrow> task_end" where
  "run_dispatch_to_destination out =
     (case out of
        DispatchRaised e \<Rightarrow>
          if retryable_exn e then TaskRaiseRetry e
          else if e = BreakerOpenExn then TaskToDlq ''breaker_open''
          else TaskToDlqRaise ''exhausted'' e
      | _ \<Rightarrow> TaskOk)"

definition dispatch_to_dlq :: "'w denv \<Rightarrow> 'w \<Rightarrow> pydict list \<Rightarrow> string \<Rightarrow> string \<Rightarrow> dlq \<Rightarrow> bool \<times> dlq" where
  "dispatch_to_dlq env w batch destination_id error_kind tbl =
     (let org = (case batch of
                   [] \<Rightarrow> None
                 | e # _ \<Rightarrow> (case dget (envelope_meta e) ''organization_id'' of
                              PInt i \<Rightarrow> Some i | PBool b \<Rightarrow> Some (if b then 1 else 0) | _ \<Rightarrow> None))
      in persist_batch_dlq (dv_dumps env) (dv_fresh env) (dv_texts env) (dv_db_raises env w) batch
           destination_id error_kind org None tbl)"

section \<open>Admission control\<close>

definition should_shed :: "int option \<Rightarrow> int \<Rightarrow> bool \<times> int option" where
  "should_shed depth limit =
     (if limit \<le> 0 then (False, None)
      else case depth of None \<Rightarrow> (False, None) | Some n \<Rightarrow> (n \<ge> limit, Some n))"

definition should_shed_dispatch :: "bool \<Rightarrow> int \<Rightarrow> string \<Rightarrow> int \<Rightarrow> int option \<Rightarrow> bool" where
  "should_shed_dispatch e6_enabled default_ceiling backpressure queue_ceiling depth =
     (if \<not> e6_enabled then False
      else if backpressure \<noteq> ''drop_newest'' then False
      else (let limit = (if queue_ceiling \<noteq> 0 then queue_ceiling else default_ceiling) in
            if limit \<le> 0 then False else fst (should_shed depth limit)))"

section \<open>Draining the dead-letter queue\<close>

record drain_result =
  dn_delivered :: nat
  dn_failed :: nat
  dn_remaining :: "string list"
  dn_yielded :: bool

definition drain_max :: nat where "drain_max = 500"
definition drain_lot :: nat where "drain_lot = 100"

text \<open>Rows whose payload is empty are deleted, rows whose payload does not parse are marked, the others are
  candidates.\<close>

definition drain_prepare ::
  "(string \<Rightarrow> pydict option) \<Rightarrow> drain_result \<times> dlq \<times> ((string \<times> string) \<times> int option \<times> pydict) list \<Rightarrow>
   (string \<times> string) \<times> dlq_row \<Rightarrow> drain_result \<times> dlq \<times> ((string \<times> string) \<times> int option \<times> pydict) list" where
  "drain_prepare loads st entry =
     (case (st, entry) of ((res, tbl, cands), (k, row)) \<Rightarrow>
      if dl_payload row = [] then (res\<lparr>dn_delivered := dn_delivered res + 1\<rparr>, delete_dlq_entries [k] tbl, cands)
      else case loads (dl_payload row) of
             None \<Rightarrow> (res\<lparr>dn_failed := dn_failed res + 1\<rparr>,
                      update_dlq_error k ''reprocess_parse_error''
                        ''payload could not be parsed as JSON during reprocess'' tbl, cands)
           | Some envelope \<Rightarrow> (res, tbl, cands @ [(k, dl_org row, envelope)]))"

fun lots :: "nat \<Rightarrow> 'a list \<Rightarrow> 'a list list" where
  "lots 0 xs = []"
| "lots (Suc n) [] = []"
| "lots (Suc n) (x # xs) = take (Suc n) (x # xs) # lots (Suc n) (drop n xs)"

text \<open>The rows still carrying the mark of the drain after the dispatch: they count as delivered.\<close>

definition still_marked :: "dlq \<Rightarrow> (string \<times> string) list \<Rightarrow> (string \<times> string) list" where
  "still_marked tbl ids =
     filter (\<lambda>k. case map_of tbl k of None \<Rightarrow> True | Some row \<Rightarrow> dl_kind row = dlq_kind_reprocessing) ids"

fun drain_lots ::
  "'w denv \<Rightarrow> bool \<Rightarrow> dest_config option \<Rightarrow> string \<Rightarrow> ((string \<times> string) \<times> int option \<times> pydict) list list \<Rightarrow>
   drain_result \<Rightarrow> 'w \<Rightarrow> dlq \<Rightarrow> drain_result \<times> send_outcome list list \<times> 'w \<times> dlq"
where
  "drain_lots env agg config dest [] res w tbl = (res, [], w, tbl)"
| "drain_lots env agg config dest (lot # rest) res w tbl =
     (let ids = map fst lot; envelopes = map (snd \<circ> snd) lot;
          org = (case lot of [] \<Rightarrow> None | c # _ \<Rightarrow> fst (snd c));
          tbl1 = mark_reprocessing ids tbl
      in case dispatch_batch_to_destination env agg config dest envelopes w tbl1 of
           (DispatchRaised e, logs, w2, tbl2) \<Rightarrow>
             if e = BreakerOpenExn then
               (res\<lparr>dn_yielded := True,
                    dn_remaining := map (snd \<circ> fst) (concat (lot # rest)) @ dn_remaining res\<rparr>, logs, w2,
                snd (persist_batch_dlq (dv_dumps env) (dv_fresh env) (dv_texts env) (dv_db_raises env w2) envelopes dest
                       ''breaker_open'' org None tbl2))
             else
               (let tbl3 = snd (persist_batch_dlq (dv_dumps env) (dv_fresh env) (dv_texts env) (dv_db_raises env w2)
                                  envelopes dest ''reprocess_failed'' org (Some (take 500 (''reprocess attempt failed: '' @ dv_exn_text env e))) tbl2)
                in case drain_lots env agg config dest rest (res\<lparr>dn_failed := dn_failed res + length lot\<rparr>) w2 tbl3 of
                     (res', logs', st) \<Rightarrow> (res', logs @ logs', st))
         | (_, logs, w2, tbl2) \<Rightarrow>
             (let done = still_marked tbl2 ids;
                  res1 = res\<lparr>dn_delivered := dn_delivered res + length done,
                             dn_failed := dn_failed res + (length ids - length done)\<rparr>
              in case drain_lots env agg config dest rest res1 w2 (delete_dlq_entries done tbl2) of
                   (res', logs', st) \<Rightarrow> (res', logs @ logs', st)))"

definition drain_destination_dlq ::
  "'w denv \<Rightarrow> bool \<Rightarrow> (string \<Rightarrow> pydict option) \<Rightarrow> dest_config option \<Rightarrow> string \<Rightarrow> string list option \<Rightarrow> int option \<Rightarrow>
   bool \<Rightarrow> 'w \<Rightarrow> dlq \<Rightarrow> drain_result \<times> send_outcome list list \<times> 'w \<times> dlq" where
  "drain_destination_dlq env agg loads config dest event_ids org_id global_scope w tbl =
     (let rows = list_dlq_for_reprocess dest event_ids org_id global_scope tbl;
          res0 = \<lparr>dn_delivered = 0, dn_failed = 0, dn_remaining = map (snd \<circ> fst) (drop drain_max rows), dn_yielded = False\<rparr>
      in case foldl (drain_prepare loads) (res0, tbl, []) (take drain_max rows) of
           (res, tbl1, cands) \<Rightarrow> drain_lots env agg config dest (lots drain_lot cands) res w tbl1)"

end
