(* ===== verification/Route_Loading.thy ===== *)
theory Route_Loading
  imports Py_Json Routing_Correct Dispatch Ocsf_Gate
begin

text \<open>
  From a batch of events to the tasks of the destinations (\<open>_enqueue_dispatch\<close>, \<open>_enqueue_routed\<close> and their loaders in
  \<open>collectors/pipeline.py\<close>): the rows of routes are compiled, destinations give residency, loops and the fallback, the
  batch is routed, what has no destination goes to the dead-letter table and each sub-batch is published or shed. Tables
  are lists of rows; whether a query raises is an argument, as is the outcome of publishing. Counters, captures and
  traces are left out.
\<close>

section \<open>Routes\<close>

text \<open>A row of the table; the columns with JSON text hold what the validators accept, an object and a list of strings.\<close>

record route_row =
  rw_id :: string
  rw_name :: string
  rw_priority :: int
  rw_condition :: "string option"
  rw_action :: string
  rw_destination_ids :: "string option"
  rw_is_final :: bool
  rw_enabled :: bool
  rw_canary_percent :: "int option"
  rw_protect_detection :: "bool option"
  rw_sample_percent :: "int option"
  rw_suppress_key :: "string option"
  rw_suppress_allow :: "int option"
  rw_suppress_window_s :: "int option"
  rw_pii_redaction :: "string option"
  rw_drop_raw :: "bool option"
  rw_organization_id :: "int option"

definition text_or_else :: "string \<Rightarrow> string option \<Rightarrow> string" where
  "text_or_else d t = (case t of Some (c # s) \<Rightarrow> c # s | _ \<Rightarrow> d)"

definition nonempty_text :: "string option \<Rightarrow> string option" where
  "nonempty_text t = (case t of Some (c # s) \<Rightarrow> Some (c # s) | _ \<Rightarrow> None)"

definition or_default :: "'a \<Rightarrow> 'a option \<Rightarrow> 'a" where
  "or_default d x = (case x of None \<Rightarrow> d | Some v \<Rightarrow> v)"

text \<open>The redaction of a row; \<open>None\<close> is the exception that is meant to reach the loader.\<close>

definition row_redaction :: "(string \<Rightarrow> pyval) \<Rightarrow> bool \<Rightarrow> route_row \<Rightarrow> redaction_rule list option" where
  "row_redaction cf pii_enabled row =
     (case nonempty_text (rw_pii_redaction row) of
        None \<Rightarrow> Some []
      | Some text \<Rightarrow>
          if \<not> pii_enabled then None
          else case json_loads cf text of
                 None \<Rightarrow> None
               | Some spec \<Rightarrow> (case compile_pii_redaction spec of Inl _ \<Rightarrow> None | Inr rules \<Rightarrow> Some rules))"

definition row_condition :: "(string \<Rightarrow> pyval) \<Rightarrow> route_row \<Rightarrow> pydict option" where
  "row_condition cf row = (case json_loads cf (text_or_else ''{}'' (rw_condition row)) of Some (PDict c) \<Rightarrow> Some c | _ \<Rightarrow> None)"

definition row_destinations :: "(string \<Rightarrow> pyval) \<Rightarrow> route_row \<Rightarrow> string list option" where
  "row_destinations cf row =
     (case json_loads cf (text_or_else ''[]'' (rw_destination_ids row)) of
        Some (PList ds) \<Rightarrow> those (map (\<lambda>d. case d of PStr s \<Rightarrow> Some s | _ \<Rightarrow> None) ds)
      | _ \<Rightarrow> None)"

definition compile_route_row :: "(string \<Rightarrow> pyval) \<Rightarrow> bool \<Rightarrow> route_row \<Rightarrow> compiled_route option" where
  "compile_route_row cf pii_enabled row =
     (case (row_redaction cf pii_enabled row, row_condition cf row, row_destinations cf row) of
        (Some redaction, Some condition, Some dests) \<Rightarrow>
          Some \<lparr>r_id = rw_id row, r_name = rw_name row, r_priority = rw_priority row, r_condition = condition,
            r_action = rw_action row, r_destination_ids = dests, r_is_final = rw_is_final row, r_enabled = rw_enabled row,
            r_canary_percent = or_default 100 (rw_canary_percent row),
            r_protect_detection = or_default True (rw_protect_detection row),
            r_sample_percent = or_default 100 (rw_sample_percent row),
            r_suppress_key = nonempty_text (rw_suppress_key row), r_suppress_allow = or_default 0 (rw_suppress_allow row),
            r_suppress_window_s = or_default 30 (rw_suppress_window_s row), r_redaction = redaction,
            r_drop_raw = or_default False (rw_drop_raw row)\<rparr>
      | _ \<Rightarrow> None)"

text \<open>\<open>RouteRepository.list_enabled_for_org\<close>: the organisation's routes and the global ones, by priority and id.\<close>

definition list_enabled_for_org :: "int option \<Rightarrow> route_row list \<Rightarrow> route_row list" where
  "list_enabled_for_org org rows =
     sort_key (\<lambda>r. (rw_priority r, rw_id r))
       (filter (\<lambda>r. rw_enabled r \<and> (rw_organization_id r = None \<or> (org \<noteq> None \<and> rw_organization_id r = org))) rows)"

definition load_routes_for_org :: "(string \<Rightarrow> pyval) \<Rightarrow> bool \<Rightarrow> bool \<Rightarrow> route_row list \<Rightarrow> int option \<Rightarrow> compiled_route list" where
  "load_routes_for_org cf pii_enabled ok rows org =
     (if \<not> ok then []
      else case those (map (compile_route_row cf pii_enabled) (list_enabled_for_org org rows)) of None \<Rightarrow> [] | Some rs \<Rightarrow> rs)"

section \<open>Destinations\<close>

record dest_row =
  ds_id :: string
  ds_kind :: string
  ds_enabled :: bool
  ds_config :: string
  ds_delivery :: "string option"
  ds_organization_id :: "int option"
  ds_is_default :: bool
  ds_data_residency :: "string option"

definition load_destination_residency :: "bool \<Rightarrow> dest_row list \<Rightarrow> string list \<Rightarrow> (string \<times> string option) list" where
  "load_destination_residency ok dests ids =
     (if ids = [] \<or> \<not> ok then []
      else map (\<lambda>d. (ds_id d, nonempty_text (ds_data_residency d))) (filter (\<lambda>d. ds_id d \<in> set ids) dests))"

text \<open>The text after the first occurrence of a substring.\<close>

fun after_first :: "string \<Rightarrow> string \<Rightarrow> string option" where
  "after_first sub [] = None"
| "after_first sub (c # s) = (if startswith (c # s) sub then Some (drop (length sub) (c # s)) else after_first sub s)"

definition bare_host :: "pyval \<Rightarrow> string option" where
  "bare_host value =
     (if \<not> truthy value then None
      else let v0 = strip (py_str value);
               v1 = (case after_first ''://'' v0 of None \<Rightarrow> v0 | Some r \<Rightarrow> r);
               v2 = takeWhile (\<lambda>c. c \<noteq> CHR ''/'') v1;
               v3 = rev (takeWhile (\<lambda>c. c \<noteq> CHR ''@'') (rev v2));
               v4 = (case v3 of
                       CHR ''['' # r \<Rightarrow> takeWhile (\<lambda>c. c \<noteq> CHR '']'') r
                     | _ \<Rightarrow> if length (filter (\<lambda>c. c = CHR '':'') v3) = 1 then takeWhile (\<lambda>c. c \<noteq> CHR '':'') v3 else v3)
           in nonempty_text (Some (lower v4)))"

text \<open>The hosts of the Wazuh integrations: API, base, indexer and manager.\<close>

type_synonym wazuh_row = "string option \<times> string option \<times> string option \<times> string option"

definition wazuh_hosts :: "wazuh_row list \<Rightarrow> string list" where
  "wazuh_hosts rows =
     concat (map (\<lambda>(a, b, c, d). List.map_filter (\<lambda>h. case h of None \<Rightarrow> None | Some t \<Rightarrow> bare_host (PStr t)) [a, b, c, d]) rows)"

definition syslog_kinds :: "string list" where
  "syslog_kinds = [''syslog_rfc3164'', ''syslog_rfc5424'']"

text \<open>The host of a syslog destination; \<open>None\<close> when the read raises, as it does for a list.\<close>

definition config_host :: "(string \<Rightarrow> pyval) \<Rightarrow> dest_row \<Rightarrow> string option option" where
  "config_host cf d =
     (let cfg = (case ds_config d of [] \<Rightarrow> PDict [] | t \<Rightarrow> (case json_loads cf t of None \<Rightarrow> PDict [] | Some v \<Rightarrow> v)) in
      case cfg of
        PDict c \<Rightarrow> Some (bare_host (dget c ''host''))
      | v \<Rightarrow> if truthy v then None else Some None)"

definition load_wazuh_loop_ids :: "(string \<Rightarrow> pyval) \<Rightarrow> bool \<Rightarrow> wazuh_row list \<Rightarrow> dest_row list \<Rightarrow> string list \<Rightarrow> string list" where
  "load_wazuh_loop_ids cf ok wz dests ids =
     (if ids = [] \<or> \<not> ok \<or> wazuh_hosts wz = [] then []
      else let rows = filter (\<lambda>d. ds_id d \<in> set ids \<and> ds_kind d \<in> set syslog_kinds) dests in
        if \<exists>d\<in>set rows. config_host cf d = None then []
        else map ds_id (filter (\<lambda>d. \<exists>h\<in>set (wazuh_hosts wz). config_host cf d = Some (Some h)) rows))"

text \<open>The default of the organisation comes before the global one.\<close>

definition default_in :: "dest_row list \<Rightarrow> int option \<Rightarrow> string option" where
  "default_in dests scope =
     (case List.find (\<lambda>d. ds_is_default d \<and> ds_organization_id d = scope) dests of
        None \<Rightarrow> None
      | Some d \<Rightarrow> nonempty_text (Some (ds_id d)))"

definition load_fallback_destination_id :: "bool \<Rightarrow> dest_row list \<Rightarrow> int option \<Rightarrow> string option" where
  "load_fallback_destination_id ok dests org =
     (if \<not> ok then None
      else case (if org = None then None else default_in dests org) of
             Some d \<Rightarrow> Some d
           | None \<Rightarrow> default_in dests None)"

section \<open>The plan of delivery\<close>

text \<open>\<open>resolve_dispatch_plan\<close>: ceiling and policy of the enabled destinations of the organisation and of the global ones. The
  validation of the delivery configuration by pydantic is the parameter \<open>pd\<close>.\<close>

definition dispatch_shards :: nat where
  "dispatch_shards = 8"

text \<open>\<open>int(hexdigest, 16)\<close>.\<close>

definition digest_number :: "w32 list \<Rightarrow> nat" where
  "digest_number ws = foldl (\<lambda>a w. a * 2 ^ 32 + unat w) 0 ws"

definition dest_shard_queue :: "string \<Rightarrow> string" where
  "dest_shard_queue dest = ''dispatch.destination.'' @ nat_str (digest_number (sha1_words (utf8 dest)) mod dispatch_shards)"

definition delivery_of :: "(string \<Rightarrow> pyval) \<Rightarrow> (string \<Rightarrow> pyval \<Rightarrow> int \<times> string) \<Rightarrow> dest_row \<Rightarrow> int \<times> string" where
  "delivery_of cf pd d =
     pd (ds_kind d) (case json_loads cf (text_or_else ''{}'' (ds_delivery d)) of None \<Rightarrow> PDict [] | Some v \<Rightarrow> v)"

definition visible_to :: "int option \<Rightarrow> dest_row \<Rightarrow> bool" where
  "visible_to org d \<longleftrightarrow> ds_enabled d \<and> (ds_organization_id d = None \<or> ds_organization_id d = org)"

definition resolve_destination_ids :: "bool \<Rightarrow> dest_row list \<Rightarrow> int option \<Rightarrow> string list" where
  "resolve_destination_ids ok dests org = (if \<not> ok then [] else map ds_id (filter (visible_to org) dests))"

definition resolve_dispatch_plan ::
    "(string \<Rightarrow> pyval) \<Rightarrow> (string \<Rightarrow> pyval \<Rightarrow> int \<times> string) \<Rightarrow> bool \<Rightarrow> dest_row list \<Rightarrow> int option \<Rightarrow> (string \<times> int \<times> string) list" where
  "resolve_dispatch_plan cf pd ok dests org =
     (if \<not> ok then [] else map (\<lambda>d. (ds_id d, delivery_of cf pd d)) (filter (visible_to org) dests))"

section \<open>Routing a batch and publishing it\<close>

record enqueue_settings =
  eq_sample_enabled :: bool
  eq_cost_metering :: bool
  eq_protect_detection :: bool
  eq_backpressure :: bool
  eq_default_ceiling :: int
  eq_validate_internal :: bool
  eq_enrichment :: bool

record enqueue_env =
  en_set :: enqueue_settings
  en_float :: "string \<Rightarrow> pyval"
  en_delivery :: "string \<Rightarrow> pyval \<Rightarrow> int \<times> string"
  en_dests :: "dest_row list"
  en_wazuh :: "wazuh_row list"
  en_residency_ok :: bool
  en_loop_ok :: bool
  en_fallback_ok :: bool
  en_plan_ok :: bool
  en_dlq_raises :: bool
  en_nbytes :: "pydict \<Rightarrow> nat"
  en_dumps :: "pydict \<Rightarrow> string option"
  en_fresh :: "nat \<Rightarrow> string"
  en_texts :: "(string \<times> string) list \<times> string"
  en_registry :: "ocsf_registry option"
  en_depth :: "string \<Rightarrow> int option"
  en_publish :: "string \<Rightarrow> bool"

definition route_dest_ids :: "compiled_route list \<Rightarrow> string list" where
  "route_dest_ids routes = remdups (concat (map r_destination_ids routes))"

definition enqueue_opts :: "enqueue_env \<Rightarrow> compiled_route list \<Rightarrow> int option \<Rightarrow> route_opts" where
  "enqueue_opts env routes org =
     \<lparr>ro_fallback = load_fallback_destination_id (en_fallback_ok env) (en_dests env) org,
      ro_residency = load_destination_residency (en_residency_ok env) (en_dests env) (route_dest_ids routes),
      ro_loop_ids = load_wazuh_loop_ids (en_float env) (en_loop_ok env) (en_wazuh env) (en_dests env) (route_dest_ids routes),
      ro_sampling = Some \<lparr>sc_enabled = eq_sample_enabled (en_set env) \<and> eq_cost_metering (en_set env),
        sc_protect_detection_enforced = eq_protect_detection (en_set env)\<rparr>,
      ro_measure_drop_bytes = eq_cost_metering (en_set env), ro_nbytes = en_nbytes env\<rparr>"

definition sheds :: "enqueue_env \<Rightarrow> (string \<times> int \<times> string) list \<Rightarrow> string \<Rightarrow> bool" where
  "sheds env plan dest =
     (case map_of plan dest of
        None \<Rightarrow> False
      | Some (depth_cap, policy) \<Rightarrow>
          should_shed_dispatch (eq_backpressure (en_set env)) (eq_default_ceiling (en_set env)) policy depth_cap (en_depth env (dest_shard_queue dest)))"

record publish_result =
  pb_ok :: bool
  pb_published :: "(string \<times> pydict list) list"
  pb_shed :: "(string \<times> pydict list) list"

text \<open>The loop over the sub-batches; publishing that raises ends it and what came before stays published.\<close>

fun publish_loop :: "enqueue_env \<Rightarrow> (string \<times> int \<times> string) list \<Rightarrow> (string \<times> pydict list) list \<Rightarrow> publish_result" where
  "publish_loop env plan [] = \<lparr>pb_ok = True, pb_published = [], pb_shed = []\<rparr>"
| "publish_loop env plan ((dest, events) # sub) =
     (if events = [] then publish_loop env plan sub
      else if sheds env plan dest then
        (let r = publish_loop env plan sub in r\<lparr>pb_shed := (dest, events) # pb_shed r\<rparr>)
      else if \<not> en_publish env dest then \<lparr>pb_ok = False, pb_published = [], pb_shed = []\<rparr>
      else (let r = publish_loop env plan sub in r\<lparr>pb_published := (dest, events) # pb_published r\<rparr>))"

definition dispatch_plan :: "enqueue_env \<Rightarrow> int option \<Rightarrow> (string \<times> int \<times> string) list" where
  "dispatch_plan env org =
     (if eq_backpressure (en_set env) then rev (resolve_dispatch_plan (en_float env) (en_delivery env) (en_plan_ok env) (en_dests env) org) else [])"

definition enqueue_routed :: "enqueue_env \<Rightarrow> pydict list \<Rightarrow> compiled_route list \<Rightarrow> dlq \<Rightarrow> publish_result \<times> dlq" where
  "enqueue_routed env batch routes tbl =
     (let org = batch_org_id batch;
          result = route_batch (enqueue_opts env routes org) batch routes;
          tbl' = (if br_unrouted_events result = [] then tbl
                  else snd (persist_batch_dlq (en_dumps env) (en_fresh env) (en_texts env) (en_dlq_raises env)
                         (br_unrouted_events result) ''__unrouted__'' ''unrouted'' org None tbl))
      in (publish_loop env (dispatch_plan env org) (br_sub_batches result), tbl'))"

text \<open>\<open>note_unenriched\<close>: the mark is the answer to why an event has no context.\<close>

definition skip_reasons :: "string list" where
  "skip_reasons = [''producer_unsupported'', ''no_policy'', ''service_role'']"

definition note_unenriched_one :: "string \<Rightarrow> pydict \<Rightarrow> pydict" where
  "note_unenriched_one reason env =
     (case dget env ''_centralops'' of
        PDict cc \<Rightarrow> if dhas cc ''enrichment'' \<or> dhas cc ''enrichment_skipped'' then env
                    else label_event ''enrichment_skipped'' (PStr reason) env
      | _ \<Rightarrow> env)"

definition note_unenriched :: "bool \<Rightarrow> string \<Rightarrow> pydict list \<Rightarrow> pydict list" where
  "note_unenriched enabled reason batch =
     (if \<not> enabled then batch
      else map (note_unenriched_one (if reason \<in> set skip_reasons then reason else ''producer_unsupported'')) batch)"

text \<open>\<open>_enqueue_dispatch\<close> marks the envelopes in place and leaves out what the gate on its own events rejects.\<close>

definition mark_skipped :: "enqueue_env \<Rightarrow> string option \<Rightarrow> pydict list \<Rightarrow> pydict list" where
  "mark_skipped env skip batch = (case skip of None \<Rightarrow> batch | Some reason \<Rightarrow> note_unenriched (eq_enrichment (en_set env)) reason batch)"

definition gated :: "enqueue_env \<Rightarrow> pydict list \<Rightarrow> pydict list" where
  "gated env batch = (if eq_validate_internal (en_set env) then gate_internal_producers (en_registry env) batch else batch)"

definition enqueue_dispatch :: "enqueue_env \<Rightarrow> pydict list \<Rightarrow> compiled_route list \<Rightarrow> string option \<Rightarrow> dlq \<Rightarrow> publish_result \<times> dlq" where
  "enqueue_dispatch env batch routes skip tbl =
     (let sent = gated env (mark_skipped env skip batch)
      in if eq_validate_internal (en_set env) \<and> sent = [] then (\<lparr>pb_ok = True, pb_published = [], pb_shed = []\<rparr>, tbl)
         else enqueue_routed env sent routes tbl)"

section \<open>What is published\<close>

lemma sub_append_keys: "distinct (map fst sub) \<Longrightarrow> distinct (map fst (sub_append d e sub))"
  by (simp add: sub_append_def distinct_update)

lemma deliver_one_sub: "distinct (map fst (br_sub_batches (fst s))) \<Longrightarrow> distinct (map fst (br_sub_batches (fst (deliver_one opts env labels s p))))"
  by (cases s; cases p) (auto simp: deliver_one_def Let_def sub_append_keys)

lemma deliver_fold_keys:
  "distinct (map fst (br_sub_batches (fst s))) \<Longrightarrow>
   distinct (map fst (br_sub_batches (fst (foldl (deliver_one opts env labels) s ps))))"
  by (induction ps arbitrary: s) (simp_all add: deliver_one_sub)

lemma no_destination_keys:
  "distinct (map fst (br_sub_batches res)) \<Longrightarrow> distinct (map fst (br_sub_batches (no_destination opts env labels r res)))"
  by (auto simp: no_destination_def sub_append_keys split: option.splits)

lemma route_assigned_keys:
  assumes "distinct (map fst (br_sub_batches res))"
  shows "distinct (map fst (br_sub_batches (route_assigned opts env labels asg res)))"
proof -
  have keys: "distinct (map fst (br_sub_batches (case foldl (deliver_one opts env labels) (res', False) ps of
      (r2, dl) \<Rightarrow> if dl then r2\<lparr>br_routed := br_routed r2 + 1\<rparr> else r2)))"
    if "distinct (map fst (br_sub_batches res'))" for res' ps
    using deliver_fold_keys [of "(res', False)" opts env labels ps] that
    by (cases "foldl (deliver_one opts env labels) (res', False) ps") simp
  have same: "distinct (map fst (br_sub_batches (res\<lparr>br_residency_blocked := n, br_residency_blocked_events := m\<rparr>)))" for n m
    using assms by simp
  show ?thesis
    unfolding route_assigned_def Let_def using keys [OF same] no_destination_keys [OF same] by presburger
qed

lemma route_batch_keys: "distinct (map fst (br_sub_batches (route_batch opts batch routes)))"
proof -
  have "distinct (map fst (br_sub_batches (route_event opts o1 res env)))" if "distinct (map fst (br_sub_batches res))" for res env o1
    using that by (auto simp: route_event_def Let_def no_destination_keys route_assigned_keys)
  then have "distinct (map fst (br_sub_batches res)) \<Longrightarrow> distinct (map fst (br_sub_batches (foldl (route_event opts o1) res batch)))" for res o1
    by (induction batch arbitrary: res) simp_all
  then show ?thesis by (simp add: route_batch_def empty_routing_def)
qed

lemma publish_loop_ok:
  "pb_ok (publish_loop env plan sub) \<Longrightarrow> (d, es) \<in> set sub \<Longrightarrow> es \<noteq> [] \<Longrightarrow>
   (if sheds env plan d then (d, es) \<in> set (pb_shed (publish_loop env plan sub)) else (d, es) \<in> set (pb_published (publish_loop env plan sub)))"
  by (induction env plan sub rule: publish_loop.induct) (auto simp: Let_def split: if_splits)

lemma publish_loop_subset: "set (pb_published (publish_loop env plan sub)) \<subseteq> set sub"
  by (induction env plan sub rule: publish_loop.induct) (auto simp: Let_def)

lemma sub_of_member: "distinct (map fst sub) \<Longrightarrow> sub_of sub d \<noteq> [] \<Longrightarrow> (d, sub_of sub d) \<in> set sub"
  by (auto simp: sub_of_def split: option.splits dest: map_of_SomeD)

definition enqueue_copies :: "enqueue_env \<Rightarrow> compiled_route list \<Rightarrow> pydict list \<Rightarrow> string \<Rightarrow> pydict list" where
  "enqueue_copies env routes batch d =
     concat (map (copies_for (enqueue_opts env routes (batch_org_id batch)) (order_routes routes) d) batch)"

text \<open>When a batch may be shed, in terms of the tables: admission control is on, and a row of the destination that is
  enabled and belongs to the organisation or to all has the policy of dropping new batches and a ceiling (its own, or
  the default when it is zero) that is positive and that the depth of the destination's queue has reached.\<close>

definition may_shed :: "enqueue_env \<Rightarrow> int option \<Rightarrow> string \<Rightarrow> bool" where
  "may_shed env org dest \<longleftrightarrow>
     eq_backpressure (en_set env) \<and> en_plan_ok env \<and>
     (\<exists>row\<in>set (en_dests env). ds_id row = dest \<and> ds_enabled row \<and> (ds_organization_id row = None \<or> ds_organization_id row = org) \<and>
       (\<exists>ceiling n. delivery_of (en_float env) (en_delivery env) row = (ceiling, ''drop_newest'') \<and>
          en_depth env (dest_shard_queue dest) = Some n \<and>
          (let limit = (if ceiling = 0 then eq_default_ceiling (en_set env) else ceiling) in 0 < limit \<and> limit \<le> n)))"

lemma sheds_may_shed:
  assumes "sheds env (dispatch_plan env org) dest"
  shows "may_shed env org dest"
proof -
  obtain ceiling policy where p: "map_of (dispatch_plan env org) dest = Some (ceiling, policy)"
      "should_shed_dispatch (eq_backpressure (en_set env)) (eq_default_ceiling (en_set env)) policy ceiling (en_depth env (dest_shard_queue dest))"
    using assms by (auto simp: sheds_def split: option.splits)
  from map_of_SomeD [OF p(1)] obtain row where "row \<in> set (en_dests env)" "visible_to org row" "ds_id row = dest"
      "delivery_of (en_float env) (en_delivery env) row = (ceiling, policy)" "en_plan_ok env"
    by (auto simp: dispatch_plan_def resolve_dispatch_plan_def split: if_splits)
  moreover have "eq_backpressure (en_set env)" "policy = ''drop_newest''"
    and "\<exists>n. en_depth env (dest_shard_queue dest) = Some n \<and>
          (let limit = (if ceiling = 0 then eq_default_ceiling (en_set env) else ceiling) in 0 < limit \<and> limit \<le> n)"
    using p(2) by (auto simp: should_shed_dispatch_def should_shed_def Let_def split: if_splits option.splits)
  ultimately show ?thesis unfolding may_shed_def visible_to_def by blast
qed

lemma may_shed_sheds:
  assumes "distinct (map ds_id (en_dests env))" and "may_shed env org dest"
  shows "sheds env (dispatch_plan env org) dest"
proof -
  from assms(2) obtain row ceiling n where row: "row \<in> set (en_dests env)" "ds_id row = dest" "visible_to org row"
      "delivery_of (en_float env) (en_delivery env) row = (ceiling, ''drop_newest'')"
    and on: "eq_backpressure (en_set env)" "en_plan_ok env" and n: "en_depth env (dest_shard_queue dest) = Some n"
    and limit: "0 < (if ceiling = 0 then eq_default_ceiling (en_set env) else ceiling)"
      "(if ceiling = 0 then eq_default_ceiling (en_set env) else ceiling) \<le> n"
    unfolding may_shed_def visible_to_def Let_def by blast
  have "distinct (map fst (dispatch_plan env org))"
    using distinct_map_filter [OF assms(1)] by (simp add: dispatch_plan_def resolve_dispatch_plan_def rev_map [symmetric] comp_def)
  moreover have "(dest, ceiling, ''drop_newest'') \<in> set (dispatch_plan env org)"
    using row on by (force simp: dispatch_plan_def resolve_dispatch_plan_def)
  ultimately have "map_of (dispatch_plan env org) dest = Some (ceiling, ''drop_newest'')" by simp
  then show ?thesis using on(1) n limit by (auto simp: sheds_def should_shed_dispatch_def should_shed_def Let_def split: if_splits)
qed

text \<open>The copies for a destination are published together, unless the destination sheds.\<close>

lemma enqueue_published:
  assumes "pb_ok (fst (enqueue_routed env batch routes tbl))" and "enqueue_copies env routes batch d \<noteq> []"
  shows "if sheds env (dispatch_plan env (batch_org_id batch)) d
    then (d, enqueue_copies env routes batch d) \<in> set (pb_shed (fst (enqueue_routed env batch routes tbl)))
    else (d, enqueue_copies env routes batch d) \<in> set (pb_published (fst (enqueue_routed env batch routes tbl)))"
proof -
  let ?res = "route_batch (enqueue_opts env routes (batch_org_id batch)) batch routes"
  have "(d, enqueue_copies env routes batch d) \<in> set (br_sub_batches ?res)"
    using sub_of_member [OF route_batch_keys] assms(2) by (simp add: enqueue_copies_def route_batch_sub)
  then show ?thesis
    using publish_loop_ok [of env "dispatch_plan env (batch_org_id batch)" "br_sub_batches ?res" d "enqueue_copies env routes batch d"] assms
    by (simp add: enqueue_routed_def Let_def)
qed

definition gate_event :: "enqueue_env \<Rightarrow> pydict \<Rightarrow> pydict option" where
  "gate_event env e = (if eq_validate_internal (en_set env) then gate_internal (en_registry env) e else Some e)"

text \<open>What it means for an event that it was handed over: if its envelope passes the gate, each copy that routing makes of it
  is in a sub-batch that was published, or shed by the policy of the destination.\<close>

definition arrives :: "enqueue_env \<Rightarrow> int option \<Rightarrow> (string \<times> pydict list) list \<Rightarrow> (string \<times> pydict list) list \<Rightarrow> string \<Rightarrow> pydict \<Rightarrow> bool" where
  "arrives env org published shed d c \<longleftrightarrow>
     (\<exists>es. c \<in> set es \<and> ((d, es) \<in> set published \<or> (may_shed env org d \<and> (d, es) \<in> set shed)))"

definition handed_over ::
    "enqueue_env \<Rightarrow> compiled_route list \<Rightarrow> int option \<Rightarrow> (string \<times> pydict list) list \<Rightarrow> (string \<times> pydict list) list \<Rightarrow> pydict \<Rightarrow> bool" where
  "handed_over env routes org published shed e \<longleftrightarrow>
     (\<forall>e'. gate_event env e = Some e' \<longrightarrow>
       (\<forall>d. \<forall>c\<in>set (copies_for (enqueue_opts env routes org) (order_routes routes) d e'). arrives env org published shed d c))"

lemma arrives_mono: "arrives env org published shed d c \<Longrightarrow> arrives env org (published @ p) (shed @ q) d c"
  by (auto simp: arrives_def)

lemma handed_over_mono:
  "handed_over env routes org published shed e \<Longrightarrow> handed_over env routes org (published @ p) (shed @ q) e"
  unfolding handed_over_def Ball_def using arrives_mono by meson

lemma arrives_prepend: "arrives env org published shed d c \<Longrightarrow> arrives env org (p @ published) (q @ shed) d c"
  by (auto simp: arrives_def)

lemma handed_over_prepend: "handed_over env routes org published shed e \<Longrightarrow> handed_over env routes org (p @ published) (q @ shed) e"
  unfolding handed_over_def Ball_def using arrives_prepend by meson

text \<open>The organisation of a batch whose events are all labelled with the same one.\<close>

definition org_labelled :: "int \<Rightarrow> pydict \<Rightarrow> bool" where
  "org_labelled i e \<longleftrightarrow> dget (envelope_meta e) ''organization_id'' = PInt i"

lemma gate_internal_org: "gate_internal reg e = Some e' \<Longrightarrow> org_labelled i e \<Longrightarrow> org_labelled i e'"
  by (auto simp: gate_internal_def org_labelled_def envelope_meta_def label_event_def as_dict_def split: if_splits option.splits)

lemma gated_org:
  assumes "\<forall>e\<in>set batch. org_labelled i e" and "gated env batch \<noteq> []"
  shows "batch_org_id (gated env batch) = Some i"
proof -
  have "\<forall>e\<in>set (gated env batch). org_labelled i e"
    using assms(1) by (auto simp: gated_def gate_internal_producers_def map_filter_def intro: gate_internal_org)
  with assms(2) show ?thesis by (cases "gated env batch") (auto simp: batch_org_id_def org_labelled_def)
qed

lemma gated_member: "e \<in> set batch \<Longrightarrow> gate_event env e = Some e' \<Longrightarrow> e' \<in> set (gated env batch)"
  by (induction batch) (auto simp: gate_event_def gated_def gate_internal_producers_def List.map_filter_def split: if_splits)

lemma enqueue_dispatch_hands_over:
  assumes "pb_ok (fst (enqueue_dispatch env batch routes skip tbl))" and "e \<in> set (mark_skipped env skip batch)"
    and org: "\<forall>x\<in>set (mark_skipped env skip batch). org_labelled i x"
  shows "handed_over env routes (Some i) (pb_published (fst (enqueue_dispatch env batch routes skip tbl)))
    (pb_shed (fst (enqueue_dispatch env batch routes skip tbl))) e"
  unfolding handed_over_def
proof (intro allI impI ballI)
  fix e' dest c assume g: "gate_event env e = Some e'"
    and c: "c \<in> set (copies_for (enqueue_opts env routes (Some i)) (order_routes routes) dest e')"
  let ?sent = "gated env (mark_skipped env skip batch)"
  have sent: "e' \<in> set ?sent" by (rule gated_member [OF assms(2) g])
  then have d: "enqueue_dispatch env batch routes skip tbl = enqueue_routed env ?sent routes tbl"
    by (auto simp: enqueue_dispatch_def Let_def)
  have o: "batch_org_id ?sent = Some i" using gated_org [OF org] sent by (metis empty_iff empty_set)
  have "c \<in> set (enqueue_copies env routes ?sent dest)" using c sent by (auto simp: enqueue_copies_def o)
  moreover from this have "enqueue_copies env routes ?sent dest \<noteq> []" by auto
  ultimately show "arrives env (Some i) (pb_published (fst (enqueue_dispatch env batch routes skip tbl)))
      (pb_shed (fst (enqueue_dispatch env batch routes skip tbl))) dest c"
    using enqueue_published [of env ?sent routes tbl dest] assms(1) sheds_may_shed [of env "Some i" dest]
    by (auto simp: d o arrives_def split: if_splits)
qed


section \<open>Loading keeps redactions\<close>

lemma those_map_Some: "those (map f xs) = Some ys \<longleftrightarrow> list_all2 (\<lambda>x y. f x = Some y) xs ys"
  by (induction xs arbitrary: ys) (auto simp: list_all2_Cons1 split: option.splits)

lemma those_map_None: "x \<in> set xs \<Longrightarrow> f x = None \<Longrightarrow> those (map f xs) = None"
  by (induction xs) (auto split: option.splits)

lemma list_all2_source: "list_all2 P xs ys \<Longrightarrow> y \<in> set ys \<Longrightarrow> \<exists>x\<in>set xs. P x y"
  by (induction rule: list_all2_induct) auto

text \<open>A loaded route redacts exactly what its row says; one row that cannot be compiled empties the whole list.\<close>

lemma loaded_route_redaction:
  assumes "r \<in> set (load_routes_for_org cf pii ok rows org)"
  shows "\<exists>row\<in>set rows. compile_route_row cf pii row = Some r \<and> row_redaction cf pii row = Some (r_redaction r)"
proof -
  obtain rs where rs: "those (map (compile_route_row cf pii) (list_enabled_for_org org rows)) = Some rs" "r \<in> set rs"
    using assms by (cases "those (map (compile_route_row cf pii) (list_enabled_for_org org rows))")
      (auto simp: load_routes_for_org_def split: if_splits)
  then obtain row where "row \<in> set (list_enabled_for_org org rows)" "compile_route_row cf pii row = Some r"
    using list_all2_source [OF rs(1) [unfolded those_map_Some] rs(2)] by blast
  then show ?thesis
    by (auto simp: list_enabled_for_org_def compile_route_row_def split: option.splits prod.splits intro!: bexI [of _ row])
qed

lemma uncompilable_row_empties:
  assumes "row \<in> set (list_enabled_for_org org rows)" and "row_redaction cf pii row = None"
  shows "load_routes_for_org cf pii ok rows org = []"
  using those_map_None [OF assms(1), of "compile_route_row cf pii"] assms(2)
  by (simp add: load_routes_for_org_def compile_route_row_def)

lemma order_routes_Nil [simp]: "order_routes [] = []"
  by (simp add: order_routes_def)

lemma fate_without_routes:
  "fate opts [] env = (if source_is_wazuh (event_labels env) \<and>
      (case ro_fallback opts of None \<Rightarrow> True | Some fb \<Rightarrow> fb \<in> set (ro_loop_ids opts))
    then FLoopBlocked else case ro_fallback opts of Some fb \<Rightarrow> FFallback fb | None \<Rightarrow> FUnrouted)"
  by (simp add: fate_def Let_def serving_routes_def evaluate_event_def)

lemma no_routes_to_fallback:
  assumes "load_fallback_destination_id (en_fallback_ok env) (en_dests env) (batch_org_id batch) = Some fb"
  shows "enqueue_copies env [] batch fb = batch"
proof -
  have "ro_loop_ids (enqueue_opts env [] (batch_org_id batch)) = []"
    by (simp add: enqueue_opts_def route_dest_ids_def load_wazuh_loop_ids_def)
  then have "copies_for (enqueue_opts env [] (batch_org_id batch)) [] fb e = [e]" for e
    using assms by (simp add: copies_for_def fate_without_routes) (simp add: enqueue_opts_def)
  then have "concat (map (copies_for (enqueue_opts env [] (batch_org_id batch)) [] fb) es) = es" for es by (induction es) simp_all
  then show ?thesis by (simp add: enqueue_copies_def)
qed

text \<open>C32: A redaction that cannot be compiled sends the clear text to the default destination. The exception of one row empties
  the routes of the organisation, and without routes every event of the batch goes unredacted to the destination marked
  as default, whatever that is; events collected from Wazuh included, also when it is the Wazuh manager itself.\<close>

theorem failed_redaction_leaks_to_fallback:
  assumes "row \<in> set (list_enabled_for_org (batch_org_id batch) rows)" and "row_redaction (en_float env) pii row = None"
    and "load_fallback_destination_id (en_fallback_ok env) (en_dests env) (batch_org_id batch) = Some fb"
    and "batch \<noteq> []" and "en_publish env fb" and "\<not> eq_backpressure (en_set env)"
  shows "(fb, batch) \<in> set (pb_published (fst (enqueue_routed env batch (load_routes_for_org (en_float env) pii ok rows (batch_org_id batch)) tbl)))"
proof -
  let ?o = "enqueue_opts env [] (batch_org_id batch)"
  let ?sub = "br_sub_batches (route_batch ?o batch [])"
  have routes: "load_routes_for_org (en_float env) pii ok rows (batch_org_id batch) = []"
    by (rule uncompilable_row_empties [OF assms(1,2)])
  have sub: "sub_of ?sub fb = batch"
    using no_routes_to_fallback [OF assms(3)] by (simp add: enqueue_copies_def route_batch_sub)
  then have "(fb, batch) \<in> set ?sub"
    using sub_of_member [OF route_batch_keys, of ?o batch "[]" fb] assms(4) by simp
  moreover have "sub_of ?sub d = []" if "d \<noteq> fb" for d
  proof -
    have "copies_for ?o [] d e = []" for e
      using assms(3) that by (auto simp: copies_for_def fate_without_routes) (auto simp: enqueue_opts_def)
    then show ?thesis by (simp add: route_batch_sub)
  qed
  then have "\<forall>(d, es)\<in>set ?sub. d = fb \<or> es = []"
    using route_batch_keys [of ?o batch "[]"] by (force simp: sub_of_def)
  moreover have "sheds env plan d = False" for plan d
    using assms(6) by (simp add: sheds_def should_shed_dispatch_def split: option.splits prod.splits)
  then have "\<forall>(d, es)\<in>set sub. d = fb \<or> es = [] \<Longrightarrow> x \<in> set sub \<Longrightarrow> snd x \<noteq> [] \<Longrightarrow> x \<in> set (pb_published (publish_loop env plan sub))"
    for sub plan x
    using assms(5) by (induction sub) (auto simp: Let_def)
  ultimately show ?thesis using assms(4) by (simp add: enqueue_routed_def Let_def routes)
qed

definition ex_route_row :: route_row where
  "ex_route_row = \<lparr>rw_id = ''r1'', rw_name = ''masked'', rw_priority = 1, rw_condition = Some ''{}'', rw_action = ''route'',
     rw_destination_ids = Some ''[]'', rw_is_final = True, rw_enabled = True, rw_canary_percent = None, rw_protect_detection = None,
     rw_sample_percent = None, rw_suppress_key = None, rw_suppress_allow = None, rw_suppress_window_s = None,
     rw_pii_redaction = Some ''{}'', rw_drop_raw = None, rw_organization_id = None\<rparr>"

definition ex_enqueue_env :: enqueue_env where
  "ex_enqueue_env = \<lparr>
     en_set = \<lparr>eq_sample_enabled = False, eq_cost_metering = False, eq_protect_detection = True, eq_backpressure = False,
       eq_default_ceiling = 0, eq_validate_internal = False, eq_enrichment = False\<rparr>,
     en_float = (\<lambda>_. PNone), en_delivery = (\<lambda>_ _. (0, ''persistent_queue'')),
     en_dests = [\<lparr>ds_id = ''siem'', ds_kind = ''splunk_hec'', ds_enabled = True, ds_config = ''{}'', ds_delivery = None,
       ds_organization_id = None, ds_is_default = True, ds_data_residency = None\<rparr>],
     en_wazuh = [], en_residency_ok = True, en_loop_ok = True, en_fallback_ok = True, en_plan_ok = True, en_dlq_raises = False,
     en_nbytes = (\<lambda>_. 0), en_dumps = (\<lambda>_. None), en_fresh = (\<lambda>_. ''f''), en_texts = ([], ''''), en_registry = None,
     en_depth = (\<lambda>_. None), en_publish = (\<lambda>_. True)\<rparr>"

definition ex_clear_event :: pydict where
  "ex_clear_event = [(''_centralops'', PDict [(''platform'', PStr ''okta'')]), (''raw'', PDict [(''cpf'', PStr ''1'')])]"

lemma publish_all_ok: "(\<And>d. en_publish env d) \<Longrightarrow> pb_ok (publish_loop env plan sub)"
  by (induction env plan sub rule: publish_loop.induct) (auto simp: Let_def)


theorem failed_redaction_leaks_to_fallback_witness:
  "(''siem'', [ex_clear_event]) \<in> set (pb_published (fst (enqueue_routed ex_enqueue_env [ex_clear_event]
     (load_routes_for_org (\<lambda>_. PNone) False True [ex_route_row] None) [])))"
proof -
  have "batch_org_id [ex_clear_event] = None" by code_simp
  moreover have "ex_route_row \<in> set (list_enabled_for_org None [ex_route_row])" by (simp add: list_enabled_for_org_def ex_route_row_def)
  moreover have "row_redaction (\<lambda>_. PNone) False ex_route_row = None" by (simp add: row_redaction_def ex_route_row_def nonempty_text_def)
  moreover have "load_fallback_destination_id (en_fallback_ok ex_enqueue_env) (en_dests ex_enqueue_env) None = Some ''siem''" by code_simp
  ultimately show ?thesis
    using failed_redaction_leaks_to_fallback [of ex_route_row "[ex_clear_event]" "[ex_route_row]" ex_enqueue_env False "''siem''" True "[]"]
    by (simp add: ex_enqueue_env_def)
qed

end
