(* ===== verification/Collection_Cycle.thy ===== *)
theory Collection_Cycle
  imports Dedupe Cursor_Store Mapping_Engine Quarantine Enrich_Applier Inflight_Cycle Route_Loading
begin

text \<open>
  One cycle of collection (\<open>_run_collection_once\<close> of \<open>collectors/pipeline.py\<close>): every event the collector yields is claimed,
  mapped, put into an envelope, checked, suppressed, enriched, matched and batched; a full batch is enriched
  remotely and handed to routing; the end of the cycle saves the cursor, flushes the matches and releases the claims
  of the events that were not handed over. The collector, the clocks and the outcomes of the writes are arguments; all
  stages are the definitions of their theories. Captures, metering, drift statistics and the sample for the editor
  do not influence the cycle and are left out.
\<close>

section \<open>Configuration and state\<close>

text \<open>What one event brings with it: the vendor's record, the id its collector extracts, the times of the commands to
  Redis in milliseconds, the clocks read on the way, whether a write to quarantine succeeds, what a remote resolution
  would answer for the batch and the world its batch is handed to.\<close>

record raw_item =
  it_raw :: pydict
  it_msg_id :: "string option"
  it_claim_at :: nat
  it_suppress_at :: "nat \<times> nat"
  it_ingest_ms :: int
  it_collected_at :: string
  it_now :: int
  it_mono :: rat
  it_flushed_at :: rat
  it_quarantine_ok :: bool
  it_remote :: "resolution option"
  it_enqueue :: enqueue_env

record cycle_cfg =
  cc_integration :: int
  cc_org :: "int option"
  cc_platform :: string
  cc_org_name :: "string option"
  cc_slug :: "string option"
  cc_geography :: "string option"
  cc_stream :: string
  cc_event_type :: string
  cc_host :: string
  cc_ttl_seconds :: int
  cc_mapping :: "(string \<times> pyval \<times> int) option"
  cc_menv :: menv
  cc_cache_size :: nat
  cc_routes :: "compiled_route list"
  cc_suppress :: bool
  cc_ocsf :: "(ocsf_registry option \<times> string) option"
  cc_ocsf_cap :: nat
  cc_kind_cap :: nat
  cc_policy :: "(compiled_policy \<times> resolution) option"
  cc_rules :: compiled_rule_set
  cc_acc :: acc_settings
  cc_float :: "string \<Rightarrow> rat option"
  cc_digest :: "string \<Rightarrow> string"
  cc_ellipsis :: string
  cc_raw_limit :: nat
  cc_org_of :: "int \<Rightarrow> int option"
  cc_error_text :: "string \<Rightarrow> string"
  cc_batch_size :: nat
  cc_flush_seconds :: rat

text \<open>\<open>cy_handed\<close> are the envelopes of the batches that were handed over, which the code counts in its metrics.\<close>

record 's cycle_state =
  cy_store :: 's
  cy_cache :: mapping_cache
  cy_unsettled :: "string list"
  cy_batch :: "pydict list"
  cy_ids :: "string list"
  cy_count :: nat
  cy_budget :: quarantine_budget
  cy_quarantine :: "quarantine_row list"
  cy_dlq :: dlq
  cy_published :: "(string \<times> pydict list) list"
  cy_shed :: "(string \<times> pydict list) list"
  cy_handed :: "(string \<times> pydict) list"
  cy_acc :: "inflight_acc option"
  cy_stats :: apply_stats
  cy_last_flush :: rat

datatype cycle_exn = Claim_Error | Mapping_Escape | Registry_Error | Enqueue_Error | Collector_Error | Vendor_Auth_Error

text \<open>What became of one event in the loop.\<close>

datatype item_outcome =
    Item_Duplicate
  | Item_Quarantined string
  | Item_Dropped
  | Item_Suppressed string
  | Item_Batched
  | Item_Raised
  | Item_Unclaimed

section \<open>Stages of one event\<close>

definition item_message_id :: "raw_item \<Rightarrow> string" where
  "item_message_id item =
     (case it_msg_id item of Some (c # m) \<Rightarrow> c # m | _ \<Rightarrow> compute_message_id (it_raw item) [])"

definition suppress_routes :: "cycle_cfg \<Rightarrow> compiled_route list" where
  "suppress_routes cfg =
     (if \<not> cc_suppress cfg then []
      else filter (\<lambda>r. nonempty_text (r_suppress_key r) \<noteq> None \<and> r_suppress_allow r > 0 \<and> \<not> r_protect_detection r) (cc_routes cfg))"

text \<open>The write goes to quarantine as long as the budget of its reason lasts.\<close>

definition quarantine_item ::
    "cycle_cfg \<Rightarrow> raw_item \<Rightarrow> string \<Rightarrow> nat \<Rightarrow> string option \<Rightarrow> int option \<Rightarrow> 's cycle_state \<Rightarrow> 's cycle_state" where
  "quarantine_item cfg item kind cap version org st =
     (case budget_ok kind cap (cy_budget st) of
        (ok, w) \<Rightarrow>
          if \<not> ok then st\<lparr>cy_budget := w\<rparr>
          else st\<lparr>cy_budget := w, cy_quarantine := snd (send_to_quarantine (cc_ellipsis cfg) (cc_raw_limit cfg) (it_now item)
                 (cc_org_of cfg) (it_quarantine_ok item)
                 \<lparr>qa_integration_id = Some (cc_integration cfg), qa_vendor = cc_platform cfg, qa_event_type = Some (cc_event_type cfg),
                  qa_raw = it_raw item, qa_error_kind = kind, qa_error_detail = Some (cc_error_text cfg kind),
                  qa_mapping_version_id = version, qa_organization_id = org\<rparr> (cy_quarantine st))\<rparr>)"

definition item_context :: "cycle_cfg \<Rightarrow> string \<Rightarrow> envelope_context" where
  "item_context cfg version =
     \<lparr>xc_vendor = cc_platform cfg, xc_integration_id = Some (cc_integration cfg), xc_customer_id = cc_org cfg,
      xc_stream = cc_stream cfg, xc_event_type = cc_event_type cfg, xc_mapping_version_id = Some version,
      xc_customer_name = cc_org_name cfg, xc_collector_host = cc_host cfg, xc_platform = None,
      xc_organization_id = cc_org cfg, xc_organization_slug = cc_slug cfg, xc_data_geography = cc_geography cfg\<rparr>"

definition item_envelope :: "cycle_cfg \<Rightarrow> raw_item \<Rightarrow> string \<Rightarrow> string \<Rightarrow> apply_result \<Rightarrow> pydict" where
  "item_envelope cfg item msg version ap =
     degraded (ap_ingest_fallback ap)
       (build_envelope (raw_or (ap_reduced_raw ap) (it_raw item)) (ap_output ap) (item_context cfg version) (Some msg) (it_collected_at item))"

datatype ocsf_outcome = Ocsf_Pass pydict | Ocsf_Quarantine | Ocsf_Drop | Ocsf_Raises

definition ocsf_stage :: "(ocsf_registry option \<times> string) option \<Rightarrow> pydict \<Rightarrow> ocsf_outcome" where
  "ocsf_stage setting envelope =
     (case setting of
        None \<Rightarrow> Ocsf_Pass envelope
      | Some (None, mode) \<Rightarrow> Ocsf_Raises
      | Some (Some reg, mode) \<Rightarrow>
          (let v = structural_gate (as_dict (dget envelope ''normalized'')) reg in
           if ov_valid v then Ocsf_Pass (label_event ''ocsf_valid'' (PBool True) envelope)
           else case ocsf_decide (ov_valid v) (ov_in_scope v) mode of
                  Act_Quarantine \<Rightarrow> Ocsf_Quarantine
                | Act_Drop \<Rightarrow> Ocsf_Drop
                | Act_Pass \<Rightarrow>
                    Ocsf_Pass (label_event ''ocsf_reason'' (PStr (reason_text (ov_reason v)))
                      (label_event ''ocsf_valid'' (if ov_in_scope v then PBool False else PNone) envelope))))"

text \<open>Local enrichment and detection in flight; neither can stop the event.\<close>

definition enrich_local :: "cycle_cfg \<Rightarrow> pydict \<Rightarrow> apply_stats \<Rightarrow> pydict \<times> apply_stats" where
  "enrich_local cfg envelope stats =
     (case cc_policy cfg of
        None \<Rightarrow> (envelope, stats)
      | Some (policy, res) \<Rightarrow> snd (enrich_apply (me_jm (cc_menv cfg)) envelope (local_rules policy) res stats))"

definition detect_inflight :: "cycle_cfg \<Rightarrow> pydict \<Rightarrow> inflight_acc option \<Rightarrow> pydict \<times> inflight_acc option" where
  "detect_inflight cfg envelope acc =
     (case acc of
        None \<Rightarrow> (envelope, None)
      | Some a \<Rightarrow>
          (let matched = evaluate_ruleset (cc_float cfg) envelope (cc_rules cfg);
               marked = (if matched = [] then envelope else label_event detection_matched_field (PBool True) envelope)
           in (marked, Some (foldl (\<lambda>a r. acc_add (cc_acc cfg) (cc_digest cfg) (cc_ellipsis cfg) r marked
                 (or_default 0 (cc_org cfg)) (Some (cc_integration cfg)) a) a matched))))"

section \<open>Handing a batch over\<close>

fun enrich_batch :: "jmespath \<Rightarrow> enrich_rule list \<Rightarrow> resolution \<Rightarrow> pydict list \<Rightarrow> apply_stats \<Rightarrow> pydict list \<times> apply_stats" where
  "enrich_batch jm rules res [] stats = ([], stats)"
| "enrich_batch jm rules res (e # es) stats =
     (let (_, e', stats1) = enrich_apply jm e rules res stats; (es', stats2) = enrich_batch jm rules res es stats1
      in (e' # es', stats2))"

text \<open>\<open>_enrich_remote_batch\<close>: without a remote rule, or when the resolution fails, the batch goes on as it is.\<close>

definition enrich_remote_batch :: "cycle_cfg \<Rightarrow> raw_item \<Rightarrow> pydict list \<Rightarrow> apply_stats \<Rightarrow> pydict list \<times> apply_stats" where
  "enrich_remote_batch cfg item batch stats =
     (case (cc_policy cfg, it_remote item) of
        (Some (policy, _), Some res) \<Rightarrow>
          if has_remote policy then enrich_batch (me_jm (cc_menv cfg)) (remote_rules policy) res batch stats else (batch, stats)
      | _ \<Rightarrow> (batch, stats))"

definition skip_reason :: "cycle_cfg \<Rightarrow> string option" where
  "skip_reason cfg = (if cc_policy cfg = None then Some ''no_policy'' else None)"

definition flush_batch :: "cycle_cfg \<Rightarrow> raw_item \<Rightarrow> 's cycle_state \<Rightarrow> cycle_exn option \<times> 's cycle_state" where
  "flush_batch cfg item st =
     (case enrich_remote_batch cfg item (cy_batch st) (cy_stats st) of
        (batch, stats) \<Rightarrow>
          (case enqueue_dispatch (it_enqueue item) batch (cc_routes cfg) (skip_reason cfg) (cy_dlq st) of
             (r, dlq') \<Rightarrow>
               (let marked = mark_skipped (it_enqueue item) (skip_reason cfg) batch;
                    st1 = st\<lparr>cy_batch := marked, cy_stats := stats, cy_dlq := dlq', cy_published := cy_published st @ pb_published r,
                      cy_shed := cy_shed st @ pb_shed r\<rparr>
                in if \<not> pb_ok r then (Some Enqueue_Error, st1)
                   else (None, st1\<lparr>cy_handed := cy_handed st @ zip (cy_ids st) marked,
                          cy_unsettled := filter (\<lambda>m. m \<notin> set (cy_ids st)) (cy_unsettled st),
                          cy_ids := [], cy_batch := [], cy_last_flush := it_flushed_at item\<rparr>))))"

definition flush_due :: "cycle_cfg \<Rightarrow> raw_item \<Rightarrow> 's cycle_state \<Rightarrow> bool" where
  "flush_due cfg item st \<longleftrightarrow> length (cy_batch st) \<ge> cc_batch_size cfg \<or> it_mono item - cy_last_flush st \<ge> cc_flush_seconds cfg"

section \<open>One event\<close>

text \<open>From the envelope to the batch: the gate of OCSF, the organisation, suppression, enrichment, detection.\<close>

definition batch_item :: "cycle_cfg \<Rightarrow> raw_item \<Rightarrow> string \<Rightarrow> pydict \<Rightarrow> 's cycle_state \<Rightarrow> item_outcome \<times> cycle_exn option \<times> 's cycle_state" where
  "batch_item cfg item msg envelope st =
     (case enrich_local cfg envelope (cy_stats st) of
        (env1, stats) \<Rightarrow>
          (case detect_inflight cfg env1 (cy_acc st) of
             (env2, acc) \<Rightarrow>
               (let st1 = st\<lparr>cy_stats := stats, cy_acc := acc, cy_batch := cy_batch st @ [env2], cy_ids := cy_ids st @ [msg],
                      cy_count := cy_count st + 1\<rparr>
                in if flush_due cfg item st1 then (Item_Batched, flush_batch cfg item st1) else (Item_Batched, None, st1))))"

definition accept_item ::
    "'s redis \<Rightarrow> cycle_cfg \<Rightarrow> raw_item \<Rightarrow> string \<Rightarrow> string \<Rightarrow> pydict \<Rightarrow> 's cycle_state \<Rightarrow> item_outcome \<times> cycle_exn option \<times> 's cycle_state" where
  "accept_item rd cfg item msg version envelope st =
     (case ocsf_stage (cc_ocsf cfg) envelope of
        Ocsf_Raises \<Rightarrow> (Item_Raised, Some Registry_Error, st)
      | Ocsf_Drop \<Rightarrow> (Item_Dropped, None, st)
      | Ocsf_Quarantine \<Rightarrow>
          (Item_Quarantined ''validate'', None, quarantine_item cfg item ''validate'' (cc_ocsf_cap cfg) (Some version) (cc_org cfg) st)
      | Ocsf_Pass env1 \<Rightarrow>
          if \<not> has_customer_id env1 then
            (Item_Quarantined ''missing_customer_id'', None,
             quarantine_item cfg item ''missing_customer_id'' (cc_kind_cap cfg) (Some version) None st)
          else (case maybe_suppress rd (fst (it_suppress_at item)) (snd (it_suppress_at item)) env1 (suppress_routes cfg) (cy_store st) of
                  (Some route, env2, s) \<Rightarrow> (Item_Suppressed route, None, st\<lparr>cy_store := s\<rparr>)
                | (None, env2, s) \<Rightarrow> batch_item cfg item msg env2 (st\<lparr>cy_store := s\<rparr>)))"

definition map_item ::
    "'s redis \<Rightarrow> cycle_cfg \<Rightarrow> raw_item \<Rightarrow> string \<Rightarrow> 's cycle_state \<Rightarrow> item_outcome \<times> cycle_exn option \<times> 's cycle_state" where
  "map_item rd cfg item msg st =
     (case cc_mapping cfg of
        None \<Rightarrow>
          (Item_Quarantined ''missing_mapping'', None, quarantine_item cfg item ''missing_mapping'' (cc_kind_cap cfg) None None st)
      | Some (version, rules, dsl) \<Rightarrow>
          (case engine_apply (cc_menv cfg) (cc_cache_size cfg) version rules (it_raw item) dsl (Some (it_ingest_ms item)) (cy_cache st) of
             (Inr (Inl (EscapeErr _)), cache) \<Rightarrow> (Item_Raised, Some Mapping_Escape, st\<lparr>cy_cache := cache\<rparr>)
           | (Inr (Inr ap), cache) \<Rightarrow>
               accept_item rd cfg item msg version (item_envelope cfg item msg version ap) (st\<lparr>cy_cache := cache\<rparr>)
           | (_, cache) \<Rightarrow>
               (Item_Quarantined ''map'', None,
                quarantine_item cfg item ''map'' (cc_kind_cap cfg) (Some version) None (st\<lparr>cy_cache := cache\<rparr>))))"

definition process_item ::
    "'s redis \<Rightarrow> cycle_cfg \<Rightarrow> raw_item \<Rightarrow> 's cycle_state \<Rightarrow> item_outcome \<times> cycle_exn option \<times> 's cycle_state" where
  "process_item rd cfg item st =
     (let msg = item_message_id item in
      case claim rd (it_claim_at item) (cc_integration cfg) msg None (Some (cc_ttl_seconds cfg)) (cy_store st) of
        (None, s) \<Rightarrow> (Item_Unclaimed, Some Claim_Error, st\<lparr>cy_store := s\<rparr>)
      | (Some False, s) \<Rightarrow> (Item_Duplicate, None, st\<lparr>cy_store := s\<rparr>)
      | (Some True, s) \<Rightarrow> map_item rd cfg item msg (st\<lparr>cy_store := s, cy_unsettled := List.insert msg (cy_unsettled st)\<rparr>))"

text \<open>The loop over what the collector yields, with the outcome of every event that was begun.\<close>

fun cycle_loop ::
    "'s redis \<Rightarrow> cycle_cfg \<Rightarrow> raw_item list \<Rightarrow> 's cycle_state \<Rightarrow> (string \<times> item_outcome) list \<times> cycle_exn option \<times> 's cycle_state" where
  "cycle_loop rd cfg [] st = ([], None, st)"
| "cycle_loop rd cfg (item # items) st =
     (case process_item rd cfg item st of
        (out, Some e, st1) \<Rightarrow> ([(item_message_id item, out)], Some e, st1)
      | (out, None, st1) \<Rightarrow>
          (case cycle_loop rd cfg items st1 of (outs, e, st2) \<Rightarrow> ((item_message_id item, out) # outs, e, st2)))"

section \<open>The cycle\<close>

text \<open>How the collector ends: normally, or with an exception, of which 401 also invalidates the token. The last argument of
  the collection is the world of the terminal flush.\<close>

datatype collector_end = Collected | Collector_Failed bool

definition collect :: "'s redis \<Rightarrow> cycle_cfg \<Rightarrow> raw_item list \<Rightarrow> collector_end \<Rightarrow> raw_item \<Rightarrow> 's cycle_state \<Rightarrow>
    (string \<times> item_outcome) list \<times> cycle_exn option \<times> 's cycle_state" where
  "collect rd cfg items fin last_world st =
     (case cycle_loop rd cfg items st of
        (outs, Some e, st1) \<Rightarrow> (outs, Some e, st1)
      | (outs, None, st1) \<Rightarrow>
          (case fin of
             Collector_Failed unauthorized \<Rightarrow> (outs, Some (if unauthorized then Vendor_Auth_Error else Collector_Error), st1)
           | Collected \<Rightarrow> if cy_batch st1 = [] then (outs, None, st1) else (outs, flush_batch cfg last_world st1)))"

text \<open>The \<open>finally\<close> block releases what was not handed over; a failure of the DEL is logged.\<close>

definition release_unsettled :: "'s redis \<Rightarrow> cycle_cfg \<Rightarrow> nat \<Rightarrow> 's cycle_state \<Rightarrow> bool \<times> 's cycle_state" where
  "release_unsettled rd cfg t st =
     (if cy_unsettled st = [] then (True, st)
      else case release_many rd t (cc_integration cfg) (cy_unsettled st) (cy_store st) of
             (r, s) \<Rightarrow> (r \<noteq> None, st\<lparr>cy_store := s\<rparr>))"

record 'k cycle_io =
  io_hot :: "'k hot"
  io_now :: int
  io_cursor_before :: "pyval option"
  io_cursor_after :: "pyval option"
  io_watermark :: "int option"
  io_capped :: bool
  io_error_text :: string
  io_release_at :: nat

text \<open>The position that is saved, by how the collection ended.\<close>

definition save_position ::
    "'k cycle_io \<Rightarrow> cycle_cfg \<Rightarrow> cycle_exn option \<Rightarrow> nat \<Rightarrow> 'k \<times> coll_table \<Rightarrow> 'k \<times> coll_table" where
  "save_position io cfg e n w =
     (case e of
        None \<Rightarrow> save_finished (io_hot io) (io_now io) (cc_integration cfg) (cc_stream cfg) (io_cursor_after io) (int n) (io_watermark io) (io_capped io) w
      | Some _ \<Rightarrow> save_failed (io_hot io) (io_now io) (cc_integration cfg) (cc_stream cfg) (io_cursor_before io) (io_error_text io) w)"

text \<open>The flush of the matches at the end of the cycle, whatever its end; without rules or organisation there is none.\<close>

definition flush_matches ::
    "('h, 'c) flush_env \<Rightarrow> int option \<Rightarrow> inflight_acc option \<Rightarrow> detection list \<times> 'h \<times> 'c \<Rightarrow> detection_emit list \<times> detection list \<times> 'h \<times> 'c" where
  "flush_matches fe org acc w =
     (case (acc, org, w) of
        (Some a, Some i, db, h, c) \<Rightarrow> (case flush_inflight fe i a db h c of (emits, wr, h', c') \<Rightarrow> (emits, wr_db wr, h', c'))
      | (_, _, db, h, c) \<Rightarrow> ([], db, h, c))"

definition start_state :: "cycle_cfg \<Rightarrow> 's \<Rightarrow> mapping_cache \<Rightarrow> quarantine_row list \<Rightarrow> dlq \<Rightarrow> rat \<Rightarrow> 's cycle_state" where
  "start_state cfg s cache rows tbl started =
     \<lparr>cy_store = s, cy_cache = cache, cy_unsettled = [], cy_batch = [], cy_ids = [], cy_count = 0, cy_budget = [],
      cy_quarantine = rows, cy_dlq = tbl, cy_published = [], cy_shed = [], cy_handed = [],
      cy_acc = (if rs_rules (cc_rules cfg) = [] then None else Some (note_rules (rs_rules (cc_rules cfg)) empty_acc)),
      cy_stats = \<lparr>as_events_touched = 0, as_hits = [], as_misses = [], as_skipped = [], as_errors = []\<rparr>, cy_last_flush = started\<rparr>"

record ('s, 'k, 'h, 'c) cycle_result =
  ry_outcomes :: "(string \<times> item_outcome) list"
  ry_exn :: "cycle_exn option"
  ry_released :: bool
  ry_state :: "'s cycle_state"
  ry_cursor :: "'k \<times> coll_table"
  ry_matches :: "detection_emit list \<times> detection list \<times> 'h \<times> 'c"

definition run_cycle ::
    "'s redis \<Rightarrow> 'k cycle_io \<Rightarrow> ('h, 'c) flush_env \<Rightarrow> cycle_cfg \<Rightarrow> raw_item list \<Rightarrow> collector_end \<Rightarrow> raw_item \<Rightarrow> 's cycle_state \<Rightarrow>
     'k \<times> coll_table \<Rightarrow> detection list \<times> 'h \<times> 'c \<Rightarrow> ('s, 'k, 'h, 'c) cycle_result" where
  "run_cycle rd io fe cfg items fin last_world st w dw =
     (case collect rd cfg items fin last_world st of
        (outs, e, st1) \<Rightarrow>
          (case release_unsettled rd cfg (io_release_at io) st1 of
             (released, st2) \<Rightarrow>
               \<lparr>ry_outcomes = outs, ry_exn = e, ry_released = released, ry_state = st2,
                ry_cursor = save_position io cfg e (cy_count st1) w,
                ry_matches = flush_matches fe (cc_org cfg) (cy_acc st1) dw\<rparr>))"

section \<open>Every claim is settled or released\<close>

lemma enrich_batch_length: "length (fst (enrich_batch jm rules res es stats)) = length es"
  by (induction es arbitrary: stats) (auto split: prod.splits, metis fst_conv)

lemma enrich_remote_length: "length (fst (enrich_remote_batch cfg item es stats)) = length es"
  by (auto simp: enrich_remote_batch_def enrich_batch_length split: option.splits prod.splits)

lemma mark_skipped_length [simp]: "length (mark_skipped env skip es) = length es"
  by (simp add: mark_skipped_def note_unenriched_def split: option.split)

lemma flush_batch_spec:
  assumes "flush_batch cfg item st = (e, st')"
  shows "cy_count st' = cy_count st \<and> length (cy_batch st') = (if e = None then 0 else length (cy_batch st)) \<and>
    cy_ids st' = (if e = None then [] else cy_ids st) \<and>
    cy_unsettled st' = (if e = None then filter (\<lambda>m. m \<notin> set (cy_ids st)) (cy_unsettled st) else cy_unsettled st) \<and>
    (\<exists>es. length es = length (cy_batch st) \<and> cy_handed st' = cy_handed st @ (if e = None then zip (cy_ids st) es else [])) \<and>
    cy_store st' = cy_store st"
proof -
  obtain es stats where b: "enrich_remote_batch cfg item (cy_batch st) (cy_stats st) = (es, stats)" by (cases "enrich_remote_batch cfg item (cy_batch st) (cy_stats st)")
  then have "length es = length (cy_batch st)" using enrich_remote_length [of cfg item "cy_batch st" "cy_stats st"] by simp
  then show ?thesis
    using assms b mark_skipped_length [of "it_enqueue item" "skip_reason cfg" es]
    by (auto simp: flush_batch_def Let_def simp del: mark_skipped_length split: prod.splits if_splits)
qed

definition claimed :: "item_outcome \<Rightarrow> bool" where
  "claimed out \<longleftrightarrow> out \<noteq> Item_Duplicate \<and> out \<noteq> Item_Unclaimed"

definition claims_inv :: "(string \<times> item_outcome) list \<Rightarrow> 's cycle_state \<Rightarrow> bool" where
  "claims_inv outs st \<longleftrightarrow>
     length (cy_ids st) = length (cy_batch st) \<and> set (cy_ids st) \<subseteq> set (cy_unsettled st) \<and>
     (\<forall>m out. (m, out) \<in> set outs \<and> claimed out \<longrightarrow> m \<in> fst ` set (cy_handed st) \<or> m \<in> set (cy_unsettled st)) \<and>
     (\<forall>m. (m, Item_Batched) \<in> set outs \<longrightarrow> m \<in> fst ` set (cy_handed st) \<or> m \<in> set (cy_ids st)) \<and>
     (\<forall>m\<in>set (cy_unsettled st). \<exists>out. (m, out) \<in> set outs \<and> claimed out) \<and>
     cy_count st = length (filter (\<lambda>x. snd x = Item_Batched) outs)"

text \<open>The fields the invariant reads.\<close>

definition claim_view :: "'s cycle_state \<Rightarrow> string list \<times> nat \<times> string list \<times> (string \<times> pydict) list \<times> nat" where
  "claim_view st = (cy_ids st, length (cy_batch st), cy_unsettled st, cy_handed st, cy_count st)"

lemma claims_inv_view: "claim_view st = claim_view st' \<Longrightarrow> claims_inv outs st = claims_inv outs st'"
  by (simp add: claims_inv_def claim_view_def)

lemma quarantine_item_view [simp]: "claim_view (quarantine_item cfg item k cap v org st) = claim_view st"
  by (simp add: quarantine_item_def claim_view_def split: prod.splits)

lemma claims_inv_claim:
  "claims_inv outs st \<Longrightarrow> claimed out \<Longrightarrow> out \<noteq> Item_Batched \<Longrightarrow>
   claim_view st' = claim_view (st\<lparr>cy_unsettled := List.insert m (cy_unsettled st)\<rparr>) \<Longrightarrow> claims_inv (outs @ [(m, out)]) st'"
  by (auto simp: claims_inv_def claim_view_def)

lemma claims_inv_noclaim:
  "claims_inv outs st \<Longrightarrow> \<not> claimed out \<Longrightarrow> claim_view st' = claim_view st \<Longrightarrow> claims_inv (outs @ [(m, out)]) st'"
  by (auto simp: claims_inv_def claim_view_def claimed_def)

lemma claims_inv_batch:
  assumes "claims_inv outs st"
    and "claim_view st1 = (cy_ids st @ [m], Suc (length (cy_batch st)), List.insert m (cy_unsettled st), cy_handed st, Suc (cy_count st))"
  shows "claims_inv (outs @ [(m, Item_Batched)]) st1"
  using assms by (auto simp: claims_inv_def claim_view_def claimed_def)

lemma zip_fst_image: "length xs = length ys \<Longrightarrow> fst ` set (zip xs ys) = set xs"
  by (metis list.set_map map_fst_zip)

lemma flush_batch_inv:
  assumes "flush_batch cfg item st = (e, st')" and "claims_inv outs st"
  shows "claims_inv outs st'"
proof (cases e)
  case None
  then obtain es where "length es = length (cy_batch st)" "cy_handed st' = cy_handed st @ zip (cy_ids st) es"
    using flush_batch_spec [OF assms(1)] by auto
  then have "fst ` set (cy_handed st') = fst ` set (cy_handed st) \<union> set (cy_ids st)"
    using assms(2) zip_fst_image [of "cy_ids st" es] by (auto simp: claims_inv_def image_Un)
  with None flush_batch_spec [OF assms(1)] assms(2) show ?thesis
    unfolding claims_inv_def by simp blast
next
  case (Some x)
  with flush_batch_spec [OF assms(1)] have "claim_view st' = claim_view st" by (auto simp: claim_view_def)
  then show ?thesis using assms(2) claims_inv_view by blast
qed

text \<open>The invariant as a condition on the result of a stage, for one stage after the other.\<close>

definition claims_post :: "(string \<times> item_outcome) list \<Rightarrow> string \<Rightarrow> item_outcome \<times> cycle_exn option \<times> 's cycle_state \<Rightarrow> bool" where
  "claims_post outs m r \<longleftrightarrow> (case r of (out, e, st) \<Rightarrow> claims_inv (outs @ [(m, out)]) st)"

definition claims_pre :: "(string \<times> item_outcome) list \<Rightarrow> string \<Rightarrow> 's cycle_state \<Rightarrow> bool" where
  "claims_pre outs m st \<longleftrightarrow>
     (\<exists>st0 :: 's cycle_state. claims_inv outs st0 \<and> claim_view st = claim_view (st0\<lparr>cy_unsettled := List.insert m (cy_unsettled st0)\<rparr>))"

lemma claims_pre_frame [simp]:
  "claims_pre outs m (st\<lparr>cy_store := s\<rparr>) \<longleftrightarrow> claims_pre outs m st" "claims_pre outs m (st\<lparr>cy_cache := c\<rparr>) \<longleftrightarrow> claims_pre outs m st"
  by (simp_all add: claims_pre_def claim_view_def)

lemma claims_post_end:
  "claims_pre outs m st \<Longrightarrow> claimed out \<Longrightarrow> out \<noteq> Item_Batched \<Longrightarrow> claim_view st' = claim_view st \<Longrightarrow> claims_post outs m (out, e, st')"
  unfolding claims_pre_def claims_post_def using claims_inv_claim by auto

lemma claims_post_stay: "claims_pre outs m st \<Longrightarrow> claimed out \<Longrightarrow> out \<noteq> Item_Batched \<Longrightarrow> claims_post outs m (out, e, st)"
  by (rule claims_post_end) simp_all

lemma claims_post_quarantine:
  "claims_pre outs m st \<Longrightarrow> claims_post outs m (Item_Quarantined k, e, quarantine_item cfg item k' cap v org st)"
  by (erule claims_post_end) (simp_all add: claimed_def)

lemma batch_item_post:
  assumes "claims_pre outs m st"
  shows "claims_post outs m (batch_item cfg item m env st)"
proof -
  obtain env1 stats where s1: "enrich_local cfg env (cy_stats st) = (env1, stats)" by (cases "enrich_local cfg env (cy_stats st)")
  obtain env2 acc where s2: "detect_inflight cfg env1 (cy_acc st) = (env2, acc)" by (cases "detect_inflight cfg env1 (cy_acc st)")
  let ?st1 = "st\<lparr>cy_stats := stats, cy_acc := acc, cy_batch := cy_batch st @ [env2], cy_ids := cy_ids st @ [m], cy_count := cy_count st + 1\<rparr>"
  have inv: "claims_inv (outs @ [(m, Item_Batched)]) ?st1"
    using assms claims_inv_batch [where ?st1.0 = ?st1] by (auto simp: claims_pre_def claim_view_def)
  obtain e st2 where f: "flush_batch cfg item ?st1 = (e, st2)" by (cases "flush_batch cfg item ?st1")
  have "claims_inv (outs @ [(m, Item_Batched)]) st2" by (rule flush_batch_inv [OF f inv])
  moreover have "batch_item cfg item m env st = (if flush_due cfg item ?st1 then (Item_Batched, e, st2) else (Item_Batched, None, ?st1))"
    using f by (simp add: batch_item_def Let_def s1 s2)
  ultimately show ?thesis using inv by (simp add: claims_post_def)
qed

lemma accept_item_post:
  assumes "claims_pre outs m st"
  shows "claims_post outs m (accept_item rd cfg item m v env st)"
  unfolding accept_item_def
  by (auto split: ocsf_outcome.split prod.split option.split
      intro!: batch_item_post claims_post_quarantine claims_post_stay simp: assms claimed_def intro: claims_post_end [OF assms])

lemma map_item_post:
  assumes "claims_pre outs m st"
  shows "claims_post outs m (map_item rd cfg item m st)"
  unfolding map_item_def
  by (auto split: option.split prod.split sum.split map_exn.split
      intro!: accept_item_post claims_post_quarantine claims_post_stay simp: assms claimed_def)

lemma process_item_inv:
  assumes "process_item rd cfg item st = (out, e, st')" and "claims_inv outs st"
  shows "claims_inv (outs @ [(item_message_id item, out)]) st'"
proof -
  let ?m = "item_message_id item"
  obtain r s where c: "claim rd (it_claim_at item) (cc_integration cfg) ?m None (Some (cc_ttl_seconds cfg)) (cy_store st) = (r, s)"
    by (cases "claim rd (it_claim_at item) (cc_integration cfg) ?m None (Some (cc_ttl_seconds cfg)) (cy_store st)")
  show ?thesis
  proof (cases "r = Some True")
    case True
    have "claims_pre outs ?m (st\<lparr>cy_store := s, cy_unsettled := List.insert ?m (cy_unsettled st)\<rparr>)"
      using assms(2) by (auto simp: claims_pre_def claim_view_def)
    from map_item_post [OF this, of rd cfg item] show ?thesis
      using assms(1) c True by (simp add: process_item_def Let_def claims_post_def)
  next
    case False
    with assms(1) c have "\<not> claimed out" "claim_view st' = claim_view st"
      by (auto simp: process_item_def Let_def claimed_def claim_view_def split: option.splits bool.splits)
    then show ?thesis using claims_inv_noclaim [OF assms(2)] by blast
  qed
qed

lemma cycle_loop_inv:
  "cycle_loop rd cfg items st = (outs, e, st') \<Longrightarrow> claims_inv outs0 st \<Longrightarrow> claims_inv (outs0 @ outs) st'"
proof (induction items arbitrary: st outs0 outs e st')
  case (Cons item items)
  obtain out e1 st1 where p: "process_item rd cfg item st = (out, e1, st1)" by (metis surj_pair)
  note inv = process_item_inv [OF p Cons.prems(2)]
  show ?case
  proof (cases e1)
    case None
    obtain outs2 e2 st2 where r: "cycle_loop rd cfg items st1 = (outs2, e2, st2)" by (metis surj_pair)
    with Cons.prems(1) p None have "outs = (item_message_id item, out) # outs2" "st' = st2" by auto
    with Cons.IH [OF r inv] show ?thesis by simp
  qed (use Cons.prems(1) p inv in auto)
qed simp

lemma collect_inv:
  assumes "collect rd cfg items fin lw st = (outs, e, st')" and "claims_inv [] st"
  shows "claims_inv outs st' \<and> (e = None \<longrightarrow> cy_batch st' = [] \<and> cy_ids st' = [])"
proof -
  obtain outs1 e1 st1 where l: "cycle_loop rd cfg items st = (outs1, e1, st1)" by (metis surj_pair)
  have inv: "claims_inv outs1 st1" using cycle_loop_inv [OF l assms(2)] by simp
  show ?thesis
  proof (cases "e1 = None \<and> fin = Collected \<and> cy_batch st1 \<noteq> []")
    case True
    with assms(1) l have f: "flush_batch cfg lw st1 = (e, st')" "outs = outs1" by (auto simp: collect_def)
    show ?thesis using flush_batch_inv [OF f(1) inv] flush_batch_spec [OF f(1)] f(2) by auto
  next
    case False
    with assms(1) l have "outs = outs1 \<and> st' = st1 \<and> (e = None \<longrightarrow> cy_batch st1 = [])"
      by (auto simp: collect_def split: option.splits collector_end.splits if_splits)
    with inv show ?thesis by (auto simp: claims_inv_def)
  qed
qed

lemma start_state_inv: "claims_inv [] (start_state cfg s cache rows tbl started)"
  by (simp add: claims_inv_def start_state_def)

lemma release_unsettled_frees:
  assumes laws: "redis_laws rd live" and rel: "release_unsettled rd cfg t0 st = (True, st')"
    and m: "m \<in> set (cy_unsettled st)" "m \<noteq> []" and t: "t0 \<le> t"
  shows "fst (claim rd t (cc_integration cfg) m days secs (cy_store st')) \<noteq> Some False"
proof -
  let ?ks = "map (dedupe_key (cc_integration cfg)) (filter (\<lambda>m. m \<noteq> []) (cy_unsettled st))"
  have ne: "cy_unsettled st \<noteq> []" "filter (\<lambda>m. m \<noteq> []) (cy_unsettled st) \<noteq> []"
    using m by (auto simp: filter_empty_conv)
  obtain u s where d: "rd_delete rd t0 ?ks (cy_store st) = (Some u, s)" "cy_store st' = s"
    using rel ne by (cases "rd_delete rd t0 ?ks (cy_store st)") (auto simp: release_unsettled_def release_many_def Let_def)
  have "live s t (dedupe_key (cc_integration cfg) m) = None"
    using redis_laws.delete_ok [OF laws d(1) t, of "dedupe_key (cc_integration cfg) m"] m by simp
  then show ?thesis
    unfolding claim_def d(2) using redis_laws.set_nx_taken [OF laws _ order_refl, of t "dedupe_key (cc_integration cfg) m" _ _ s]
    by (metis prod.collapse)
qed

lemma release_unsettled_keeps:
  "release_unsettled rd cfg t st = (ok, st') \<Longrightarrow> cy_handed st' = cy_handed st \<and> cy_published st' = cy_published st \<and>
    cy_shed st' = cy_shed st \<and> cy_count st' = cy_count st"
  by (auto simp: release_unsettled_def split: if_splits prod.splits)

section \<open>The identity of an event\<close>

definition label_of :: "string \<Rightarrow> pydict \<Rightarrow> pyval" where
  "label_of k envelope = dget (event_labels envelope) k"

lemma label_of_path: "path_get [''_centralops'', k] (PDict e) = path_get [''_centralops'', k] (PDict e') \<Longrightarrow> label_of k e = label_of k e'"
  by (cases "dget e ''_centralops''"; cases "dget e' ''_centralops''")
    (auto simp: label_of_def event_labels_def as_dict_def Let_def split: if_splits)

lemma label_of_label [simp]: "label_of k (label_event l v e) = (if k = l then v else label_of k e)"
  by (simp add: label_of_def label_event_def event_labels_def as_dict_def)

lemma label_of_degraded [simp]: "k \<noteq> ''degraded_fields'' \<Longrightarrow> label_of k (degraded ts e) = label_of k e"
  by (simp add: degraded_def)

lemma label_of_count [simp]: "k \<noteq> ''suppress_count'' \<Longrightarrow> label_of k (with_suppress_count e c) = label_of k e"
  by (simp add: with_suppress_count_def label_of_def event_labels_def as_dict_def)

lemma label_of_suppress:
  "k \<noteq> ''suppress_count'' \<Longrightarrow> maybe_suppress rd t1 t2 e rs s = (x, e', s') \<Longrightarrow> label_of k e' = label_of k e"
  by (induction rd t1 t2 e rs s rule: maybe_suppress.induct) (auto split: if_splits option.splits prod.splits)

lemma label_of_skipped: "k \<noteq> ''enrichment_skipped'' \<Longrightarrow> map (label_of k) (mark_skipped env skip es) = map (label_of k) es"
  by (auto simp: mark_skipped_def note_unenriched_def note_unenriched_one_def split: option.splits pyval.splits)

lemma label_of_ocsf: "ocsf_stage setting e = Ocsf_Pass e' \<Longrightarrow> k \<noteq> ''ocsf_valid'' \<Longrightarrow> k \<noteq> ''ocsf_reason'' \<Longrightarrow> label_of k e' = label_of k e"
  by (auto simp: ocsf_stage_def Let_def split: option.splits prod.splits if_splits ocsf_action.splits)

text \<open>The labels that identify an event and its organisation survive every stage after the envelope.\<close>

definition identity :: "pydict \<Rightarrow> pyval \<times> pyval" where
  "identity e = (label_of ''event_id'' e, label_of ''organization_id'' e)"

lemma identity_skipped: "map identity (mark_skipped env skip es) = map identity es"
  by (auto simp: identity_def mark_skipped_def note_unenriched_def note_unenriched_one_def split: option.splits pyval.splits)

lemma label_of_enrich:
  assumes "\<forall>r\<in>set rules. targets_ok r" and "enrich_apply jm e rules res stats = (t, e', stats')" and "k \<noteq> ''enrichment''" "k \<noteq> ''enrichment_tags''"
  shows "label_of k e' = label_of k e"
  by (rule label_of_path) (rule enrich_apply_frame(2) [OF assms])

definition policy_sound :: "cycle_cfg \<Rightarrow> bool" where
  "policy_sound cfg \<longleftrightarrow> (\<forall>p res. cc_policy cfg = Some (p, res) \<longrightarrow> (\<forall>r\<in>set (pol_rules p). targets_ok r))"

lemma identity_enrich:
  "\<forall>r\<in>set rules. targets_ok r \<Longrightarrow> enrich_apply jm e rules res stats = (t, e', stats') \<Longrightarrow> identity e' = identity e"
  by (simp add: identity_def label_of_enrich)

lemma identity_local:
  assumes "policy_sound cfg" and "enrich_local cfg e stats = (e', stats')"
  shows "identity e' = identity e"
proof (cases "cc_policy cfg")
  case (Some pr)
  obtain p res where p: "cc_policy cfg = Some (p, res)" using Some by (cases pr) simp
  with assms(1) have ok: "\<forall>r\<in>set (local_rules p). targets_ok r" by (auto simp: policy_sound_def local_rules_def)
  obtain t where "enrich_apply (me_jm (cc_menv cfg)) e (local_rules p) res stats = (t, e', stats')"
    using assms(2) p by (cases "enrich_apply (me_jm (cc_menv cfg)) e (local_rules p) res stats") (simp add: enrich_local_def)
  then show ?thesis by (rule identity_enrich [OF ok])
qed (use assms(2) in \<open>simp add: enrich_local_def\<close>)

lemma identity_detect: "detect_inflight cfg e acc = (e', acc') \<Longrightarrow> identity e' = identity e"
  by (auto simp: identity_def detect_inflight_def Let_def detection_matched_field_def split: option.splits if_splits)

lemma identity_enrich_batch:
  assumes "\<forall>r\<in>set rules. targets_ok r"
  shows "map identity (fst (enrich_batch jm rules res es stats)) = map identity es"
proof (induction es arbitrary: stats)
  case (Cons e es)
  obtain t e' s1 where a: "enrich_apply jm e rules res stats = (t, e', s1)" by (metis surj_pair)
  obtain es' s2 where b: "enrich_batch jm rules res es s1 = (es', s2)" by (metis surj_pair)
  show ?case using identity_enrich [OF assms a] Cons.IH [of s1] a b by simp
qed simp

lemma identity_remote:
  assumes "policy_sound cfg" and "enrich_remote_batch cfg item es stats = (es', stats')"
  shows "map identity es' = map identity es"
proof (cases "\<exists>p r res. cc_policy cfg = Some (p, r) \<and> it_remote item = Some res \<and> has_remote p")
  case True
  then obtain p r res where p: "cc_policy cfg = Some (p, r)" "it_remote item = Some res" "has_remote p" by blast
  with assms(1) have ok: "\<forall>r\<in>set (remote_rules p). targets_ok r" by (auto simp: policy_sound_def remote_rules_def)
  have "es' = fst (enrich_batch (me_jm (cc_menv cfg)) (remote_rules p) res es stats)"
    using assms(2) p by (simp add: enrich_remote_batch_def)
  then show ?thesis using identity_enrich_batch [OF ok] by simp
next
  case False
  with assms(2) show ?thesis by (auto simp: enrich_remote_batch_def split: option.splits prod.splits if_splits)
qed

lemma label_of_build: "m \<noteq> [] \<Longrightarrow> label_of ''event_id'' (build_envelope raw n ctx (Some m) t) = PStr m"
  by (cases m) (simp_all add: label_of_def compute_event_id_def)

lemma label_of_item_envelope: "m \<noteq> [] \<Longrightarrow> label_of ''event_id'' (item_envelope cfg item m v ap) = PStr m"
  by (simp add: item_envelope_def label_of_build)

lemma org_of_item_envelope: "label_of ''organization_id'' (item_envelope cfg item m v ap) = opt_int (cc_org cfg)"
  by (simp add: item_envelope_def) (simp add: label_of_def item_context_def context_init_def)

lemma has_customer_id_label: "has_customer_id e \<longleftrightarrow> label_of ''customer_id'' e \<noteq> PNone \<and> label_of ''customer_id'' e \<noteq> PStr []"
  by (simp add: has_customer_id_def label_of_def event_labels_def Let_def)

lemma has_customer_id_item [simp]: "has_customer_id (item_envelope cfg item m v ap) \<longleftrightarrow> cc_org cfg \<noteq> None"
  by (simp add: has_customer_id_label item_envelope_def) (simp add: label_of_def item_context_def)

lemma has_customer_id_ocsf: "ocsf_stage setting e = Ocsf_Pass e' \<Longrightarrow> has_customer_id e' = has_customer_id e"
  by (simp add: has_customer_id_label label_of_ocsf [where k = "''customer_id''"])

section \<open>What was handed over arrives\<close>

text \<open>An envelope of the batch carries the id it was claimed by and the organisation of the integration.\<close>

definition tagged :: "cycle_cfg \<Rightarrow> string \<Rightarrow> pydict \<Rightarrow> bool" where
  "tagged cfg m e \<longleftrightarrow> (m = [] \<or> fst (identity e) = PStr m) \<and> (\<exists>i. cc_org cfg = Some i \<and> snd (identity e) = PInt i)"

definition delivered_inv :: "cycle_cfg \<Rightarrow> raw_item set \<Rightarrow> 's cycle_state \<Rightarrow> bool" where
  "delivered_inv cfg worlds st \<longleftrightarrow>
     list_all2 (tagged cfg) (cy_ids st) (cy_batch st) \<and>
     (\<forall>(m, e)\<in>set (cy_handed st). tagged cfg m e \<and>
        (\<exists>it\<in>worlds. handed_over (it_enqueue it) (cc_routes cfg) (cc_org cfg) (cy_published st) (cy_shed st) e))"

lemma tagged_identity:
  assumes "map identity es = map identity es'"
  shows "list_all2 (tagged cfg) ms es \<longleftrightarrow> list_all2 (tagged cfg) ms es'"
proof -
  have "list_all2 (tagged cfg) ms xs \<longleftrightarrow>
      list_all2 (\<lambda>m l. (m = [] \<or> fst l = PStr m) \<and> (\<exists>i. cc_org cfg = Some i \<and> snd l = PInt i)) ms (map identity xs)" for xs
    by (simp add: list.rel_map(2) tagged_def [abs_def])
  then show ?thesis by (simp only: assms)
qed

lemma tagged_org:
  assumes "list_all2 (tagged cfg) ms es" and "x \<in> set es"
  shows "\<exists>i. cc_org cfg = Some i \<and> (\<forall>y\<in>set es. org_labelled i y)"
proof -
  have "\<exists>i. cc_org cfg = Some i \<and> org_labelled i y" if "y \<in> set es" for y
    using that assms(1) by (auto simp: tagged_def identity_def label_of_def event_labels_def org_labelled_def envelope_meta_def
        list_all2_conv_all_nth in_set_conv_nth)
  with assms(2) show ?thesis by (metis option.inject)
qed

text \<open>The fields the invariant reads.\<close>

definition delivery_view :: "'s cycle_state \<Rightarrow>
    string list \<times> pydict list \<times> (string \<times> pydict) list \<times> (string \<times> pydict list) list \<times> (string \<times> pydict list) list" where
  "delivery_view st = (cy_ids st, cy_batch st, cy_handed st, cy_published st, cy_shed st)"

lemma delivered_view: "delivery_view st' = delivery_view st \<Longrightarrow> delivered_inv cfg ws st \<Longrightarrow> delivered_inv cfg ws st'"
  by (simp add: delivered_inv_def delivery_view_def)

lemma delivery_view_frame [simp]:
  "delivery_view (st\<lparr>cy_store := s\<rparr>) = delivery_view st" "delivery_view (st\<lparr>cy_cache := c\<rparr>) = delivery_view st"
  "delivery_view (st\<lparr>cy_unsettled := u\<rparr>) = delivery_view st"
  "delivery_view (quarantine_item cfg item k cap v org st) = delivery_view st"
  by (simp_all add: delivery_view_def quarantine_item_def split: prod.splits)

lemma flush_batch_delivers:
  assumes "flush_batch cfg item st = (e, st')" and "delivered_inv cfg ws st" and "policy_sound cfg" and "item \<in> ws"
  shows "delivered_inv cfg ws st'"
proof -
  obtain es stats where b: "enrich_remote_batch cfg item (cy_batch st) (cy_stats st) = (es, stats)" by (metis surj_pair)
  obtain r dlq' where q: "enqueue_dispatch (it_enqueue item) es (cc_routes cfg) (skip_reason cfg) (cy_dlq st) = (r, dlq')" by (metis surj_pair)
  let ?marked = "mark_skipped (it_enqueue item) (skip_reason cfg) es"
  have labels: "map identity ?marked = map identity (cy_batch st)"
    using identity_remote [OF assms(3) b] by (simp add: identity_skipped)
  have tags: "list_all2 (tagged cfg) (cy_ids st) ?marked"
    using assms(2) tagged_identity [OF labels] by (simp add: delivered_inv_def)
  have old: "\<forall>(m, e)\<in>set (cy_handed st). tagged cfg m e \<and>
      (\<exists>it\<in>ws. handed_over (it_enqueue it) (cc_routes cfg) (cc_org cfg) (cy_published st @ pb_published r) (cy_shed st @ pb_shed r) e)"
    using assms(2) handed_over_mono by (fastforce simp: delivered_inv_def)
  show ?thesis
  proof (cases "pb_ok r")
    case True
    have "handed_over (it_enqueue item) (cc_routes cfg) (cc_org cfg) (cy_published st @ pb_published r) (cy_shed st @ pb_shed r) x"
      if x: "x \<in> set ?marked" for x
    proof -
      obtain i where i: "cc_org cfg = Some i" "\<forall>y\<in>set ?marked. org_labelled i y" using tagged_org [OF tags x] by blast
      show ?thesis
        using enqueue_dispatch_hands_over [OF _ x i(2), of "cc_routes cfg" "cy_dlq st"] q True i(1) by (simp add: handed_over_prepend)
    qed
    then have "\<forall>(m, x)\<in>set (zip (cy_ids st) ?marked). tagged cfg m x \<and>
        (\<exists>it\<in>ws. handed_over (it_enqueue it) (cc_routes cfg) (cc_org cfg) (cy_published st @ pb_published r) (cy_shed st @ pb_shed r) x)"
      using tags assms(4) by (auto simp: list_all2_iff dest: set_zip_rightD)
    moreover have "st' = st\<lparr>cy_batch := [], cy_stats := stats, cy_dlq := dlq', cy_published := cy_published st @ pb_published r,
        cy_shed := cy_shed st @ pb_shed r, cy_handed := cy_handed st @ zip (cy_ids st) ?marked,
        cy_unsettled := filter (\<lambda>m. m \<notin> set (cy_ids st)) (cy_unsettled st), cy_ids := [], cy_last_flush := it_flushed_at item\<rparr>"
      using assms(1) b q True by (auto simp: flush_batch_def Let_def)
    ultimately show ?thesis using old by (auto simp: delivered_inv_def)
  next
    case False
    then have "st' = st\<lparr>cy_batch := ?marked, cy_stats := stats, cy_dlq := dlq', cy_published := cy_published st @ pb_published r,
        cy_shed := cy_shed st @ pb_shed r\<rparr>"
      using assms(1) b q by (simp add: flush_batch_def Let_def)
    with tags old show ?thesis by (simp add: delivered_inv_def)
  qed
qed

definition delivered_post :: "cycle_cfg \<Rightarrow> raw_item set \<Rightarrow> item_outcome \<times> cycle_exn option \<times> 's cycle_state \<Rightarrow> bool" where
  "delivered_post cfg ws r \<longleftrightarrow> (case r of (out, e, st) \<Rightarrow> delivered_inv cfg ws st)"

lemma delivered_post_end [simp]: "delivered_post cfg ws (out, e, st) = delivered_inv cfg ws st"
  by (simp add: delivered_post_def)

lemma batch_item_delivers:
  assumes inv: "delivered_inv cfg ws st" and ok: "policy_sound cfg" "item \<in> ws" and tag: "tagged cfg m env"
  shows "delivered_post cfg ws (batch_item cfg item m env st)"
proof -
  obtain env1 stats where s1: "enrich_local cfg env (cy_stats st) = (env1, stats)" by (metis surj_pair)
  obtain env2 acc where s2: "detect_inflight cfg env1 (cy_acc st) = (env2, acc)" by (metis surj_pair)
  let ?st1 = "st\<lparr>cy_stats := stats, cy_acc := acc, cy_batch := cy_batch st @ [env2], cy_ids := cy_ids st @ [m], cy_count := cy_count st + 1\<rparr>"
  have "tagged cfg m env2" using tag identity_local [OF ok(1) s1] identity_detect [OF s2] by (simp add: tagged_def)
  with inv have inv1: "delivered_inv cfg ws ?st1" by (auto simp: delivered_inv_def intro: list_all2_appendI)
  obtain e st2 where f: "flush_batch cfg item ?st1 = (e, st2)" by (metis surj_pair)
  have "batch_item cfg item m env st = (if flush_due cfg item ?st1 then (Item_Batched, e, st2) else (Item_Batched, None, ?st1))"
    using f by (simp add: batch_item_def Let_def s1 s2)
  with inv1 flush_batch_delivers [OF f inv1 ok] show ?thesis by simp
qed

lemma accept_item_delivers:
  assumes inv: "delivered_inv cfg ws st" and ok: "policy_sound cfg" "item \<in> ws" and tag: "m = [] \<or> label_of ''event_id'' env = PStr m"
    and org: "label_of ''organization_id'' env = opt_int (cc_org cfg)" "has_customer_id env \<longleftrightarrow> cc_org cfg \<noteq> None"
  shows "delivered_post cfg ws (accept_item rd cfg item m v env st)"
proof (cases "ocsf_stage (cc_ocsf cfg) env")
  case (Ocsf_Pass env1)
  obtain x env2 s where sup: "maybe_suppress rd (fst (it_suppress_at item)) (snd (it_suppress_at item)) env1 (suppress_routes cfg) (cy_store st) = (x, env2, s)"
    by (metis surj_pair)
  have "label_of ''event_id'' env2 = label_of ''event_id'' env" "label_of ''organization_id'' env2 = label_of ''organization_id'' env"
    by (simp_all add: label_of_ocsf [OF Ocsf_Pass] label_of_suppress [OF _ sup])
  then have "tagged cfg m env2" if "has_customer_id env1"
    using tag org that has_customer_id_ocsf [OF Ocsf_Pass] by (auto simp: tagged_def identity_def opt_int_def)
  then have "delivered_post cfg ws (batch_item cfg item m env2 (st\<lparr>cy_store := s\<rparr>))" if "has_customer_id env1"
    using that by - (rule batch_item_delivers [OF delivered_view [OF _ inv] ok]; simp)
  then show ?thesis
    using Ocsf_Pass sup by (auto simp: accept_item_def split: option.split intro!: delivered_view [OF _ inv])
qed (auto simp: accept_item_def intro!: delivered_view [OF _ inv])

lemma map_item_delivers:
  assumes inv: "delivered_inv cfg ws st" and ok: "policy_sound cfg" "item \<in> ws"
  shows "delivered_post cfg ws (map_item rd cfg item m st)"
proof -
  have view: "delivered_inv cfg ws st'" if "delivery_view st' = delivery_view st" for st'
    by (rule delivered_view [OF that inv])
  have "delivered_post cfg ws (accept_item rd cfg item m v (item_envelope cfg item m v ap) (st\<lparr>cy_cache := c\<rparr>))" for v ap c
    by (rule accept_item_delivers) (simp_all add: view ok org_of_item_envelope, cases "m = []", simp_all add: label_of_item_envelope)
  then show ?thesis
    unfolding map_item_def by (auto split: option.split prod.split sum.split map_exn.split intro!: view)
qed

lemma process_item_delivers:
  assumes "process_item rd cfg item st = (out, e, st')" and inv: "delivered_inv cfg ws st" and ok: "policy_sound cfg" "item \<in> ws"
  shows "delivered_inv cfg ws st'"
proof -
  have view: "delivered_inv cfg ws st2" if "delivery_view st2 = delivery_view st" for st2
    by (rule delivered_view [OF that inv])
  have "delivered_post cfg ws (process_item rd cfg item st)"
    unfolding process_item_def Let_def by (auto split: option.split prod.split bool.split intro!: view map_item_delivers ok simp: delivery_view_def)
  then show ?thesis by (simp add: assms(1))
qed

lemma cycle_loop_delivers:
  "cycle_loop rd cfg items st = (outs, e, st') \<Longrightarrow> delivered_inv cfg ws st \<Longrightarrow> policy_sound cfg \<Longrightarrow> set items \<subseteq> ws \<Longrightarrow> delivered_inv cfg ws st'"
proof (induction items arbitrary: st outs e st')
  case (Cons item items)
  obtain out e1 st1 where p: "process_item rd cfg item st = (out, e1, st1)" by (metis surj_pair)
  have inv: "delivered_inv cfg ws st1" by (rule process_item_delivers [OF p]) (use Cons.prems in auto)
  obtain outs2 e2 st2 where r: "cycle_loop rd cfg items st1 = (outs2, e2, st2)" by (metis surj_pair)
  show ?case using Cons.IH [OF r inv] Cons.prems p r inv by (cases e1) auto
qed simp

lemma collect_delivers:
  assumes "collect rd cfg items fin lw st = (outs, e, st')" and "delivered_inv cfg ws st" and "policy_sound cfg" and "set (lw # items) \<subseteq> ws"
  shows "delivered_inv cfg ws st'"
proof -
  obtain outs1 e1 st1 where l: "cycle_loop rd cfg items st = (outs1, e1, st1)" by (metis surj_pair)
  have inv: "delivered_inv cfg ws st1" by (rule cycle_loop_delivers [OF l]) (use assms in auto)
  obtain e2 st2 where f: "flush_batch cfg lw st1 = (e2, st2)" by (metis surj_pair)
  have "delivered_inv cfg ws st2" by (rule flush_batch_delivers [OF f inv]) (use assms in auto)
  with inv show ?thesis
    using assms(1) l f by (auto simp: collect_def split: option.splits collector_end.splits if_splits)
qed

lemma start_state_delivered: "delivered_inv cfg ws (start_state cfg s cache rows tbl started)"
  by (simp add: delivered_inv_def start_state_def)

section \<open>Properties\<close>

text \<open>C1: No event is lost in silence. However the cycle ends, an event it claimed is in a batch that was handed over, or the next
  collection of the same event is not refused as a duplicate, or the release of the \<open>finally\<close> block, in which its claim was
  included, failed in Redis. Only in that last case, which the code logs and swallows, can the claim stand until it expires.\<close>

theorem cycle_no_silent_loss:
  assumes laws: "redis_laws rd live"
    and cycle: "run_cycle rd io fe cfg items fin lw (start_state cfg s cache rows tbl started) w dw = r"
    and seen: "(m, out) \<in> set (ry_outcomes r)" "claimed out" "m \<noteq> []"
    and later: "io_release_at io \<le> t"
  shows "m \<in> fst ` set (cy_handed (ry_state r)) \<or>
    fst (claim rd t (cc_integration cfg) m None ttl (cy_store (ry_state r))) \<noteq> Some False \<or>
    (\<not> ry_released r \<and>
     (case collect rd cfg items fin lw (start_state cfg s cache rows tbl started) of (_, _, st1) \<Rightarrow>
        m \<in> set (cy_unsettled st1) \<and>
        fst (release_many rd (io_release_at io) (cc_integration cfg) (cy_unsettled st1) (cy_store st1)) = None))"
proof -
  obtain outs e st1 where c: "collect rd cfg items fin lw (start_state cfg s cache rows tbl started) = (outs, e, st1)"
    by (metis surj_pair)
  obtain ok st2 where f: "release_unsettled rd cfg (io_release_at io) st1 = (ok, st2)" by (metis surj_pair)
  have r: "ry_outcomes r = outs" "ry_state r = st2" "ry_released r = ok" using cycle c f by (auto simp: run_cycle_def)
  have "claims_inv outs st1" using collect_inv [OF c start_state_inv] by simp
  then consider "m \<in> fst ` set (cy_handed st1)" | (un) "m \<in> set (cy_unsettled st1)"
    using seen r(1) by (auto simp: claims_inv_def)
  then show ?thesis
  proof cases
    case 1
    then show ?thesis using release_unsettled_keeps [OF f] r(2) by simp
  next
    case un
    show ?thesis
    proof (cases ok)
      case True
      then show ?thesis using release_unsettled_frees [OF laws f [unfolded True [THEN eqTrueI]] un seen(3) later] r(2) by simp
    next
      case False
      then have "fst (release_many rd (io_release_at io) (cc_integration cfg) (cy_unsettled st1) (cy_store st1)) = None"
        using f by (auto simp: release_unsettled_def split: if_splits prod.splits)
      then show ?thesis using False un r(3) c by simp
    qed
  qed
qed

text \<open>C2: What is reported as collected arrives. When the cycle ends without an exception, every event that entered a batch was
  handed over with the id it was claimed by and the organisation of the integration: each copy that routing makes of it for
  that organisation was published, or shed by a destination whose policy drops new batches and whose queue had reached its
  ceiling, unless it is an event of the product itself that its own gate rejects. A policy of enrichment must have compiled.\<close>

theorem cycle_delivers:
  assumes cycle: "run_cycle rd io fe cfg items fin lw (start_state cfg s cache rows tbl started) w dw = r"
    and policy: "\<forall>p res. cc_policy cfg = Some (p, res) \<longrightarrow> (\<exists>fp rg raw. compile_policy (me_jm (cc_menv cfg)) fp rg raw = Inr p)"
    and success: "ry_exn r = None" and batched: "(m, Item_Batched) \<in> set (ry_outcomes r)" "m \<noteq> []"
  shows "\<exists>e. (m, e) \<in> set (cy_handed (ry_state r)) \<and> dget (event_labels e) ''event_id'' = PStr m \<and>
    dget (event_labels e) ''organization_id'' = opt_int (cc_org cfg) \<and>
    (\<exists>it\<in>set (lw # items). handed_over (it_enqueue it) (cc_routes cfg) (cc_org cfg) (cy_published (ry_state r)) (cy_shed (ry_state r)) e)"
proof -
  obtain outs e st1 where c: "collect rd cfg items fin lw (start_state cfg s cache rows tbl started) = (outs, e, st1)"
    by (metis surj_pair)
  obtain ok st2 where f: "release_unsettled rd cfg (io_release_at io) st1 = (ok, st2)" by (metis surj_pair)
  have r: "ry_outcomes r = outs" "ry_state r = st2" "e = None" using cycle success c f by (auto simp: run_cycle_def)
  have "policy_sound cfg" using policy policy_targets [OF _ order_refl] by (fastforce simp: policy_sound_def)
  from collect_delivers [OF c start_state_delivered this order_refl]
  have d: "delivered_inv cfg (set (lw # items)) st1" .
  have "claims_inv outs st1 \<and> cy_ids st1 = []" using collect_inv [OF c start_state_inv] r(3) by simp
  with batched(1) r(1) have "m \<in> fst ` set (cy_handed st1)" by (force simp: claims_inv_def)
  then obtain x where "(m, x) \<in> set (cy_handed st1)" by auto
  with d batched(2) release_unsettled_keeps [OF f] r(2) show ?thesis
    by (force simp: delivered_inv_def tagged_def identity_def label_of_def opt_int_def)
qed

section \<open>An example\<close>

definition ex_item :: "string \<Rightarrow> raw_item" where
  "ex_item m = \<lparr>it_raw = [(''a'', PInt 1)], it_msg_id = Some m, it_claim_at = 5, it_suppress_at = (6, 7), it_ingest_ms = 1,
     it_collected_at = ''t'', it_now = 8, it_mono = 0, it_flushed_at = 0, it_quarantine_ok = True, it_remote = None,
     it_enqueue = ex_enqueue_env\<rparr>"

definition ex_cycle_cfg :: "(string \<times> pyval \<times> int) option \<Rightarrow> cycle_cfg" where
  "ex_cycle_cfg mapping = \<lparr>cc_integration = 7, cc_org = Some 3, cc_platform = ''okta'', cc_org_name = None, cc_slug = None,
     cc_geography = None, cc_stream = ''logs'', cc_event_type = ''login'', cc_host = ''h'', cc_ttl_seconds = 86400,
     cc_mapping = mapping, cc_menv = pe_menv ex_reprocess_env, cc_cache_size = 4, cc_routes = [], cc_suppress = False,
     cc_ocsf = None, cc_ocsf_cap = 10, cc_kind_cap = 10, cc_policy = None, cc_rules = \<lparr>rs_rules = [], rs_share_paths = False\<rparr>,
     cc_acc = fe_settings demo_flush_env, cc_float = (\<lambda>_. None), cc_digest = (\<lambda>s. s), cc_ellipsis = ''..'', cc_raw_limit = 1000,
     cc_org_of = (\<lambda>_. Some 3), cc_error_text = (\<lambda>k. k), cc_batch_size = 10, cc_flush_seconds = 5\<rparr>"

definition ex_cycle_io :: "hot_mem cycle_io" where
  "ex_cycle_io = \<lparr>io_hot = mem_hot, io_now = 1, io_cursor_before = None, io_cursor_after = Some (PStr ''c''), io_watermark = None,
     io_capped = False, io_error_text = ''e'', io_release_at = 20\<rparr>"

definition ex_cycle :: "(string \<times> pyval \<times> int) option \<Rightarrow> (ttl_store, hot_mem, hash_db, counter_db) cycle_result" where
  "ex_cycle mapping = run_cycle ttl_redis ex_cycle_io demo_flush_env (ex_cycle_cfg mapping) [ex_item ''m1''] Collected
     (ex_item []) (start_state (ex_cycle_cfg mapping) ts_empty [] [] [] 0) (([], []), []) ([], ([], \<lambda>_. None), ([], \<lambda>_. None))"

lemma quarantine_item_keeps [simp]:
  "cy_unsettled (quarantine_item cfg item k cap v org st) = cy_unsettled st" "cy_batch (quarantine_item cfg item k cap v org st) = cy_batch st"
  "cy_handed (quarantine_item cfg item k cap v org st) = cy_handed st" "cy_store (quarantine_item cfg item k cap v org st) = cy_store st"
  by (simp_all add: quarantine_item_def split: prod.splits)

lemmas ex_cycle_eval = ex_cycle_def run_cycle_def collect_def process_item_def item_message_id_def claim_def map_item_def
  ex_item_def ex_cycle_cfg_def start_state_def ts_eval ts_live_def ts_put_def

lemma ex_cycle_quarantines:
  "ry_outcomes (ex_cycle None) = [(''m1'', Item_Quarantined ''missing_mapping'')]"
  "ry_released (ex_cycle None)" "cy_handed (ry_state (ex_cycle None)) = []"
  by (simp_all add: ex_cycle_eval release_unsettled_def release_many_def Let_def split: prod.split)

definition ex_rules :: pyval where
  "ex_rules = PList [PDict [(''target'', PStr ''normalized.a''), (''source'', PStr ''a'')]]"

lemma ex_applied: "\<exists>ap cache. engine_apply (pe_menv ex_reprocess_env) 4 ''v1'' ex_rules [(''a'', PInt 1)] 1 (Some 1) [] = (Inr (Inr ap), cache)"
proof -
  have "case fst (engine_apply (pe_menv ex_reprocess_env) 4 ''v1'' ex_rules [(''a'', PInt 1)] 1 (Some 1) []) of Inr (Inr _) \<Rightarrow> True | _ \<Rightarrow> False"
    by code_simp
  then show ?thesis
    by (cases "engine_apply (pe_menv ex_reprocess_env) 4 ''v1'' ex_rules [(''a'', PInt 1)] 1 (Some 1) []") (auto split: sum.splits)
qed

lemma ex_enqueue_ok: "pb_ok (fst (enqueue_dispatch ex_enqueue_env batch [] skip tbl))"
  by (simp add: enqueue_dispatch_def enqueue_routed_def Let_def publish_all_ok ex_enqueue_env_def)

lemma flush_batch_ok:
  assumes "\<And>b sk tbl. pb_ok (fst (enqueue_dispatch (it_enqueue item) b (cc_routes cfg) sk tbl))"
  shows "\<exists>st'. flush_batch cfg item st = (None, st')"
  using assms by (auto simp: flush_batch_def Let_def split: prod.split) (metis fst_conv)

lemma ex_cycle_batches:
  "ry_outcomes (ex_cycle (Some (''v1'', ex_rules, 1))) = [(''m1'', Item_Batched)] \<and> ry_exn (ex_cycle (Some (''v1'', ex_rules, 1))) = None"
proof -
  obtain ap cache where ap: "engine_apply (pe_menv ex_reprocess_env) 4 ''v1'' ex_rules [(''a'', PInt 1)] 1 (Some 1) [] = (Inr (Inr ap), cache)"
    using ex_applied by blast
  have f: "\<exists>st'. flush_batch (ex_cycle_cfg (Some (''v1'', ex_rules, 1))) (ex_item []) st = (None, st')" for st :: "ttl_store cycle_state"
    by (rule flush_batch_ok) (simp add: ex_item_def ex_cycle_cfg_def ex_enqueue_ok)
  obtain st where l: "cycle_loop ttl_redis (ex_cycle_cfg (Some (''v1'', ex_rules, 1))) [ex_item ''m1'']
      (start_state (ex_cycle_cfg (Some (''v1'', ex_rules, 1))) ts_empty [] [] [] 0) = ([(''m1'', Item_Batched)], None, st)"
    by (simp add: ex_cycle_eval ap accept_item_def ocsf_stage_def suppress_routes_def batch_item_def enrich_local_def
        detect_inflight_def flush_due_def Let_def)
  obtain st' where "flush_batch (ex_cycle_cfg (Some (''v1'', ex_rules, 1))) (ex_item []) st = (None, st')" using f by blast
  with l show ?thesis by (simp add: ex_cycle_def run_cycle_def collect_def split: prod.split)
qed

theorem cycle_no_silent_loss_witness:
  "fst (claim ttl_redis 30 7 ''m1'' None None (cy_store (ry_state (ex_cycle None)))) \<noteq> Some False"
  using cycle_no_silent_loss [OF ts.redis_laws_axioms ex_cycle_def [symmetric], of "''m1''" "Item_Quarantined ''missing_mapping''" None 30 None]
    ex_cycle_quarantines by (simp add: claimed_def ex_cycle_io_def ex_cycle_cfg_def)

theorem cycle_delivers_witness:
  "\<exists>e. (''m1'', e) \<in> set (cy_handed (ry_state (ex_cycle (Some (''v1'', ex_rules, 1))))) \<and>
    dget (event_labels e) ''event_id'' = PStr ''m1''"
  using cycle_delivers [OF ex_cycle_def [symmetric], of "Some (''v1'', ex_rules, 1)" "''m1''"] ex_cycle_batches
  by (auto simp: ex_cycle_cfg_def)

end
