(* ===== verification/Routing_Reach.thy ===== *)
theory Routing_Reach
  imports Routing_Correct
begin

text \<open>
  The write-time guards of the routing engine: the detector of unreachable routes is sound when no
  condition writes one label under two names, and the two ways in which it is not; the validator of
  conditions on the detection mark; the canary gate.
\<close>

section \<open>Enumerable clauses\<close>

lemma compare_eq: "compare_values ''eq'' v x \<longleftrightarrow> v \<noteq> PNone \<and> py_eq v x"
  by (simp add: compare_values_def)

lemma compare_in_list: "compare_values ''in'' v (PList xs) \<longleftrightarrow> v \<noteq> PNone \<and> list_ex (\<lambda>x. py_eq v x) xs"
  by (simp add: compare_values_def catch_type_error_def)

text \<open>A clause with a value set admits exactly the present values that equal one of the set.\<close>

lemma clause_value_set_matches:
  assumes "clause_value_set spec = Inr (Some vs)"
  shows "match_clause spec v \<longleftrightarrow> v \<noteq> PNone \<and> list_ex (\<lambda>x. py_eq v x) vs"
proof (cases spec)
  case (PDict d)
  with assms obtain op1 val where d: "d = [(op1, val)]"
    by (auto simp: clause_value_set_def split: list.splits)
  with PDict assms have "op1 = ''eq'' \<and> vs = [val] \<or> op1 = ''in'' \<and> val = PList vs"
    by (auto simp: clause_value_set_def split: if_splits pyval.splits)
  with PDict d show ?thesis
    by (auto simp: match_clause_def compare_eq compare_in_list)
qed (use assms in \<open>auto simp: clause_value_set_def match_clause_def compare_eq split: if_splits\<close>)

lemma value_subset_matches:
  "value_subset bs as \<Longrightarrow> list_ex (\<lambda>x. py_eq v x) bs \<Longrightarrow> list_ex (\<lambda>x. py_eq v x) as"
  unfolding value_subset_def list_all_iff list_ex_iff by (meson py_eq_trans)

section \<open>Subsumption\<close>

text \<open>A condition that names each label once keeps all its clauses under normalisation.\<close>

definition single_named :: "pydict \<Rightarrow> bool" where
  "single_named c \<longleftrightarrow> distinct (map (canonical_field \<circ> fst) c)"

lemma norm_fold:
  "distinct (map (canonical_field \<circ> fst) c) \<Longrightarrow>
   (\<forall>f\<in>set (map (canonical_field \<circ> fst) c). map_of d f = None) \<Longrightarrow>
   foldl (\<lambda>d (f, s). AList.update (canonical_field f) s d) d c = d @ map (\<lambda>(f, s). (canonical_field f, s)) c"
proof (induction c arbitrary: d)
  case (Cons p c)
  obtain f s where p: "p = (f, s)" by (cases p)
  have upd: "AList.update (canonical_field f) s d = d @ [(canonical_field f, s)]"
    using Cons.prems(2) by (induction d) (auto simp: p split: if_splits)
  have "foldl (\<lambda>d (f, s). AList.update (canonical_field f) s d) (d @ [(canonical_field f, s)]) c =
    (d @ [(canonical_field f, s)]) @ map (\<lambda>(f, s). (canonical_field f, s)) c"
    using Cons.prems by (intro Cons.IH) (auto simp: p map_add_def map_of_append image_iff split: option.splits)
  then show ?case by (simp add: p upd)
qed simp

lemma norm_condition_single:
  "single_named c \<Longrightarrow> norm_condition c = map (\<lambda>(f, s). (canonical_field f, s)) c"
  by (simp add: norm_condition_def single_named_def norm_fold)

lemma matches_norm:
  assumes "single_named c"
  shows "matches c labels \<longleftrightarrow> (\<forall>(f, s)\<in>set (norm_condition c). match_clause s (dget labels f))"
  unfolding norm_condition_single [OF assms] by (auto simp: matches_def list_all_iff)

lemma subsumes_loop_Cons:
  "subsumes_loop b ((f, a_spec) # rest) = Inr True \<Longrightarrow>
   (\<exists>vs bs b_spec. clause_value_set a_spec = Inr (Some vs) \<and> map_of b f = Some b_spec \<and>
      clause_value_set b_spec = Inr (Some bs) \<and> value_subset bs vs) \<and> subsumes_loop b rest = Inr True"
  by (auto simp: bind_result_def split: sum.splits option.splits if_splits)

lemma subsumes_loop_clause:
  assumes "subsumes_loop b as = Inr True" and "(f, a_spec) \<in> set as"
  obtains vs bs b_spec where "clause_value_set a_spec = Inr (Some vs)" "map_of b f = Some b_spec"
    "clause_value_set b_spec = Inr (Some bs)" "value_subset bs vs"
proof -
  have "\<exists>vs bs b_spec. clause_value_set a_spec = Inr (Some vs) \<and> map_of b f = Some b_spec \<and>
      clause_value_set b_spec = Inr (Some bs) \<and> value_subset bs vs"
    using assms
  proof (induction as)
    case (Cons p as)
    then show ?case using subsumes_loop_Cons [of b "fst p" "snd p" as] by auto
  qed simp
  with that show thesis by blast
qed

lemma subsumes_matches:
  assumes s: "subsumes ca cb = Inr True" and "single_named ca" "single_named cb" and m: "matches cb labels"
  shows "matches ca labels"
  unfolding matches_norm [OF assms(2)]
proof (clarify)
  fix f a_spec
  assume "(f, a_spec) \<in> set (norm_condition ca)"
  from subsumes_loop_clause [OF s [unfolded subsumes_def] this] obtain vs bs b_spec where
    c: "clause_value_set a_spec = Inr (Some vs)" "map_of (norm_condition cb) f = Some b_spec"
       "clause_value_set b_spec = Inr (Some bs)" "value_subset bs vs" .
  have "match_clause b_spec (dget labels f)"
    using m [unfolded matches_norm [OF assms(3)]] map_of_SomeD [OF c(2)] by auto
  then show "match_clause a_spec (dget labels f)"
    using clause_value_set_matches [OF c(1)] clause_value_set_matches [OF c(3)] value_subset_matches [OF c(4)]
    by blast
qed

section \<open>Shadowed routes\<close>

text \<open>A route the detector lists has an earlier enabled final full route whose condition subsumes its own.\<close>

definition shadows :: "compiled_route \<Rightarrow> compiled_route \<Rightarrow> bool" where
  "shadows e r \<longleftrightarrow> r_enabled e \<and> r_is_final e \<and> r_canary_percent e \<ge> 100 \<and>
     subsumes (r_condition e) (r_condition r) = Inr True"

lemma any_subsumes_True:
  "any_subsumes cond es = Inr True \<Longrightarrow> \<exists>e\<in>set es. subsumes (r_condition e) cond = Inr True"
  by (induction es) (auto simp: bind_result_Inr split: if_splits)

lemma find_unreachable_loop_shadow:
  assumes "find_unreachable_loop seen un rs = Inr ids" and "rid \<in> set ids"
    and "\<forall>e\<in>set seen. r_enabled e \<and> r_is_final e \<and> r_canary_percent e \<ge> 100"
  shows "rid \<in> set un \<or> (\<exists>pre r post. rs = pre @ r # post \<and> r_id r = rid \<and>
           (\<exists>e\<in>set seen \<union> set pre. shadows e r))"
  using assms
proof (induction seen un rs rule: find_unreachable_loop.induct)
  case (1 seen un)
  then show ?case by simp
next
  case (2 seen un r rs)
  have tail: "rid \<in> set un \<or> (\<exists>pre r' post. r # rs = pre @ r' # post \<and> r_id r' = rid \<and>
           (\<exists>e\<in>set seen \<union> set pre. shadows e r'))"
    if "rid \<in> set un \<or> (\<exists>pre r' post. rs = pre @ r' # post \<and> r_id r' = rid \<and>
           (\<exists>e\<in>set seen \<union> {r} \<union> set pre. shadows e r'))"
    using that by (fastforce intro: exI [of _ "r # _"])
  show ?case
  proof (cases "r_enabled r")
    case False
    with 2 show ?thesis by (intro tail) auto
  next
    case en: True
    with "2.prems"(1) obtain sh where sh: "any_subsumes (r_condition r) seen = Inr sh"
      by (auto simp: bind_result_Inr)
    show ?thesis
    proof (cases sh)
      case True
      then have "any_subsumes (r_condition r) seen = Inr True" using sh by simp
      from any_subsumes_True [OF this] "2.prems"(3)
      have "\<exists>e\<in>set seen. shadows e r" by (auto simp: shadows_def)
      moreover have "rid \<in> set (un @ [r_id r]) \<or> (\<exists>pre r' post. rs = pre @ r' # post \<and> r_id r' = rid \<and>
           (\<exists>e\<in>set seen \<union> set pre. shadows e r'))"
        using "2.IH"(2) [of sh] en sh True "2.prems" by simp
      ultimately show ?thesis using tail by (fastforce intro: exI [of _ "[]"])
    next
      case False
      with en sh "2.prems" "2.IH"(3) [of sh] "2.IH"(4) [of sh] show ?thesis
        by (intro tail) (auto split: if_splits)
    qed
  qed
qed

text \<open>What an earlier final route takes, a later one does not.\<close>

lemma up_to_first_stop:
  "p e \<Longrightarrow> e \<in> set pre \<Longrightarrow> up_to_first p (pre @ post) = up_to_first p pre"
  by (induction pre) auto

lemma shadowed_not_taken:
  assumes "shadows e r" "e \<in> set pre" "single_named (r_condition e)" "single_named (r_condition r)"
    and "route_applies labels r"
  shows "taken_routes labels (pre @ r # post) = taken_routes labels pre"
proof -
  have "matches (r_condition e) labels"
    using assms subsumes_matches by (auto simp: shadows_def route_applies_def)
  then have "e \<in> set (filter (route_applies labels) pre)" "route_stops e"
    using assms(1,2) by (auto simp: shadows_def route_applies_def route_stops_def canary_pass_def)
  from up_to_first_stop [of route_stops, OF this(2,1)] show ?thesis by (simp add: taken_routes_def)
qed

section \<open>Properties\<close>

text \<open>the detector of unreachable routes has no false positives when every condition writes each label
  under one name: a route it lists takes no event at all, whatever the labels are.\<close>

theorem find_unreachable_sound:
  assumes found: "find_unreachable ordered = Inr ids" and rid: "rid \<in> set ids"
    and ids: "distinct (map r_id ordered)"
    and single: "\<forall>r\<in>set ordered. single_named (r_condition r)"
  shows "rid \<notin> er_matched_route_ids (evaluate_event labels ordered)"
proof -
  from find_unreachable_loop_shadow [OF found [unfolded find_unreachable_def] rid] obtain pre r post e where
    o: "ordered = pre @ r # post" "r_id r = rid" "e \<in> set pre" "shadows e r" by auto
  have "rid \<notin> r_id ` set (taken_routes labels ordered)"
  proof (cases "route_applies labels r")
    case True
    have "taken_routes labels ordered = taken_routes labels pre"
      using shadowed_not_taken [OF o(4,3) _ _ True] single o(1,3) by simp
    then have "set (taken_routes labels ordered) \<subseteq> set pre"
      using up_to_first_subset [of route_stops "filter (route_applies labels) pre"]
      by (auto simp: taken_routes_def)
    with ids o(1,2) show ?thesis by auto
  next
    case False
    have "set (taken_routes labels ordered) \<subseteq> set (filter (route_applies labels) ordered)"
      unfolding taken_routes_def by (rule up_to_first_subset)
    with False ids o(1,2) show ?thesis by auto
  qed
  then show ?thesis by (simp add: evaluate_event_eq routing_spec_def Let_def)
qed

definition ex_route :: "string \<Rightarrow> int \<Rightarrow> pydict \<Rightarrow> compiled_route" where
  "ex_route rid prio cond = \<lparr>r_id = rid, r_name = rid, r_priority = prio, r_condition = cond,
     r_action = ''route'', r_destination_ids = [''d''], r_is_final = True, r_enabled = True,
     r_canary_percent = 100, r_protect_detection = True, r_sample_percent = 100, r_suppress_key = None,
     r_suppress_allow = 0, r_suppress_window_s = 30, r_redaction = [], r_drop_raw = False\<rparr>"

lemmas reach_eval = find_unreachable_def subsumes_def norm_condition_def canonical_field_def
  field_aliases_def clause_value_set_def set_hashable_def value_subset_def ex_route_def

theorem find_unreachable_sound_witness:
  "''b'' \<notin> er_matched_route_ids (evaluate_event [(''vendor'', PStr ''x'')]
     [ex_route ''a'' 1 [(''vendor'', PDict [(''in'', PList [PStr ''x'', PStr ''y''])])],
      ex_route ''b'' 2 [(''vendor'', PStr ''x'')]])"
proof (rule find_unreachable_sound)
  show "find_unreachable
     [ex_route ''a'' 1 [(''vendor'', PDict [(''in'', PList [PStr ''x'', PStr ''y''])])],
      ex_route ''b'' 2 [(''vendor'', PStr ''x'')]] = Inr [''b'']"
    by (simp add: reach_eval)
qed (simp_all add: ex_route_def single_named_def)

text \<open>with both spellings of the tenant label in one accepted condition the detector is wrong: the
  normalised condition keeps only the last clause, so a route that can match nothing is taken to
  shadow a route that does take events.\<close>

theorem find_unreachable_alias_false_positive:
  defines "rs \<equiv> [ex_route ''a'' 1 [(''organization_id'', PInt 1), (''org_id'', PInt 2)],
                 ex_route ''b'' 2 [(''organization_id'', PInt 2)]]"
  shows "validate_condition (PDict [(''organization_id'', PInt 1), (''org_id'', PInt 2)]) = Inr () \<and>
         find_unreachable rs = Inr [''b''] \<and>
         er_matched_route_ids (evaluate_event [(''organization_id'', PInt 2)] rs) = {''b''}"
proof -
  have "validate_condition (PDict [(''organization_id'', PInt 1), (''org_id'', PInt 2)]) = Inr ()"
    by (simp add: validate_condition_def clause_error_def validate_clause_def canonical_field_def
        field_aliases_def allowed_fields_def boolean_fields_def detection_matched_field_def)
  moreover have "find_unreachable rs = Inr [''b'']"
    by (simp add: rs_def reach_eval)
  moreover have "er_matched_route_ids (evaluate_event [(''organization_id'', PInt 2)] rs) = {''b''}"
    by (simp add: rs_def evaluate_event_def ex_route_def matches_def match_clause_def compare_values_def
        canonical_field_def field_aliases_def dget_def canary_pass_def)
  ultimately show ?thesis by blast
qed

text \<open>a condition the validator accepts can make the detector raise: an \<open>eq\<close> with a JSON object is put
  into a set outside the \<open>try\<close> block that protects the other branches, so an enabled route that follows
  a final route with such a condition makes the whole check fail, whatever its own condition is.\<close>

theorem find_unreachable_unhashable_eq:
  defines "cond \<equiv> [(''vendor'', PDict [(''eq'', PDict [(''a'', PInt 1)])])]"
  shows "validate_condition (PDict cond) = Inr () \<and>
         find_unreachable [ex_route ''a'' 1 cond, ex_route ''b'' 2 other] = Inl ()"
proof -
  have "validate_condition (PDict cond) = Inr ()"
    by (simp add: cond_def validate_condition_def clause_error_def validate_clause_def canonical_field_def
        field_aliases_def allowed_fields_def boolean_fields_def detection_matched_field_def
        generic_op_error_def allowed_ops_def)
  moreover have "find_unreachable [ex_route ''a'' 1 cond, ex_route ''b'' 2 other] = Inl ()"
    by (simp add: cond_def reach_eval)
  ultimately show ?thesis by blast
qed

text \<open>a condition on the detection mark that the validator accepts is never vacuous: a clause of one
  operator tells a marked event from an unmarked one, so it is neither a filter that never matches nor
  one that matches everything.\<close>

theorem detection_clause_discriminates:
  assumes valid: "validate_condition (PDict [(detection_matched_field, spec)]) = Inr ()"
    and one_op: "case spec of PDict ops \<Rightarrow> length ops = 1 | _ \<Rightarrow> True"
  shows "matches [(detection_matched_field, spec)] [(detection_matched_field, PBool True)] \<noteq>
         matches [(detection_matched_field, spec)] []"
proof -
  have cf: "canonical_field detection_matched_field = detection_matched_field"
    by (simp add: canonical_field_def field_aliases_def detection_matched_field_def)
  have v: "validate_clause (detection_matched_field, spec) = Inr ()"
    using valid by (auto simp: validate_condition_def clause_error_def split: sum.splits)
  have "reject_unmatchable_boolean detection_matched_field spec = Inr ()"
    using v by (auto simp: validate_clause_def cf boolean_fields_def bind_result_Inr split: if_splits)
  moreover have "match_clause spec (PBool True) \<noteq> match_clause spec PNone"
  proof (cases spec)
    case (PDict ops)
    with one_op obtain op1 val where o: "ops = [(op1, val)]"
      by (cases ops) auto
    from v PDict o have g: "generic_op_error detection_matched_field (op1, val) = None"
      by (auto simp: validate_clause_def bind_result_Inr split: if_splits option.splits)
    from calculation PDict o have b: "boolean_op_error detection_matched_field (op1, val) = None"
      by (auto simp: reject_unmatchable_boolean_def split: option.splits)
    from g b have "op1 = ''eq'' \<and> val = PBool True \<or> op1 = ''ne'' \<and> val = PBool True \<or>
      op1 = ''exists'' \<and> is_PBool val \<or>
      (op1 = ''in'' \<or> op1 = ''nin'') \<and> (\<exists>vs. val = PList vs \<and> vs \<noteq> [] \<and> \<not> list_ex (\<lambda>v. v \<noteq> PBool True) vs)"
      by (auto simp: generic_op_error_def boolean_op_error_def allowed_ops_def ordering_ops_def
          split: if_splits pyval.splits)
    then show ?thesis
    proof (elim disjE conjE exE)
      fix vs assume "val = PList vs" "vs \<noteq> []" "\<not> list_ex (\<lambda>v. v \<noteq> PBool True) vs" "op1 = ''in''"
      then show ?thesis using PDict o
        by (cases vs) (auto simp: match_clause_def compare_values_def catch_type_error_def)
    next
      fix vs assume "val = PList vs" "vs \<noteq> []" "\<not> list_ex (\<lambda>v. v \<noteq> PBool True) vs" "op1 = ''nin''"
      then show ?thesis using PDict o
        by (cases vs) (auto simp: match_clause_def compare_values_def catch_type_error_def)
    qed (use PDict o in \<open>auto simp: match_clause_def compare_values_def split: pyval.splits\<close>)
  qed (use calculation in \<open>auto simp: reject_unmatchable_boolean_def match_clause_def compare_values_def split: if_splits\<close>)
  ultimately show ?thesis by (simp add: matches_def cf dget_def)
qed

theorem detection_clause_discriminates_witness:
  "matches [(detection_matched_field, PDict [(''exists'', PBool False)])] [(detection_matched_field, PBool True)] \<noteq>
   matches [(detection_matched_field, PDict [(''exists'', PBool False)])] []"
  by (rule detection_clause_discriminates)
     (simp_all add: validate_condition_def clause_error_def validate_clause_def canonical_field_def
        field_aliases_def allowed_fields_def boolean_fields_def detection_matched_field_def
        generic_op_error_def allowed_ops_def reject_unmatchable_boolean_def boolean_op_error_def ordering_ops_def)

text \<open>raising the canary percentage of a route never takes an event out of the canary, 100 admits
  every event and 0 none.\<close>

theorem canary_pass_monotone:
  "(canary_pass p event_id \<and> p \<le> q \<longrightarrow> canary_pass q event_id) \<and>
   canary_pass 100 event_id \<and> \<not> canary_pass 0 event_id"
  by (auto simp: canary_pass_def split: if_splits)

theorem canary_pass_monotone_witness:
  "canary_pass 100 ''e1'' \<and> canary_pass 200 ''e1'' \<and> \<not> canary_pass 0 ''e1''"
  using canary_pass_monotone [of 100 "''e1''" 200] by simp

end
