(* ===== verification/Circuit_Breaker.thy ===== *)
theory Circuit_Breaker
  imports Redis_Client
begin

text \<open>
  The per-destination circuit breaker, \<open>collectors/circuit_breaker.py\<close>, over the shared Redis store: reading its
  configuration, the check before a send with its half-open probe, and the recording of successes and
  failures. Every \<open>await\<close> of the code is a command at its own time. The last part runs these
  operations in any number of worker processes whose commands interleave.

  The gauge the code exports is the first component of the results of the recording functions; \<open>None\<close>
  is the branch that catches a Redis error and exports nothing.
\<close>

section \<open>Configuration\<close>

record breaker_config =
  bc_failure_threshold :: int
  bc_cooldown_s :: nat
  bc_window_s :: nat

definition breaker_defaults :: breaker_config where
  "breaker_defaults = \<lparr>bc_failure_threshold = 5, bc_cooldown_s = 30, bc_window_s = 60\<rparr>"

text \<open>\<open>dict(raw)\<close>: a mapping, or a list of pairs (a two-character string and a two-key dictionary are pairs
  of their characters and keys); \<open>None\<close> is the exception for anything else.\<close>

definition dict_pair :: "pyval \<Rightarrow> (pyval \<times> pyval) option" where
  "dict_pair v = (case v of
      PList [k, x] \<Rightarrow> if hashable k then Some (k, x) else None
    | PStr [a, b] \<Rightarrow> Some (PStr [a], PStr [b])
    | PDict [(a, _), (b, _)] \<Rightarrow> Some (PStr a, PStr b)
    | _ \<Rightarrow> None)"

definition dict_of :: "pyval \<Rightarrow> (pyval \<times> pyval) list option" where
  "dict_of v = (case v of
      PDict d \<Rightarrow> Some (map (\<lambda>(k, x). (PStr k, x)) d)
    | PList xs \<Rightarrow> those (map dict_pair xs)
    | _ \<Rightarrow> None)"

text \<open>\<open>(delivery or {}).get("breaker", {}) or {}\<close>.\<close>

definition breaker_raw :: "pydict option \<Rightarrow> pyval" where
  "breaker_raw delivery =
     (let v = dget_default (case delivery of None \<Rightarrow> [] | Some d \<Rightarrow> d) ''breaker'' (PDict [])
      in if truthy v then v else PDict [])"

text \<open>The validated model \<open>BreakerConfig\<close> is a parameter: \<open>None\<close> is its validation error. \<open>Inl ()\<close> is the
  exception that escapes: the handler evaluates \<open>dict(raw)\<close> again for its log line.\<close>

definition breaker_cfg ::
  "((pyval \<times> pyval) list \<Rightarrow> breaker_config option) \<Rightarrow> pydict option \<Rightarrow> unit + breaker_config" where
  "breaker_cfg validate delivery =
     (case dict_of (breaker_raw delivery) of
        None \<Rightarrow> Inl ()
      | Some d \<Rightarrow> (case validate d of None \<Rightarrow> Inr breaker_defaults | Some bc \<Rightarrow> Inr bc))"

section \<open>Operations\<close>

definition key_fail :: "string \<Rightarrow> string" where
  "key_fail destination_id = ''breaker:'' @ destination_id @ '':fail''"

definition key_open :: "string \<Rightarrow> string" where
  "key_open destination_id = ''breaker:'' @ destination_id @ '':open''"

definition key_probe :: "string \<Rightarrow> string" where
  "key_probe destination_id = ''breaker:'' @ destination_id @ '':probe''"

datatype breaker_outcome = AllowClosed | AllowProbe | AllowFailOpen | BreakerOpen

definition breaker_check ::
  "'s redis \<Rightarrow> nat \<Rightarrow> nat \<Rightarrow> string \<Rightarrow> nat \<Rightarrow> 's \<Rightarrow> breaker_outcome \<times> 's" where
  "breaker_check rd t1 t2 destination_id probe_ttl_s s =
     (case rd_exists rd t1 (key_open destination_id) s of
        (None, s1) \<Rightarrow> (AllowFailOpen, s1)
      | (Some False, s1) \<Rightarrow> (AllowClosed, s1)
      | (Some True, s1) \<Rightarrow>
          (case rd_set_nx rd t2 (key_probe destination_id) ''1'' probe_ttl_s s1 of
             (None, s2) \<Rightarrow> (AllowFailOpen, s2)
           | (Some True, s2) \<Rightarrow> (AllowProbe, s2)
           | (Some False, s2) \<Rightarrow> (BreakerOpen, s2)))"

definition record_success :: "'s redis \<Rightarrow> nat \<Rightarrow> string \<Rightarrow> 's \<Rightarrow> nat option \<times> 's" where
  "record_success rd t destination_id s =
     (case rd_delete rd t [key_fail destination_id, key_open destination_id, key_probe destination_id] s of
        (None, s') \<Rightarrow> (None, s')
      | (Some _, s') \<Rightarrow> (Some 0, s'))"

definition record_failure ::
  "'s redis \<Rightarrow> nat \<Rightarrow> nat \<Rightarrow> string \<Rightarrow> breaker_config \<Rightarrow> 's \<Rightarrow> nat option \<times> 's" where
  "record_failure rd t1 t2 destination_id bc s =
     (case rd_incr_expire rd t1 (key_fail destination_id) (bc_window_s bc) s of
        (None, s1) \<Rightarrow> (None, s1)
      | (Some fail_count, s1) \<Rightarrow>
          if fail_count \<ge> bc_failure_threshold bc then
            (case rd_set rd t2 (key_open destination_id) ''1'' (bc_cooldown_s bc) s1 of
               (None, s2) \<Rightarrow> (None, s2)
             | (Some _, s2) \<Rightarrow> (Some 1, s2))
          else (Some 0, s1))"

definition check_for_config ::
  "'s redis \<Rightarrow> ((pyval \<times> pyval) list \<Rightarrow> breaker_config option) \<Rightarrow> nat \<Rightarrow> nat \<Rightarrow> string \<Rightarrow> pydict option \<Rightarrow> 's \<Rightarrow>
   (unit + breaker_outcome) \<times> 's" where
  "check_for_config rd validate t1 t2 destination_id delivery s =
     (case breaker_cfg validate delivery of
        Inl e \<Rightarrow> (Inl e, s)
      | Inr bc \<Rightarrow> (case breaker_check rd t1 t2 destination_id (bc_cooldown_s bc) s of (r, s') \<Rightarrow> (Inr r, s')))"

definition record_success_for_config :: "'s redis \<Rightarrow> nat \<Rightarrow> string \<Rightarrow> 's \<Rightarrow> nat option \<times> 's" where
  "record_success_for_config rd t destination_id s = record_success rd t destination_id s"

definition record_failure_for_config ::
  "'s redis \<Rightarrow> ((pyval \<times> pyval) list \<Rightarrow> breaker_config option) \<Rightarrow> nat \<Rightarrow> nat \<Rightarrow> string \<Rightarrow> pydict option \<Rightarrow> 's \<Rightarrow>
   (unit + nat option) \<times> 's" where
  "record_failure_for_config rd validate t1 t2 destination_id delivery s =
     (case breaker_cfg validate delivery of
        Inl e \<Rightarrow> (Inl e, s)
      | Inr bc \<Rightarrow> (case record_failure rd t1 t2 destination_id bc s of (g, s') \<Rightarrow> (Inr g, s')))"

section \<open>Keys\<close>

lemma breaker_keys_distinct [simp]:
  "key_fail d \<noteq> key_open e" "key_open d \<noteq> key_fail e" "key_fail d \<noteq> key_probe e" "key_probe d \<noteq> key_fail e"
  "key_open d \<noteq> key_probe e" "key_probe d \<noteq> key_open e"
proof -
  have neq: "last a \<noteq> last b \<Longrightarrow> a \<noteq> b" for a b :: string by auto
  show "key_fail d \<noteq> key_open e" "key_open d \<noteq> key_fail e" "key_fail d \<noteq> key_probe e"
    "key_probe d \<noteq> key_fail e" "key_open d \<noteq> key_probe e" "key_probe d \<noteq> key_open e"
    by (rule neq, simp add: key_fail_def key_open_def key_probe_def)+
qed

lemma breaker_keys_inj [simp]:
  "key_fail d = key_fail e \<longleftrightarrow> d = e" "key_open d = key_open e \<longleftrightarrow> d = e" "key_probe d = key_probe e \<longleftrightarrow> d = e"
  by (simp_all add: key_fail_def key_open_def key_probe_def)

section \<open>The breaker on a lawful store\<close>

context redis_laws
begin

lemma check_outcome:
  assumes "breaker_check rd t1 t2 d ttl s = (r, s')" "t1 \<le> t2"
  shows "r = BreakerOpen \<Longrightarrow> live s t1 (key_open d) \<noteq> None \<and> live s t2 (key_probe d) \<noteq> None"
    and "r = AllowProbe \<Longrightarrow> live s t1 (key_open d) \<noteq> None \<and> live s t2 (key_probe d) = None"
    and "r = AllowClosed \<Longrightarrow> live s t1 (key_open d) = None"
proof -
  obtain e s1 where e: "rd_exists rd t1 (key_open d) s = (e, s1)" by fastforce
  have l: "live s1 t2 (key_probe d) = live s t2 (key_probe d)" "e = None \<or> e = Some (live s t1 (key_open d) \<noteq> None)"
    using exists_law [OF e assms(2)] exists_law [OF e order.refl] by blast+
  obtain p s2 where p: "rd_set_nx rd t2 (key_probe d) ''1'' ttl s1 = (p, s2)" by fastforce
  have q: "p = Some True \<Longrightarrow> live s1 t2 (key_probe d) = None" "p = Some False \<Longrightarrow> live s1 t2 (key_probe d) \<noteq> None"
    using set_nx_ok [of t2 _ _ _ s1] set_nx_taken [of t2 _ _ _ s1] p by blast+
  show "r = BreakerOpen \<Longrightarrow> live s t1 (key_open d) \<noteq> None \<and> live s t2 (key_probe d) \<noteq> None"
    "r = AllowProbe \<Longrightarrow> live s t1 (key_open d) \<noteq> None \<and> live s t2 (key_probe d) = None"
    "r = AllowClosed \<Longrightarrow> live s t1 (key_open d) = None"
    using assms(1) e p l q by (auto simp: breaker_check_def split: option.splits bool.splits)
qed

end

section \<open>Consecutive failures\<close>

fun failure_run ::
  "'s redis \<Rightarrow> string \<Rightarrow> breaker_config \<Rightarrow> (nat \<times> nat) list \<Rightarrow> 's \<Rightarrow> nat option list \<times> 's" where
  "failure_run rd d bc [] s = ([], s)"
| "failure_run rd d bc ((t1, t2) # ts) s =
     (case record_failure rd t1 t2 d bc s of (g, s1) \<Rightarrow>
      (case failure_run rd d bc ts s1 of (gs, s2) \<Rightarrow> (g # gs, s2)))"

text \<open>Each failure comes before the window that the previous one opened has ended.\<close>

fun within_window :: "nat \<Rightarrow> (nat \<times> nat) list \<Rightarrow> bool" where
  "within_window w [] = True"
| "within_window w [(t1, t2)] = (t1 \<le> t2)"
| "within_window w ((t1, t2) # (u1, u2) # ts) =
     (t1 \<le> t2 \<and> t2 \<le> u1 \<and> u1 < t1 + 1000 * w \<and> within_window w ((u1, u2) # ts))"

context redis_laws
begin

lemma record_failure_step:
  assumes f: "record_failure rd t1 t2 d bc s = (Some g, s')" and t: "t1 \<le> t2"
  defines "n \<equiv> num_or_zero (live s t1 (key_fail d)) + 1"
  shows "g = (if n \<ge> bc_failure_threshold bc then 1 else 0)"
    and "t2 \<le> t' \<Longrightarrow> live s' t' (key_fail d) = (if t' < t1 + 1000 * bc_window_s bc then Some (RNum n) else None)"
    and "g = 1 \<Longrightarrow> t2 \<le> t' \<Longrightarrow> t' < t2 + 1000 * bc_cooldown_s bc \<Longrightarrow> live s' t' (key_open d) \<noteq> None"
    and "g = 0 \<Longrightarrow> t2 \<le> t' \<Longrightarrow> live s' t' (key_open d) = live s t' (key_open d)"
proof -
  obtain m s1 where i: "rd_incr_expire rd t1 (key_fail d) (bc_window_s bc) s = (Some m, s1)"
    using f by (cases "rd_incr_expire rd t1 (key_fail d) (bc_window_s bc) s")
      (auto simp: record_failure_def split: option.splits)
  have m: "m = n" using incr_expire_ok [OF i order.refl] by (simp add: n_def)
  have l1: "live s1 t'' k = (if k = key_fail d then (if t'' < t1 + 1000 * bc_window_s bc then Some (RNum n) else None)
       else live s t'' k)" if "t2 \<le> t''" for t'' k
    using incr_expire_ok [OF i, of t'' k] t that by (simp add: m)
  show "g = (if n \<ge> bc_failure_threshold bc then 1 else 0)"
    using f i m by (auto simp: record_failure_def split: option.splits prod.splits)
  consider (opened) u where "rd_set rd t2 (key_open d) ''1'' (bc_cooldown_s bc) s1 = (Some u, s')" "g = 1"
    | (closed) "s' = s1" "g = 0"
    using f i m by (auto simp: record_failure_def split: option.splits prod.splits if_splits)
  then show "t2 \<le> t' \<Longrightarrow> live s' t' (key_fail d) = (if t' < t1 + 1000 * bc_window_s bc then Some (RNum n) else None)"
    and "g = 1 \<Longrightarrow> t2 \<le> t' \<Longrightarrow> t' < t2 + 1000 * bc_cooldown_s bc \<Longrightarrow> live s' t' (key_open d) \<noteq> None"
    and "g = 0 \<Longrightarrow> t2 \<le> t' \<Longrightarrow> live s' t' (key_open d) = live s t' (key_open d)"
    by (cases; simp add: set_ok l1)+
qed

lemma failure_run_gauges:
  assumes "failure_run rd d bc ts s = (gs, s')" "None \<notin> set gs" "within_window (bc_window_s bc) ts"
    and "ts \<noteq> [] \<longrightarrow> num_or_zero (live s (fst (hd ts)) (key_fail d)) = c"
  shows "gs = map (\<lambda>i. Some (if c + int i + 1 \<ge> bc_failure_threshold bc then 1 else 0)) [0 ..< length ts]"
  using assms
proof (induction ts arbitrary: s gs c)
  case (Cons p ts)
  obtain t1 t2 where p: "p = (t1, t2)" by (cases p)
  obtain g s1 gs1 where r: "record_failure rd t1 t2 d bc s = (g, s1)" "failure_run rd d bc ts s1 = (gs1, s')"
      "gs = g # gs1"
    using Cons.prems(1) by (auto simp: p split: prod.splits)
  then obtain h where h: "g = Some h" "None \<notin> set gs1" using Cons.prems(2) by (cases g) auto
  have t: "t1 \<le> t2" using Cons.prems(3) by (cases ts) (auto simp: p)
  note st = record_failure_step [OF r(1) [unfolded h(1)] t]
  have c: "num_or_zero (live s t1 (key_fail d)) = c" using Cons.prems(4) by (simp add: p)
  have "gs1 = map (\<lambda>i. Some (if (c + 1) + int i + 1 \<ge> bc_failure_threshold bc then 1 else 0)) [0 ..< length ts]"
  proof (rule Cons.IH [OF r(2) h(2)])
    show "within_window (bc_window_s bc) ts" using Cons.prems(3) by (cases ts) (auto simp: p)
    show "ts \<noteq> [] \<longrightarrow> num_or_zero (live s1 (fst (hd ts)) (key_fail d)) = c + 1"
      using Cons.prems(3) st(2) c by (cases ts) (auto simp: p num_or_zero_def)
  qed
  then show ?case
    unfolding r(3) h(1) using st(1) c
    by (simp add: upt_conv_Cons map_Suc_upt [symmetric] ac_simps del: upt_Suc)
qed simp

end

section \<open>Many workers\<close>

text \<open>What a worker does with the breaker, and the commands the operations of the code send for it.\<close>

datatype breaker_op = Op_Check nat nat | Op_Success nat | Op_Failure nat nat

fun breaker_log :: "(string \<Rightarrow> breaker_config) \<Rightarrow> answers \<Rightarrow> string \<Rightarrow> breaker_op \<Rightarrow> redis_cmd list" where
  "breaker_log cfg an d (Op_Check t1 t2) = snd (breaker_check (recording an) t1 t2 d (bc_cooldown_s (cfg d)) [])"
| "breaker_log cfg an d (Op_Success t) = snd (record_success (recording an) t d [])"
| "breaker_log cfg an d (Op_Failure t1 t2) = snd (record_failure (recording an) t1 t2 d (cfg d) [])"

text \<open>Run on a store, an operation is the trace of the commands it sends.\<close>

lemma check_is_trace:
  assumes "breaker_check rd t1 t2 d (bc_cooldown_s (cfg d)) s = (r, s')" "now \<le> t1" "t1 \<le> t2"
  shows "\<exists>an now'. fst (breaker_check (recording an) t1 t2 d (bc_cooldown_s (cfg d)) []) = r \<and>
    redis_trace rd (now, s) (breaker_log cfg an d (Op_Check t1 t2)) (now', s')"
proof -
  obtain e s1 where e: "rd_exists rd t1 (key_open d) s = (e, s1)" by fastforce
  obtain p s2 where p: "rd_set_nx rd t2 (key_probe d) ''1'' (bc_cooldown_s (cfg d)) s1 = (p, s2)" by fastforce
  note tr1 = trace_cons [OF step_exists [OF assms(2) e] trace_nil]
  note tr2 = trace_cons [OF step_exists [OF assms(2) e] trace_cons [OF step_set_nx [OF assms(3) p] trace_nil]]
  show ?thesis
  proof (cases "e = Some True")
    case True
    with assms(1) e p tr2 show ?thesis
      by (intro exI [of _ "constant_answers e p None None None None None None"] exI [of _ t2])
         (auto simp: breaker_check_def split: option.splits bool.splits)
  next
    case False
    with assms(1) e tr1 show ?thesis
      by (intro exI [of _ "constant_answers e None None None None None None None"] exI [of _ t1])
         (auto simp: breaker_check_def split: option.splits bool.splits)
  qed
qed

lemma success_is_trace:
  assumes "record_success rd t d s = (g, s')" "now \<le> t"
  shows "redis_trace rd (now, s) (breaker_log cfg an d (Op_Success t)) (t, s')"
proof -
  obtain r where "rd_delete rd t [key_fail d, key_open d, key_probe d] s = (r, s')"
    using assms(1) by (auto simp: record_success_def split: prod.splits option.splits)
  from trace_cons [OF step_delete [OF assms(2) this] trace_nil] show ?thesis
    by (simp add: record_success_def split: option.split)
qed

lemma failure_is_trace:
  assumes "record_failure rd t1 t2 d (cfg d) s = (g, s')" "now \<le> t1" "t1 \<le> t2"
  shows "\<exists>an now'. redis_trace rd (now, s) (breaker_log cfg an d (Op_Failure t1 t2)) (now', s')"
proof -
  obtain r s1 where i: "rd_incr_expire rd t1 (key_fail d) (bc_window_s (cfg d)) s = (r, s1)" by fastforce
  obtain u s2 where o: "rd_set rd t2 (key_open d) ''1'' (bc_cooldown_s (cfg d)) s1 = (u, s2)" by fastforce
  note tr1 = trace_cons [OF step_incr_expire [OF assms(2) i] trace_nil]
  note tr2 = trace_cons [OF step_incr_expire [OF assms(2) i] trace_cons [OF step_set [OF assms(3) o] trace_nil]]
  show ?thesis
  proof (cases "\<exists>n. r = Some n \<and> n \<ge> bc_failure_threshold (cfg d)")
    case True
    with assms(1) i o tr2 show ?thesis
      by (intro exI [of _ "constant_answers None None u None None None r None"] exI [of _ t2])
         (auto simp: record_failure_def split: option.splits)
  next
    case False
    with assms(1) i tr1 show ?thesis
      by (intro exI [of _ "constant_answers None None None None None None r None"] exI [of _ t1])
         (auto simp: record_failure_def split: option.splits)
  qed
qed

text \<open>A check that allows a probe took the token with its last command; of all commands of the breaker only the reset
  after a delivery to the destination ends its token.\<close>

lemma probe_takes_token:
  "breaker_check (recording an) t1 t2 d ttl [] = (AllowProbe, cs @ [c]) \<Longrightarrow> c = RSetNx t2 (key_probe d) ''1'' ttl (Some True)"
  by (auto simp: breaker_check_def split: option.splits bool.splits)

lemma breaker_log_keeps_probe:
  "c \<in> set (breaker_log cfg an e op) \<Longrightarrow> e = d \<longrightarrow> (\<forall>t. op \<noteq> Op_Success t) \<Longrightarrow> \<not> ends_token (key_probe d) v c"
  by (cases op) (auto simp: breaker_check_def record_success_def record_failure_def split: option.splits bool.splits if_splits)

section \<open>Properties\<close>

text \<open>the check before a send is fail-open and exact. When a Redis command it issues fails the send is
  allowed; otherwise the send is allowed when the open flag is dead, allowed as a probe when the flag is
  alive and the probe token is free, and refused only when both are alive.\<close>

theorem breaker_check_contract:
  assumes laws: "redis_laws rd live" and t: "t1 \<le> t2"
  shows "fst (breaker_check rd t1 t2 d ttl s) =
    (case rd_exists rd t1 (key_open d) s of
       (None, _) \<Rightarrow> AllowFailOpen
     | (Some _, s1) \<Rightarrow>
         if live s t1 (key_open d) = None then AllowClosed
         else if fst (rd_set_nx rd t2 (key_probe d) ''1'' ttl s1) = None then AllowFailOpen
         else if live s t2 (key_probe d) = None then AllowProbe
         else BreakerOpen)"
proof -
  obtain e s1 where e: "rd_exists rd t1 (key_open d) s = (e, s1)" by fastforce
  obtain p s2 where p: "rd_set_nx rd t2 (key_probe d) ''1'' ttl s1 = (p, s2)" by fastforce
  obtain r s' where r: "breaker_check rd t1 t2 d ttl s = (r, s')" by fastforce
  have ex: "e = None \<or> e = Some (live s t1 (key_open d) \<noteq> None)"
    using redis_laws.exists_law [OF laws e order.refl] by blast
  note o = redis_laws.check_outcome [OF laws r t]
  have rr: "r = (case e of None \<Rightarrow> AllowFailOpen | Some False \<Rightarrow> AllowClosed
      | Some True \<Rightarrow> (case p of None \<Rightarrow> AllowFailOpen | Some True \<Rightarrow> AllowProbe | Some False \<Rightarrow> BreakerOpen))"
    using r e p by (auto simp: breaker_check_def split: option.splits bool.splits)
  show ?thesis
  proof (cases e)
    case None
    then show ?thesis using rr by (simp add: e r)
  next
    case (Some b)
    then have b: "b = (live s t1 (key_open d) \<noteq> None)" using ex by simp
    show ?thesis
    proof (cases b)
      case False
      then show ?thesis using rr Some b by (simp add: e r)
    next
      case True
      then have "r = (case p of None \<Rightarrow> AllowFailOpen | Some True \<Rightarrow> AllowProbe | Some False \<Rightarrow> BreakerOpen)"
        using rr Some by simp
      then show ?thesis using True Some b o(1,2) by (cases p) (auto simp: e p r split: bool.splits)
    qed
  qed
qed

theorem breaker_check_contract_witness:
  "fst (breaker_check ttl_redis 5 6 ''d'' 30 ts_empty) = AllowClosed"
  using breaker_check_contract [OF ts.redis_laws_axioms, where ?t1.0 = 5 and ?t2.0 = 6 and s = ts_empty and d = "''d''" and ttl = 30]
  by (simp add: ts_eval ts_live_def)

text \<open>the breaker opens exactly at the threshold. In a run of failures in which every failure comes
  within the window of the previous one and no Redis command fails, starting from an expired counter,
  the \<open>i\<close>-th recording opens the breaker when \<open>i\<close> is at least the threshold and leaves it alone before.\<close>

theorem breaker_opens_at_threshold:
  assumes laws: "redis_laws rd live"
    and run: "failure_run rd d bc ts s = (gauges, s')" and no_error: "None \<notin> set gauges"
    and window: "within_window (bc_window_s bc) ts"
    and fresh: "ts \<noteq> [] \<longrightarrow> live s (fst (hd ts)) (key_fail d) = None"
  shows "gauges = map (\<lambda>i. Some (if int i + 1 \<ge> bc_failure_threshold bc then 1 else 0)) [0 ..< length ts]"
  using redis_laws.failure_run_gauges [OF laws run no_error window, of 0] fresh
  by (auto simp: num_or_zero_def)

definition ex_failures :: "(nat \<times> nat) list" where
  "ex_failures = [(0, 1), (50000, 50001), (100000, 100001), (150000, 150001), (200000, 200001)]"

lemma ex_failure_run:
  "fst (failure_run ttl_redis ''d'' breaker_defaults ex_failures ts_empty) = [Some 0, Some 0, Some 0, Some 0, Some 1]"
  by (simp add: ex_failures_def record_failure_def breaker_defaults_def ts_eval ts_live_def ts_put_def Let_def)

theorem breaker_opens_at_threshold_witness:
  "fst (failure_run ttl_redis ''d'' breaker_defaults ex_failures ts_empty) =
     map (\<lambda>i. Some (if int i + 1 \<ge> bc_failure_threshold breaker_defaults then 1 else 0)) [0 ..< length ex_failures]"
proof (cases "failure_run ttl_redis ''d'' breaker_defaults ex_failures ts_empty")
  case (Pair gauges s')
  have "None \<notin> set gauges" using ex_failure_run unfolding Pair fst_conv by simp
  from breaker_opens_at_threshold [OF ts.redis_laws_axioms Pair this] show ?thesis
    unfolding Pair fst_conv by (simp add: ex_failures_def breaker_defaults_def ts_empty_def ts_live_def)
qed

text \<open>C6: one probe per cooldown. Any number of workers run the check and the recordings of the code, for any destinations,
  their commands interleaved in any way and Redis evicting keys at will. Then two checks that allow a half-open probe of
  one destination are at least one cooldown apart, unless between them a delivery to it was recorded or its own probe
  token was evicted.\<close>

theorem breaker_single_probe:
  assumes laws: "redis_laws rd live"
    and first: "breaker_check (recording an1) t0 t1 d (bc_cooldown_s (cfg d)) [] = (AllowProbe, cs1 @ [c1])"
    and second: "breaker_check (recording an2) u0 u1 d (bc_cooldown_s (cfg d)) [] = (AllowProbe, cs2 @ [c2])"
    and trace: "redis_trace rd st (c1 # mid @ [c2]) st'"
    and workers: "\<forall>c\<in>set mid. (\<exists>an e op. c \<in> set (breaker_log cfg an e op) \<and> (e = d \<longrightarrow> (\<forall>t. op \<noteq> Op_Success t))) \<or>
                    evicts_other (key_probe d) c"
  shows "t1 + 1000 * bc_cooldown_s (cfg d) \<le> u1"
proof -
  have "\<forall>c\<in>set mid. \<not> ends_token (key_probe d) ''1'' c"
    using workers breaker_log_keeps_probe evicts_other_keeps by meson
  with trace show ?thesis
    unfolding probe_takes_token [OF first] probe_takes_token [OF second] by (rule redis_laws.token_exclusive [OF laws])
qed

definition ex_open_store :: ttl_store where
  "ex_open_store = \<lparr>ts_entries = (\<lambda>_. None)(key_open ''d'' := Some (RText ''1'', None)), ts_faults = []\<rparr>"

theorem breaker_single_probe_witness:
  "\<exists>st st'. redis_trace ttl_redis st
      [RSetNx 1000 (key_probe ''d'') ''1'' 30 (Some True), RExists 2000 (key_open ''d''), RDelete 3000 [''other''],
       RSetNx 40000 (key_probe ''d'') ''1'' 30 (Some True)] st' \<and>
    (1000::nat) + 1000 * bc_cooldown_s breaker_defaults \<le> 40000"
proof -
  let ?an = "constant_answers (Some True) (Some True) None None None None None None"
  let ?mid = "[RExists 2000 (key_open ''d''), RDelete 3000 [''other'']]"
  have check: "breaker_check (recording ?an) t0 t1 ''d'' (bc_cooldown_s breaker_defaults) [] =
      (AllowProbe, [RExists t0 (key_open ''d'')] @ [RSetNx t1 (key_probe ''d'') ''1'' (bc_cooldown_s breaker_defaults) (Some True)])"
    for t0 t1 by (simp add: breaker_check_def)
  have ne: "key_probe ''d'' \<noteq> ''other''" by (simp add: key_probe_def)
  have trace: "redis_trace ttl_redis (0, ex_open_store)
      (RSetNx 1000 (key_probe ''d'') ''1'' (bc_cooldown_s breaker_defaults) (Some True) # ?mid @
       [RSetNx 40000 (key_probe ''d'') ''1'' (bc_cooldown_s breaker_defaults) (Some True)])
      (40000, snd (rd_set_nx ttl_redis 40000 (key_probe ''d'') ''1'' 30
        (snd (rd_delete ttl_redis 3000 [''other''] (snd (rd_set_nx ttl_redis 1000 (key_probe ''d'') ''1'' 30 ex_open_store))))))"
    using ne by (auto intro!: redis_trace.intros redis_step.intros
        simp: ts_eval ex_open_store_def ts_live_def breaker_defaults_def ts_put_def)
  have "RExists 2000 (key_open ''d'') \<in> set (breaker_log (\<lambda>_. breaker_defaults) ?an ''d'' (Op_Check 2000 2001))"
    by (simp add: breaker_check_def)
  moreover have "evicts_other (key_probe ''d'') (RDelete 3000 [''other''])" by (simp add: evicts_other_def key_probe_def)
  ultimately have workers: "\<forall>c\<in>set ?mid. (\<exists>an e op. c \<in> set (breaker_log (\<lambda>_. breaker_defaults) an e op) \<and>
      (e = ''d'' \<longrightarrow> (\<forall>t. op \<noteq> Op_Success t))) \<or> evicts_other (key_probe ''d'') c"
    by (metis breaker_op.distinct(1) empty_iff empty_set set_ConsD)
  have "1000 + 1000 * bc_cooldown_s breaker_defaults \<le> 40000"
    by (rule breaker_single_probe [OF ts.redis_laws_axioms, where cfg = "\<lambda>_. breaker_defaults", OF check check trace workers])
  with trace show ?thesis by (auto simp: breaker_defaults_def)
qed

text \<open>a delivery heals the breaker. After a recorded success no later check refuses a send or asks for a
  probe, as long as no failure is recorded, and the failure count starts again from zero.\<close>

theorem breaker_success_closes:
  assumes laws: "redis_laws rd live" and ok: "record_success rd t d s = (Some g, s')"
    and later: "t \<le> t1" "t1 \<le> t2"
  shows "fst (breaker_check rd t1 t2 d ttl s') \<in> {AllowClosed, AllowFailOpen} \<and>
         num_or_zero (live s' t1 (key_fail d)) = 0"
proof -
  obtain u where u: "rd_delete rd t [key_fail d, key_open d, key_probe d] s = (Some u, s')"
    using ok by (auto simp: record_success_def split: prod.splits option.splits)
  have dead: "live s' t1 (key_open d) = None" "live s' t1 (key_fail d) = None"
    using redis_laws.delete_ok [OF laws u later(1)] by auto
  obtain r s2 where r: "breaker_check rd t1 t2 d ttl s' = (r, s2)" by fastforce
  from redis_laws.check_outcome [OF laws r later(2)] dead show ?thesis
    by (cases r) (auto simp: r num_or_zero_def)
qed

theorem breaker_success_closes_witness:
  "\<exists>s'. record_success ttl_redis 7 ''d'' ex_open_store = (Some 0, s') \<and>
     fst (breaker_check ttl_redis 8 9 ''d'' 30 s') \<in> {AllowClosed, AllowFailOpen} \<and>
     num_or_zero (ts_live s' 8 (key_fail ''d'')) = 0"
proof -
  have s: "record_success ttl_redis 7 ''d'' ex_open_store =
      (Some 0, snd (record_success ttl_redis 7 ''d'' ex_open_store))"
    by (simp add: record_success_def ts_eval ex_open_store_def)
  have "fst (breaker_check ttl_redis 8 9 ''d'' 30 (snd (record_success ttl_redis 7 ''d'' ex_open_store)))
      \<in> {AllowClosed, AllowFailOpen} \<and>
    num_or_zero (ts_live (snd (record_success ttl_redis 7 ''d'' ex_open_store)) 8 (key_fail ''d'')) = 0"
    by (rule breaker_success_closes [OF ts.redis_laws_axioms s]) simp_all
  with s show ?thesis by blast
qed

text \<open>a failed probe does not always re-open the breaker. When the failure window ends before the probe
  fails, the counter restarts at one, and a failed probe with a threshold above one leaves the breaker
  to close by itself when the open flag expires.\<close>

theorem breaker_failed_probe_not_reopened:
  defines "bc \<equiv> \<lparr>bc_failure_threshold = 2, bc_cooldown_s = 30, bc_window_s = 10\<rparr>"
  defines "s2 \<equiv> snd (failure_run ttl_redis ''d'' bc [(0, 1), (5000, 5001)] ts_empty)"
  defines "s3 \<equiv> snd (breaker_check ttl_redis 20000 20001 ''d'' 30 s2)"
  shows "fst (breaker_check ttl_redis 20000 20001 ''d'' 30 s2) = AllowProbe \<and>
         fst (record_failure ttl_redis 21000 21001 ''d'' bc s3) = Some 0 \<and>
         fst (breaker_check ttl_redis 36000 36001 ''d'' 30 (snd (record_failure ttl_redis 21000 21001 ''d'' bc s3))) = AllowClosed"
  by (simp add: s3_def s2_def bc_def record_failure_def breaker_check_def ts_eval ts_live_def ts_put_def Let_def)

text \<open>the lenient reading of the breaker configuration is not total: when the stored blob is a scalar the
  exception is raised again inside its handler, whatever the schema accepts.\<close>

theorem breaker_cfg_scalar_escapes:
  "breaker_cfg validate (Some [(''breaker'', PInt 5)]) = Inl () \<and>
   breaker_cfg validate None \<noteq> Inl ()"
  by (simp add: breaker_cfg_def breaker_raw_def dict_of_def dget_default_def split: option.splits)

end
