(* ===== verification/Dispatch_Correct.thy ===== *)
theory Dispatch_Correct
  imports Dispatch
begin

text \<open>
  What delivery guarantees: the chunks partition the batch within the limits of the destination, a chunk is
  never sent again after the sink took part of it, every end of a dispatch is accounted for, and a drain keeps
  the rows of the events the sink rejects. Three situations in which events are lost are stated at the end: a
  drain with aggregation, a drain in shadow mode, and a failed write of dead letters.
\<close>

section \<open>Chunks\<close>

definition chunk_ok :: "(pydict \<Rightarrow> nat) \<Rightarrow> nat \<Rightarrow> int \<Rightarrow> pydict list \<Rightarrow> bool" where
  "chunk_ok nbytes max_items max_bytes c \<longleftrightarrow>
     c \<noteq> [] \<and> length c \<le> max_items \<and>
     (max_bytes > 0 \<longrightarrow> length c = 1 \<or> int (sum_list (map nbytes c)) \<le> max_bytes)"

lemma chunk_loop_concat: "concat (chunk_loop nb mi mb cur cb evs) = cur @ evs"
  by (induction nb mi mb cur cb evs rule: chunk_loop.induct) (simp_all add: Let_def)

lemma chunk_loop_ok:
  assumes "1 \<le> mi" and "cur \<noteq> [] \<longrightarrow> chunk_ok nb mi mb cur"
    and "mb > 0 \<longrightarrow> cb = sum_list (map nb cur)"
    and "c \<in> set (chunk_loop nb mi mb cur cb evs)"
  shows "chunk_ok nb mi mb c"
  using assms
proof (induction nb mi mb cur cb evs rule: chunk_loop.induct)
  case (1 nb mi mb cur cb)
  then show ?case by (auto split: if_splits)
next
  case (2 nb mi mb cur cb ev rest)
  let ?b = "if mb > 0 then nb ev else 0"
  show ?case
  proof (cases "cur \<noteq> [] \<and> (length cur \<ge> mi \<or> (mb > 0 \<and> int (cb + ?b) > mb))")
    case True
    then have "c = cur \<or> c \<in> set (chunk_loop nb mi mb [ev] ?b rest)" using "2.prems"(4) by auto
    then show ?thesis
      using "2.prems"(1,2) True "2.IH"(1) [OF refl True] by (auto simp: chunk_ok_def)
  next
    case False
    then have "chunk_ok nb mi mb (cur @ [ev])"
      using "2.prems"(1,2,3) by (cases "cur = []") (auto simp: chunk_ok_def)
    moreover have "c \<in> set (chunk_loop nb mi mb (cur @ [ev]) (cb + ?b) rest)"
      using "2.prems"(4) unfolding chunk_loop.simps Let_def if_not_P [OF False] .
    ultimately show ?thesis using "2.prems"(1,3) "2.IH"(2) [OF refl False] by auto
  qed
qed

lemma chunk_batch_concat: "concat (chunk_batch nb batch mi mb) = batch"
  by (simp add: chunk_batch_def chunk_loop_concat)

section \<open>One chunk\<close>

text \<open>An attempt after which sending the chunk again cannot duplicate anything the sink reported taking.\<close>

definition harmless :: "send_outcome \<Rightarrow> bool" where
  "harmless o1 \<longleftrightarrow> (case o1 of
      SendTimeout \<Rightarrow> True
    | SendResult r \<Rightarrow> dr_retryable r \<and> dr_accepted r = 0 \<and> dr_rejected r = []
    | SendRaises _ \<Rightarrow> False)"

text \<open>What is known when the loop over the attempts ends: at most the attempts left were made, all but the
  last harmless; a result is the last outcome, is final, and its rejections are in the table.\<close>

definition attempts_post ::
  "'w denv \<Rightarrow> dest_config \<Rightarrow> pydict list \<Rightarrow> nat \<Rightarrow> dlq \<Rightarrow>
   (delivery_exn + delivery_result) \<times> send_outcome list \<times> 'w \<times> dlq \<Rightarrow> bool" where
  "attempts_post env dc chunk left tbl out \<longleftrightarrow>
     (case out of (res, outs, w', tbl') \<Rightarrow>
      length outs \<le> left \<and> list_all harmless (butlast outs) \<and>
      (case res of
         Inl _ \<Rightarrow> True
       | Inr r \<Rightarrow> outs \<noteq> [] \<and> last outs = SendResult r \<and> \<not> dr_retryable r \<and>
           (\<exists>w w'. dv_send env chunk w = (SendResult r, w')) \<and>
           persist_rejected_to_dlq (dv_dumps env) False (dc_id dc) (dc_org dc) (dr_rejected r) chunk tbl = (True, tbl')))"

lemma attempts_post_Cons:
  assumes "harmless o1" "attempts_post env dc chunk left tbl (res, outs, w', tbl')"
  shows "attempts_post env dc chunk (Suc left) tbl (res, o1 # outs, w', tbl')"
  using assms by (auto simp: attempts_post_def split: sum.splits)

lemma attempts_post_Inl: "length outs \<le> 1 \<Longrightarrow> attempts_post env dc chunk (Suc left) tbl (Inl e, outs, w', tbl')"
  by (cases outs) (auto simp: attempts_post_def)

lemma send_attempts_post:
  "attempts_post env dc chunk left tbl (send_attempts env dc mr chunk left attempt w tbl)"
proof (induction left arbitrary: attempt w)
  case 0
  show ?case by (simp add: attempts_post_def)
next
  case (Suc left)
  define w1 where "w1 = (if attempt > 0 then dv_backoff env (attempt - 1) w else w)"
  obtain c w2 where c: "dv_check env w1 = (c, w2)" by fastforce
  obtain o1 w3 where s: "dv_send env chunk w2 = (o1, w3)" by fastforce
  obtain f w4 where f: "dv_failure env w3 = (f, w4)" by fastforce
  obtain g w5 where g: "dv_success env w3 = (g, w5)" by fastforce
  obtain res outs w' tbl' where rec: "send_attempts env dc mr chunk left (attempt + 1) w4 tbl = (res, outs, w', tbl')"
    by (metis prod_cases4)
  have ih: "attempts_post env dc chunk left tbl (res, outs, w', tbl')" using Suc.IH [of "attempt + 1" w4] rec by simp
  show ?case
  proof (cases "attempt > 0 \<and> dp_max_elapsed_ms (dc_policy dc) > 0 \<and> dv_late env w")
    case True
    then show ?thesis by (simp add: attempts_post_Inl)
  next
    case False
    note unfold = send_attempts.simps(2) if_not_P [OF False] Let_def w1_def [symmetric] c s f g rec prod.case sum.case
    show ?thesis
    proof (cases c)
      case (Inl e)
      then show ?thesis unfolding unfold by (simp add: attempts_post_Inl)
    next
      case c': (Inr u)
      show ?thesis
      proof (cases o1)
        case SendTimeout
        then show ?thesis unfolding unfold c'
          by (cases f) (simp_all add: attempts_post_Inl f rec attempts_post_Cons [OF _ ih] harmless_def)
      next
        case (SendRaises e)
        then show ?thesis unfolding unfold c' by (simp add: attempts_post_Inl)
      next
        case (SendResult r)
        obtain ok tbl1 where p: "persist_rejected_to_dlq (dv_dumps env) (dv_db_raises env w3) (dc_id dc) (dc_org dc)
            (dr_rejected r) chunk tbl = (ok, tbl1)" by fastforce
        have pok: "ok \<Longrightarrow> persist_rejected_to_dlq (dv_dumps env) False (dc_id dc) (dc_org dc) (dr_rejected r) chunk tbl = (True, tbl1)"
          using p by (auto simp: persist_rejected_to_dlq_def split: if_splits)
        have fin: "attempts_post env dc chunk (Suc left) tbl (Inr r, [SendResult r], wz, tbz)"
          if "\<not> dr_retryable r" "persist_rejected_to_dlq (dv_dumps env) False (dc_id dc) (dc_org dc) (dr_rejected r) chunk tbl = (True, tbz)"
          for wz tbz
          using that s SendResult by (auto simp: attempts_post_def)
        consider (rej) "dr_rejected r \<noteq> []" "\<not> dr_retryable r" | (retry) "dr_retryable r"
          | (clean) "dr_rejected r = []" "\<not> dr_retryable r" by blast
        then show ?thesis
        proof cases
          case rej
          then show ?thesis unfolding unfold c' SendResult
            by (cases ok; cases g) (simp_all add: p g attempts_post_Inl fin pok)
        next
          case retry
          then show ?thesis unfolding unfold c' SendResult
            by (cases f) (auto simp: f rec attempts_post_Inl harmless_def intro!: attempts_post_Cons [OF _ ih])
        next
          case clean
          then have "persist_rejected_to_dlq (dv_dumps env) False (dc_id dc) (dc_org dc) (dr_rejected r) chunk tbl = (True, tbl)"
            by (simp add: persist_rejected_to_dlq_def)
          with clean show ?thesis unfolding unfold c' SendResult
            by (cases g) (simp_all add: g attempts_post_Inl fin)
        qed
      qed
    qed
  qed
qed

section \<open>The table only grows\<close>

definition keeps_rows :: "dlq \<Rightarrow> dlq \<Rightarrow> bool" where
  "keeps_rows tbl tbl' \<longleftrightarrow> (\<forall>k. map_of tbl k \<noteq> None \<longrightarrow> map_of tbl' k \<noteq> None)"

lemma keeps_rows_refl [simp]: "keeps_rows tbl tbl"
  by (simp add: keeps_rows_def)

lemma keeps_rows_trans [trans]: "keeps_rows t1 t2 \<Longrightarrow> keeps_rows t2 t3 \<Longrightarrow> keeps_rows t1 t3"
  by (simp add: keeps_rows_def)

lemma keeps_rowsD: "keeps_rows t1 t2 \<Longrightarrow> map_of t1 k \<noteq> None \<Longrightarrow> map_of t2 k \<noteq> None"
  unfolding keeps_rows_def by blast

lemma upserts_keep_rows: "keeps_rows tbl (foldl (\<lambda>t x. dlq_upsert d (key x) (rowof x) t) tbl xs)"
  using upserts_keep by (fastforce simp: keeps_rows_def)

lemma persist_rejected_keeps:
  "persist_rejected_to_dlq dumps raises d org rejected chunk tbl = (ok, tbl') \<Longrightarrow> keeps_rows tbl tbl'"
  by (auto simp: persist_rejected_to_dlq_def intro: upserts_keep_rows split: if_splits)

lemma persist_batch_keeps [simp]:
  "keeps_rows tbl (snd (persist_batch_dlq dumps fresh texts raises batch d kind org detail tbl))"
  by (auto simp: persist_batch_dlq_def intro: upserts_keep_rows)

lemma send_attempts_keeps:
  "send_attempts env dc mr chunk left attempt w tbl = (res, outs, w', tbl') \<Longrightarrow> keeps_rows tbl tbl'"
proof (induction left arbitrary: attempt w outs)
  case (Suc left)
  show ?case
    using Suc.prems
    by (auto simp: Let_def split: if_splits prod.splits sum.splits send_outcome.splits bool.splits
        dest: Suc.IH persist_rejected_keeps)
qed simp

section \<open>All chunks\<close>

text \<open>An outcome of sending the chunk, and a final answer of the sink to it.\<close>

definition outcome_of :: "'w denv \<Rightarrow> pydict list \<Rightarrow> send_outcome \<Rightarrow> bool" where
  "outcome_of env c o1 \<longleftrightarrow> (\<exists>u u'. dv_send env c u = (o1, u'))"

definition answered :: "'w denv \<Rightarrow> pydict list \<Rightarrow> delivery_result \<Rightarrow> bool" where
  "answered env c r \<longleftrightarrow> \<not> dr_retryable r \<and> outcome_of env c (SendResult r)"

lemma send_chunk_post:
  assumes "send_chunk_with_retry env dc c w tbl = (Inr r, outs, w1, tbl1)"
  shows "answered env c r" "outs \<noteq> []" "last outs = SendResult r"
    and "persist_rejected_to_dlq (dv_dumps env) False (dc_id dc) (dc_org dc) (dr_rejected r) c tbl = (True, tbl1)"
  using send_attempts_post [of env dc c "effective_retries (dc_policy dc) + 1" tbl "effective_retries (dc_policy dc)" 0 w] assms
  by (auto simp: send_chunk_with_retry_def Let_def attempts_post_def answered_def outcome_of_def)

lemma send_chunk_keeps:
  "send_chunk_with_retry env dc c w tbl = (res, outs, w1, tbl1) \<Longrightarrow> keeps_rows tbl tbl1"
  unfolding send_chunk_with_retry_def Let_def by (rule send_attempts_keeps)

lemma persist_rejected_present:
  assumes "persist_rejected_to_dlq dumps False d org rejected chunk tbl = (True, tbl')" "x \<in> set rejected"
  shows "map_of tbl' (d, re_event_id x) \<noteq> None"
  using upserts_present [OF assms(2), of d re_event_id] assms
  by (auto simp: persist_rejected_to_dlq_def split: if_splits)

text \<open>What is known when the loop over the chunks ends: the chunks before the one that raised (all of them when
  none did) have a final answer of the sink each, which is the last outcome of its attempts and whose
  rejections have their rows; the totals are those of the answers.\<close>

definition chunks_post ::
  "'w denv \<Rightarrow> dest_config \<Rightarrow> dispatch_totals \<Rightarrow> pydict list list \<Rightarrow> dlq \<Rightarrow> delivery_result list \<Rightarrow>
   (delivery_exn + dispatch_totals) \<times> send_outcome list list \<times> 'w \<times> dlq \<Rightarrow> bool" where
  "chunks_post env dc tot chunks tbl rs out \<longleftrightarrow>
     (case out of (res, logs, w', tbl') \<Rightarrow>
      list_all2 (answered env) (take (length rs) chunks) rs \<and>
      map last (take (length rs) logs) = map SendResult rs \<and>
      (\<forall>r\<in>set rs. \<forall>x\<in>set (dr_rejected r). map_of tbl' (dc_id dc, re_event_id x) \<noteq> None) \<and>
      keeps_rows tbl tbl' \<and>
      (case res of
         Inl _ \<Rightarrow> length rs < length chunks \<and> length logs = Suc (length rs)
       | Inr tot' \<Rightarrow> length rs = length chunks \<and> length logs = length rs \<and>
           dt_accepted tot' = dt_accepted tot + sum_list (map dr_accepted rs) \<and>
           dt_rejected tot' = dt_rejected tot + sum_list (map (length \<circ> dr_rejected) rs) \<and>
           dt_rejected_ids tot' = dt_rejected_ids tot @ concat (map (map re_event_id \<circ> dr_rejected) rs)))"

lemma dispatch_chunks_post: "\<exists>rs. chunks_post env dc tot chunks tbl rs (dispatch_chunks env dc tot chunks w tbl)"
proof (induction chunks arbitrary: tot w tbl)
  case Nil
  show ?case by (rule exI [of _ "[]"]) (simp add: chunks_post_def)
next
  case (Cons c chunks)
  obtain res outs w1 tbl1 where s: "send_chunk_with_retry env dc c w tbl = (res, outs, w1, tbl1)" by (metis prod_cases4)
  note keep = send_chunk_keeps [OF s]
  show ?case
  proof (cases res)
    case (Inl e)
    then show ?thesis using s keep by (intro exI [of _ "[]"]) (simp add: chunks_post_def)
  next
    case (Inr r)
    define tot1 where "tot1 = \<lparr>dt_accepted = dt_accepted tot + dr_accepted r,
        dt_rejected = dt_rejected tot + length (dr_rejected r),
        dt_rejected_ids = dt_rejected_ids tot @
          (if dr_rejected r \<noteq> [] \<and> \<not> dr_retryable r then map re_event_id (dr_rejected r) else [])\<rparr>"
    note post = send_chunk_post [OF s [unfolded Inr]]
    obtain res1 logs w2 tbl2 where rec: "dispatch_chunks env dc tot1 chunks w1 tbl1 = (res1, logs, w2, tbl2)"
      by (metis prod_cases4)
    then obtain rs where ih: "chunks_post env dc tot1 chunks tbl1 rs (res1, logs, w2, tbl2)" using Cons.IH by metis
    have ids: "dt_rejected_ids tot1 = dt_rejected_ids tot @ map re_event_id (dr_rejected r)"
      using post(1) by (simp add: tot1_def answered_def)
    have run: "dispatch_chunks env dc tot (c # chunks) w tbl = (res1, outs # logs, w2, tbl2)"
      using s Inr rec by (simp add: tot1_def Let_def)
    have "chunks_post env dc tot (c # chunks) tbl (r # rs) (res1, outs # logs, w2, tbl2)"
      using ih post ids keep persist_rejected_present [OF post(4)]
      by (auto simp: chunks_post_def tot1_def keeps_rows_def split: sum.splits)
    then show ?thesis unfolding run by blast
  qed
qed

section \<open>The mark of the drain\<close>

text \<open>The contract of a sink towards the drain: it rejects events it was given, under their id, and it does not
  use the drain's own mark as a kind of error.\<close>

definition rejects_own :: "'w denv \<Rightarrow> bool" where
  "rejects_own env \<longleftrightarrow>
     (\<forall>c r. answered env c r \<longrightarrow> (\<forall>x\<in>set (dr_rejected r). re_error_kind x \<noteq> dlq_kind_reprocessing \<and>
        (\<exists>e\<in>set c. dget (envelope_meta e) ''event_id'' = PStr (re_event_id x))))"

definition unmarked :: "string \<Rightarrow> dlq \<Rightarrow> string \<Rightarrow> bool" where
  "unmarked d tbl i \<longleftrightarrow> (\<exists>row. map_of tbl (d, i) = Some row \<and> dl_kind row \<noteq> dlq_kind_reprocessing)"

lemma persist_rejected_unmarked:
  assumes "persist_rejected_to_dlq dumps raises d org rejected chunk tbl = (True, tbl')"
    and "\<forall>x\<in>set rejected. re_error_kind x \<noteq> dlq_kind_reprocessing"
    and "unmarked d tbl i \<or> i \<in> re_event_id ` set rejected"
  shows "unmarked d tbl' i"
proof (cases "rejected = []")
  case True
  with assms show ?thesis by (simp add: persist_rejected_to_dlq_def)
next
  case False
  then have tbl': "tbl' = foldl (\<lambda>t rej. dlq_upsert d (re_event_id rej) (rejected_row dumps org (build_event_map chunk) rej) t) tbl rejected"
    using assms(1) by (auto simp: persist_rejected_to_dlq_def split: if_splits)
  show ?thesis unfolding tbl' unmarked_def
    using assms(2,3)
    by (intro upserts_unmarked) (auto simp: rejected_row_def Let_def unmarked_def)
qed

lemma dispatch_chunks_unmarked:
  assumes "dispatch_chunks env dc tot chunks w tbl = (Inr tot', logs, w', tbl')" "rejects_own env"
    and "i \<in> set (dt_rejected_ids tot') \<and> i \<notin> set (dt_rejected_ids tot) \<or> unmarked (dc_id dc) tbl i"
  shows "unmarked (dc_id dc) tbl' i"
  using assms(1,3)
proof (induction chunks arbitrary: tot w tbl logs)
  case (Cons c chunks)
  obtain res outs w1 tbl1 where s: "send_chunk_with_retry env dc c w tbl = (res, outs, w1, tbl1)" by (metis prod_cases4)
  from Cons.prems s obtain r where r: "res = Inr r" by (cases res) auto
  note post = send_chunk_post [OF s [unfolded r]]
  have "\<forall>x\<in>set (dr_rejected r). re_error_kind x \<noteq> dlq_kind_reprocessing"
    using post(1) assms(2) by (auto simp: rejects_own_def)
  note un = persist_rejected_unmarked [OF post(4) this]
  define tot1 where "tot1 = \<lparr>dt_accepted = dt_accepted tot + dr_accepted r,
      dt_rejected = dt_rejected tot + length (dr_rejected r),
      dt_rejected_ids = dt_rejected_ids tot @
        (if dr_rejected r \<noteq> [] \<and> \<not> dr_retryable r then map re_event_id (dr_rejected r) else [])\<rparr>"
  obtain logs1 where rec: "dispatch_chunks env dc tot1 chunks w1 tbl1 = (Inr tot', logs1, w', tbl')"
    using Cons.prems(1) s r by (auto simp: tot1_def Let_def split: prod.splits)
  have "set (dt_rejected_ids tot1) \<subseteq> set (dt_rejected_ids tot) \<union> re_event_id ` set (dr_rejected r)"
    by (auto simp: tot1_def)
  with Cons.prems(2) un show ?case by (intro Cons.IH [OF rec]) blast
qed simp

section \<open>The drain\<close>

text \<open>The events a dispatch sends: the batch, or one event for each group when aggregation is on.\<close>

definition outgoing :: "'w denv \<Rightarrow> bool \<Rightarrow> dest_config \<Rightarrow> pydict list \<Rightarrow> pydict list" where
  "outgoing env agg dc batch =
     (if agg \<and> dp_group_by (dc_policy dc) \<noteq> []
      then fst (coalesce (dv_nbytes env) batch (dp_group_by (dc_policy dc)) (dp_max_groups (dc_policy dc))) else batch)"

lemma group_loop_members:
  "group_loop gb mg groups batch = Some groups' \<Longrightarrow> \<forall>g\<in>set groups. snd g \<noteq> [] \<and> set (snd g) \<subseteq> S \<Longrightarrow> set batch \<subseteq> S \<Longrightarrow>
   \<forall>g\<in>set groups'. snd g \<noteq> [] \<and> set (snd g) \<subseteq> S"
proof (induction gb mg groups batch rule: group_loop.induct)
  case (2 gb mg groups e rest)
  show ?case
  proof (cases "map_of groups (group_key gb e)")
    case None
    with 2 show ?thesis by (auto split: if_splits)
  next
    case (Some evs)
    have "set (AList.update (group_key gb e) (evs @ [e]) groups) \<subseteq> insert (group_key gb e, evs @ [e]) (set groups)"
      by (induction groups) auto
    moreover have "set evs \<subseteq> S" using map_of_SomeD [OF Some] "2.prems"(2) by force
    ultimately have "\<forall>g\<in>set (AList.update (group_key gb e) (evs @ [e]) groups). snd g \<noteq> [] \<and> set (snd g) \<subseteq> S"
      using "2.prems"(2,3) by fastforce
    with 2 Some show ?thesis by auto
  qed
qed auto

lemma group_event_meta:
  assumes "snd g \<noteq> []"
  shows "envelope_meta (group_event gb g) = envelope_meta (hd (snd g))"
  using assms
  by (cases g; cases "snd g"; cases "tl (snd g)")
     (simp_all add: group_event_def envelope_meta_def dget_def update_conv' as_dict_def Let_def)

lemma outgoing_meta: "envelope_meta ` set (outgoing env agg dc batch) \<subseteq> envelope_meta ` set batch"
proof -
  have "envelope_meta (group_event gb g) \<in> envelope_meta ` set batch"
    if "group_loop gb mg [] batch = Some groups" "g \<in> set groups" for gb mg groups g
    using group_loop_members [OF that(1), of "set batch"] that(2)
    by (metis empty_iff empty_set group_event_meta hd_in_set image_eqI subset_refl subsetD)
  then show ?thesis by (auto simp: outgoing_def coalesce_def split: option.splits)
qed

text \<open>A dispatch to a configured destination that sends: it is the loop over the chunks of what goes out.\<close>

lemma dispatch_sends:
  assumes "dispatch_batch_to_destination env agg config d batch w tbl = (out, logs, w', tbl')"
    and "out \<noteq> DestinationMissing" "out \<noteq> CrossTenant" "out \<noteq> ShadowFormatted"
  obtains dc chunks res where "config = Some dc" "concat chunks = outgoing env agg dc batch"
    and "dispatch_chunks env dc \<lparr>dt_accepted = 0, dt_rejected = 0, dt_rejected_ids = []\<rparr> chunks w tbl = (res, logs, w', tbl')"
    and "case res of Inl e \<Rightarrow> out = DispatchRaised e | Inr tot \<Rightarrow> \<exists>lin. out = Dispatched tot lin"
proof -
  obtain dc where c: "config = Some dc"
    using assms(1,2) by (cases config) (auto simp: dispatch_batch_to_destination_def)
  let ?chunks = "chunk_batch (dv_nbytes env) (outgoing env agg dc batch) (dp_max_items (dc_policy dc)) (dp_max_bytes (dc_policy dc))"
  obtain res logs1 st where r: "dispatch_chunks env dc \<lparr>dt_accepted = 0, dt_rejected = 0, dt_rejected_ids = []\<rparr> ?chunks w tbl =
      (res, logs1, st)" by (metis prod_cases3)
  show thesis
  proof (rule that [OF c chunk_batch_concat])
    show "dispatch_chunks env dc \<lparr>dt_accepted = 0, dt_rejected = 0, dt_rejected_ids = []\<rparr> ?chunks w tbl = (res, logs, w', tbl')"
      and "case res of Inl e \<Rightarrow> out = DispatchRaised e | Inr tot \<Rightarrow> \<exists>lin. out = Dispatched tot lin"
      using assms c r
      by (auto simp: dispatch_batch_to_destination_def outgoing_def [symmetric] Let_def split: if_splits sum.splits)
  qed
qed

lemma dispatch_keeps:
  assumes "dispatch_batch_to_destination env agg config d batch w tbl = (out, logs, w', tbl')"
  shows "keeps_rows tbl tbl'"
proof (cases "out = DestinationMissing \<or> out = CrossTenant \<or> out = ShadowFormatted")
  case True
  with assms show ?thesis
    by (auto simp: dispatch_batch_to_destination_def Let_def split: option.splits if_splits prod.splits sum.splits)
next
  case False
  with assms obtain dc chunks res where
    "dispatch_chunks env dc \<lparr>dt_accepted = 0, dt_rejected = 0, dt_rejected_ids = []\<rparr> chunks w tbl = (res, logs, w', tbl')"
    by (metis dispatch_sends)
  with dispatch_chunks_post [of env dc "\<lparr>dt_accepted = 0, dt_rejected = 0, dt_rejected_ids = []\<rparr>" chunks tbl w]
  show ?thesis by (auto simp: chunks_post_def)
qed

lemma outcome_ofI: "dv_send env c u = (o1, u') \<Longrightarrow> outcome_of env c o1"
  by (auto simp: outcome_of_def)

lemma send_attempts_outs:
  "send_attempts env dc mr chunk left attempt w tbl = (res, outs, w', tbl') \<Longrightarrow> list_all (outcome_of env chunk) outs"
proof (induction left arbitrary: attempt w outs)
  case (Suc left)
  from Suc.prems show ?case
    by (auto simp: Let_def split: if_splits prod.splits sum.splits send_outcome.splits bool.splits
        dest: Suc.IH outcome_ofI)
qed simp

lemma dispatch_chunks_outs:
  "dispatch_chunks env dc tot chunks w tbl = (res, logs, w', tbl') \<Longrightarrow> outs \<in> set logs \<Longrightarrow>
   \<exists>c\<in>set chunks. list_all (outcome_of env c) outs"
proof (induction chunks arbitrary: tot w tbl logs)
  case (Cons c chunks)
  obtain res1 outs1 w1 tbl1 where s: "send_chunk_with_retry env dc c w tbl = (res1, outs1, w1, tbl1)" by (metis prod_cases4)
  have "list_all (outcome_of env c) outs1"
    using s send_attempts_outs unfolding send_chunk_with_retry_def Let_def by metis
  with Cons.prems s Cons.IH show ?case by (auto simp: Let_def split: sum.splits prod.splits) blast
qed simp

text \<open>The last outcome of some attempts is a final answer that rejects an event.\<close>

definition refused :: "send_outcome list list \<Rightarrow> string \<Rightarrow> bool" where
  "refused logs i \<longleftrightarrow> (\<exists>outs\<in>set logs. \<exists>r. outs \<noteq> [] \<and> last outs = SendResult r \<and> \<not> dr_retryable r \<and>
     i \<in> re_event_id ` set (dr_rejected r))"

lemma refused_append [simp]: "refused (l1 @ l2) i \<longleftrightarrow> refused l1 i \<or> refused l2 i"
  by (auto simp: refused_def)

lemma dispatch_silent:
  assumes "dispatch_batch_to_destination env agg config d batch w tbl = (out, logs, w', tbl')"
    and "out = DestinationMissing \<or> out = CrossTenant \<or> out = ShadowFormatted"
  shows "\<not> refused logs i"
  using assms
  by (auto simp: dispatch_batch_to_destination_def refused_def Let_def split: option.splits if_splits prod.splits sum.splits)

lemma dispatch_refused_member:
  assumes "dispatch_batch_to_destination env agg (Some dc) d batch w tbl = (out, logs, w', tbl')"
    and "rejects_own env" "refused logs i"
  shows "\<exists>e\<in>set batch. dget (envelope_meta e) ''event_id'' = PStr i"
proof -
  have "out \<noteq> DestinationMissing" "out \<noteq> CrossTenant" "out \<noteq> ShadowFormatted"
    using dispatch_silent [OF assms(1)] assms(3) by blast+
  with assms(1) obtain dc' chunks res where dc: "Some dc = Some dc'" and ch: "concat chunks = outgoing env agg dc' batch"
    and run: "dispatch_chunks env dc' \<lparr>dt_accepted = 0, dt_rejected = 0, dt_rejected_ids = []\<rparr> chunks w tbl = (res, logs, w', tbl')"
    by (rule dispatch_sends)
  from assms(3) obtain outs r where o: "outs \<in> set logs" "SendResult r \<in> set outs" "\<not> dr_retryable r"
      "i \<in> re_event_id ` set (dr_rejected r)"
    unfolding refused_def by (metis (no_types, lifting) last_in_set)
  obtain c where c: "c \<in> set chunks" "answered env c r"
    using dispatch_chunks_outs [OF run o(1)] o(2,3) by (auto simp: answered_def list_all_iff)
  then obtain e where "e \<in> set c" "dget (envelope_meta e) ''event_id'' = PStr i"
    using assms(2) o(4) unfolding rejects_own_def by blast
  moreover from this(1) have "e \<in> set (outgoing env agg dc' batch)" using c(1) by (auto simp flip: ch)
  then have "envelope_meta e \<in> envelope_meta ` set batch" using outgoing_meta by blast
  ultimately show ?thesis by auto
qed

lemma dispatch_refused_unmarked:
  assumes "dispatch_batch_to_destination env agg (Some dc) d batch w tbl = (out, logs, w', tbl')"
    and "rejects_own env" "refused logs i" "\<And>e. out \<noteq> DispatchRaised e"
  shows "unmarked (dc_id dc) tbl' i"
proof -
  have "out \<noteq> DestinationMissing" "out \<noteq> CrossTenant" "out \<noteq> ShadowFormatted"
    using dispatch_silent [OF assms(1)] assms(3) by blast+
  with assms(1) obtain dc' chunks res where dc: "Some dc = Some dc'" and "concat chunks = outgoing env agg dc' batch"
    and run1: "dispatch_chunks env dc' \<lparr>dt_accepted = 0, dt_rejected = 0, dt_rejected_ids = []\<rparr> chunks w tbl = (res, logs, w', tbl')"
    and res: "case res of Inl e \<Rightarrow> out = DispatchRaised e | Inr tot \<Rightarrow> \<exists>lin. out = Dispatched tot lin"
    by (rule dispatch_sends)
  then obtain tot where run: "dispatch_chunks env dc \<lparr>dt_accepted = 0, dt_rejected = 0, dt_rejected_ids = []\<rparr> chunks w tbl = (Inr tot, logs, w', tbl')"
    using assms(4) by (cases res) auto
  then obtain rs where rs: "map last logs = map SendResult rs"
      "dt_rejected_ids tot = concat (map (map re_event_id \<circ> dr_rejected) rs)"
    using dispatch_chunks_post [of env dc "\<lparr>dt_accepted = 0, dt_rejected = 0, dt_rejected_ids = []\<rparr>" chunks tbl w]
    by (auto simp: chunks_post_def)
  from assms(3) obtain outs r where "outs \<in> set logs" "last outs = SendResult r" "i \<in> re_event_id ` set (dr_rejected r)"
    unfolding refused_def by blast
  moreover from this(1,2) have "SendResult r \<in> set (map SendResult rs)" unfolding rs(1) [symmetric] by force
  ultimately have "i \<in> set (dt_rejected_ids tot)" unfolding rs(2) by auto
  from dispatch_chunks_unmarked [OF run assms(2), of i] this show ?thesis by simp
qed

lemma mark_reprocessing_lookup: "map_of (mark_reprocessing ids tbl) k = None \<longleftrightarrow> map_of tbl k = None"
  by (induction tbl) (auto simp: mark_reprocessing_def split: if_splits)

lemma mark_keeps: "keeps_rows tbl (mark_reprocessing ids tbl)"
  by (simp add: keeps_rows_def mark_reprocessing_lookup)

text \<open>One lot: the breaker ends the drain, or the drain goes on with a table that has all rows (the dispatch
  raised) or all but those of the lot that are still marked.\<close>

lemma drain_lots_step:
  assumes "drain_lots env agg config dest (lot # rest) res w tbl = (res', logs, w', tbl')"
    and "dispatch_batch_to_destination env agg config dest (map (snd \<circ> snd) lot) w (mark_reprocessing (map fst lot) tbl) =
         (out, logs1, w1, tbl1)"
  obtains (breaker) "out = DispatchRaised BreakerOpenExn" "logs = logs1" "keeps_rows tbl tbl'"
  | (raised) e tbl2 res1 logs2 where "out = DispatchRaised e" "logs = logs1 @ logs2" "keeps_rows tbl tbl2"
      "drain_lots env agg config dest rest res1 w1 tbl2 = (res', logs2, w', tbl')"
  | (ended) res1 logs2 where "\<And>e. out \<noteq> DispatchRaised e" "logs = logs1 @ logs2" "keeps_rows tbl tbl1"
      "drain_lots env agg config dest rest res1 w1 (delete_dlq_entries (still_marked tbl1 (map fst lot)) tbl1) = (res', logs2, w', tbl')"
proof -
  have keep: "keeps_rows tbl tbl1" using keeps_rows_trans [OF mark_keeps dispatch_keeps [OF assms(2)]] .
  have keep2: "keeps_rows tbl (snd (persist_batch_dlq du fr te ra ba de ki org det tbl1))" for du fr te ra ba de ki org det
    by (rule keeps_rows_trans [OF keep persist_batch_keeps])
  show thesis
  proof (cases "\<exists>e. out = DispatchRaised e")
    case True
    then obtain e where e: "out = DispatchRaised e" ..
    show thesis
    proof (cases "e = BreakerOpenExn")
      case True
      then show thesis using assms e by (intro breaker) (auto simp: Let_def intro!: keep2)
    next
      case False
      then show thesis using assms e by (auto simp: Let_def split: prod.splits intro!: raised keep2)
    qed
  next
    case False
    then show thesis using assms keep by (cases out) (auto simp: Let_def split: prod.splits intro: ended)
  qed
qed

text \<open>A row that no lot mentions stays.\<close>

lemma drain_lots_frame:
  assumes "drain_lots env agg config dest ls res w tbl = (res', logs, w', tbl')"
    and "map_of tbl k \<noteq> None" "k \<notin> fst ` set (concat ls)"
  shows "map_of tbl' k \<noteq> None"
  using assms
proof (induction ls arbitrary: res w tbl logs)
  case (Cons lot rest)
  obtain out logs1 w1 tbl1 where d: "dispatch_batch_to_destination env agg config dest (map (snd \<circ> snd) lot) w
      (mark_reprocessing (map fst lot) tbl) = (out, logs1, w1, tbl1)" by (metis prod_cases4)
  show ?case
    using Cons.prems(1) d
  proof (cases rule: drain_lots_step)
    case breaker
    then show ?thesis using Cons.prems(2) keeps_rowsD by blast
  next
    case (raised e tbl2 res1 logs2)
    then show ?thesis using keeps_rowsD [OF raised(3) Cons.prems(2)] Cons.prems(3) by (intro Cons.IH [of res1 w1 tbl2 logs2]) auto
  next
    case (ended res1 logs2)
    moreover have "map_of (delete_dlq_entries (still_marked tbl1 (map fst lot)) tbl1) k \<noteq> None"
      using keeps_rowsD [OF ended(3) Cons.prems(2)] Cons.prems(3) by (auto simp: delete_dlq_entries_lookup still_marked_def)
    ultimately show ?thesis using Cons.prems(3) by (intro Cons.IH [OF ended(4)]) auto
  qed
qed simp

text \<open>The candidates of the lots: each with its own row, whose key is the destination and the id of the event.\<close>

definition own_rows :: "string \<Rightarrow> dlq \<Rightarrow> ((string \<times> string) \<times> int option \<times> pydict) list \<Rightarrow> bool" where
  "own_rows dest tbl cands \<longleftrightarrow> distinct (map fst cands) \<and>
     (\<forall>c\<in>set cands. map_of tbl (fst c) \<noteq> None \<and> fst (fst c) = dest \<and>
        dget (envelope_meta (snd (snd c))) ''event_id'' = PStr (snd (fst c)))"

lemma drain_lots_keeps_refused:
  assumes "drain_lots env agg (Some dc) (dc_id dc) ls res w tbl = (res', logs, w', tbl')"
    and "rejects_own env" "own_rows (dc_id dc) tbl (concat ls)" "refused logs i"
  shows "map_of tbl' (dc_id dc, i) \<noteq> None"
  using assms(1,3,4)
proof (induction ls arbitrary: res w tbl logs)
  case (Cons lot rest)
  obtain out logs1 w1 tbl1 where d: "dispatch_batch_to_destination env agg (Some dc) (dc_id dc) (map (snd \<circ> snd) lot) w
      (mark_reprocessing (map fst lot) tbl) = (out, logs1, w1, tbl1)" by (metis prod_cases4)
  let ?k = "(dc_id dc, i)"
  have lot: "\<forall>c\<in>set lot. map_of tbl (fst c) \<noteq> None" and apart: "\<forall>c\<in>set (concat rest). fst c \<notin> fst ` set lot"
    using Cons.prems(2) by (force simp: own_rows_def)+
  have member: "?k \<in> fst ` set lot" if ref: "refused logs1 i"
  proof -
    obtain c where "c \<in> set lot" "dget (envelope_meta (snd (snd c))) ''event_id'' = PStr i"
      using dispatch_refused_member [OF d assms(2) ref] by auto
    moreover from this have "fst c = ?k" using Cons.prems(2) by (auto simp: own_rows_def intro: prod_eqI)
    ultimately show ?thesis by (metis imageI)
  qed
  then have here: "map_of tbl ?k \<noteq> None" "?k \<notin> fst ` set (concat rest)" if "refused logs1 i"
    using that lot apart by force+
  have own: "own_rows (dc_id dc) t (concat rest)" if "\<forall>c\<in>set (concat rest). map_of tbl (fst c) \<noteq> None \<longrightarrow> map_of t (fst c) \<noteq> None" for t
    using that Cons.prems(2) unfolding own_rows_def by simp
  show ?case
    using Cons.prems(1) d
  proof (cases rule: drain_lots_step)
    case breaker
    then show ?thesis using Cons.prems(3) here(1) keeps_rowsD by blast
  next
    case (raised e tbl2 res1 logs2)
    have "own_rows (dc_id dc) tbl2 (concat rest)" using keeps_rowsD [OF raised(3)] by (intro own) blast
    with Cons.IH [OF raised(4)] drain_lots_frame [OF raised(4), of ?k] here keeps_rowsD [OF raised(3), of ?k] raised(2) Cons.prems(3)
    show ?thesis by (metis refused_append)
  next
    case (ended res1 logs2)
    let ?t = "delete_dlq_entries (still_marked tbl1 (map fst lot)) tbl1"
    have "own_rows (dc_id dc) ?t (concat rest)"
      using keeps_rowsD [OF ended(3)] apart
      by (intro own) (auto simp: delete_dlq_entries_lookup still_marked_def simp del: not_None_eq)
    moreover have "map_of ?t ?k \<noteq> None" if "refused logs1 i"
      using dispatch_refused_unmarked [OF d assms(2) that ended(1)]
      by (auto simp: unmarked_def delete_dlq_entries_lookup still_marked_def)
    ultimately show ?thesis
      using Cons.IH [OF ended(4)] drain_lots_frame [OF ended(4), of ?k] here(2) ended(2) Cons.prems(3) by auto
  qed
qed (simp add: refused_def)

text \<open>The candidates the preparation selects have their rows.\<close>

lemma drain_prepare_rows:
  assumes "foldl (drain_prepare loads) (res, tbl, cands) rows = (res', tbl', cands')"
    and "distinct (map fst rows)" "own_rows dest tbl cands" "fst ` set cands \<inter> fst ` set rows = {}"
    and "\<forall>(k, row)\<in>set rows. map_of tbl k \<noteq> None \<and> fst k = dest \<and>
           (\<forall>e. loads (dl_payload row) = Some e \<longrightarrow> dget (envelope_meta e) ''event_id'' = PStr (snd k))"
  shows "own_rows dest tbl' cands'"
  using assms
proof (induction rows arbitrary: res tbl cands)
  case (Cons entry rows)
  obtain k row where e: "entry = (k, row)" by fastforce
  obtain res1 tbl1 cands1 where p: "drain_prepare loads (res, tbl, cands) entry = (res1, tbl1, cands1)" by (metis prod_cases3)
  have upd: "(\<exists>z. map_of (update_dlq_error k x y tbl) k1 = Some z) \<longleftrightarrow> (\<exists>z. map_of tbl k1 = Some z)" for x y k1
    by (auto simp: update_dlq_error_def update_conv' split: option.splits)
  have keep: "map_of tbl k1 \<noteq> None \<Longrightarrow> k1 \<noteq> k \<Longrightarrow> map_of tbl1 k1 \<noteq> None" for k1
    using p e by (auto simp: drain_prepare_def delete_dlq_entries_lookup upd split: if_splits option.splits)
  have rows: "k1 \<noteq> k" "map_of tbl k1 \<noteq> None" if "(k1, row1) \<in> set rows" for k1 row1
    using that Cons.prems(2,5) e by force+
  consider "cands1 = cands"
    | v where "loads (dl_payload row) = Some v" "cands1 = cands @ [(k, dl_org row, v)]" "tbl1 = tbl"
    using p e by (auto simp: drain_prepare_def split: if_splits option.splits)
  then have own: "own_rows dest tbl1 cands1 \<and> fst ` set cands1 \<subseteq> insert k (fst ` set cands)"
  proof cases
    case 1
    have "k \<notin> fst ` set cands" using Cons.prems(4) e by simp
    with 1 Cons.prems(3) keep show ?thesis unfolding own_rows_def by (metis imageI subset_insertI)
  next
    case 2
    have "k \<notin> fst ` set cands" using Cons.prems(4) e by simp
    moreover have "map_of tbl k \<noteq> None \<and> fst k = dest \<and> dget (envelope_meta v) ''event_id'' = PStr (snd k)"
      using Cons.prems(5) e 2(1) by simp
    ultimately show ?thesis using Cons.prems(3) by (simp add: 2 own_rows_def image_iff)
  qed
  have disj: "x \<notin> R \<Longrightarrow> C \<inter> R = {} \<Longrightarrow> C' \<subseteq> insert x C \<Longrightarrow> C' \<inter> R = {}" for x :: "string \<times> string" and R C C'
    by blast
  have "fst ` set cands1 \<inter> fst ` set rows = {}"
  proof (rule disj)
    show "k \<notin> fst ` set rows" using Cons.prems(2) e by simp
    show "fst ` set cands \<inter> fst ` set rows = {}" using Cons.prems(4) by simp
    show "fst ` set cands1 \<subseteq> insert k (fst ` set cands)" using own ..
  qed
  moreover have "\<forall>(k1, row1)\<in>set rows. map_of tbl1 k1 \<noteq> None \<and> fst k1 = dest \<and>
           (\<forall>e. loads (dl_payload row1) = Some e \<longrightarrow> dget (envelope_meta e) ''event_id'' = PStr (snd k1))"
    using Cons.prems(5) keep [OF rows(2,1)] unfolding case_prod_beta by (metis list.set_intros(2) prod.collapse)
  ultimately show ?case using Cons.prems(1,2) own p by (intro Cons.IH [of res1 tbl1 cands1]) auto
qed simp

lemma lots_concat: "concat (lots (Suc n) xs) = xs"
proof (induction xs rule: length_induct)
  case (1 xs)
  then show ?case by (cases xs) auto
qed

lemma lots_single: "xs \<noteq> [] \<Longrightarrow> length xs \<le> n \<Longrightarrow> lots n xs = [xs]"
  by (cases n; cases xs) auto

section \<open>Properties\<close>

text \<open>the chunks of a batch are the batch, in order and without loss, and (for a non-empty batch) none is
  empty, none has more events than the destination allows, and none exceeds the byte limit unless it is
  a single event.\<close>

theorem chunk_batch_partition:
  assumes "1 \<le> max_items"
  shows "concat (chunk_batch nbytes batch max_items max_bytes) = batch \<and>
         (batch \<noteq> [] \<longrightarrow> list_all (chunk_ok nbytes max_items max_bytes) (chunk_batch nbytes batch max_items max_bytes))"
  using chunk_loop_ok [OF assms, of "[]" nbytes max_bytes 0 _ batch]
  by (simp add: chunk_batch_concat) (simp add: chunk_batch_def list_all_iff)

theorem chunk_batch_partition_witness:
  "concat (chunk_batch (\<lambda>_. 4) [[(''a'', PInt 1)], [(''a'', PInt 2)], [(''a'', PInt 3)]] 2 100) =
     [[(''a'', PInt 1)], [(''a'', PInt 2)], [(''a'', PInt 3)]] \<and>
   list_all (chunk_ok (\<lambda>_. 4) 2 100)
     (chunk_batch (\<lambda>_. 4) [[(''a'', PInt 1)], [(''a'', PInt 2)], [(''a'', PInt 3)]] 2 100)"
  using chunk_batch_partition [of 2 "\<lambda>_. 4" "[[(''a'', PInt 1)], [(''a'', PInt 2)], [(''a'', PInt 3)]]" 100] by simp

text \<open>C5: retrying is bounded and never duplicates. A chunk is sent at most once plus the configured retries;
  it is sent again only after a timeout or after a transient refusal in which the sink reported nothing
  accepted and nothing rejected; and a result that is returned is the last outcome, is final, and its
  rejections are in the dead-letter table.\<close>

theorem send_chunk_no_duplicate:
  assumes "send_chunk_with_retry env dc chunk w tbl = (res, outs, w', tbl')"
  shows "length outs \<le> Suc (effective_retries (dc_policy dc)) \<and> list_all harmless (butlast outs) \<and>
         (case res of Inl _ \<Rightarrow> True
          | Inr r \<Rightarrow> outs \<noteq> [] \<and> last outs = SendResult r \<and> \<not> dr_retryable r \<and>
              (\<forall>x\<in>set (dr_rejected r). map_of tbl' (dc_id dc, re_event_id x) \<noteq> None))"
proof -
  have post: "attempts_post env dc chunk (effective_retries (dc_policy dc) + 1) tbl (res, outs, w', tbl')"
    using send_attempts_post [of env dc chunk "effective_retries (dc_policy dc) + 1" tbl "effective_retries (dc_policy dc)" 0 w]
      assms by (simp add: send_chunk_with_retry_def Let_def)
  then show ?thesis by (fastforce simp: attempts_post_def dest: persist_rejected_present split: sum.splits)
qed

definition ex_policy :: delivery_policy where
  "ex_policy = \<lparr>dp_max_items = 500, dp_max_bytes = 0, dp_retry_enabled = True, dp_max_retries = 2,
     dp_max_elapsed_ms = 0, dp_shadow = False, dp_group_by = [], dp_max_groups = 1000\<rparr>"

definition ex_dest :: dest_config where
  "ex_dest = \<lparr>dc_id = ''d'', dc_org = Some 7, dc_policy = ex_policy\<rparr>"

text \<open>A world of scripted outcomes: the sink takes the next one, the breaker always allows.\<close>

definition ex_env :: "bool \<Rightarrow> send_outcome list denv" where
  "ex_env raises = \<lparr>dv_late = (\<lambda>_. False), dv_backoff = (\<lambda>_ w. w), dv_check = (\<lambda>w. (Inr (), w)),
     dv_failure = (\<lambda>w. (Inr (), w)), dv_success = (\<lambda>w. (Inr (), w)),
     dv_send = (\<lambda>c w. case w of [] \<Rightarrow> (SendResult \<lparr>dr_accepted = length c, dr_rejected = [], dr_retryable = False\<rparr>, [])
                               | x # xs \<Rightarrow> (x, xs)),
     dv_db_raises = (\<lambda>_. raises), dv_dumps = (\<lambda>_. Some ''{...}''), dv_fresh = (\<lambda>_. ''fresh''),
     dv_texts = ([], ''dlq''), dv_nbytes = (\<lambda>_. 0), dv_exn_text = (\<lambda>_. [])\<rparr>"

definition ex_ev :: "int \<Rightarrow> string \<Rightarrow> pydict" where
  "ex_ev org eid = [(''_centralops'', PDict [(''event_id'', PStr eid), (''organization_id'', PInt org)])]"

definition ex_reject :: delivery_result where
  "ex_reject = \<lparr>dr_accepted = 1, dr_rejected = [\<lparr>re_event_id = ''e2'', re_reason = ''bad'', re_error_kind = ''schema''\<rparr>], dr_retryable = False\<rparr>"

lemma ex_reject_send:
  "send_chunk_with_retry (ex_env False) ex_dest [ex_ev 7 ''e1'', ex_ev 7 ''e2''] [SendTimeout, SendResult ex_reject] [] =
     (Inr ex_reject, [SendTimeout, SendResult ex_reject], [],
      [((''d'', ''e2''), \<lparr>dl_org = Some 7, dl_kind = ''schema'', dl_detail = ''bad'', dl_payload = ''{...}''\<rparr>)])"
  by (simp add: send_chunk_with_retry_def effective_retries_def ex_env_def ex_dest_def ex_policy_def ex_reject_def
      numeral_2_eq_2 persist_rejected_to_dlq_def dlq_upsert_def rejected_row_def build_event_map_def envelope_meta_def
      ex_ev_def dget_def as_dict_def row_org_def payload_text_def Let_def)

theorem send_chunk_no_duplicate_witness:
  "list_all harmless (butlast [SendTimeout, SendResult ex_reject]) \<and> \<not> dr_retryable ex_reject"
  using send_chunk_no_duplicate [OF ex_reject_send] by (simp add: ex_reject_def)

text \<open>C22: every way a dispatch ends is accounted for, and none removes a dead letter. A dispatch that reports
  totals has a final answer of the sink for every chunk of what goes out (the batch, or one event for each
  group when aggregation is on), its totals are the sums over these answers (so they add up to the events sent
  when each answer accounts for its chunk), and every rejection has its row in the dead-letter table. One
  that raises has such answers, with their rows, for the chunks before the one that raised. One for a missing
  or a foreign destination sends nothing and stores every event under its key unless the write fails, in which
  case nothing is stored. One in shadow mode sends and stores nothing.\<close>

theorem dispatch_accounts_for_batch:
  assumes d: "dispatch_batch_to_destination env agg config dest batch w tbl = (out, logs, w', tbl')"
  shows "keeps_rows tbl tbl' \<and>
    (case out of
       Dispatched tot lin \<Rightarrow> \<exists>dc chunks rs. config = Some dc \<and> concat chunks = outgoing env agg dc batch \<and>
         list_all2 (answered env) chunks rs \<and> map last logs = map SendResult rs \<and>
         dt_accepted tot = sum_list (map dr_accepted rs) \<and> dt_rejected tot = sum_list (map (length \<circ> dr_rejected) rs) \<and>
         (list_all2 (\<lambda>c r. dr_accepted r + length (dr_rejected r) = length c) chunks rs \<longrightarrow>
            dt_accepted tot + dt_rejected tot = length (outgoing env agg dc batch)) \<and>
         (\<forall>r\<in>set rs. \<forall>x\<in>set (dr_rejected r). map_of tbl' (dc_id dc, re_event_id x) \<noteq> None)
     | DispatchRaised e \<Rightarrow> \<exists>dc chunks rs. config = Some dc \<and> concat chunks = outgoing env agg dc batch \<and>
         length rs < length chunks \<and> length logs = Suc (length rs) \<and>
         list_all2 (answered env) (take (length rs) chunks) rs \<and> map last (butlast logs) = map SendResult rs \<and>
         (\<forall>r\<in>set rs. \<forall>x\<in>set (dr_rejected r). map_of tbl' (dc_id dc, re_event_id x) \<noteq> None)
     | ShadowFormatted \<Rightarrow> logs = [] \<and> w' = w \<and> tbl' = tbl
     | _ \<Rightarrow> logs = [] \<and> w' = w \<and>
         (if dv_db_raises env w then tbl' = tbl
          else \<forall>n < length batch. map_of tbl' (dest, batch_event_id (dv_fresh env) (n, batch ! n)) \<noteq> None))"
proof (cases "out = DestinationMissing \<or> out = CrossTenant \<or> out = ShadowFormatted")
  case True
  with d show ?thesis
    by (auto simp: dispatch_batch_to_destination_def persist_batch_row Let_def
        split: option.splits if_splits prod.splits sum.splits)
next
  case False
  with d obtain dc chunks res where c: "config = Some dc" and ch: "concat chunks = outgoing env agg dc batch"
    and run: "dispatch_chunks env dc \<lparr>dt_accepted = 0, dt_rejected = 0, dt_rejected_ids = []\<rparr> chunks w tbl = (res, logs, w', tbl')"
    and out: "case res of Inl e \<Rightarrow> out = DispatchRaised e | Inr tot \<Rightarrow> \<exists>lin. out = Dispatched tot lin"
    by (metis dispatch_sends)
  obtain rs where p: "chunks_post env dc \<lparr>dt_accepted = 0, dt_rejected = 0, dt_rejected_ids = []\<rparr> chunks tbl rs (res, logs, w', tbl')"
    using dispatch_chunks_post run by metis
  have sums: "list_all2 (\<lambda>c r. dr_accepted r + length (dr_rejected r) = length c) chunks rs \<Longrightarrow>
      sum_list (map dr_accepted rs) + sum_list (map (length \<circ> dr_rejected) rs) = length (concat chunks)"
    by (induction rule: list_all2_induct) auto
  show ?thesis
  proof (cases res)
    case (Inl e)
    then show ?thesis using p out c ch dispatch_keeps [OF d]
      by (auto simp: chunks_post_def butlast_conv_take intro!: exI [of _ chunks] exI [of _ rs])
  next
    case (Inr tot)
    then show ?thesis using p out c ch dispatch_keeps [OF d] sums
      by (auto simp: chunks_post_def intro!: exI [of _ chunks] exI [of _ rs])
  qed
qed

theorem dispatch_accounts_for_batch_witness:
  "\<exists>tot lin logs tbl' rs. dispatch_batch_to_destination (ex_env False) False (Some ex_dest) ''d''
      [ex_ev 7 ''e1'', ex_ev 7 ''e2''] [SendTimeout, SendResult ex_reject] [] = (Dispatched tot lin, logs, [], tbl') \<and>
    map last logs = map SendResult rs \<and> dt_accepted tot = sum_list (map dr_accepted rs) \<and> dt_accepted tot = 1"
proof -
  have d: "dispatch_batch_to_destination (ex_env False) False (Some ex_dest) ''d''
      [ex_ev 7 ''e1'', ex_ev 7 ''e2''] [SendTimeout, SendResult ex_reject] [] =
      (Dispatched \<lparr>dt_accepted = 1, dt_rejected = 1, dt_rejected_ids = [''e2'']\<rparr> [ex_ev 7 ''e1''],
       [[SendTimeout, SendResult ex_reject]], [],
       [((''d'', ''e2''), \<lparr>dl_org = Some 7, dl_kind = ''schema'', dl_detail = ''bad'', dl_payload = ''{...}''\<rparr>)])"
  proof -
    have "dc_org ex_dest = Some 7" "dp_shadow (dc_policy ex_dest) = False"
      and "batch_org_id [ex_ev 7 ''e1'', ex_ev 7 ''e2''] = Some 7"
      and "chunk_batch (dv_nbytes (ex_env False)) [ex_ev 7 ''e1'', ex_ev 7 ''e2''] (dp_max_items (dc_policy ex_dest))
             (dp_max_bytes (dc_policy ex_dest)) = [[ex_ev 7 ''e1'', ex_ev 7 ''e2'']]"
      and "lineage_envelopes \<lparr>dt_accepted = 1, dt_rejected = 1, dt_rejected_ids = [''e2'']\<rparr> [ex_ev 7 ''e1'', ex_ev 7 ''e2''] = [ex_ev 7 ''e1'']"
      and "dr_accepted ex_reject = 1" "\<not> dr_retryable ex_reject" "dr_rejected ex_reject \<noteq> []"
      and "map re_event_id (dr_rejected ex_reject) = [''e2'']" "length (dr_rejected ex_reject) = 1"
      by (simp_all add: ex_dest_def ex_policy_def ex_reject_def ex_ev_def ex_env_def batch_org_id_def envelope_meta_def dget_def
          as_dict_def chunk_batch_def lineage_envelopes_def)
    then show ?thesis by (simp add: dispatch_batch_to_destination_def ex_reject_send)
  qed
  have "\<exists>rs. map last [[SendTimeout, SendResult ex_reject]] = map SendResult rs \<and> 1 = sum_list (map dr_accepted rs)"
    using dispatch_accounts_for_batch [OF d] by (auto intro!: exI [of _ "[ex_reject]"])
  with d show ?thesis by force
qed

text \<open>C29: tenants do not mix. A batch of one organisation is never sent to a destination that belongs to
  another one: no attempt is made, the sink and the breaker are not touched. Every event of the batch then has
  a row in the dead-letter table under its key (its id, or a fresh one), unless the write of the rows fails:
  then the table is unchanged and the dispatch ends the same way.\<close>

theorem dispatch_cross_tenant_refused:
  assumes "dc_org dc = Some a" "batch_org_id batch = Some b" "a \<noteq> b"
  shows "\<exists>tbl'. dispatch_batch_to_destination env agg (Some dc) d batch w tbl = (CrossTenant, [], w, tbl') \<and>
         (if dv_db_raises env w then tbl' = tbl
          else \<forall>n < length batch. \<exists>row. map_of tbl' (d, batch_event_id (dv_fresh env) (n, batch ! n)) = Some row \<and>
                 dl_kind row = ''cross_tenant_destination'')"
  using assms
  by (auto simp: dispatch_batch_to_destination_def persist_batch_present)

theorem dispatch_cross_tenant_refused_witness:
  "\<exists>tbl'. dispatch_batch_to_destination (ex_env False) False (Some ex_dest) ''d'' [ex_ev 8 ''e1''] [] [] = (CrossTenant, [], [], tbl') \<and>
     map_of tbl' (''d'', ''e1'') \<noteq> None"
  using dispatch_cross_tenant_refused [of ex_dest 7 "[ex_ev 8 ''e1'']" 8 "ex_env False" False "''d''" "[]" "[]"]
  by (simp add: ex_dest_def ex_env_def batch_org_id_def ex_ev_def envelope_meta_def dget_def as_dict_def batch_event_id_def) fast

text \<open>C26: the drain keeps what the sink refuses again. Take any drain of the dead letters of a destination, with
  aggregation on or off and any number of lots, in which every row holds the event of its own id, and a sink
  that rejects events it was given, under their id, and does not use the drain's mark as a kind of error. Every
  event that a final answer of the sink rejects during the drain still has its row at the end, whatever the
  other lots did.\<close>

theorem drain_keeps_rejected:
  assumes run: "drain_destination_dlq env agg loads (Some dc) (dc_id dc) event_ids org_id global_scope w tbl = (res, logs, w', tbl')"
    and sink: "rejects_own env" and inv: "dlq_inv tbl"
    and own: "\<forall>((d, i), row)\<in>set tbl. d = dc_id dc \<longrightarrow>
                (\<forall>e. loads (dl_payload row) = Some e \<longrightarrow> dget (envelope_meta e) ''event_id'' = PStr i)"
    and rejected: "refused logs i"
  shows "map_of tbl' (dc_id dc, i) \<noteq> None"
proof -
  let ?rows = "list_dlq_for_reprocess (dc_id dc) event_ids org_id global_scope tbl"
  let ?res0 = "\<lparr>dn_delivered = 0, dn_failed = 0, dn_remaining = map (snd \<circ> fst) (drop drain_max ?rows), dn_yielded = False\<rparr>"
  obtain res1 tbl1 cands where f: "foldl (drain_prepare loads) (?res0, tbl, []) (take drain_max ?rows) = (res1, tbl1, cands)"
    by (metis prod_cases3)
  have rows: "set (take drain_max ?rows) \<subseteq> set tbl" "\<forall>x\<in>set (take drain_max ?rows). fst (fst x) = dc_id dc"
    by (auto simp: list_dlq_for_reprocess_def dest!: in_set_takeD)
  have "distinct (map fst (take drain_max ?rows))"
    using inv by (simp add: dlq_inv_def list_dlq_for_reprocess_def distinct_map_filter take_map [symmetric])
  then have "own_rows (dc_id dc) tbl1 cands"
    using rows own by (intro drain_prepare_rows [OF f]) (force simp: own_rows_def map_of_eq_None_iff)+
  then show ?thesis
    using run sink rejected f drain_lots_keeps_refused [of env agg dc "lots drain_lot cands" res1 w tbl1 res logs w' tbl' i]
    by (simp add: drain_destination_dlq_def drain_lot_def lots_concat numeral_eq_Suc)
qed

definition ex_dlq :: dlq where
  "ex_dlq = [((''d'', ''e1''), \<lparr>dl_org = Some 7, dl_kind = ''breaker_open'', dl_detail = [], dl_payload = ''p''\<rparr>)]"

definition ex_refusing :: "send_outcome list denv" where
  "ex_refusing = (ex_env False)\<lparr>dv_send := \<lambda>c w. (SendResult \<lparr>dr_accepted = 0,
     dr_rejected = concat (map (\<lambda>e. case dget (envelope_meta e) ''event_id'' of
       PStr i \<Rightarrow> [\<lparr>re_event_id = i, re_reason = ''bad'', re_error_kind = ''schema''\<rparr>] | _ \<Rightarrow> []) c), dr_retryable = False\<rparr>, w)\<rparr>"

lemma ex_refusing_own: "rejects_own ex_refusing"
  by (auto simp: rejects_own_def answered_def outcome_of_def ex_refusing_def dlq_kind_reprocessing_def split: pyval.splits)

theorem drain_keeps_rejected_witness:
  "\<exists>res logs w' tbl'. drain_destination_dlq ex_refusing True (\<lambda>_. Some (ex_ev 7 ''e1'')) (Some ex_dest) (dc_id ex_dest)
      None None True [] ex_dlq = (res, logs, w', tbl') \<and> dn_failed res = 1 \<and> refused logs ''e1'' \<and> map_of tbl' (''d'', ''e1'') \<noteq> None"
proof -
  let ?r = "\<lparr>dr_accepted = 0, dr_rejected = [\<lparr>re_event_id = ''e1'', re_reason = ''bad'', re_error_kind = ''schema''\<rparr>], dr_retryable = False\<rparr>"
  let ?tbl1 = "[((''d'', ''e1''), \<lparr>dl_org = Some 7, dl_kind = ''schema'', dl_detail = ''bad'', dl_payload = ''p''\<rparr>)]"
  let ?lot = "[((''d'', ''e1''), Some 7 :: int option, ex_ev 7 ''e1'')]"
  have d: "dispatch_batch_to_destination ex_refusing True (Some ex_dest) (dc_id ex_dest) (map (snd \<circ> snd) ?lot) []
      (mark_reprocessing (map fst ?lot) ex_dlq) =
      (Dispatched \<lparr>dt_accepted = 0, dt_rejected = 1, dt_rejected_ids = [''e1'']\<rparr> [], [[SendResult ?r]], [], ?tbl1)"
    by (simp add: dispatch_batch_to_destination_def ex_dest_def ex_policy_def batch_org_id_def ex_ev_def envelope_meta_def
        dget_def as_dict_def chunk_batch_def send_chunk_with_retry_def effective_retries_def ex_refusing_def ex_env_def
        lineage_envelopes_def numeral_2_eq_2 persist_rejected_to_dlq_def dlq_upsert_def rejected_row_def build_event_map_def
        row_org_def payload_text_def mark_reprocessing_def ex_dlq_def)
  have prep: "foldl (drain_prepare (\<lambda>_. Some (ex_ev 7 ''e1''))) (\<lparr>dn_delivered = 0, dn_failed = 0, dn_remaining = [], dn_yielded = False\<rparr>, ex_dlq, []) ex_dlq =
      (\<lparr>dn_delivered = 0, dn_failed = 0, dn_remaining = [], dn_yielded = False\<rparr>, ex_dlq, ?lot)"
    by (simp add: drain_prepare_def ex_dlq_def)
  have "list_dlq_for_reprocess (dc_id ex_dest) None None True ex_dlq = ex_dlq" "length ex_dlq = 1"
    by (simp_all add: list_dlq_for_reprocess_def ex_dlq_def ex_dest_def)
  with prep d have run: "drain_destination_dlq ex_refusing True (\<lambda>_. Some (ex_ev 7 ''e1'')) (Some ex_dest) (dc_id ex_dest) None None True [] ex_dlq =
      (\<lparr>dn_delivered = 0, dn_failed = 1, dn_remaining = [], dn_yielded = False\<rparr>, [[SendResult ?r]], [], ?tbl1)"
    by (simp add: drain_destination_dlq_def drain_max_def drain_lot_def lots_single still_marked_def dlq_kind_reprocessing_def
        delete_dlq_entries_def)
  have ref: "refused [[SendResult ?r]] ''e1''" by (simp add: refused_def)
  have own: "\<forall>((d, i), row)\<in>set ex_dlq. d = dc_id ex_dest \<longrightarrow>
      (\<forall>e. Some (ex_ev 7 ''e1'') = Some e \<longrightarrow> dget (envelope_meta e) ''event_id'' = PStr i)"
    by (simp add: ex_dlq_def ex_ev_def envelope_meta_def dget_def as_dict_def)
  have inv: "dlq_inv ex_dlq" by (simp add: dlq_inv_def ex_dlq_def)
  from drain_keeps_rejected [OF run ex_refusing_own inv own ref] run ref show ?thesis by (simp add: ex_dest_def)
qed

text \<open>With aggregation on, the drain deletes the rows of a refused group but the first: the sink refuses the one
  event that stands for the group, and only that row loses the mark of the drain.\<close>

definition ex_grouping :: dest_config where
  "ex_grouping = \<lparr>dc_id = ''d'', dc_org = Some 7, dc_policy = ex_policy\<lparr>dp_group_by := [''organization_id'']\<rparr>\<rparr>"

definition ex_member :: "string \<Rightarrow> string \<Rightarrow> (string \<times> string) \<times> dlq_row" where
  "ex_member kind i = ((''d'', i), \<lparr>dl_org = Some 7, dl_kind = kind, dl_detail = [], dl_payload = i\<rparr>)"

theorem drain_aggregation_loses_group:
  "\<exists>logs row. drain_lots ex_refusing True (Some ex_grouping) ''d''
     [map (\<lambda>i. ((''d'', i), Some 7, ex_ev 7 i)) [''e1'', ''e2'']]
     \<lparr>dn_delivered = 0, dn_failed = 0, dn_remaining = [], dn_yielded = False\<rparr> [] (map (ex_member ''breaker_open'') [''e1'', ''e2'']) =
   (\<lparr>dn_delivered = 1, dn_failed = 1, dn_remaining = [], dn_yielded = False\<rparr>, logs, [], [((''d'', ''e1''), row)])"
proof -
  let ?g = "AList.update ''_aggregate'' (PDict [(''count'', PInt 2), (''group'', PDict [(''organization_id'', PStr (py_str (PInt 7)))])]) (ex_ev 7 ''e1'')"
  let ?r = "\<lparr>dr_accepted = 0, dr_rejected = [\<lparr>re_event_id = ''e1'', re_reason = ''bad'', re_error_kind = ''schema''\<rparr>], dr_retryable = False\<rparr>"
  have co: "outgoing ex_refusing True ex_grouping [ex_ev 7 ''e1'', ex_ev 7 ''e2''] = [?g]"
    by (simp add: outgoing_def ex_grouping_def ex_policy_def coalesce_def group_key_def group_event_def ex_ev_def envelope_meta_def
        dget_def as_dict_def dget_default_def)
  have send: "send_chunk_with_retry ex_refusing ex_grouping [?g] [] (mark_reprocessing [(''d'', ''e1''), (''d'', ''e2'')] (map (ex_member ''breaker_open'') [''e1'', ''e2''])) =
     (Inr ?r, [SendResult ?r], [], [((''d'', ''e1''), \<lparr>dl_org = Some 7, dl_kind = ''schema'', dl_detail = ''bad'', dl_payload = ''e1''\<rparr>),
        ex_member dlq_kind_reprocessing ''e2''])"
    by (simp add: send_chunk_with_retry_def effective_retries_def ex_grouping_def ex_policy_def ex_refusing_def ex_env_def ex_ev_def
        numeral_2_eq_2 persist_rejected_to_dlq_def dlq_upsert_def rejected_row_def build_event_map_def envelope_meta_def
        dget_def as_dict_def row_org_def payload_text_def mark_reprocessing_def ex_member_def)
  have "dispatch_batch_to_destination ex_refusing True (Some ex_grouping) ''d'' [ex_ev 7 ''e1'', ex_ev 7 ''e2''] []
      (mark_reprocessing [(''d'', ''e1''), (''d'', ''e2'')] (map (ex_member ''breaker_open'') [''e1'', ''e2''])) =
     (Dispatched \<lparr>dt_accepted = 0, dt_rejected = 1, dt_rejected_ids = [''e1'']\<rparr> [], [[SendResult ?r]], [],
      [((''d'', ''e1''), \<lparr>dl_org = Some 7, dl_kind = ''schema'', dl_detail = ''bad'', dl_payload = ''e1''\<rparr>),
        ex_member dlq_kind_reprocessing ''e2''])"
  proof -
    have "dc_org ex_grouping = Some 7" "\<not> dp_shadow (dc_policy ex_grouping)" "dp_group_by (dc_policy ex_grouping) \<noteq> []"
      "batch_org_id [ex_ev 7 ''e1'', ex_ev 7 ''e2''] = Some 7"
      "chunk_batch (dv_nbytes ex_refusing) [?g] (dp_max_items (dc_policy ex_grouping)) (dp_max_bytes (dc_policy ex_grouping)) = [[?g]]"
      by (simp_all add: ex_grouping_def ex_policy_def batch_org_id_def ex_ev_def envelope_meta_def dget_def as_dict_def chunk_batch_def)
    with co send show ?thesis
      by (simp add: dispatch_batch_to_destination_def outgoing_def Let_def lineage_envelopes_def)
  qed
  then show ?thesis
    by (simp add: still_marked_def dlq_kind_reprocessing_def delete_dlq_entries_def ex_member_def)
qed

text \<open>the drain loses events of a destination in shadow mode: nothing is sent, but the rows keep the mark
  of the drain, are counted as delivered and deleted.\<close>

theorem drain_shadow_loses_events:
  "drain_destination_dlq (ex_env False) False (\<lambda>_. Some (ex_ev 7 ''e1''))
     (Some (ex_dest\<lparr>dc_policy := ex_policy\<lparr>dp_shadow := True\<rparr>\<rparr>)) ''d'' None None True [] ex_dlq =
   (\<lparr>dn_delivered = 1, dn_failed = 0, dn_remaining = [], dn_yielded = False\<rparr>, [], [], [])"
  by (simp add: drain_destination_dlq_def ex_dlq_def list_dlq_for_reprocess_def drain_prepare_def drain_max_def
      drain_lot_def dispatch_batch_to_destination_def ex_dest_def ex_policy_def batch_org_id_def ex_ev_def
      envelope_meta_def dget_def as_dict_def mark_reprocessing_def still_marked_def delete_dlq_entries_def
      numeral_eq_Suc Let_def)

text \<open>a failed dead-letter write loses the batch of a deleted destination: the dispatcher ignores that the
  write failed, the task ends normally and nothing was sent or stored.\<close>

theorem dispatch_missing_ignores_dlq_failure:
  "dispatch_batch_to_destination (ex_env True) False None ''d'' [ex_ev 7 ''e1''] [] [] = (DestinationMissing, [], [], []) \<and>
   run_dispatch_to_destination DestinationMissing = TaskOk"
  by (simp add: dispatch_batch_to_destination_def persist_batch_dlq_def ex_env_def run_dispatch_to_destination_def)

end
