(* ===== verification/Cursor_Boundary.thy ===== *)
theory Cursor_Boundary
  imports Py_Prelude "HOL-Library.Multiset"
begin

text \<open>
  The memory of the boundary of a collection window, \<open>collectors/cursor_boundary.py\<close>, and the reading of instants of
  \<open>collectors/base.py\<close>.

  A vendor whose lower bound is inclusive returns the last events of a window again in the next cycle. The
  collectors keep, inside the cursor, the keys of the events at the place where the next window begins
  (\<open>dump\<close>), load them with the cursor (\<open>load\<close>) and skip events they remember (\<open>seen\<close>). Instants are
  microseconds; \<open>datetime.fromisoformat\<close> is the argument \<open>fromiso\<close>, which gives the local time and the offset of
  a text it accepts. A frozenset of keys is a list without repetitions.
\<close>

section \<open>Instants\<close>

datatype pywhen = WhenText string | WhenDatetime int "int option" | WhenNone

type_synonym fromiso = "string \<Rightarrow> (int \<times> int option) option"

definition naive_utc :: "int \<times> int option \<Rightarrow> int" where
  "naive_utc p = (case p of (local, None) \<Rightarrow> local | (local, Some offset) \<Rightarrow> local - offset)"

definition iso_text :: "string \<Rightarrow> string" where
  "iso_text raw =
     (let t = strip raw in
      if endswith t ''Z'' \<or> endswith t ''z'' then butlast t @ ''+00:00''
      else if length t \<ge> 5 \<and> t ! (length t - 5) \<in> set ''+-'' \<and> t ! (length t - 3) \<noteq> CHR '':''
      then take (length t - 2) t @ '':'' @ drop (length t - 2) t
      else t)"

definition parse_iso_utc_naive :: "fromiso \<Rightarrow> string \<Rightarrow> int option" where
  "parse_iso_utc_naive fromiso raw = map_option naive_utc (fromiso (iso_text raw))"

definition instant :: "fromiso \<Rightarrow> pywhen \<Rightarrow> int option" where
  "instant fromiso w =
     (case w of
        WhenDatetime local offset \<Rightarrow> Some (naive_utc (local, offset))
      | WhenText t \<Rightarrow> if strip t \<noteq> [] then parse_iso_utc_naive fromiso t else None
      | WhenNone \<Rightarrow> None)"

definition is_later :: "fromiso \<Rightarrow> pywhen \<Rightarrow> pywhen \<Rightarrow> bool" where
  "is_later fromiso candidate current =
     (case instant fromiso candidate of
        None \<Rightarrow> False
      | Some cand \<Rightarrow> (case instant fromiso current of None \<Rightarrow> True | Some cur \<Rightarrow> cand > cur))"

section \<open>Keys of the boundary\<close>

record boundary_keys =
  bk_window_start :: "string option"
  bk_previous :: "string list"
  bk_recent :: "(int \<times> string) list"
  bk_skipped :: nat

definition max_keys :: nat where
  "max_keys = 500"

definition boundary_load :: "pydict option \<Rightarrow> string option \<Rightarrow> boundary_keys" where
  "boundary_load cursor window_start =
     (let previous =
        (case (window_start, dget (case cursor of None \<Rightarrow> [] | Some c \<Rightarrow> c) ''boundary'') of
           (Some w, PDict state) \<Rightarrow>
             if w \<noteq> [] \<and> py_eq (dget state ''at'') (PStr w) then
               (case dget state ''keys'' of
                  PList ks \<Rightarrow> remdups (concat (map (\<lambda>k. case k of PStr s \<Rightarrow> if s \<noteq> [] then [s] else [] | _ \<Rightarrow> []) ks))
                | _ \<Rightarrow> [])
             else []
         | _ \<Rightarrow> [])
      in \<lparr>bk_window_start = window_start, bk_previous = previous, bk_recent = [], bk_skipped = 0\<rparr>)"

definition prune_recent :: "(int \<times> string) list \<Rightarrow> (int \<times> string) list" where
  "prune_recent recent =
     (if length recent > 2 * max_keys then drop (length recent - max_keys) (sort recent) else recent)"

definition observe :: "fromiso \<Rightarrow> pywhen \<Rightarrow> string \<Rightarrow> boundary_keys \<Rightarrow> boundary_keys" where
  "observe fromiso w key b =
     (case instant fromiso w of
        None \<Rightarrow> b
      | Some t \<Rightarrow> if key = [] then b else b\<lparr>bk_recent := prune_recent (bk_recent b @ [(t, key)])\<rparr>)"

definition seen :: "fromiso \<Rightarrow> pywhen \<Rightarrow> string \<Rightarrow> boundary_keys \<Rightarrow> bool \<times> boundary_keys" where
  "seen fromiso w key b =
     (let b1 = observe fromiso w key b in
      if key \<noteq> [] \<and> key \<in> set (bk_previous b1) then (True, b1\<lparr>bk_skipped := bk_skipped b1 + 1\<rparr>) else (False, b1))"

definition boundary_entry :: "string \<Rightarrow> string list \<Rightarrow> pydict" where
  "boundary_entry start keys = [(''boundary'', PDict [(''at'', PStr start), (''keys'', PList (map PStr (sort keys)))])]"

definition carry :: "boundary_keys \<Rightarrow> pydict" where
  "carry b =
     (case bk_window_start b of
        Some (c # cs) \<Rightarrow> if bk_previous b = [] then [] else boundary_entry (c # cs) (bk_previous b)
      | _ \<Rightarrow> [])"

fun dump_loop :: "string list \<Rightarrow> (int \<times> string) list \<Rightarrow> string list" where
  "dump_loop keys [] = keys"
| "dump_loop keys ((_, key) # rest) =
     (if key \<in> set keys then dump_loop keys rest
      else if length keys \<ge> max_keys then keys
      else dump_loop (keys @ [key]) rest)"

definition boundary_keys_from :: "int \<Rightarrow> (int \<times> string) list \<Rightarrow> string list" where
  "boundary_keys_from bound recent = dump_loop [] (rev (sort (filter (\<lambda>item. fst item \<ge> bound) recent)))"

definition dump :: "fromiso \<Rightarrow> string option \<Rightarrow> boundary_keys \<Rightarrow> pydict" where
  "dump fromiso next_window_start b =
     (case next_window_start of
        None \<Rightarrow> []
      | Some nw \<Rightarrow>
          (case instant fromiso (WhenText nw) of
             None \<Rightarrow> []
           | Some bound \<Rightarrow>
               (let keys = boundary_keys_from bound (bk_recent b) in
                if keys = [] then (if next_window_start = bk_window_start b then carry b else [])
                else boundary_entry nw keys)))"

section \<open>A cycle of a collector\<close>

text \<open>The loop every collector has around \<open>seen\<close>: an event that was seen is skipped, the others are emitted.\<close>

type_synonym vendor_event = "pywhen \<times> string"

fun boundary_cycle :: "fromiso \<Rightarrow> vendor_event list \<Rightarrow> boundary_keys \<Rightarrow> vendor_event list \<times> boundary_keys" where
  "boundary_cycle fromiso [] b = ([], b)"
| "boundary_cycle fromiso ((w, key) # rest) b =
     (case seen fromiso w key b of
        (skip, b1) \<Rightarrow>
          (case boundary_cycle fromiso rest b1 of
             (out, b2) \<Rightarrow> (if skip then out else (w, key) # out, b2)))"

section \<open>Pruning does not change what is remembered\<close>

text \<open>Insertion into a descending list; sorting in reverse is repeated insertion.\<close>

fun ins_desc :: "'a::linorder \<Rightarrow> 'a list \<Rightarrow> 'a list" where
  "ins_desc x [] = [x]"
| "ins_desc x (y # ys) = (if y \<le> x then x # y # ys else y # ins_desc x ys)"

lemma ins_desc_mset: "mset (ins_desc x ys) = add_mset x (mset ys)"
  by (induction ys) auto

lemma ins_desc_sorted: "sorted_wrt (\<ge>) ys \<Longrightarrow> sorted_wrt (\<ge>) (ins_desc x ys)"
proof (induction ys)
  case (Cons y ys)
  have "set (ins_desc x ys) = insert x (set ys)" by (metis ins_desc_mset set_mset_add_mset_insert set_mset_mset)
  with Cons show ?case by auto
qed simp

lemma rev_sort_unique: "mset ys = mset xs \<Longrightarrow> sorted_wrt (\<ge>) ys \<Longrightarrow> rev (sort xs) = ys"
proof -
  assume a: "mset ys = mset xs" "sorted_wrt (\<ge>) ys"
  have "sort xs = rev ys" using a by (intro properties_for_sort) (simp_all add: sorted_wrt_rev)
  then show ?thesis by simp
qed

lemma rev_sort_snoc: "rev (sort (xs @ [x])) = ins_desc x (rev (sort xs))"
  by (rule rev_sort_unique) (simp_all add: ins_desc_mset ins_desc_sorted sorted_wrt_rev)

lemma take_ins_desc: "take k (ins_desc x ys) = take k (ins_desc x (take k ys))"
  by (induction ys arbitrary: k) (auto simp: take_Cons' split: if_splits)

definition top :: "(int \<times> string) list \<Rightarrow> (int \<times> string) list" where
  "top xs = take max_keys (rev (sort xs))"

lemma top_snoc: "top xs = top ys \<Longrightarrow> top (xs @ [x]) = top (ys @ [x])"
  unfolding top_def rev_sort_snoc by (metis take_ins_desc)

lemma top_prune: "top (prune_recent xs) = top xs"
proof (cases "length xs > 2 * max_keys")
  case True
  have "sort (drop n (sort xs)) = drop n (sort xs)" for n by (simp add: sorted_sort_id)
  then have "rev (sort (prune_recent xs)) = take max_keys (rev (sort xs))"
    using True by (simp add: prune_recent_def take_rev)
  then show ?thesis by (simp add: top_def)
qed (simp add: prune_recent_def)

text \<open>The keys written depend only on the greatest items.\<close>

lemma dump_loop_distinct:
  "distinct (keys @ map snd xs) \<Longrightarrow> length keys \<le> max_keys \<Longrightarrow>
   dump_loop keys xs = keys @ map snd (take (max_keys - length keys) xs)"
proof (induction xs arbitrary: keys)
  case (Cons x xs)
  obtain t k where x: "x = (t, k)" by (cases x)
  show ?case
  proof (cases "length keys = max_keys")
    case False
    with Cons.prems have l: "length keys < max_keys" by simp
    then have "max_keys - length keys = Suc (max_keys - length (keys @ [k]))" by simp
    with Cons.IH [of "keys @ [k]"] Cons.prems x l show ?thesis by (simp add: take_Suc_Cons)
  qed (use x Cons.prems in simp)
qed simp

lemma filter_desc_takeWhile:
  assumes "sorted_wrt (\<ge>) xs" and up: "\<And>x y. P y \<Longrightarrow> y \<le> x \<Longrightarrow> P x"
  shows "filter P xs = takeWhile P xs"
  using assms(1)
proof (induction xs)
  case (Cons a xs)
  have "filter P xs = []" if "\<not> P a" using Cons.prems up [of _ a] that by (auto simp: filter_empty_conv)
  with Cons show ?case by auto
qed simp

lemma take_takeWhile: "take n (takeWhile P xs) = takeWhile P (take n xs)"
  by (induction xs arbitrary: n) (auto simp: take_Cons split: nat.splits)

lemma boundary_keys_from_top:
  assumes "distinct (map snd xs)"
  shows "boundary_keys_from bound xs = map snd (filter (\<lambda>item. fst item \<ge> bound) (top xs))"
proof -
  let ?P = "\<lambda>item :: int \<times> string. fst item \<ge> bound"
  let ?D = "rev (sort xs)"
  have desc: "sorted_wrt (\<ge>) ?D" "sorted_wrt (\<ge>) (take n ?D)" for n
    using sorted_wrt_take [of "(\<ge>)" ?D n] by (simp_all add: sorted_wrt_rev)
  have up: "?P y \<Longrightarrow> y \<le> x \<Longrightarrow> ?P x" for x y by (auto simp: less_eq_prod_def)
  have f: "rev (sort (filter ?P xs)) = filter ?P ?D" by (simp add: filter_sort [symmetric] rev_filter)
  have "distinct (map snd ?D)" using assms by (simp add: distinct_map)
  then have "distinct (map snd (filter ?P ?D))" by (rule distinct_map_filter)
  then have "boundary_keys_from bound xs = map snd (take max_keys (filter ?P ?D))"
    unfolding boundary_keys_from_def f using dump_loop_distinct [of "[]" "filter ?P ?D"] by simp
  also have "take max_keys (filter ?P ?D) = filter ?P (take max_keys ?D)"
    by (simp add: filter_desc_takeWhile [OF desc(1) up] filter_desc_takeWhile [OF desc(2) up] take_takeWhile)
  finally show ?thesis by (simp add: top_def)
qed

section \<open>What a cycle does\<close>

text \<open>The items a cycle registers, without any pruning.\<close>

definition observed :: "fromiso \<Rightarrow> vendor_event list \<Rightarrow> (int \<times> string) list" where
  "observed fromiso es =
     concat (map (\<lambda>(w, key). case instant fromiso w of None \<Rightarrow> [] | Some t \<Rightarrow> if key = [] then [] else [(t, key)]) es)"

lemma observed_Nil [simp]: "observed f [] = []"
  by (simp add: observed_def)

lemma observed_Cons:
  "observed f ((w, key) # es) =
     (case instant f w of None \<Rightarrow> [] | Some t \<Rightarrow> if key = [] then [] else [(t, key)]) @ observed f es"
  by (simp add: observed_def)

lemma observe_fields [simp]:
  "bk_previous (observe f w key b) = bk_previous b" "bk_window_start (observe f w key b) = bk_window_start b"
  by (simp_all add: observe_def split: option.splits)

lemma seen_fields [simp]:
  "bk_previous (snd (seen f w key b)) = bk_previous b" "bk_window_start (snd (seen f w key b)) = bk_window_start b"
  "bk_recent (snd (seen f w key b)) = bk_recent (observe f w key b)"
  "fst (seen f w key b) \<longleftrightarrow> key \<noteq> [] \<and> key \<in> set (bk_previous b)"
  by (simp_all add: seen_def Let_def)

lemma cycle_fields [simp]:
  "bk_previous (snd (boundary_cycle f es b)) = bk_previous b"
  "bk_window_start (snd (boundary_cycle f es b)) = bk_window_start b"
  by (induction es arbitrary: b) (auto simp: split_beta)

lemma cycle_emits: "fst (boundary_cycle f es b) = filter (\<lambda>(w, key). key = [] \<or> key \<notin> set (bk_previous b)) es"
proof (induction es arbitrary: b)
  case (Cons e es)
  obtain w key where e: "e = (w, key)" by (cases e)
  show ?case unfolding e using Cons.IH [of "snd (seen f w key b)"] by (auto simp: split_beta)
qed simp

lemma prune_set: "set (prune_recent xs) \<subseteq> set xs"
  by (auto simp: prune_recent_def dest: in_set_dropD)

lemma prune_distinct: "distinct (map snd xs) \<Longrightarrow> distinct (map snd (prune_recent xs))"
proof -
  assume "distinct (map snd xs)"
  then have "distinct (map snd (sort xs))" by (simp add: distinct_map)
  then show ?thesis
    using \<open>distinct (map snd xs)\<close> by (simp add: prune_recent_def flip: drop_map)
qed

lemma prune_append_distinct:
  assumes "distinct (map snd (xs @ zs))"
  shows "distinct (map snd (prune_recent xs @ zs))"
proof -
  have "snd ` set (prune_recent xs) \<subseteq> snd ` set xs" by (rule image_mono) (rule prune_set)
  moreover have "distinct (map snd (prune_recent xs))" using assms by (intro prune_distinct) simp
  ultimately show ?thesis using assms unfolding map_append distinct_append set_map by blast
qed

lemma cycle_recent_set: "set (bk_recent (snd (boundary_cycle f es b))) \<subseteq> set (bk_recent b) \<union> set (observed f es)"
proof (induction es arbitrary: b)
  case (Cons e es)
  obtain w key where e: "e = (w, key)" by (cases e)
  have "set (bk_recent (observe f w key b)) \<subseteq> set (bk_recent b) \<union> set (observed f [e])"
    using prune_set [of "bk_recent b @ [(_, key)]"] unfolding e
    by (auto simp: observe_def observed_Cons split: option.splits)
  moreover have "set (observed f (e # es)) = set (observed f [e]) \<union> set (observed f es)"
    by (auto simp: observed_def)
  ultimately show ?case using Cons.IH [of "snd (seen f w key b)"] unfolding e by (auto simp: split_beta)
qed simp

lemma cycle_recent:
  assumes "distinct (map snd (bk_recent b @ observed f es))"
  shows "top (bk_recent (snd (boundary_cycle f es b))) = top (bk_recent b @ observed f es) \<and>
         distinct (map snd (bk_recent (snd (boundary_cycle f es b))))"
  using assms
proof (induction es arbitrary: b)
  case (Cons e es)
  obtain w key where e: "e = (w, key)" by (cases e)
  let ?b = "snd (seen f w key b)"
  show ?case
  proof (cases "\<exists>t. instant f w = Some t \<and> key \<noteq> []")
    case False
    then have "bk_recent ?b = bk_recent b" "observed f (e # es) = observed f es"
      unfolding e by (auto simp: observe_def observed_Cons split: option.splits)
    with Cons.IH [of ?b] Cons.prems e show ?thesis by (simp add: split_beta)
  next
    case True
    then obtain t where t: "instant f w = Some t" "key \<noteq> []" by blast
    then have r: "bk_recent (observe f w key b) = prune_recent (bk_recent b @ [(t, key)])"
      and o: "observed f (e # es) = (t, key) # observed f es"
      unfolding e by (simp_all add: observe_def observed_Cons)
    have d: "distinct (map snd (bk_recent ?b @ observed f es))"
      using Cons.prems prune_append_distinct [of "bk_recent b @ [(t, key)]" "observed f es"] by (simp add: r o)
    have app: "top (xs @ zs) = top (ys @ zs)" if "top xs = top ys" for xs ys zs
      using that by (induction zs arbitrary: xs ys) (auto, metis append.assoc append_Cons append_Nil top_snoc)
    have "top (bk_recent ?b @ observed f es) = top (bk_recent b @ observed f (e # es))"
      using app [of "bk_recent ?b" "bk_recent b @ [(t, key)]" "observed f es"] top_prune [of "bk_recent b @ [(t, key)]"]
      by (simp add: r o)
    with Cons.IH [OF d] show ?thesis unfolding e by (simp add: split_beta)
  qed
qed simp

section \<open>Cycle after cycle\<close>

text \<open>A sequence of successful cycles. Each returns the vendor's events and how it leaves the cursor: resumable
  (the cap of pages was reached, the window stays) or moved to a next window.\<close>

datatype cycle_end = Resume | Advance string

fun boundary_run ::
  "fromiso \<Rightarrow> pydict \<Rightarrow> string option \<Rightarrow> (vendor_event list \<times> cycle_end) list \<Rightarrow> vendor_event list list" where
  "boundary_run fromiso cursor window [] = []"
| "boundary_run fromiso cursor window ((es, ending) # rest) =
     (case boundary_cycle fromiso es (boundary_load (Some cursor) window) of
        (out, b) \<Rightarrow>
          out # (case ending of
                   Resume \<Rightarrow> boundary_run fromiso (carry b) window rest
                 | Advance nw \<Rightarrow> boundary_run fromiso (dump fromiso (Some nw) b) (Some nw) rest))"

lemma load_fields [simp]:
  "bk_window_start (boundary_load c w) = w" "bk_recent (boundary_load c w) = []"
  by (simp_all add: boundary_load_def Let_def)

lemma load_entry:
  assumes "dget c ''boundary'' = dget (boundary_entry start keys) ''boundary''" "start \<noteq> []"
  shows "set (bk_previous (boundary_load (Some c) w)) = (if w = Some start then set keys - {[]} else {})"
proof -
  have ks: "concat (map (\<lambda>k. case k of PStr s \<Rightarrow> if s \<noteq> [] then [s] else [] | _ \<Rightarrow> []) (map PStr xs)) = filter (\<lambda>s. s \<noteq> []) xs" for xs
    by (induction xs) auto
  have e: "dget (boundary_entry start keys) ''boundary'' = PDict [(''at'', PStr start), (''keys'', PList (map PStr (sort keys)))]"
    by (simp add: boundary_entry_def dget_def)
  show ?thesis
  proof (cases w)
    case (Some x)
    have "bk_previous (boundary_load (Some c) w) =
        (if x \<noteq> [] \<and> py_eq (PStr start) (PStr x) then remdups (filter (\<lambda>s. s \<noteq> []) (sort keys)) else [])"
      unfolding boundary_load_def Some using assms(1) e ks [of "sort keys"] by (simp add: dget_def)
    then show ?thesis using Some assms(2) by auto
  qed (simp add: boundary_load_def)
qed

lemma load_empty: "dget c ''boundary'' = PNone \<Longrightarrow> bk_previous (boundary_load (Some c) w) = []"
  by (auto simp: boundary_load_def split: option.splits)

lemma dump_loop_subset: "set (dump_loop keys xs) \<subseteq> set keys \<union> snd ` set xs"
  by (induction keys xs rule: dump_loop.induct) auto

lemma boundary_keys_from_subset: "set (boundary_keys_from bound xs) \<subseteq> snd ` set xs"
  using dump_loop_subset [of "[]" "rev (sort (filter (\<lambda>item. fst item \<ge> bound) xs))"]
  by (auto simp: boundary_keys_from_def)

lemma carry_reload:
  "set (bk_previous (boundary_load (Some (carry b)) w)) \<subseteq> set (bk_previous b)"
proof (cases "carry b = []")
  case False
  then obtain c cs where "bk_window_start b = Some (c # cs)" "carry b = boundary_entry (c # cs) (bk_previous b)"
    by (auto simp: carry_def split: option.splits list.splits if_splits)
  then show ?thesis using load_entry [of "carry b" "c # cs" "bk_previous b" w] by auto
qed (simp add: load_empty)

lemma dump_reload:
  "set (bk_previous (boundary_load (Some (dump f (Some nw) b)) w)) \<subseteq> set (bk_previous b) \<union> snd ` set (bk_recent b)"
proof (cases "instant f (WhenText nw)")
  case (Some bound)
  then have "nw \<noteq> []" by (auto simp: instant_def strip_def split: if_splits)
  with Some load_entry [of "dump f (Some nw) b" nw "boundary_keys_from bound (bk_recent b)" w] carry_reload [of b w]
    boundary_keys_from_subset [of bound "bk_recent b"]
  show ?thesis by (auto simp: dump_def Let_def load_empty split: if_splits)
qed (simp add: dump_def load_empty)

lemma dump_cong:
  "(\<And>bound. boundary_keys_from bound (bk_recent a) = boundary_keys_from bound (bk_recent b)) \<Longrightarrow>
   bk_window_start a = bk_window_start b \<Longrightarrow> bk_previous a = bk_previous b \<Longrightarrow> dump f nw a = dump f nw b"
proof -
  assume a: "\<And>bound. boundary_keys_from bound (bk_recent a) = boundary_keys_from bound (bk_recent b)"
    "bk_window_start a = bk_window_start b" "bk_previous a = bk_previous b"
  then have "carry a = carry b" by (simp only: carry_def)
  with a show ?thesis by (auto simp: dump_def Let_def split: option.splits)
qed

lemma run_step:
  "K1 \<subseteq> O1 \<union> P \<Longrightarrow> K2 \<subseteq> R \<union> Q \<Longrightarrow> Q \<subseteq> P \<union> C \<Longrightarrow> C \<subseteq> K1 \<Longrightarrow> K1 \<union> K2 \<subseteq> (O1 \<union> R) \<union> P"
  by blast

lemma observed_keys: "snd ` set (observed f es) \<subseteq> snd ` set es"
  by (force simp: observed_def split: option.splits if_splits)

lemma run_no_loss:
  "snd ` set (concat (map fst steps)) \<subseteq>
   snd ` set (concat (boundary_run f c w steps)) \<union> set (bk_previous (boundary_load (Some c) w))"
proof (induction steps arbitrary: c w)
  case (Cons st steps)
  obtain es ending where st: "st = (es, ending)" by (cases st)
  let ?b0 = "boundary_load (Some c) w"
  obtain out b where cyc: "boundary_cycle f es ?b0 = (out, b)" by fastforce
  have out: "snd ` set es \<subseteq> snd ` set out \<union> set (bk_previous ?b0)"
    using cycle_emits [of f es ?b0] cyc by force
  have prev: "bk_previous b = bk_previous ?b0" using cycle_fields(1) [of f es ?b0] cyc by simp
  have rec: "snd ` set (bk_recent b) \<subseteq> snd ` set es"
    using cycle_recent_set [of f es ?b0] observed_keys [of f es] cyc by auto
  have keys: "snd ` set (concat (map fst (st # steps))) = snd ` set es \<union> snd ` set (concat (map fst steps))"
    by (simp add: st image_Un)
  show ?case
  proof (cases ending)
    case Resume
    have "snd ` set (concat (boundary_run f c w (st # steps))) = snd ` set out \<union> snd ` set (concat (boundary_run f (carry b) w steps))"
      by (simp add: st cyc Resume image_Un)
    with run_step [OF out Cons.IH [of "carry b" w], of "{}"] carry_reload [of b w] prev keys show ?thesis by simp
  next
    case (Advance nw)
    let ?run = "boundary_run f (dump f (Some nw) b) (Some nw) steps"
    have "snd ` set (concat (boundary_run f c w (st # steps))) = snd ` set out \<union> snd ` set (concat ?run)"
      by (simp add: st cyc Advance image_Un)
    with run_step [OF out Cons.IH [of "dump f (Some nw) b" "Some nw"] _ rec] dump_reload [of f nw b "Some nw"] prev keys
    show ?thesis by simp
  qed
qed simp

lemma boundary_prune_reference:
  assumes "distinct (map snd (observed fromiso es))"
  shows "dump fromiso nw (snd (boundary_cycle fromiso es (boundary_load cursor w))) =
         dump fromiso nw ((boundary_load cursor w)\<lparr>bk_recent := observed fromiso es\<rparr>)"
proof -
  let ?b = "boundary_load cursor w"
  let ?b' = "snd (boundary_cycle fromiso es ?b)"
  have r: "top (bk_recent ?b') = top (observed fromiso es)" "distinct (map snd (bk_recent ?b'))"
    using cycle_recent [of ?b fromiso es] assms by simp_all
  have "boundary_keys_from bound (bk_recent ?b') = boundary_keys_from bound (observed fromiso es)" for bound
    using boundary_keys_from_top [OF r(2)] boundary_keys_from_top [OF assms] r(1) by simp
  then show ?thesis by (intro dump_cong) simp_all
qed

text \<open>C37: the memory of the boundary never loses an event. Over any sequence of cycles that starts from an empty
  cursor, resumed or moved on, every key the vendor returned is the key of an event that was emitted.\<close>

theorem boundary_no_loss:
  "snd ` set (concat (map fst steps)) \<subseteq> snd ` set (concat (boundary_run fromiso [] w steps))"
  using run_no_loss [of steps fromiso "[]" w] by (simp add: load_empty)

text \<open>amortised pruning is exact. When no key repeats within a cycle, the memory written from the pruned list
  of a cycle of any length equals the memory written from the complete list of what the cycle observed.\<close>

theorem boundary_prune_exact:
  assumes "distinct (map snd (observed fromiso es))"
  shows "dump fromiso nw (snd (boundary_cycle fromiso es (boundary_load cursor w))) =
         dump fromiso nw ((boundary_load cursor w)\<lparr>bk_recent := observed fromiso es\<rparr>)"
  using assms by (rule boundary_prune_reference)

theorem boundary_prune_exact_witness:
  "dump (\<lambda>t. Some (int (length t), None)) (Some ''ab'') (snd (boundary_cycle (\<lambda>t. Some (int (length t), None))
      [(WhenText ''a'', ''k1''), (WhenText ''abc'', ''k2'')] (boundary_load None None))) =
   dump (\<lambda>t. Some (int (length t), None)) (Some ''ab'')
     ((boundary_load None None)\<lparr>bk_recent := observed (\<lambda>t. Some (int (length t), None)) [(WhenText ''a'', ''k1''), (WhenText ''abc'', ''k2'')]\<rparr>)"
  by (rule boundary_prune_exact) code_simp

text \<open>an event of the boundary comes out once. If no key repeats in a cycle and at most 500 of its events lie at
  or after the start of the next window, then the next cycle emits none of those events again, whatever
  the vendor returns.\<close>

theorem boundary_no_reemission:
  assumes keys: "distinct (map snd (observed fromiso es))"
    and bound: "instant fromiso (WhenText nw) = Some bound"
    and few: "length (filter (\<lambda>item. fst item \<ge> bound) (observed fromiso es)) \<le> max_keys"
    and ev: "(t, key) \<in> set (observed fromiso es)" "t \<ge> bound"
    and c: "dget c ''boundary'' = dget (dump fromiso (Some nw) (snd (boundary_cycle fromiso es (boundary_load cursor w)))) ''boundary''"
  shows "key \<notin> snd ` set (fst (boundary_cycle fromiso es' (boundary_load (Some c) (Some nw))))"
proof -
  let ?obs = "observed fromiso es"
  let ?P = "\<lambda>item :: int \<times> string. fst item \<ge> bound"
  let ?keys = "boundary_keys_from bound ?obs"
  have "distinct (map snd (rev (sort (filter ?P ?obs))))"
    using keys by (simp add: distinct_map inj_on_def)
  then have "?keys = map snd (take max_keys (rev (sort (filter ?P ?obs))))"
    unfolding boundary_keys_from_def using dump_loop_distinct [of "[]" "rev (sort (filter ?P ?obs))"] by simp
  also have "take max_keys (rev (sort (filter ?P ?obs))) = rev (sort (filter ?P ?obs))" using few by simp
  finally have set_keys: "set ?keys = snd ` set (filter ?P ?obs)" by auto
  have key: "key \<in> set ?keys" "key \<noteq> []"
    using ev by (force simp: set_keys, auto simp: observed_def split: option.splits if_splits)
  have nw: "nw \<noteq> []" using bound by (auto simp: instant_def strip_def split: if_splits)
  have "dump fromiso (Some nw) (snd (boundary_cycle fromiso es (boundary_load cursor w))) = boundary_entry nw ?keys"
    unfolding boundary_prune_reference [OF keys] using key(1) bound by (auto simp: dump_def Let_def)
  with c have "dget c ''boundary'' = dget (boundary_entry nw ?keys) ''boundary''" by simp
  from load_entry [OF this nw, of "Some nw"] key
  have "key \<in> set (bk_previous (boundary_load (Some c) (Some nw)))" by auto
  with key(2) show ?thesis by (auto simp: cycle_emits)
qed

theorem boundary_no_reemission_witness:
  "''k2'' \<notin> snd ` set (fst (boundary_cycle (\<lambda>t. Some (int (length t), None))
      [(WhenText ''abc'', ''k2''), (WhenText ''abcd'', ''k3'')]
      (boundary_load (Some (dump (\<lambda>t. Some (int (length t), None)) (Some ''abc'')
         (snd (boundary_cycle (\<lambda>t. Some (int (length t), None)) [(WhenText ''a'', ''k1''), (WhenText ''abc'', ''k2'')]
           (boundary_load None None))))) (Some ''abc''))))"
  by (rule boundary_no_reemission [where bound = 3 and t = 3, OF _ _ _ _ _ refl]) code_simp+

end
