(* ===== verification/Mapping_Correct.thy ===== *)
theory Mapping_Correct
  imports Mapping_Engine
begin

text \<open>
  Correctness of the mapping engine: what a rule writes is independent of the other rules, defaults are final, a
  temporal field with the ingestion time as a fallback never quarantines an event, oversized fields are
  never parsed, the cache is transparent and bounded; and two ways in which one event can stop a whole
  collection cycle.
\<close>

section \<open>Paths\<close>

fun get_path :: "string list \<Rightarrow> pydict \<Rightarrow> pyval option" where
  "get_path [] d = None"
| "get_path [k] d = map_of d k"
| "get_path (k # k' # ks) d = (case map_of d k of Some (PDict e) \<Rightarrow> get_path (k' # ks) e | _ \<Rightarrow> None)"

lemma get_set_same: "p \<noteq> [] \<Longrightarrow> get_path p (set_path p v d) = Some v"
  by (induction p v d rule: set_path.induct) auto

lemma get_path_Nil [simp]: "get_path q [] = None"
  by (cases q rule: remdups_adj.cases) auto

lemma get_set_other: "apart p q \<Longrightarrow> get_path q (set_path p v d) = get_path q d"
proof (induction p v d arbitrary: q rule: set_path.induct)
  case (2 k v d)
  then show ?case by (cases q rule: remdups_adj.cases) (auto simp: apart_def)
next
  case (3 k k' ks v d)
  show ?case
  proof (cases q rule: remdups_adj.cases)
    case (3 j j' js)
    show ?thesis
    proof (cases "j = k")
      case True
      with 3 \<open>apart (k # k' # ks) q\<close> have "apart (k' # ks) (j' # js)" by (simp add: apart_def)
      from "3.IH" [OF this] have ih: "get_path (j' # js) (set_path (k' # ks) v (as_dict (dget d k))) = get_path (j' # js) (as_dict (dget d k))" .
      have "get_path (j' # js) (as_dict (dget d k)) = (case map_of d k of Some (PDict e) \<Rightarrow> get_path (j' # js) e | _ \<Rightarrow> None)"
        by (auto simp: dget_def as_dict_def split: option.splits pyval.splits)
      with ih 3 True show ?thesis by simp
    qed (simp add: 3)
  qed (use \<open>apart (k # k' # ks) q\<close> in \<open>auto simp: apart_def\<close>)
qed (auto simp: apart_def)

section \<open>What a rule writes\<close>

definition rule_target :: "any_rule \<Rightarrow> string list" where
  "rule_target r = (case r of ScalarRule c \<Rightarrow> cr_target_path c | ArrayRule a \<Rightarrow> ar_target_path a)"

text \<open>The meaning of one rule alone: an error, nothing, or a value.\<close>

definition rule_meaning :: "menv \<Rightarrow> pyval \<Rightarrow> pyval \<Rightarrow> int option \<Rightarrow> any_rule \<Rightarrow> map_exn + pyval option" where
  "rule_meaning me raw extracted ingest r =
     (case r of
        ArrayRule a \<Rightarrow>
          (case apply_array_builder (me_jm me) a raw extracted of
             Inl e \<Rightarrow> Inl (EscapeErr e) | Inr obs \<Rightarrow> Inr (Some (PList (map PDict obs))))
      | ScalarRule c \<Rightarrow>
          if \<not> when_holds me c raw extracted then Inr None
          else (case resolve_value me c raw extracted of
                  None \<Rightarrow> Inl (MappingErr ''source'')
                | Some v \<Rightarrow> (case final_value me c ingest v of Inl e \<Rightarrow> Inl e | Inr w \<Rightarrow> Inr (Some w))))"

lemma apply_rule_output:
  "map_sum id ap_output (apply_rule me raw extracted ingest st r) =
     map_sum id (\<lambda>w. case w of None \<Rightarrow> ap_output st | Some v \<Rightarrow> set_path (rule_target r) v (ap_output st))
       (rule_meaning me raw extracted ingest r)"
  by (auto simp: apply_rule_def rule_meaning_def rule_target_def Let_def split: any_rule.splits sum.splits option.splits)

lemma apply_rule_Inr:
  assumes "apply_rule me raw extracted ingest st r = Inr st'"
  shows "\<exists>w. rule_meaning me raw extracted ingest r = Inr w \<and>
         ap_output st' = (case w of None \<Rightarrow> ap_output st | Some v \<Rightarrow> set_path (rule_target r) v (ap_output st))"
  using apply_rule_output [of me raw extracted ingest st r] assms
  by (cases "rule_meaning me raw extracted ingest r") auto

lemma apply_rules_untouched:
  assumes "apply_rules me raw extracted ingest rs st = Inr st'" "\<forall>r\<in>set rs. apart (rule_target r) q"
  shows "get_path q (ap_output st') = get_path q (ap_output st)"
  using assms
proof (induction rs arbitrary: st)
  case (Cons r rs)
  then obtain st1 where s: "apply_rule me raw extracted ingest st r = Inr st1" "apply_rules me raw extracted ingest rs st1 = Inr st'"
    by (auto simp: bind_result_Inr)
  from apply_rule_Inr [OF s(1)] Cons.prems(2) have "get_path q (ap_output st1) = get_path q (ap_output st)"
    by (auto simp: get_set_other split: option.splits)
  with Cons.IH [OF s(2)] Cons.prems(2) show ?case by simp
qed simp

definition targets_independent :: "any_rule list \<Rightarrow> bool" where
  "targets_independent rs \<longleftrightarrow> (\<forall>r\<in>set rs. rule_target r \<noteq> []) \<and> sorted_wrt (\<lambda>r s. apart (rule_target r) (rule_target s)) rs"

lemma apply_rules_each:
  assumes "apply_rules me raw extracted ingest rs st = Inr st'" "targets_independent rs" "r \<in> set rs"
    and "\<forall>r\<in>set rs. get_path (rule_target r) (ap_output st) = None"
  shows "rule_meaning me raw extracted ingest r = Inr (get_path (rule_target r) (ap_output st'))"
  using assms
proof (induction rs arbitrary: st)
  case (Cons s rs)
  obtain st1 where s: "apply_rule me raw extracted ingest st s = Inr st1" "apply_rules me raw extracted ingest rs st1 = Inr st'"
    using Cons.prems(1) by (auto simp: bind_result_Inr)
  obtain w where w: "rule_meaning me raw extracted ingest s = Inr w"
      "ap_output st1 = (case w of None \<Rightarrow> ap_output st | Some v \<Rightarrow> set_path (rule_target s) v (ap_output st))"
    using apply_rule_Inr [OF s(1)] by blast
  have ind: "\<forall>t\<in>set rs. apart (rule_target s) (rule_target t)" and ne: "rule_target s \<noteq> []" "targets_independent rs"
    using Cons.prems(2) by (auto simp: targets_independent_def)
  show ?case
  proof (cases "r = s")
    case True
    have "get_path (rule_target s) (ap_output st') = get_path (rule_target s) (ap_output st1)"
      using apply_rules_untouched [OF s(2)] ind apart_sym by blast
    also have "\<dots> = w" using w(2) Cons.prems(4) ne(1) by (auto simp: get_set_same split: option.splits)
    finally show ?thesis using w(1) True by simp
  next
    case False
    have "\<forall>t\<in>set rs. get_path (rule_target t) (ap_output st1) = None"
      using w(2) Cons.prems(4) ind by (auto simp: get_set_other split: option.splits)
    with Cons.IH [OF s(2) ne(2)] Cons.prems(3) False show ?thesis by auto
  qed
qed simp

section \<open>Casts, defaults and required fields\<close>

lemma cast_not_none:
  assumes "apply_type_cast ce v c = Inr w" "v \<noteq> PNone"
  shows "w \<noteq> PNone"
proof -
  have "map_of (type_casts ce) c = Some f \<Longrightarrow> f v = Inr w \<Longrightarrow> w \<noteq> PNone" for f
    using assms(2)
    by (auto simp: type_casts_def iso_to_epoch_def epoch_to_iso_def millis_to_iso_def cast_to_str_def cast_to_int_def
        cast_to_bool_def score_to_percent_def cast_string_def cast_to_array_def cast_dedup_def mitre_tactic_to_ocsf_def
        Let_def bind_result_Inr split: if_splits pyval.splits option.splits)
  with assms(1) show ?thesis by (auto simp: apply_type_cast_def split: option.splits)
qed

lemma cast_value_not_none: "cast_value me c v = Inr w \<Longrightarrow> v \<noteq> PNone \<Longrightarrow> w \<noteq> PNone"
  by (auto simp: cast_value_def dest: cast_not_none split: option.splits if_splits)

section \<open>Pre-processing\<close>

lemma run_preprocess_oversized:
  assumes "p \<in> set ops" "po_op p = ''json_parse''" "resolver_search (me_jm me) (po_source p) raw = Some (PStr s)"
    and "length (utf8 s) > me_max_bytes me"
  shows "\<exists>e. run_preprocess me raw ops st = Inl e"
  using assms(1)
proof (induction ops arbitrary: st)
  case (Cons q ops)
  obtain ex con where st: "st = (ex, con)" by (cases st)
  show ?case
  proof (cases "p = q")
    case True
    then show ?thesis using assms(2-4) st by (simp add: apply_preprocess_op_def json_parse_def)
  next
    case False
    with Cons show ?thesis unfolding st
      by (auto split: option.splits sum.splits op_exn.splits)
  qed
qed simp

section \<open>The cache\<close>

text \<open>What the cache promises when a version never changes its rules: its entries are what the compiler gives for
  their key, the keys are distinct and their number is bounded.\<close>

definition cache_inv :: "menv \<Rightarrow> (string \<Rightarrow> pyval) \<Rightarrow> nat \<Rightarrow> mapping_cache \<Rightarrow> bool" where
  "cache_inv me rules_of max_cache cache \<longleftrightarrow>
     distinct (map fst cache) \<and> length cache \<le> max_cache \<and>
     (\<forall>vid v c. ((vid, v), c) \<in> set cache \<longrightarrow> compile_rules me (rules_of vid) (Some v) = Inr c)"

lemma get_compiled_inv:
  assumes "cache_inv me rules_of max_cache cache" "1 \<le> max_cache"
    and "get_compiled me max_cache vid (rules_of vid) v cache = (r, cache')"
  shows "cache_inv me rules_of max_cache cache' \<and> r = compile_rules me (rules_of vid) (Some v)"
proof (cases "map_of cache (vid, v)")
  case (Some c)
  then have c: "((vid, v), c) \<in> set cache" by (rule map_of_SomeD)
  have "length (filter (\<lambda>(k, _). k \<noteq> (vid, v)) cache) < length cache"
    using c by (intro length_filter_less) auto
  with Some assms c show ?thesis
    by (auto simp: get_compiled_def cache_inv_def Let_def distinct_map_filter)
next
  case None
  then have new: "(vid, v) \<notin> fst ` set cache" by (simp add: map_of_eq_None_iff)
  define kept where "kept = (if length cache \<ge> max_cache then tl cache else cache)"
  have sub: "set kept \<subseteq> set cache" by (cases cache) (auto simp: kept_def)
  have "distinct (map fst cache)" "length cache \<le> max_cache" using assms(1) by (auto simp: cache_inv_def)
  then have k: "distinct (map fst kept)" "length kept < max_cache" using assms(2) by (cases cache; auto simp: kept_def)+
  have "fst ` set kept \<subseteq> fst ` set cache" using sub by (rule image_mono)
  with new have fresh: "(vid, v) \<notin> fst ` set kept" by blast
  show ?thesis
  proof (cases "compile_rules me (rules_of vid) (Some v)")
    case (Inl e)
    with None assms show ?thesis by (auto simp: get_compiled_def Let_def)
  next
    case (Inr c)
    then have r: "r = Inr c" "cache' = kept @ [((vid, v), c)]"
      using None assms(3) by (simp_all add: get_compiled_def Let_def kept_def)
    have old: "((vid', v'), c') \<in> set kept \<Longrightarrow> compile_rules me (rules_of vid') (Some v') = Inr c'" for vid' v' c'
      using sub assms(1) by (auto simp: cache_inv_def)
    show ?thesis unfolding r cache_inv_def using Inr k fresh old by auto
  qed
qed

fun engine_run :: "menv \<Rightarrow> (string \<Rightarrow> pyval) \<Rightarrow> nat \<Rightarrow> (string \<times> int) list \<Rightarrow> mapping_cache \<Rightarrow>
    (mapping_def_error + compiled_rules) list \<times> mapping_cache" where
  "engine_run me rules_of max_cache [] cache = ([], cache)"
| "engine_run me rules_of max_cache ((vid, v) # reqs) cache =
     (case get_compiled me max_cache vid (rules_of vid) v cache of
        (r, cache1) \<Rightarrow> (case engine_run me rules_of max_cache reqs cache1 of (rs, cache2) \<Rightarrow> (r # rs, cache2)))"

lemma engine_run_inv:
  "cache_inv me rules_of max_cache cache \<Longrightarrow> 1 \<le> max_cache \<Longrightarrow>
   engine_run me rules_of max_cache reqs cache = (rs, cache') \<Longrightarrow>
   cache_inv me rules_of max_cache cache' \<and> rs = map (\<lambda>(vid, v). compile_rules me (rules_of vid) (Some v)) reqs"
proof (induction reqs arbitrary: cache rs)
  case (Cons q reqs)
  obtain vid v where q: "q = (vid, v)" by (cases q)
  obtain r cache1 where g: "get_compiled me max_cache vid (rules_of vid) v cache = (r, cache1)" by fastforce
  from Cons.prems(3) q g obtain rs' where e: "engine_run me rules_of max_cache reqs cache1 = (rs', cache')" and rs: "rs = r # rs'"
    by (auto split: prod.splits)
  from get_compiled_inv [OF Cons.prems(1,2) g] Cons.IH [OF _ Cons.prems(2) e] q rs show ?case by simp
qed simp

section \<open>Properties\<close>

text \<open>C35: rules do not interfere. When no target of a mapping is a prefix of another, every rule of a successful
  application has written exactly what it means alone: its value at its target, or nothing there when
  its condition is false, whatever the order of the rules.\<close>

theorem mapping_rules_independent:
  assumes app: "apply_compiled me compiled raw ingest = Inr res"
    and ind: "targets_independent (cs_rules compiled)" and r: "r \<in> set (cs_rules compiled)"
  shows "\<exists>extracted consumed. run_preprocess me (PDict raw) (cs_preprocess compiled) ([], []) = Inr (extracted, consumed) \<and>
         rule_meaning me (PDict raw) (PDict extracted) ingest r = Inr (get_path (rule_target r) (ap_output res))"
proof -
  let ?st = "\<lambda>consumed. \<lparr>ap_output = [], ap_consumed = consumed, ap_default_hits = [], ap_ingest_fallback = [], ap_reduced_raw = None\<rparr>"
  obtain extracted consumed st where p: "run_preprocess me (PDict raw) (cs_preprocess compiled) ([], []) = Inr (extracted, consumed)"
    and s: "apply_rules me (PDict raw) (PDict extracted) ingest (cs_rules compiled) (?st consumed) = Inr st"
    and o: "ap_output res = ap_output st"
    using app by (auto simp: apply_compiled_def bind_result_Inr split_beta)
  from apply_rules_each [OF s ind r] p o show ?thesis by auto
qed

definition ex_menv :: menv where
  "ex_menv = \<lparr>me_jm = fast_jmespath, me_fast = True,
     me_cast = \<lparr>ce_iso_ms = (\<lambda>_. None), ce_float_ms = (\<lambda>_. 0), ce_float_of = (\<lambda>_. None), ce_ms_iso = (\<lambda>_. None), ce_percent = (\<lambda>_. 0)\<rparr>,
     me_loads = (\<lambda>_. None), me_max_bytes = 10\<rparr>"

definition ex_mapping :: pyval where
  "ex_mapping = PDict [(''rules'', PList
     [PDict [(''target'', PStr ''normalized.severity''), (''source'', PStr ''sev''), (''value_map'', PDict [(''high'', PInt 4)])],
      PDict [(''target'', PStr ''normalized.host''), (''source'', PStr ''agent.name''), (''default'', PStr ''unknown''),
             (''pre_cast'', PStr ''lowercase'')]])]"

definition ex_compiled :: compiled_rules where
  "ex_compiled = (case compile_rules ex_menv ex_mapping (Some 2) of Inr c \<Rightarrow> c
     | Inl _ \<Rightarrow> \<lparr>cs_preprocess = [], cs_rules = [], cs_reduction = []\<rparr>)"

lemma ex_compiled_ok: "compile_rules ex_menv ex_mapping (Some 2) = Inr ex_compiled"
  by code_simp

lemma ex_apply: "\<exists>res. apply_compiled ex_menv ex_compiled [(''sev'', PStr ''HIGH'')] None = Inr res \<and>
    ap_output res = [(''normalized'', PDict [(''severity'', PInt 4), (''host'', PStr ''unknown'')])]"
  by (rule exI [of _ "case apply_compiled ex_menv ex_compiled [(''sev'', PStr ''HIGH'')] None of Inr r \<Rightarrow> r | Inl _ \<Rightarrow> undefined"]) code_simp

theorem mapping_rules_independent_witness:
  "\<exists>res extracted. apply_compiled ex_menv ex_compiled [(''sev'', PStr ''HIGH'')] None = Inr res \<and>
     rule_meaning ex_menv (PDict [(''sev'', PStr ''HIGH'')]) (PDict extracted) None (hd (cs_rules ex_compiled)) =
       Inr (get_path (rule_target (hd (cs_rules ex_compiled))) (ap_output res))"
proof -
  obtain res where res: "apply_compiled ex_menv ex_compiled [(''sev'', PStr ''HIGH'')] None = Inr res" using ex_apply by blast
  have "targets_independent (cs_rules ex_compiled)" "hd (cs_rules ex_compiled) \<in> set (cs_rules ex_compiled)" by code_simp+
  from mapping_rules_independent [OF res this] res show ?thesis by blast
qed

text \<open>a default is final. When the source of a rule is missing, its default is written as it is: no pre-cast and
  no value map can fail on it, and the event is not quarantined for a required field.\<close>

theorem mapping_default_is_final:
  assumes "cr_default rule = Some d" "d \<noteq> PNone" "cr_type_cast rule = None"
  shows "final_value me rule ingest PNone = Inr d"
  using assms
  by (auto simp: final_value_def default_used_def ingest_used_def ingested_def defaulted_def apply_default_def
      map_value_def cast_value_def Let_def split: option.splits)

theorem mapping_default_is_final_witness:
  "final_value ex_menv (case cs_rules ex_compiled ! 1 of ScalarRule c \<Rightarrow> c\<lparr>cr_required := True\<rparr> | _ \<Rightarrow> undefined) None PNone = Inr (PStr ''unknown'')"
  by (rule mapping_default_is_final) code_simp+

text \<open>a missing timestamp never quarantines. A rule that falls back to the ingestion time does not raise the
  error of a required field, whatever the source resolved to.\<close>

theorem mapping_ingest_time_fallback:
  assumes "cr_default_from rule = Some ''ingest_time''"
  shows "final_value me rule (Some t) value \<noteq> Inl (RequiredErr target)"
proof -
  let ?v = "ingested rule (Some t) value"
  have v: "?v \<noteq> PNone" using assms by (auto simp: ingested_def ingest_used_def)
  show ?thesis using v
    by (auto simp: final_value_def Let_def op_failure_def dest: cast_value_not_none split: sum.splits if_splits)
qed

theorem mapping_ingest_time_fallback_witness:
  "final_value ex_menv (case hd (cs_rules ex_compiled) of ScalarRule c \<Rightarrow> c\<lparr>cr_required := True, cr_default_from := Some ''ingest_time''\<rparr> | _ \<Rightarrow> undefined)
     (Some 5) PNone \<noteq> Inl (RequiredErr ''normalized.severity'')"
  by (rule mapping_ingest_time_fallback) code_simp

text \<open>an oversized field is never parsed. If the source of a JSON pre-processing step is a text above the limit of
  bytes, the event is not normalised, even when the step tolerates errors.\<close>

theorem preprocess_size_never_tolerated:
  assumes "p \<in> set (cs_preprocess compiled)" "po_op p = ''json_parse''"
    and "resolver_search (me_jm me) (po_source p) (PDict raw) = Some (PStr s)" "length (utf8 s) > me_max_bytes me"
  shows "\<exists>e. apply_compiled me compiled raw ingest = Inl e"
  using run_preprocess_oversized [OF assms, of "([], [])"] by (auto simp: apply_compiled_def)

theorem preprocess_size_never_tolerated_witness:
  "\<exists>e. apply_compiled ex_menv (ex_compiled\<lparr>cs_preprocess := [\<lparr>po_op = ''json_parse'', po_source = DotPathResolver ''blob'' [''blob''],
      po_source_str = ''blob'', po_target = ''_p'', po_tolerant = True\<rparr>]\<rparr>) [(''blob'', PStr ''abcdefghijkl'')] None = Inl e"
  by (rule preprocess_size_never_tolerated [where s = "''abcdefghijkl''" and
      p = "\<lparr>po_op = ''json_parse'', po_source = DotPathResolver ''blob'' [''blob''], po_source_str = ''blob'', po_target = ''_p'', po_tolerant = True\<rparr>"]) code_simp+

text \<open>the cache of compiled mappings is transparent and bounded. When a version never changes its rules, every
  request of any sequence gets what compiling its rules gives, and the cache never holds more than its
  maximum of entries.\<close>

theorem mapping_cache_transparent:
  assumes "1 \<le> max_cache" "engine_run me rules_of max_cache reqs [] = (rs, cache)"
  shows "rs = map (\<lambda>(vid, v). compile_rules me (rules_of vid) (Some v)) reqs \<and> length cache \<le> max_cache"
proof -
  have "cache_inv me rules_of max_cache []" by (simp add: cache_inv_def)
  from engine_run_inv [OF this assms] show ?thesis by (auto simp: cache_inv_def)
qed

theorem mapping_cache_transparent_witness:
  "fst (engine_run ex_menv (\<lambda>_. ex_mapping) 1 [(''a'', 2), (''b'', 2), (''a'', 2)] []) =
     [Inr ex_compiled, Inr ex_compiled, Inr ex_compiled]"
  using mapping_cache_transparent [of 1 ex_menv "\<lambda>_. ex_mapping" "[(''a'', 2), (''b'', 2), (''a'', 2)]"]
  by (simp add: ex_compiled_ok split: prod.splits)

text \<open>one event can stop a collection. A list where a rule with a value map expects a scalar, or an object
  as the value an observable is deduplicated by, raises a \<open>TypeError\<close> that is not a mapping error, so the event is not
  quarantined but ends the cycle.\<close>

theorem mapping_poison_event:
  "apply_compiled ex_menv ex_compiled [(''sev'', PList [PStr ''high''])] None = Inl (EscapeErr PyErr) \<and>
   apply_compiled ex_menv
     \<lparr>cs_preprocess = [],
      cs_rules = [ArrayRule \<lparr>ar_target_path = [''observables''], ar_target_str = ''observables'',
        ar_items = [\<lparr>ai_name = ''ip'', ai_type = ''IP'', ai_type_id = 2, ai_source = DotPathResolver ''ip'' [''ip''], ai_source_str = ''ip'',
                     ai_extracted = False, ai_explode = True, ai_skip_null = True\<rparr>], ar_dedup_by = [''value'']\<rparr>],
      cs_reduction = []\<rparr> [(''ip'', PDict [(''v4'', PStr ''10.0.0.1'')])] None = Inl (EscapeErr PyErr)"
  by code_simp

end
