(* ===== verification/Mapping_Sharing.thy ===== *)
theory Mapping_Sharing
  imports Mapping_Source
begin

text \<open>
  \<open>_set_path\<close> of \<open>collectors/normalize/engine.py\<close> on shared objects. The engine stores values by reference: the dictionary a
  rule writes may be the constant or default of a compiled rule, which outlives the event in the cache, or
  a sub-object of the raw event. Here dictionaries live in a store and a value is a scalar or the address
  of a dictionary.
\<close>

datatype hval = HAtom pyval | HRef nat

type_synonym hdict = "(string \<times> hval) list"

text \<open>A store: the dictionaries, by address in order of creation.\<close>

type_synonym hstore = "hdict list"

definition hget :: "hstore \<Rightarrow> nat \<Rightarrow> string \<Rightarrow> hval option" where
  "hget h a k = (if a < length h then map_of (h ! a) k else None)"

definition hput :: "nat \<Rightarrow> string \<Rightarrow> hval \<Rightarrow> hstore \<Rightarrow> hstore" where
  "hput a k v h = (if a < length h then h[a := AList.update k v (h ! a)] else h)"

fun set_path_shared :: "nat \<Rightarrow> string list \<Rightarrow> hval \<Rightarrow> hstore \<Rightarrow> hstore" where
  "set_path_shared cursor [] value h = h"
| "set_path_shared cursor [k] value h = hput cursor k value h"
| "set_path_shared cursor (k # k' # ks) value h =
     (case hget h cursor k of
        Some (HRef nxt) \<Rightarrow> set_path_shared nxt (k' # ks) value h
      | _ \<Rightarrow> (let nxt = length h in
              set_path_shared nxt (k' # ks) value (hput cursor k (HRef nxt) (h @ [[]]))))"

text \<open>The writes of one event, in the order of its rules, into a fresh output dictionary.\<close>

definition write_event :: "(string list \<times> hval) list \<Rightarrow> hstore \<Rightarrow> nat \<times> hstore" where
  "write_event writes h =
     (length h, foldl (\<lambda>h' (path, value). set_path_shared (length h) path value h') (h @ [[]]) writes)"

fun hread :: "hstore \<Rightarrow> nat \<Rightarrow> string list \<Rightarrow> hval option" where
  "hread h a [] = None"
| "hread h a [k] = hget h a k"
| "hread h a (k # k' # ks) = (case hget h a k of Some (HRef b) \<Rightarrow> hread h b (k' # ks) | _ \<Rightarrow> None)"

section \<open>Objects that are not shared stay untouched\<close>

definition scalar_writes :: "(string list \<times> hval) list \<Rightarrow> bool" where
  "scalar_writes ws \<longleftrightarrow> (\<forall>(p, v)\<in>set ws. \<exists>x. v = HAtom x)"

text \<open>Addresses from \<open>n\<close> on refer only to addresses from \<open>n\<close> on.\<close>

definition closed_from :: "nat \<Rightarrow> hstore \<Rightarrow> bool" where
  "closed_from n h \<longleftrightarrow> (\<forall>a k b. n \<le> a \<longrightarrow> hget h a k = Some (HRef b) \<longrightarrow> n \<le> b)"

lemma hget_hput: "hget (hput a k v h) b j = (if b = a \<and> j = k \<and> a < length h then Some v else hget h b j)"
  by (auto simp: hget_def hput_def nth_list_update)

lemma hput_length [simp]: "length (hput a k v h) = length h"
  by (simp add: hput_def)

lemma hget_append: "hget (h @ [[]]) a k = hget h a k"
  by (auto simp: hget_def nth_append)

lemma set_path_frame:
  assumes "n \<le> cursor" "closed_from n h" "n \<le> length h" "case v of HAtom _ \<Rightarrow> True | HRef b \<Rightarrow> n \<le> b"
  shows "closed_from n (set_path_shared cursor path v h) \<and> length h \<le> length (set_path_shared cursor path v h) \<and>
         (\<forall>a k. a < n \<longrightarrow> hget (set_path_shared cursor path v h) a k = hget h a k)"
  using assms
proof (induction cursor path v h rule: set_path_shared.induct)
  case (2 cursor k v h)
  then show ?case by (auto simp: closed_from_def hget_hput split: hval.splits if_splits)
next
  case (3 cursor k k' ks v h)
  show ?case
  proof (cases "\<exists>b. hget h cursor k = Some (HRef b)")
    case True
    then obtain b where b: "hget h cursor k = Some (HRef b)" by blast
    with "3.prems"(1,2) have "n \<le> b" by (auto simp: closed_from_def)
    with "3.IH"(3) [OF b refl] "3.prems"(2-4) b show ?thesis by simp
  next
    case False
    let ?h1 = "hput cursor k (HRef (length h)) (h @ [[]])"
    have c: "closed_from n ?h1" using "3.prems"(2,3) by (auto simp: closed_from_def hget_hput hget_append split: if_splits)
    have step: "set_path_shared cursor (k # k' # ks) v h = set_path_shared (length h) (k' # ks) v ?h1"
      using False by (auto simp: Let_def split: option.splits hval.splits)
    have old: "a < n \<Longrightarrow> hget ?h1 a j = hget h a j" for a j using "3.prems"(1) by (auto simp: hget_hput hget_append)
    have "closed_from n (set_path_shared (length h) (k' # ks) v ?h1) \<and> length ?h1 \<le> length (set_path_shared (length h) (k' # ks) v ?h1) \<and>
        (\<forall>a k. a < n \<longrightarrow> hget (set_path_shared (length h) (k' # ks) v ?h1) a k = hget ?h1 a k)"
    proof (cases "hget h cursor k")
      case None
      show ?thesis using "3.IH"(1) [OF None refl] "3.prems"(3,4) c by simp
    next
      case (Some w)
      with False obtain x where w: "w = HAtom x" by (cases w) auto
      show ?thesis using "3.IH"(2) [OF Some w refl] "3.prems"(3,4) c by simp
    qed
    then show ?thesis unfolding step using old by auto
  qed
qed auto

lemma writes_frame:
  assumes "scalar_writes ws" "n \<le> cursor" "closed_from n h" "n \<le> length h"
  shows "\<forall>a k. a < n \<longrightarrow> hget (foldl (\<lambda>h' (path, value). set_path_shared cursor path value h') h ws) a k = hget h a k"
  using assms(1,3,4)
proof (induction ws arbitrary: h)
  case (Cons w ws)
  obtain p x where w: "w = (p, HAtom x)" using Cons.prems(1) by (cases w) (auto simp: scalar_writes_def)
  note f = set_path_frame [OF assms(2) Cons.prems(2,3), of "HAtom x" p]
  have "scalar_writes ws" using Cons.prems(1) by (auto simp: scalar_writes_def)
  from Cons.IH [OF this, of "set_path_shared cursor p (HAtom x) h"] f Cons.prems(3) w show ?case by simp
qed simp

section \<open>Properties\<close>

text \<open>scalar values keep events apart. When the values an event writes are scalars, writing its output changes no
  object that existed before: neither the raw event nor the constants and defaults of the compiled
  mapping.\<close>

theorem scalar_writes_isolated:
  assumes "scalar_writes ws" "write_event ws h = (out, h')" "a < length h"
  shows "hget h' a k = hget h a k"
proof -
  have "closed_from (length h) (h @ [[]])" by (auto simp: closed_from_def hget_def nth_append)
  from writes_frame [OF assms(1) le_refl this] assms(2,3) hget_append show ?thesis
    by (auto simp: write_event_def)
qed

theorem scalar_writes_isolated_witness:
  "hget (snd (write_event [([''actor'', ''user''], HAtom (PStr ''alice''))] [[(''name'', HAtom (PInt 1))]])) 0 ''name'' = Some (HAtom (PInt 1))"
  using scalar_writes_isolated [of "[([''actor'', ''user''], HAtom (PStr ''alice''))]" "[[(''name'', HAtom (PInt 1))]]"
      "fst (write_event [([''actor'', ''user''], HAtom (PStr ''alice''))] [[(''name'', HAtom (PInt 1))]])" _ 0 "''name''"]
  by (simp add: scalar_writes_def hget_def)

text \<open>an object constant leaks values between events. A mapping with a constant object at \<open>actor\<close> and a conditional
  rule below it writes the first event's value into the compiled constant itself, and the output of the
  second event, for which the conditional rule is skipped, carries the user of the first.\<close>

theorem object_const_leaks_between_events:
  "let compiled = [[]];
       (out1, h1) = write_event [([''actor''], HRef 0), ([''actor'', ''user''], HAtom (PStr ''alice''))] compiled;
       (out2, h2) = write_event [([''actor''], HRef 0)] h1
   in hread h2 out2 [''actor'', ''user''] = Some (HAtom (PStr ''alice'')) \<and> hget h2 0 ''user'' = Some (HAtom (PStr ''alice''))"
  by code_simp

end
