(* ===== verification/Py_Ipaddress.thy ===== *)
theory Py_Ipaddress
  imports Py_Prelude
begin

text \<open>
  What the enrichment code uses of Python's \<open>ipaddress\<close> module: \<open>ip_address(text)\<close> and
  \<open>ip_network(text, strict=False)\<close>, with \<open>None\<close> for the \<open>ValueError\<close> they raise. An address is its version
  and its integer, a network its version, the integer of its (masked) network address and its prefix length.
\<close>

section \<open>IPv4 text\<close>

definition parse_octet :: "string \<Rightarrow> nat option" where
  "parse_octet s =
     (if s = [] \<or> \<not> list_all is_digit s \<or> 3 < length s \<or> (s \<noteq> ''0'' \<and> hd s = CHR ''0'') \<or> 255 < digits_value s
      then None else Some (digits_value s))"

definition ipv4_int :: "string \<Rightarrow> int option" where
  "ipv4_int s =
     (case map parse_octet (split_on (CHR ''.'') s) of
        [Some a, Some b, Some c, Some d] \<Rightarrow> Some (((int a * 256 + int b) * 256 + int c) * 256 + int d)
      | _ \<Rightarrow> None)"

section \<open>IPv6 text\<close>

definition is_hex :: "char \<Rightarrow> bool" where
  "is_hex c \<longleftrightarrow> (let n = (of_char c :: nat) in
     (48 \<le> n \<and> n \<le> 57) \<or> (65 \<le> n \<and> n \<le> 70) \<or> (97 \<le> n \<and> n \<le> 102))"

definition hex_value :: "char \<Rightarrow> int" where
  "hex_value c = (let n = (of_char c :: int) in if n \<le> 57 then n - 48 else if n \<le> 70 then n - 55 else n - 87)"

definition parse_hextet :: "string \<Rightarrow> int option" where
  "parse_hextet s =
     (if s = [] \<or> \<not> list_all is_hex s \<or> 4 < length s then None
      else Some (foldl (\<lambda>a c. 16 * a + hex_value c) 0 s mod 2 ^ 16))"

text \<open>The parts between the colons as numbers; a part that is empty is \<open>None\<close>. A dotted last part is two.\<close>

primrec hextets :: "string list \<Rightarrow> int option list option" where
  "hextets [] = Some []"
| "hextets (p # ps) =
     (case (if p = [] then Some None else map_option Some (parse_hextet p), hextets ps) of
        (Some w, Some ws) \<Rightarrow> Some (w # ws)
      | _ \<Rightarrow> None)"

definition ipv6_parts :: "string \<Rightarrow> int option list option" where
  "ipv6_parts s =
     (let ps = split_on (CHR '':'') s in
      if length ps < 3 then None
      else if CHR ''.'' \<in> set (last ps)
      then (case ipv4_int (last ps) of
              None \<Rightarrow> None
            | Some a \<Rightarrow> map_option (\<lambda>xs. xs @ [Some (a div 2 ^ 16 mod 2 ^ 16), Some (a mod 2 ^ 16)]) (hextets (butlast ps)))
      else hextets ps)"

definition words_value :: "int list \<Rightarrow> int" where
  "words_value ws = foldl (\<lambda>a w. a * 2 ^ 16 + w) 0 ws"

text \<open>The double colon is an empty part that is neither the first nor the last; it stands for at least one
  zero word. The first (last) part may be empty only next to it, so no empty part is left in the result.\<close>

definition word_of :: "int option \<Rightarrow> int" where
  "word_of p = (case p of None \<Rightarrow> 0 | Some w \<Rightarrow> w)"

definition ipv6_words :: "int option list \<Rightarrow> int list option" where
  "ipv6_words ps =
     (let n = length ps; skips = filter (\<lambda>i. ps ! i = None) [1..<n - 1] in
      if 9 < n then None
      else case skips of
        [] \<Rightarrow> if n \<noteq> 8 \<or> hd ps = None \<or> last ps = None then None else Some (map word_of ps)
      | [i] \<Rightarrow>
          (let hi = (if hd ps = None then drop 1 (take i ps) else take i ps);
               lo = (if last ps = None then butlast (drop (i + 1) ps) else drop (i + 1) ps)
           in if (hd ps = None \<and> hi \<noteq> []) \<or> (last ps = None \<and> lo \<noteq> []) \<or> 8 \<le> length hi + length lo then None
              else Some (map word_of hi @ replicate (8 - (length hi + length lo)) 0 @ map word_of lo))
      | _ \<Rightarrow> None)"

text \<open>A scope identifier after the first percent sign is not part of the integer.\<close>

definition split_scope :: "string \<Rightarrow> string option" where
  "split_scope s =
     (case split_on (CHR ''%'') s of [a] \<Rightarrow> Some a | [a, sc] \<Rightarrow> if sc = [] then None else Some a | _ \<Rightarrow> None)"

definition ipv6_int :: "string \<Rightarrow> int option" where
  "ipv6_int s =
     (case split_scope s of
        None \<Rightarrow> None
      | Some a \<Rightarrow> (case ipv6_parts a of
            None \<Rightarrow> None
          | Some ps \<Rightarrow> map_option words_value (ipv6_words ps)))"

section \<open>Addresses and networks\<close>

datatype ip_version = V4 | V6

fun max_prefixlen :: "ip_version \<Rightarrow> nat" where
  "max_prefixlen V4 = 32"
| "max_prefixlen V6 = 128"

fun ip_int_of :: "ip_version \<Rightarrow> string \<Rightarrow> int option" where
  "ip_int_of V4 s = (if CHR ''/'' \<in> set s then None else ipv4_int s)"
| "ip_int_of V6 s = (if CHR ''/'' \<in> set s then None else ipv6_int s)"

definition ip_address :: "string \<Rightarrow> (int \<times> ip_version) option" where
  "ip_address s =
     (case ip_int_of V4 s of
        Some a \<Rightarrow> Some (a, V4)
      | None \<Rightarrow> map_option (\<lambda>a. (a, V6)) (ip_int_of V6 s))"

record ip_network_t =
  net_version :: ip_version
  network_address :: int
  prefixlen :: nat

text \<open>A prefix length in digits; for IPv4 also a netmask, or a hostmask, in dotted form.\<close>

definition prefix_digits :: "ip_version \<Rightarrow> string \<Rightarrow> nat option" where
  "prefix_digits v s =
     (if s \<noteq> [] \<and> list_all is_digit s \<and> digits_value s \<le> max_prefixlen v then Some (digits_value s) else None)"

definition mask_prefix :: "int \<Rightarrow> nat option" where
  "mask_prefix a = List.find (\<lambda>p. a = 2 ^ 32 - 2 ^ (32 - p)) [0..<33]"

fun make_netmask :: "ip_version \<Rightarrow> string \<Rightarrow> nat option" where
  "make_netmask V4 s =
     (case prefix_digits V4 s of
        Some p \<Rightarrow> Some p
      | None \<Rightarrow> (case ipv4_int s of
            None \<Rightarrow> None
          | Some a \<Rightarrow> (case mask_prefix a of Some p \<Rightarrow> Some p | None \<Rightarrow> mask_prefix (2 ^ 32 - 1 - a))))"
| "make_netmask V6 s = prefix_digits V6 s"

definition network_of :: "ip_version \<Rightarrow> int \<Rightarrow> nat \<Rightarrow> ip_network_t" where
  "network_of v a p =
     \<lparr>net_version = v, network_address = a div 2 ^ (max_prefixlen v - p) * 2 ^ (max_prefixlen v - p), prefixlen = p\<rparr>"

definition ip_network_v :: "ip_version \<Rightarrow> string \<Rightarrow> ip_network_t option" where
  "ip_network_v v s =
     (case split_on (CHR ''/'') s of
        [a] \<Rightarrow> map_option (\<lambda>n. network_of v n (max_prefixlen v)) (ip_int_of v a)
      | [a, m] \<Rightarrow> (case (ip_int_of v a, make_netmask v m) of
            (Some n, Some p) \<Rightarrow> Some (network_of v n p)
          | _ \<Rightarrow> None)
      | _ \<Rightarrow> None)"

definition ip_network :: "string \<Rightarrow> ip_network_t option" where
  "ip_network s = (case ip_network_v V4 s of Some n \<Rightarrow> Some n | None \<Rightarrow> ip_network_v V6 s)"

section \<open>Bounds\<close>

lemma parse_octet_bound: "parse_octet s = Some n \<Longrightarrow> n < 256"
  by (auto simp: parse_octet_def split: if_splits)

lemma ipv4_int_bound:
  assumes "ipv4_int s = Some n"
  shows "0 \<le> n \<and> n < 2 ^ 32"
proof -
  obtain a b c d where p: "map parse_octet (split_on (CHR ''.'') s) = [Some a, Some b, Some c, Some d]"
      and n: "n = ((int a * 256 + int b) * 256 + int c) * 256 + int d"
    using assms by (auto simp: ipv4_int_def split: list.splits option.splits)
  have "a < 256" "b < 256" "c < 256" "d < 256"
    using p by (auto simp: map_eq_Cons_conv intro: parse_octet_bound)
  then show ?thesis using n by simp
qed

lemma words_value_bound:
  assumes "\<forall>w\<in>set ws. 0 \<le> w \<and> w < 2 ^ 16"
  shows "0 \<le> words_value ws \<and> words_value ws < 2 ^ (16 * length ws)"
  using assms unfolding words_value_def
proof (induction ws rule: rev_induct)
  case (snoc w ws)
  let ?f = "foldl (\<lambda>a w. a * 2 ^ 16 + w) 0 ws"
  have f: "0 \<le> ?f" "?f < 2 ^ (16 * length ws)" using snoc by simp_all
  then have "(?f + 1) * 2 ^ 16 \<le> 2 ^ (16 * length ws) * 2 ^ 16" by (intro mult_right_mono) auto
  moreover have "0 \<le> w" "w < 2 ^ 16" using snoc.prems by simp_all
  ultimately show ?case using f(1) by (simp add: power_add algebra_simps)
qed simp

definition words_ok :: "int option list \<Rightarrow> bool" where
  "words_ok ps \<longleftrightarrow> (\<forall>w. Some w \<in> set ps \<longrightarrow> 0 \<le> w \<and> w < 2 ^ 16)"

lemma parse_hextet_bound: "parse_hextet s = Some w \<Longrightarrow> 0 \<le> w \<and> w < 2 ^ 16"
  by (auto simp: parse_hextet_def split: if_splits)

lemma hextets_ok: "hextets ps = Some xs \<Longrightarrow> words_ok xs"
proof (induction ps arbitrary: xs)
  case (Cons p ps)
  then obtain w ws where "xs = w # ws" "hextets ps = Some ws" "w = None \<or> w = parse_hextet p"
    by (auto split: if_splits option.splits)
  with Cons.IH parse_hextet_bound show ?case by (fastforce simp: words_ok_def)
qed (simp add: words_ok_def)

lemma ipv6_parts_ok: "ipv6_parts s = Some ps \<Longrightarrow> words_ok ps"
  by (auto simp: ipv6_parts_def Let_def words_ok_def dest!: hextets_ok split: if_splits option.splits)

lemma word_of_bound: "words_ok ps \<Longrightarrow> p \<in> set ps \<Longrightarrow> 0 \<le> word_of p \<and> word_of p < 2 ^ 16"
  by (auto simp: words_ok_def word_of_def split: option.splits)

lemma ipv6_words_ok:
  assumes "ipv6_words ps = Some ws" and "words_ok ps"
  shows "length ws = 8 \<and> (\<forall>w\<in>set ws. 0 \<le> w \<and> w < 2 ^ 16)"
proof -
  have sub: "set ws \<subseteq> insert 0 (word_of ` set ps)" and "length ws = 8"
    using assms(1) unfolding ipv6_words_def Let_def
    by (auto split: if_splits list.splits) (blast dest: in_set_takeD in_set_dropD in_set_butlastD)+
  then show ?thesis using word_of_bound [OF assms(2)] by fastforce
qed

lemma ipv6_int_bound: "ipv6_int s = Some n \<Longrightarrow> 0 \<le> n \<and> n < 2 ^ 128"
proof -
  assume "ipv6_int s = Some n"
  then obtain a ps ws where "ipv6_parts a = Some ps" "ipv6_words ps = Some ws" "n = words_value ws"
    by (auto simp: ipv6_int_def split: option.splits)
  with words_value_bound [of ws] ipv6_words_ok [OF _ ipv6_parts_ok] show ?thesis by force
qed

lemma ip_int_of_bound: "ip_int_of v s = Some n \<Longrightarrow> 0 \<le> n \<and> n < 2 ^ max_prefixlen v"
  using ipv4_int_bound ipv6_int_bound by (cases v) (auto split: if_splits)

lemma ip_address_bound: "ip_address s = Some (n, v) \<Longrightarrow> 0 \<le> n \<and> n < 2 ^ max_prefixlen v"
  by (auto simp: ip_address_def simp del: ip_int_of.simps max_prefixlen.simps
      dest!: ip_int_of_bound split: option.splits)

text \<open>A network is masked: its address is a multiple of the size of its host part.\<close>

definition net_ok :: "ip_network_t \<Rightarrow> bool" where
  "net_ok n \<longleftrightarrow> prefixlen n \<le> max_prefixlen (net_version n) \<and> 0 \<le> network_address n \<and>
     network_address n < 2 ^ max_prefixlen (net_version n) \<and>
     network_address n mod 2 ^ (max_prefixlen (net_version n) - prefixlen n) = 0"

lemma prefix_digits_bound: "prefix_digits v s = Some p \<Longrightarrow> p \<le> max_prefixlen v"
  by (auto simp: prefix_digits_def split: if_splits)

lemma mask_prefix_bound: "mask_prefix a = Some p \<Longrightarrow> p \<le> 32"
  by (auto simp: mask_prefix_def find_Some_iff)

lemma make_netmask_bound: "make_netmask v s = Some p \<Longrightarrow> p \<le> max_prefixlen v"
  using prefix_digits_bound mask_prefix_bound by (cases v) (fastforce split: option.splits)+

lemma network_of_ok:
  assumes "0 \<le> a" "a < 2 ^ max_prefixlen v" "p \<le> max_prefixlen v"
  shows "net_ok (network_of v a p)"
proof -
  let ?h = "2 ^ (max_prefixlen v - p) :: int"
  have "a div ?h * ?h + a mod ?h = a" "0 \<le> a mod ?h" by (rule div_mult_mod_eq) simp
  then have "a div ?h * ?h \<le> a" by linarith
  with assms show ?thesis by (simp add: net_ok_def network_of_def pos_imp_zdiv_nonneg_iff)
qed

lemma ip_network_ok: "ip_network s = Some n \<Longrightarrow> net_ok n"
proof -
  have "net_ok n" if "ip_network_v v s = Some n" for v
    using that ip_int_of_bound make_netmask_bound
    by (fastforce simp: ip_network_v_def intro!: network_of_ok split: list.splits option.splits)
  then show "ip_network s = Some n \<Longrightarrow> net_ok n" by (auto simp: ip_network_def split: option.splits)
qed

end
