(* ===== verification/Enrich_Radix.thy ===== *)
theory Enrich_Radix
  imports Py_Ipaddress "HOL-Library.Sublist"
begin

text \<open>
  The IP prefix table of the enrichment (\<open>enrich/radix.py\<close>): a binary trie per IP version, its insertion,
  its longest-prefix search and its construction from the rows of a customer table. The trie is compared
  with a plain scan of the rows that keeps the most specific network containing the address.
\<close>

section \<open>The trie\<close>

definition parse_network :: "string \<Rightarrow> ip_network_t option" where
  "parse_network text = ip_network (strip text)"

definition ip_to_bits :: "string \<Rightarrow> (int \<times> ip_version) option" where
  "ip_to_bits text = ip_address (strip text)"

text \<open>A node: the child for bit 0, the child for bit 1, and the value, \<open>None\<close> being the sentinel \<open>_MISSING\<close>.\<close>

datatype 'v radix_node = Node "'v radix_node option" "'v radix_node option" "'v option"

definition empty_node :: "'v radix_node" where
  "empty_node = Node None None None"

record 'v radix_tree =
  root4 :: "'v radix_node"
  root6 :: "'v radix_node"
  rt_count :: nat
  rt_bytes :: int

definition empty_tree :: "'v radix_tree" where
  "empty_tree = \<lparr>root4 = empty_node, root6 = empty_node, rt_count = 0, rt_bytes = 0\<rparr>"

text \<open>\<open>(addr >> (bits - 1 - i)) & 1\<close>, for \<open>i\<close> from 0 to \<open>n - 1\<close>.\<close>

definition addr_bits :: "nat \<Rightarrow> int \<Rightarrow> nat \<Rightarrow> bool list" where
  "addr_bits bits addr n = map (\<lambda>i. odd (addr div 2 ^ (bits - 1 - i))) [0..<n]"

definition child :: "bool \<Rightarrow> 'v radix_node \<Rightarrow> 'v radix_node option" where
  "child b n = (case n of Node c0 c1 v \<Rightarrow> if b then c1 else c0)"

definition set_child :: "bool \<Rightarrow> 'v radix_node \<Rightarrow> 'v radix_node \<Rightarrow> 'v radix_node" where
  "set_child b c n = (case n of Node c0 c1 v \<Rightarrow> if b then Node c0 (Some c) v else Node (Some c) c1 v)"

definition node_value :: "'v radix_node \<Rightarrow> 'v option" where
  "node_value n = (case n of Node c0 c1 v \<Rightarrow> v)"

text \<open>The descent of the insertion: missing nodes are created, the last one gets the value; the flag says
  that it had none.\<close>

fun insert_at :: "bool list \<Rightarrow> 'v \<Rightarrow> 'v radix_node \<Rightarrow> 'v radix_node \<times> bool" where
  "insert_at [] x (Node c0 c1 v) = (Node c0 c1 (Some x), v = None)"
| "insert_at (b # bs) x n =
     (case insert_at bs x (case child b n of None \<Rightarrow> empty_node | Some c \<Rightarrow> c) of (c', new) \<Rightarrow> (set_child b c' n, new))"

definition entry_bytes :: "string \<Rightarrow> nat \<Rightarrow> int" where
  "entry_bytes cidr plen = int (length cidr) + 120 * int (max plen 1) div 8 + 64"

definition radix_insert :: "string \<Rightarrow> 'v \<Rightarrow> 'v radix_tree \<Rightarrow> bool \<times> 'v radix_tree" where
  "radix_insert cidr x t =
     (case parse_network cidr of
        None \<Rightarrow> (False, t)
      | Some net \<Rightarrow>
          (let bits = max_prefixlen (net_version net);
               path = addr_bits bits (network_address net) (prefixlen net);
               (n', new) = insert_at path x (if net_version net = V4 then root4 t else root6 t);
               t' = (if net_version net = V4 then t\<lparr>root4 := n'\<rparr> else t\<lparr>root6 := n'\<rparr>)
           in (True, t'\<lparr>rt_count := rt_count t + (if new then 1 else 0),
                        rt_bytes := rt_bytes t + entry_bytes cidr (prefixlen net)\<rparr>)))"

text \<open>The descent of the search, with the best value so far.\<close>

fun search_at :: "bool list \<Rightarrow> 'v option \<Rightarrow> 'v radix_node \<Rightarrow> 'v option" where
  "search_at [] best n = best"
| "search_at (b # bs) best n =
     (case child b n of
        None \<Rightarrow> best
      | Some c \<Rightarrow> search_at bs (if node_value c \<noteq> None then node_value c else best) c)"

definition radix_search :: "string \<Rightarrow> 'v radix_tree \<Rightarrow> 'v option" where
  "radix_search ip t =
     (case ip_to_bits ip of
        None \<Rightarrow> None
      | Some (addr, version) \<Rightarrow>
          (let n = (if version = V4 then root4 t else root6 t); bits = (if version = V4 then 32 else 128)
           in search_at (addr_bits bits addr bits) (node_value n) n))"

fun insert_rows :: "(string \<times> 'v) list \<Rightarrow> 'v radix_tree \<times> nat \<Rightarrow> 'v radix_tree \<times> nat" where
  "insert_rows [] st = st"
| "insert_rows ((cidr, x) # rows) (t, invalid) =
     (case radix_insert cidr x t of (ok, t') \<Rightarrow> insert_rows rows (t', if ok then invalid else invalid + 1))"

definition from_rows :: "(string \<times> 'v) list \<Rightarrow> 'v radix_tree \<times> nat" where
  "from_rows rows = insert_rows rows (empty_tree, 0)"

text \<open>The enumeration for diagnostics. A prefix is printed as its bits; only the empty one as a network.\<close>

definition prefix_text :: "ip_version \<Rightarrow> string \<Rightarrow> string" where
  "prefix_text v p = (if p \<noteq> [] then p else if v = V4 then ''0.0.0.0/0'' else ''::/0'')"

fun walk :: "ip_version \<Rightarrow> string \<Rightarrow> 'v radix_node \<Rightarrow> (string \<times> 'v) list" where
  "walk v p (Node c0 c1 x) =
     (case x of None \<Rightarrow> [] | Some y \<Rightarrow> [(prefix_text v p, y)]) @
     (case c0 of None \<Rightarrow> [] | Some c \<Rightarrow> walk v (p @ ''0'') c) @
     (case c1 of None \<Rightarrow> [] | Some c \<Rightarrow> walk v (p @ ''1'') c)"

definition iter_prefixes :: "'v radix_tree \<Rightarrow> (string \<times> 'v) list" where
  "iter_prefixes t = walk V4 [] (root4 t) @ walk V6 [] (root6 t)"

section \<open>The reference: a scan of the rows\<close>

definition net_contains :: "ip_network_t \<Rightarrow> int \<Rightarrow> bool" where
  "net_contains net addr \<longleftrightarrow>
     network_address net \<le> addr \<and>
     addr < network_address net + 2 ^ (max_prefixlen (net_version net) - prefixlen net)"

text \<open>One row: it replaces the best one when it is valid, contains the address and is at least as specific.\<close>

definition better :: "int \<Rightarrow> ip_version \<Rightarrow> string \<times> 'v \<Rightarrow> (nat \<times> 'v) option \<Rightarrow> (nat \<times> 'v) option" where
  "better addr v row best =
     (case parse_network (fst row) of
        None \<Rightarrow> best
      | Some net \<Rightarrow>
          if net_version net = v \<and> net_contains net addr \<and> (case best of None \<Rightarrow> True | Some (l, _) \<Rightarrow> l \<le> prefixlen net)
          then Some (prefixlen net, snd row) else best)"

definition scan_rows :: "(string \<times> 'v) list \<Rightarrow> string \<Rightarrow> 'v option" where
  "scan_rows rows ip =
     (case ip_to_bits ip of
        None \<Rightarrow> None
      | Some (addr, v) \<Rightarrow> map_option snd (fold (better addr v) rows None))"

section \<open>The trie as a map of prefixes\<close>

lemma child_set_child [simp]: "child b (set_child b' c n) = (if b = b' then Some c else child b n)"
  by (cases n) (auto simp: child_def set_child_def)

lemma node_value_set_child [simp]: "node_value (set_child b c n) = node_value n"
  by (cases n) (auto simp: node_value_def set_child_def)

lemma empty_node_simps [simp]: "child b empty_node = None" "node_value empty_node = None"
  by (simp_all add: empty_node_def child_def node_value_def)

text \<open>The longest stored prefix of a bit string, with its length.\<close>

fun longest :: "bool list \<Rightarrow> 'v radix_node \<Rightarrow> (nat \<times> 'v) option" where
  "longest bs n =
     (case (case bs of [] \<Rightarrow> None | b # bs' \<Rightarrow> (case child b n of None \<Rightarrow> None | Some c \<Rightarrow> longest bs' c)) of
        Some (l, x) \<Rightarrow> Some (Suc l, x)
      | None \<Rightarrow> map_option (\<lambda>x. (0, x)) (node_value n))"

declare longest.simps [simp del]

lemma longest_Nil [simp]: "longest [] n = map_option (\<lambda>x. (0, x)) (node_value n)"
  by (simp add: longest.simps)

lemma longest_Cons:
  "longest (b # bs) n =
     (case child b n of
        None \<Rightarrow> map_option (\<lambda>x. (0, x)) (node_value n)
      | Some c \<Rightarrow> (case longest bs c of
            Some (l, x) \<Rightarrow> Some (Suc l, x)
          | None \<Rightarrow> map_option (\<lambda>x. (0, x)) (node_value n)))"
  by (subst longest.simps) (simp split: option.splits)

lemma search_at_longest:
  assumes "node_value n \<noteq> None \<Longrightarrow> best = node_value n"
  shows "search_at bs best n = (case longest bs n of Some (l, x) \<Rightarrow> Some x | None \<Rightarrow> best)"
  using assms
proof (induction bs arbitrary: best n)
  case (Cons b bs)
  show ?case
  proof (cases "child b n")
    case (Some c)
    show ?thesis
      using Cons.IH [of c "if node_value c \<noteq> None then node_value c else best"] Cons.prems Some
      by (cases "longest bs c"; cases "node_value n"; cases bs) (auto simp: longest_Cons split: option.splits)
  qed (use Cons.prems in \<open>auto simp: longest_Cons split: option.splits\<close>)
qed (auto split: option.splits)

lemma longest_empty [simp]: "longest bs empty_node = None"
  by (cases bs) (simp_all add: longest_Cons)

lemma longest_None: "longest bs n = None \<Longrightarrow> node_value n = None"
  by (cases bs) (auto simp: longest_Cons split: option.splits)

lemma longest_insert:
  "longest bs (fst (insert_at p x n)) =
     (if prefix p bs \<and> (case longest bs n of None \<Rightarrow> True | Some (l, _) \<Rightarrow> l \<le> length p)
      then Some (length p, x) else longest bs n)"
proof (induction p arbitrary: bs n)
  case Nil
  show ?case
    by (cases n; cases bs) (auto simp: longest_Cons node_value_def child_def split: option.splits)
next
  case (Cons b p)
  let ?c = "case child b n of None \<Rightarrow> empty_node | Some c \<Rightarrow> c"
  obtain c' new where ins: "insert_at p x ?c = (c', new)" by fastforce
  then have "fst (insert_at (b # p) x n) = set_child b c' n" by simp
  moreover have "longest bs' c' = (if prefix p bs' \<and> (case longest bs' ?c of None \<Rightarrow> True | Some (l, _) \<Rightarrow> l \<le> length p)
      then Some (length p, x) else longest bs' ?c)" for bs'
    using Cons.IH [of bs' ?c] ins by simp
  ultimately show ?case
    by (cases bs) (auto simp: longest_Cons split: option.splits)
qed

text \<open>The values the enumeration yields are one per node with a value, and the insertion adds one exactly when
  it says so.\<close>

lemma length_walk_insert:
  "length (walk v q (fst (insert_at p x n))) = length (walk v q n) + (if snd (insert_at p x n) then 1 else 0)"
proof (induction p arbitrary: n q)
  case Nil
  show ?case by (cases n) (simp split: option.splits)
next
  case (Cons b p)
  obtain c0 c1 y where n: "n = Node c0 c1 y" by (cases n)
  let ?c = "case child b n of None \<Rightarrow> empty_node | Some c \<Rightarrow> c"
  obtain c' new where ins: "insert_at p x ?c = (c', new)" by fastforce
  have "length (walk v q' c') = length (walk v q' ?c) + (if new then 1 else 0)" for q'
    using Cons.IH [of q' ?c] ins by simp
  then show ?case using ins n
    by (cases b) (simp_all add: child_def set_child_def empty_node_def split: option.splits)
qed

section \<open>Bits and numbers\<close>

lemma div_eq_iff_bounds:
  assumes "0 < (h::int)"
  shows "a div h = q \<longleftrightarrow> q * h \<le> a \<and> a < q * h + h"
proof
  assume "a div h = q"
  then have "a = q * h + a mod h" by (metis div_mult_mod_eq)
  with pos_mod_bound [OF assms, of a] pos_mod_sign [OF assms, of a] show "q * h \<le> a \<and> a < q * h + h" by linarith
next
  assume "q * h \<le> a \<and> a < q * h + h"
  then show "a div h = q" by (intro int_div_pos_eq [of a h q "a - q * h"]) (auto simp: mult.commute)
qed

lemma addr_bits_eq_iff:
  assumes "0 \<le> a" "a < 2 ^ w" "0 \<le> b" "b < 2 ^ w" "n \<le> w"
  shows "addr_bits w a n = addr_bits w b n \<longleftrightarrow> a div 2 ^ (w - n) = b div 2 ^ (w - n)"
  using assms(5)
proof (induction n)
  case 0
  then show ?case using assms by (simp add: addr_bits_def)
next
  case (Suc n)
  have split: "c div 2 ^ (w - n) = c div 2 ^ (w - Suc n) div 2" for c :: int
  proof -
    have "w - n = Suc (w - Suc n)" using Suc.prems by simp
    then have "c div 2 ^ (w - n) = c div (2 ^ (w - Suc n) * 2)" by (metis power_Suc2)
    then show ?thesis by (simp only: zdiv_zmult2_eq [of 2] zero_le_numeral)
  qed
  have "addr_bits w a (Suc n) = addr_bits w b (Suc n) \<longleftrightarrow>
      a div 2 ^ (w - n) = b div 2 ^ (w - n) \<and> odd (a div 2 ^ (w - Suc n)) = odd (b div 2 ^ (w - Suc n))"
    using Suc by (auto simp: addr_bits_def)
  also have "\<dots> \<longleftrightarrow> a div 2 ^ (w - Suc n) = b div 2 ^ (w - Suc n)"
    unfolding split by (metis div_mult_mod_eq odd_iff_mod_2_eq_one even_iff_mod_2_eq_zero)
  finally show ?case .
qed

lemma prefix_addr_bits:
  assumes "n \<le> w"
  shows "prefix p (addr_bits w b w) \<and> length p = n \<longleftrightarrow> p = addr_bits w b n"
proof -
  have "take n (addr_bits w b w) = addr_bits w b n"
    using assms by (simp add: addr_bits_def take_map)
  then show ?thesis
    using assms by (metis addr_bits_def append_eq_conv_conj diff_zero length_map length_upt prefix_def take_is_prefix)
qed

lemma length_addr_bits [simp]: "length (addr_bits w a n) = n"
  by (simp add: addr_bits_def)

text \<open>A network contains an address exactly when its path is a prefix of the bits of the address.\<close>

lemma net_contains_iff_prefix:
  assumes "net_ok net" "0 \<le> addr" "addr < 2 ^ w" "w = max_prefixlen (net_version net)"
  shows "prefix (addr_bits w (network_address net) (prefixlen net)) (addr_bits w addr w) \<longleftrightarrow> net_contains net addr"
proof -
  let ?a = "network_address net" and ?p = "prefixlen net"
  let ?h = "2 ^ (w - ?p) :: int"
  have p: "?p \<le> w" and a: "0 \<le> ?a" "?a < 2 ^ w" "?a mod ?h = 0" using assms by (auto simp: net_ok_def)
  have "prefix (addr_bits w ?a ?p) (addr_bits w addr w) \<longleftrightarrow> addr_bits w ?a ?p = addr_bits w addr ?p"
    using prefix_addr_bits [OF p, of "addr_bits w ?a ?p" addr] by simp
  also have "\<dots> \<longleftrightarrow> ?a div ?h = addr div ?h"
    by (rule addr_bits_eq_iff [OF a(1,2) assms(2,3) p])
  also have "\<dots> \<longleftrightarrow> ?a \<le> addr \<and> addr < ?a + ?h"
  proof -
    have "?a div ?h * ?h = ?a" using a(3) by (simp add: mod_eq_0_iff_dvd)
    then show ?thesis using div_eq_iff_bounds [of ?h addr "?a div ?h"] by auto
  qed
  finally show ?thesis using assms(4) by (simp add: net_contains_def)
qed

section \<open>Correctness\<close>

definition root_of :: "ip_version \<Rightarrow> 'v radix_tree \<Rightarrow> 'v radix_node" where
  "root_of v t = (if v = V4 then root4 t else root6 t)"

lemma root_of_insert:
  assumes "parse_network cidr = Some net"
  shows "root_of v (snd (radix_insert cidr x t)) =
      (if v = net_version net
       then fst (insert_at (addr_bits (max_prefixlen v) (network_address net) (prefixlen net)) x (root_of v t))
       else root_of v t)"
  using assms by (cases v; cases "net_version net") (auto simp: radix_insert_def root_of_def Let_def split: prod.splits)

lemma parse_network_ok: "parse_network s = Some net \<Longrightarrow> net_ok net"
  by (simp add: parse_network_def ip_network_ok)

lemma longest_radix_insert:
  assumes "0 \<le> addr" "addr < 2 ^ max_prefixlen v"
  shows "longest (addr_bits (max_prefixlen v) addr (max_prefixlen v)) (root_of v (snd (radix_insert cidr x t))) =
      better addr v (cidr, x) (longest (addr_bits (max_prefixlen v) addr (max_prefixlen v)) (root_of v t))"
proof (cases "parse_network cidr")
  case None
  then show ?thesis by (simp add: radix_insert_def better_def)
next
  case (Some net)
  show ?thesis
  proof (cases "v = net_version net")
    case True
    have "prefix (addr_bits (max_prefixlen v) (network_address net) (prefixlen net))
        (addr_bits (max_prefixlen v) addr (max_prefixlen v)) \<longleftrightarrow> net_contains net addr"
      using net_contains_iff_prefix [OF parse_network_ok [OF Some] assms(1)] assms(2) True by simp
    then show ?thesis using True Some
      by (auto simp: root_of_insert [OF Some] longest_insert better_def split: option.splits)
  qed (simp add: root_of_insert [OF Some] better_def Some)
qed

lemma longest_insert_rows:
  assumes "0 \<le> addr" "addr < 2 ^ max_prefixlen v"
  shows "longest (addr_bits (max_prefixlen v) addr (max_prefixlen v)) (root_of v (fst (insert_rows rows (t, k)))) =
      fold (better addr v) rows (longest (addr_bits (max_prefixlen v) addr (max_prefixlen v)) (root_of v t))"
proof (induction rows arbitrary: t k)
  case (Cons row rows)
  obtain cidr x where row: "row = (cidr, x)" by fastforce
  obtain ok t' where ins: "radix_insert cidr x t = (ok, t')" by fastforce
  show ?case
    using Cons.IH [of t' "if ok then k else k + 1"] longest_radix_insert [OF assms, of cidr x t] row ins by simp
qed simp

lemma radix_search_longest:
  "ip_to_bits ip = Some (addr, v) \<Longrightarrow>
   radix_search ip t = map_option snd (longest (addr_bits (max_prefixlen v) addr (max_prefixlen v)) (root_of v t))"
  by (cases v) (auto simp: radix_search_def root_of_def search_at_longest Let_def longest_None split: option.splits)

text \<open>C13: The longest-prefix search of the radix tree is the reference scan. For every table of rows, valid or
  not, and every probe, the tree built by \<open>from_rows\<close> returns the value of the most specific network that
  contains the address; of two rows for the same network the later one counts; IPv4 and IPv6 never mix.\<close>

theorem radix_search_is_longest_prefix:
  fixes rows :: "(string \<times> 'v) list"
  shows "radix_search ip (fst (from_rows rows)) = scan_rows rows ip"
proof (cases "ip_to_bits ip")
  case (Some p)
  obtain addr v where p: "p = (addr, v)" by fastforce
  have b: "0 \<le> addr" "addr < 2 ^ max_prefixlen v"
    using ip_address_bound [of "strip ip" addr v] Some p by (simp_all add: ip_to_bits_def)
  have "longest bs (root_of v (empty_tree :: 'v radix_tree)) = None" for bs
    by (simp add: root_of_def empty_tree_def)
  then show ?thesis
    using radix_search_longest [of ip addr v "fst (from_rows rows)"] longest_insert_rows [OF b, of rows empty_tree 0] Some p
    by (simp add: scan_rows_def from_rows_def)
qed (simp add: radix_search_def scan_rows_def)

lemma iter_count_insert:
  assumes "length (iter_prefixes t) = rt_count t"
  shows "length (iter_prefixes (snd (radix_insert cidr x t))) = rt_count (snd (radix_insert cidr x t))"
proof (cases "parse_network cidr")
  case (Some net)
  define path where "path = addr_bits (max_prefixlen (net_version net)) (network_address net) (prefixlen net)"
  obtain n' new where ins: "insert_at path x (root_of (net_version net) t) = (n', new)" by fastforce
  have "length (walk v q n') = length (walk v q (root_of (net_version net) t)) + (if new then 1 else 0)" for v q
    using length_walk_insert [of v q path x "root_of (net_version net) t"] ins by simp
  then show ?thesis
    using assms Some ins unfolding radix_insert_def
    by (cases "net_version net") (simp_all add: path_def Let_def root_of_def iter_prefixes_def)
qed (use assms in \<open>simp add: radix_insert_def\<close>)

lemma insert_rows_counts:
  "length (iter_prefixes t) = rt_count t \<Longrightarrow> insert_rows rows (t, k) = (t', k') \<Longrightarrow>
   length (iter_prefixes t') = rt_count t' \<and>
   k' = k + length (filter (\<lambda>(cidr, _). parse_network cidr = None) rows)"
proof (induction rows arbitrary: t k)
  case (Cons row rows)
  obtain cidr x where row: "row = (cidr, x)" by fastforce
  obtain ok t1 where ins: "radix_insert cidr x t = (ok, t1)" by fastforce
  have ok: "ok \<longleftrightarrow> parse_network cidr \<noteq> None"
    using ins by (auto simp: radix_insert_def Let_def split: option.splits prod.splits)
  have "length (iter_prefixes t1) = rt_count t1" using iter_count_insert [OF Cons.prems(1), of cidr x] ins by simp
  with Cons.IH [of t1 "if ok then k else k + 1"] Cons.prems(2) row ins ok show ?case by auto
qed simp

text \<open>Every table loads: \<open>from_rows\<close> reports exactly the rows whose network does not parse, and the
  entry count of the tree is the number of prefixes its enumeration yields.\<close>

theorem radix_from_rows_counts:
  "length (iter_prefixes (fst (from_rows rows))) = rt_count (fst (from_rows rows)) \<and>
   snd (from_rows rows) = length (filter (\<lambda>(cidr, _). parse_network cidr = None) rows)"
  using insert_rows_counts [of empty_tree rows 0 "fst (from_rows rows)" "snd (from_rows rows)"]
  by (simp add: from_rows_def iter_prefixes_def empty_tree_def empty_node_def)

end
