(* ===== verification/Bulkhead.thy ===== *)
theory Bulkhead
  imports Py_Prelude "HOL-Library.AList"
begin

text \<open>
  The per-destination bulkhead of one event loop (\<open>output/concurrency_pool.py\<close>): a slot that bounds how many
  deliveries run at once and can be resized while deliveries are in flight, and the pool of slots.
  The slot wraps \<open>asyncio.Semaphore\<close> (Python 3.11), modelled with its queue of futures. Coroutines of one loop
  interleave only where they await, so every step below is the code between two awaits.
\<close>

section \<open>The semaphore\<close>

text \<open>The future of a suspended \<open>acquire\<close>: pending, resolved by a release, cancelled, or resolved and its task
  cancelled before it ran again.\<close>

datatype waiter_state = Waiting | Woken | Cancelled | WokenCancelled

definition is_woken :: "waiter_state \<Rightarrow> bool" where
  "is_woken w \<longleftrightarrow> w = Woken \<or> w = WokenCancelled"

type_synonym waiters = "(nat \<times> waiter_state) list"

text \<open>A slot: the semaphore (value, queue), the capacity in force, the one wanted, the count of holders and
  waiters, and, as a ghost, the tasks inside the \<open>async with\<close> block.\<close>

record slot =
  sl_value :: nat
  sl_waiters :: waiters
  sl_limit :: nat
  sl_target :: nat
  sl_pending :: nat
  sl_holders :: "nat list"

definition clamp_cap :: "int \<Rightarrow> nat" where
  "clamp_cap c = (if c < 1 then 1 else nat c)"

definition new_slot :: "nat \<Rightarrow> slot" where
  "new_slot limit = \<lparr>sl_value = limit, sl_waiters = [], sl_limit = limit, sl_target = limit, sl_pending = 0, sl_holders = []\<rparr>"

text \<open>\<open>_wake_up_next\<close>: the first future that is not done is resolved, and the permit is taken for it.\<close>

fun wake_first :: "waiters \<Rightarrow> waiters option" where
  "wake_first [] = None"
| "wake_first ((i, w) # ws) =
     (if w = Waiting then Some ((i, Woken) # ws) else map_option (\<lambda>ws'. (i, w) # ws') (wake_first ws))"

definition sem_wake_next :: "slot \<Rightarrow> slot" where
  "sem_wake_next s =
     (case wake_first (sl_waiters s) of
        None \<Rightarrow> s
      | Some ws \<Rightarrow> s\<lparr>sl_value := sl_value s - 1, sl_waiters := ws\<rparr>)"

definition sem_release :: "slot \<Rightarrow> slot" where
  "sem_release s = sem_wake_next (s\<lparr>sl_value := sl_value s + 1\<rparr>)"

definition sem_locked :: "slot \<Rightarrow> bool" where
  "sem_locked s \<longleftrightarrow> sl_value s = 0 \<or> (\<exists>w\<in>set (sl_waiters s). snd w \<noteq> Cancelled)"

section \<open>The operations of a slot\<close>

text \<open>\<open>__aenter__\<close> of task \<open>i\<close>: it holds the slot at once or is queued.\<close>

definition slot_enter :: "nat \<Rightarrow> slot \<Rightarrow> slot" where
  "slot_enter i s =
     (let s = s\<lparr>sl_pending := sl_pending s + 1\<rparr> in
      if sem_locked s then s\<lparr>sl_waiters := sl_waiters s @ [(i, Waiting)]\<rparr>
      else s\<lparr>sl_value := sl_value s - 1, sl_holders := i # sl_holders s\<rparr>)"

text \<open>The rest of \<open>acquire\<close> when the task runs again after its future was resolved.\<close>

definition slot_resume :: "nat \<Rightarrow> slot \<Rightarrow> slot" where
  "slot_resume i s =
     (let s = s\<lparr>sl_waiters := AList.delete i (sl_waiters s), sl_holders := i # sl_holders s\<rparr> in
      if 0 < sl_value s then sem_wake_next s else s)"

text \<open>The rest of \<open>acquire\<close> and of \<open>__aenter__\<close> when the task runs again to raise \<open>CancelledError\<close>.\<close>

definition slot_unwind :: "nat \<Rightarrow> waiter_state \<Rightarrow> slot \<Rightarrow> slot" where
  "slot_unwind i w s =
     (let s = s\<lparr>sl_waiters := AList.delete i (sl_waiters s)\<rparr>;
          s = (if w = Cancelled then s else sem_release s)
      in s\<lparr>sl_pending := sl_pending s - 1\<rparr>)"

text \<open>\<open>__aexit__\<close>: the permit is absorbed while the capacity is above the wanted one.\<close>

definition slot_exit :: "nat \<Rightarrow> slot \<Rightarrow> slot" where
  "slot_exit i s =
     (let s = s\<lparr>sl_pending := sl_pending s - 1, sl_holders := remove1 i (sl_holders s)\<rparr> in
      if sl_target s < sl_limit s then s\<lparr>sl_limit := sl_limit s - 1\<rparr> else sem_release s)"

definition slot_retarget :: "int \<Rightarrow> slot \<Rightarrow> slot" where
  "slot_retarget new s =
     (let n = clamp_cap new; s1 = s\<lparr>sl_target := n\<rparr> in
      if n = sl_limit s then s1
      else if sl_pending s = 0 then s1\<lparr>sl_value := n, sl_waiters := [], sl_limit := n\<rparr>
      else if sl_limit s < n then ((sem_release ^^ (n - sl_limit s)) s1)\<lparr>sl_limit := n\<rparr>
      else s1)"

section \<open>The pool\<close>

text \<open>Destination to slot and event loop; a slot of another loop is replaced, a slot with another target is
  resized in place.\<close>

type_synonym slot_pool = "(string \<times> (slot \<times> nat)) list"

definition get_semaphore :: "string \<Rightarrow> int \<Rightarrow> nat \<Rightarrow> slot_pool \<Rightarrow> slot \<times> slot_pool" where
  "get_semaphore dest concurrency loop pool =
     (let fresh = new_slot (clamp_cap concurrency) in
      case map_of pool dest of
        Some (s, l) \<Rightarrow>
          if l = loop
          then let s' = (if sl_target s \<noteq> clamp_cap concurrency then slot_retarget (int (clamp_cap concurrency)) s else s)
               in (s', AList.update dest (s', l) pool)
          else (fresh, AList.update dest (fresh, loop) pool)
      | None \<Rightarrow> (fresh, AList.update dest (fresh, loop) pool))"

section \<open>Runs\<close>

datatype slot_act = Enter nat | Resume nat | Cancel nat | Unwind nat | Leave nat | Retarget int

definition mark_cancelled :: "waiter_state \<Rightarrow> waiter_state" where
  "mark_cancelled w = (if is_woken w then WokenCancelled else Cancelled)"

text \<open>Any number of tasks enter, are resumed, are cancelled while they wait, leave, and the configuration
  changes, in any order.\<close>

inductive slot_step :: "slot \<Rightarrow> slot_act \<Rightarrow> slot \<Rightarrow> bool" where
  step_enter: "i \<notin> set (sl_holders s) \<Longrightarrow> i \<notin> fst ` set (sl_waiters s) \<Longrightarrow> slot_step s (Enter i) (slot_enter i s)"
| step_resume: "map_of (sl_waiters s) i = Some Woken \<Longrightarrow> slot_step s (Resume i) (slot_resume i s)"
| step_cancel: "map_of (sl_waiters s) i = Some w \<Longrightarrow>
    slot_step s (Cancel i) (s\<lparr>sl_waiters := AList.update i (mark_cancelled w) (sl_waiters s)\<rparr>)"
| step_unwind: "map_of (sl_waiters s) i = Some w \<Longrightarrow> w = Cancelled \<or> w = WokenCancelled \<Longrightarrow>
    slot_step s (Unwind i) (slot_unwind i w s)"
| step_leave: "i \<in> set (sl_holders s) \<Longrightarrow> slot_step s (Leave i) (slot_exit i s)"
| step_retarget: "slot_step s (Retarget n) (slot_retarget n s)"

inductive slot_run :: "slot \<Rightarrow> slot_act list \<Rightarrow> slot \<Rightarrow> bool" where
  run_nil: "slot_run s [] s"
| run_snoc: "slot_run s acts s1 \<Longrightarrow> slot_step s1 a s2 \<Longrightarrow> slot_run s (acts @ [a]) s2"

section \<open>The invariant\<close>

definition cnt :: "(waiter_state \<Rightarrow> bool) \<Rightarrow> waiters \<Rightarrow> nat" where
  "cnt P ws = length (filter (\<lambda>w. P (snd w)) ws)"

lemma cnt_simps [simp]: "cnt P [] = 0" "cnt P (w # ws) = (if P (snd w) then 1 else 0) + cnt P ws"
    "cnt P (ws @ ws') = cnt P ws + cnt P ws'"
  by (simp_all add: cnt_def)

lemma cnt_delete:
  "distinct (map fst ws) \<Longrightarrow> map_of ws i = Some w \<Longrightarrow> cnt P ws = cnt P (AList.delete i ws) + (if P w then 1 else 0)"
proof (induction ws)
  case (Cons x ws)
  show ?case
  proof (cases "fst x = i")
    case True
    then have "AList.delete i ws = ws" using Cons.prems(1) by (intro AList.delete_id) auto
    with True Cons.prems show ?thesis by (cases x) auto
  qed (use Cons in auto)
qed simp

lemma cnt_update:
  "distinct (map fst ws) \<Longrightarrow> map_of ws i = Some w \<Longrightarrow>
   cnt P (AList.update i w' ws) + (if P w then 1 else 0) = cnt P ws + (if P w' then 1 else 0)"
proof (induction ws)
  case (Cons x ws)
  then show ?case by (cases x) auto
qed simp

lemma wake_first_None: "wake_first ws = None \<longleftrightarrow> Waiting \<notin> snd ` set ws"
  by (induction ws rule: wake_first.induct) auto

lemma wake_first_Some:
  "wake_first ws = Some ws' \<Longrightarrow>
   map fst ws' = map fst ws \<and> cnt is_woken ws' = Suc (cnt is_woken ws) \<and> length ws' = length ws"
  by (induction ws arbitrary: ws' rule: wake_first.induct) (auto simp: is_woken_def split: if_splits)

lemma cnt_woken_pos: "0 < cnt is_woken ws \<longleftrightarrow> (\<exists>w\<in>set ws. is_woken (snd w))"
  by (auto simp: cnt_def filter_empty_conv)

text \<open>Permits are conserved, the pending count is exact, the target is between one and the capacity, and a
  free permit is never left unused while a task waits, unless a resolved future is about to pass it on.\<close>

definition permits :: "slot \<Rightarrow> nat" where
  "permits s = sl_value s + cnt is_woken (sl_waiters s) + length (sl_holders s)"

definition wakeups_ok :: "slot \<Rightarrow> bool" where
  "wakeups_ok s \<longleftrightarrow> sl_value s = 0 \<or> Waiting \<notin> snd ` set (sl_waiters s) \<or> 0 < cnt is_woken (sl_waiters s)"

definition slot_ids :: "slot \<Rightarrow> nat list" where
  "slot_ids s = sl_holders s @ map fst (sl_waiters s)"

definition slot_inv :: "slot \<Rightarrow> bool" where
  "slot_inv s \<longleftrightarrow> permits s = sl_limit s \<and> wakeups_ok s \<and> sl_pending s = length (sl_holders s) + length (sl_waiters s) \<and>
     1 \<le> sl_target s \<and> sl_target s \<le> sl_limit s \<and> distinct (slot_ids s)"

lemma slot_inv_new: "1 \<le> n \<Longrightarrow> slot_inv (new_slot n)"
  by (simp add: slot_inv_def new_slot_def permits_def wakeups_ok_def slot_ids_def)

lemma bookkeeping_frame [simp]:
  "permits (s\<lparr>sl_pending := n\<rparr>) = permits s" "permits (s\<lparr>sl_limit := n\<rparr>) = permits s"
  "permits (s\<lparr>sl_target := n\<rparr>) = permits s" "wakeups_ok (s\<lparr>sl_pending := n\<rparr>) = wakeups_ok s"
  "wakeups_ok (s\<lparr>sl_limit := n\<rparr>) = wakeups_ok s" "wakeups_ok (s\<lparr>sl_target := n\<rparr>) = wakeups_ok s"
  "slot_ids (s\<lparr>sl_pending := n\<rparr>) = slot_ids s" "slot_ids (s\<lparr>sl_limit := n\<rparr>) = slot_ids s"
  "slot_ids (s\<lparr>sl_target := n\<rparr>) = slot_ids s"
  by (simp_all add: permits_def wakeups_ok_def slot_ids_def)

lemma sem_wake_next_frame [simp]:
  "sl_limit (sem_wake_next s) = sl_limit s" "sl_target (sem_wake_next s) = sl_target s"
  "sl_pending (sem_wake_next s) = sl_pending s" "sl_holders (sem_wake_next s) = sl_holders s"
  "slot_ids (sem_wake_next s) = slot_ids s" "length (sl_waiters (sem_wake_next s)) = length (sl_waiters s)"
  by (auto simp: sem_wake_next_def slot_ids_def dest: wake_first_Some split: option.splits)

lemma sem_release_frame [simp]:
  "sl_limit (sem_release s) = sl_limit s" "sl_target (sem_release s) = sl_target s"
  "sl_pending (sem_release s) = sl_pending s" "sl_holders (sem_release s) = sl_holders s"
  "slot_ids (sem_release s) = slot_ids s" "length (sl_waiters (sem_release s)) = length (sl_waiters s)"
  by (simp_all add: sem_release_def slot_ids_def [of "s\<lparr>sl_value := _\<rparr>"]) (simp add: slot_ids_def)

lemma wakeups_sem_wake_next [simp]: "wakeups_ok (sem_wake_next s)"
  by (auto simp: sem_wake_next_def wakeups_ok_def wake_first_None dest: wake_first_Some split: option.splits)

lemma permits_sem_wake_next: "0 < sl_value s \<Longrightarrow> permits (sem_wake_next s) = permits s"
  by (auto simp: sem_wake_next_def permits_def dest: wake_first_Some split: option.splits)

lemma permits_sem_release [simp]: "permits (sem_release s) = permits s + 1"
  by (simp add: sem_release_def permits_sem_wake_next) (simp add: permits_def)

lemma wakeups_sem_release [simp]: "wakeups_ok (sem_release s)"
  by (simp add: sem_release_def)

lemma sem_releases:
  "permits ((sem_release ^^ n) s) = permits s + n \<and> (0 < n \<longrightarrow> wakeups_ok ((sem_release ^^ n) s)) \<and>
   sl_limit ((sem_release ^^ n) s) = sl_limit s \<and> sl_target ((sem_release ^^ n) s) = sl_target s \<and>
   sl_pending ((sem_release ^^ n) s) = sl_pending s \<and> sl_holders ((sem_release ^^ n) s) = sl_holders s \<and>
   slot_ids ((sem_release ^^ n) s) = slot_ids s \<and>
   length (sl_waiters ((sem_release ^^ n) s)) = length (sl_waiters s)"
  by (induction n) auto

lemma length_delete:
  "distinct (map fst ws) \<Longrightarrow> map_of ws i = Some (w :: waiter_state) \<Longrightarrow>
   length (ws :: waiters) = Suc (length (AList.delete i ws))"
  using cnt_delete [of ws i w "\<lambda>_. True"] by (simp add: cnt_def)

lemma set_keys_delete: "fst ` set (AList.delete i ws) = fst ` set ws - {i}"
  by (auto simp: AList.delete_eq)

lemma inv_keys: "slot_inv s \<Longrightarrow> distinct (map fst (sl_waiters s))"
  by (simp add: slot_inv_def slot_ids_def)

lemma inv_enter:
  assumes "slot_inv s" "i \<notin> set (sl_holders s)" "i \<notin> fst ` set (sl_waiters s)"
  shows "slot_inv (slot_enter i s)"
proof -
  have live: "is_woken w \<or> w = Waiting" if "w \<noteq> Cancelled" for w
    using that by (cases w) (auto simp: is_woken_def)
  have "0 < cnt is_woken (sl_waiters s) \<or> Waiting \<in> snd ` set (sl_waiters s) \<or> sl_value s = 0" if "sem_locked s"
  proof (cases "sl_value s = 0")
    case False
    with that obtain w where "w \<in> set (sl_waiters s)" "snd w \<noteq> Cancelled" by (auto simp: sem_locked_def)
    with live [of "snd w"] show ?thesis by (auto simp: cnt_woken_pos intro: rev_image_eqI)
  qed simp
  then have w: "sem_locked s \<Longrightarrow> sl_value s = 0 \<or> 0 < cnt is_woken (sl_waiters s)"
    using assms(1) by (auto simp: slot_inv_def wakeups_ok_def)
  have l: "sem_locked (s\<lparr>sl_pending := n\<rparr>) = sem_locked s" for n by (simp add: sem_locked_def)
  show ?thesis
  proof (cases "sem_locked s")
    case True
    then show ?thesis using assms w
      by (auto simp: slot_enter_def Let_def l slot_inv_def permits_def wakeups_ok_def is_woken_def slot_ids_def)
  next
    case False
    then have "0 < sl_value s" "wakeups_ok (slot_enter i s)"
      using assms(1) by (auto simp: slot_enter_def Let_def l slot_inv_def wakeups_ok_def sem_locked_def image_iff)
    with False assms show ?thesis
      by (auto simp: slot_enter_def Let_def l slot_inv_def permits_def slot_ids_def)
  qed
qed

lemma wakeups_delete:
  "wakeups_ok s \<Longrightarrow> sl_value s = 0 \<Longrightarrow> wakeups_ok (s\<lparr>sl_waiters := ws, sl_holders := hs\<rparr>)"
  by (simp add: wakeups_ok_def)

lemma inv_resume:
  assumes "slot_inv s" "map_of (sl_waiters s) i = Some Woken"
  shows "slot_inv (slot_resume i s)"
proof -
  let ?s = "s\<lparr>sl_waiters := AList.delete i (sl_waiters s), sl_holders := i # sl_holders s\<rparr>"
  note d = inv_keys [OF assms(1)]
  have i: "i \<in> fst ` set (sl_waiters s)" using assms(2) by (auto dest: map_of_SomeD intro: rev_image_eqI)
  have "permits ?s = permits s"
    using cnt_delete [OF d assms(2), of is_woken] by (simp add: permits_def is_woken_def)
  moreover have "distinct (slot_ids ?s)"
    using assms(1) i by (auto simp: slot_inv_def slot_ids_def set_keys_delete distinct_keys_delete)
  moreover have "wakeups_ok (slot_resume i s)"
    using assms(1) by (auto simp: slot_resume_def Let_def slot_inv_def intro: wakeups_delete)
  ultimately show ?thesis
    using assms length_delete [OF d assms(2)]
    by (simp add: slot_resume_def Let_def slot_inv_def permits_sem_wake_next)
qed

lemma set_update_states:
  "snd ` set (AList.update i w ws) \<subseteq> insert w (snd ` set ws)"
  by (induction ws) auto

lemma inv_cancel:
  assumes "slot_inv s" "map_of (sl_waiters s) i = Some w"
  shows "slot_inv (s\<lparr>sl_waiters := AList.update i (mark_cancelled w) (sl_waiters s)\<rparr>)"
proof -
  let ?ws = "AList.update i (mark_cancelled w) (sl_waiters s)"
  have "i \<in> fst ` set (sl_waiters s)" using assms(2) by (auto dest: map_of_SomeD intro: rev_image_eqI)
  then have keys: "map fst ?ws = map fst (sl_waiters s)" by (simp add: AList.update_keys)
  then have "length ?ws = length (sl_waiters s)" by (metis length_map)
  moreover have "is_woken (mark_cancelled w) = is_woken w" by (auto simp: mark_cancelled_def is_woken_def)
  then have "cnt is_woken ?ws = cnt is_woken (sl_waiters s)"
    using cnt_update [OF inv_keys [OF assms(1)] assms(2), of is_woken "mark_cancelled w"] by (simp split: if_splits)
  moreover have "Waiting \<notin> snd ` set ?ws \<or> Waiting \<in> snd ` set (sl_waiters s)"
    using set_update_states [of i "mark_cancelled w" "sl_waiters s"] by (auto simp: mark_cancelled_def split: if_splits)
  ultimately show ?thesis
    using assms(1) keys by (auto simp: slot_inv_def permits_def wakeups_ok_def slot_ids_def)
qed

lemma inv_unwind:
  assumes "slot_inv s" "map_of (sl_waiters s) i = Some w" "w = Cancelled \<or> w = WokenCancelled"
  shows "slot_inv (slot_unwind i w s)"
proof -
  let ?s = "s\<lparr>sl_waiters := AList.delete i (sl_waiters s)\<rparr>"
  note d = inv_keys [OF assms(1)]
  have c: "cnt is_woken (sl_waiters s) = cnt is_woken (AList.delete i (sl_waiters s)) + (if is_woken w then 1 else 0)"
    by (rule cnt_delete [OF d assms(2)])
  then have p: "permits s = permits ?s + (if is_woken w then 1 else 0)" by (simp add: permits_def)
  have ids: "distinct (slot_ids ?s)"
    using assms(1) by (auto simp: slot_inv_def slot_ids_def set_keys_delete distinct_keys_delete)
  have gone: "Waiting \<in> snd ` set (AList.delete i (sl_waiters s)) \<Longrightarrow> Waiting \<in> snd ` set (sl_waiters s)"
    by (auto simp: AList.delete_eq)
  show ?thesis
  proof (cases "w = Cancelled")
    case True
    then have "wakeups_ok ?s" using assms(1) c gone by (auto simp: slot_inv_def wakeups_ok_def is_woken_def)
    with True assms(1) p ids length_delete [OF d assms(2)] show ?thesis
      by (auto simp: slot_unwind_def Let_def slot_inv_def is_woken_def permits_def wakeups_ok_def slot_ids_def)
  next
    case False
    with assms(1,3) p ids length_delete [OF d assms(2)] show ?thesis
      by (simp add: slot_unwind_def slot_inv_def is_woken_def)
  qed
qed

lemma inv_leave:
  assumes "slot_inv s" "i \<in> set (sl_holders s)"
  shows "slot_inv (slot_exit i s)"
proof -
  let ?s = "s\<lparr>sl_pending := sl_pending s - 1, sl_holders := remove1 i (sl_holders s)\<rparr>"
  have len: "length (sl_holders s) = Suc (length (remove1 i (sl_holders s)))"
    using assms(2) by (simp add: length_remove1) (metis Suc_pred length_pos_if_in_set)
  then have "permits s = Suc (permits ?s)" by (simp add: permits_def)
  moreover have "distinct (slot_ids ?s)"
    using assms(1) by (auto simp: slot_inv_def slot_ids_def dest: in_set_remove1 notin_set_remove1)
  moreover have "wakeups_ok ?s" using assms(1) by (simp add: slot_inv_def wakeups_ok_def)
  ultimately show ?thesis using assms(1) len by (auto simp: slot_exit_def Let_def slot_inv_def)
qed

lemma clamp_cap_pos [simp]: "Suc 0 \<le> clamp_cap c"
  by (auto simp: clamp_cap_def)

lemma inv_retarget:
  assumes "slot_inv s"
  shows "slot_inv (slot_retarget n s)"
proof -
  let ?r = "(sem_release ^^ (clamp_cap n - sl_limit s)) (s\<lparr>sl_target := clamp_cap n\<rparr>)"
  have idle: "sl_holders s = []" "sl_waiters s = []" if "sl_pending s = 0" using that assms by (auto simp: slot_inv_def)
  consider "clamp_cap n = sl_limit s" | "clamp_cap n \<noteq> sl_limit s" "sl_pending s = 0"
    | "sl_limit s < clamp_cap n" "sl_pending s \<noteq> 0" | "clamp_cap n < sl_limit s" "sl_pending s \<noteq> 0" by linarith
  then show ?thesis
  proof cases
    case 2
    then show ?thesis using idle
      by (simp add: slot_retarget_def Let_def slot_inv_def permits_def wakeups_ok_def slot_ids_def)
  next
    case 3
    then have "slot_retarget n s = ?r\<lparr>sl_limit := clamp_cap n\<rparr>" by (simp add: slot_retarget_def Let_def)
    then show ?thesis
      using 3 assms sem_releases [of "clamp_cap n - sl_limit s" "s\<lparr>sl_target := clamp_cap n\<rparr>"]
      by (simp add: slot_inv_def)
  qed (use assms in \<open>auto simp: slot_retarget_def Let_def slot_inv_def\<close>)
qed

lemma inv_step: "slot_step s a s' \<Longrightarrow> slot_inv s \<Longrightarrow> slot_inv s'"
  by (induction rule: slot_step.induct)
    (simp_all add: inv_enter inv_resume inv_cancel inv_unwind inv_leave inv_retarget)

lemma inv_run: "slot_run s acts s' \<Longrightarrow> slot_inv s \<Longrightarrow> slot_inv s'"
  by (induction rule: slot_run.induct) (auto intro: inv_step)

section \<open>The capacity\<close>

text \<open>The capacities configured so far, oldest first.\<close>

definition caps :: "int \<Rightarrow> slot_act list \<Rightarrow> nat list" where
  "caps c acts = clamp_cap c # concat (map (\<lambda>a. case a of Retarget n \<Rightarrow> [clamp_cap n] | _ \<Rightarrow> []) acts)"

lemma caps_snoc: "caps c (acts @ [a]) = caps c acts @ (case a of Retarget n \<Rightarrow> [clamp_cap n] | _ \<Rightarrow> [])"
  by (simp add: caps_def)

lemma limit_target_step:
  assumes "slot_step s a s'"
  shows "sl_target s' = (case a of Retarget n \<Rightarrow> clamp_cap n | _ \<Rightarrow> sl_target s)"
    and "sl_limit s' \<le> sl_limit s \<or> (\<exists>n. a = Retarget n \<and> sl_limit s' = clamp_cap n)"
  using assms
  by (induction rule: slot_step.induct)
    (auto simp: slot_enter_def slot_resume_def slot_unwind_def slot_exit_def slot_retarget_def Let_def sem_releases)

lemma limit_within_caps:
  assumes "slot_run (new_slot (clamp_cap c)) acts s"
  shows "(\<exists>m\<in>set (caps c acts). sl_limit s \<le> m) \<and> sl_target s = last (caps c acts)"
  using assms
proof (induction "new_slot (clamp_cap c)" acts s rule: slot_run.induct)
  case run_nil
  then show ?case by (simp add: caps_def new_slot_def)
next
  case (run_snoc acts s1 a s2)
  from run_snoc(2) obtain m where "m \<in> set (caps c acts)" "sl_limit s1 \<le> m" by blast
  with limit_target_step [OF run_snoc(3)] run_snoc(2) show ?case
    by (cases a) (auto simp: caps_snoc intro: bexI [of _ m] order_trans)
qed

text \<open>C11: The bulkhead never admits more than its capacity. In every run of enters, exits, cancellations and
  configuration changes the deliveries in flight are at most the capacity in force, which is at most the largest
  capacity configured so far (so resizing never adds capacities up), and the capacity wanted is the last one.\<close>

theorem slot_capacity_bounded:
  assumes "slot_run (new_slot (clamp_cap c)) acts s"
  shows "length (sl_holders s) \<le> sl_limit s \<and> sl_limit s \<le> Max (set (caps c acts)) \<and> sl_target s = last (caps c acts)"
proof -
  have "slot_inv s" using inv_run [OF assms slot_inv_new] by simp
  then have "length (sl_holders s) \<le> sl_limit s" by (simp add: slot_inv_def permits_def)
  with limit_within_caps [OF assms] show ?thesis by (auto intro: order_trans [OF _ Max_ge])
qed

lemmas slot_eval = slot_enter_def slot_exit_def slot_retarget_def slot_resume_def slot_unwind_def sem_release_def
  sem_wake_next_def sem_locked_def new_slot_def clamp_cap_def mark_cancelled_def is_woken_def

lemma slot_run_ConsI: "slot_step s a s1 \<Longrightarrow> slot_run s1 acts s2 \<Longrightarrow> slot_run s (a # acts) s2"
proof -
  assume "slot_step s a s1" and "slot_run s1 acts s2"
  from this(2) this(1) show ?thesis
    by (induction rule: slot_run.induct) (metis append_Nil run_nil run_snoc, metis append_Cons run_snoc)
qed

theorem slot_capacity_bounded_witness:
  "\<exists>s. slot_run (new_slot (clamp_cap 1)) [Enter 1, Enter 2, Retarget 2, Resume 2, Leave 1] s \<and> sl_holders s = [2] \<and>
     length (sl_holders s) \<le> sl_limit s \<and> sl_limit s \<le> Max (set (caps 1 [Enter 1, Enter 2, Retarget 2, Resume 2, Leave 1]))"
proof -
  let ?s = "slot_exit 1 (slot_resume 2 (slot_retarget 2 (slot_enter 2 (slot_enter 1 (new_slot (clamp_cap 1))))))"
  have run: "slot_run (new_slot (clamp_cap 1)) [Enter 1, Enter 2, Retarget 2, Resume 2, Leave 1] ?s"
    by (intro slot_run_ConsI [OF step_enter] slot_run_ConsI [OF step_retarget] slot_run_ConsI [OF step_resume]
        slot_run_ConsI [OF step_leave] run_nil) (simp_all add: slot_eval)
  moreover have "sl_holders ?s = [2]" by (simp add: slot_eval)
  ultimately show ?thesis using slot_capacity_bounded [OF run] by blast
qed

text \<open>A lowered capacity takes effect as deliveries finish: without further configuration changes every
  exit lowers the capacity in force by one until it is the one wanted, and never below it.\<close>

theorem slot_capacity_converges:
  assumes "slot_run s acts s'" and "sl_target s \<le> sl_limit s" and "\<forall>n. Retarget n \<notin> set acts"
  shows "sl_target s' = sl_target s \<and>
     sl_limit s' = max (sl_target s) (sl_limit s - length (filter (\<lambda>a. \<exists>i. a = Leave i) acts))"
  using assms
proof (induction rule: slot_run.induct)
  case (run_snoc s acts s1 a s2)
  then have IH: "sl_target s1 = sl_target s"
      "sl_limit s1 = max (sl_target s) (sl_limit s - length (filter (\<lambda>a. \<exists>i. a = Leave i) acts))" by auto
  have "sl_target s2 = sl_target s1"
    using limit_target_step(1) [OF run_snoc(2)] run_snoc.prems(2) by (cases a) auto
  moreover have "sl_limit s2 = (if \<exists>i. a = Leave i then max (sl_target s1) (sl_limit s1 - 1) else sl_limit s1)"
    using run_snoc(2) run_snoc.prems IH
    by (cases rule: slot_step.cases)
      (auto simp: slot_enter_def slot_resume_def slot_unwind_def slot_exit_def Let_def)
  ultimately show ?case using IH by (auto simp: max_def)
qed simp

theorem slot_capacity_converges_witness:
  "sl_limit (slot_exit 1 (slot_retarget 1 (slot_enter 1 (new_slot 2)))) = 1"
proof -
  let ?s = "slot_retarget 1 (slot_enter 1 (new_slot 2))"
  have "slot_run ?s [Leave 1] (slot_exit 1 ?s)"
    by (intro slot_run_ConsI [OF step_leave] run_nil) (simp add: slot_eval)
  from slot_capacity_converges [OF this] show ?thesis by (simp add: slot_eval)
qed

section \<open>Progress\<close>

text \<open>The steps that need nobody new: a resolved or cancelled waiter runs, a holder finishes.\<close>

definition is_drain :: "slot_act \<Rightarrow> bool" where
  "is_drain a \<longleftrightarrow> (case a of Resume _ \<Rightarrow> True | Unwind _ \<Rightarrow> True | Leave _ \<Rightarrow> True | _ \<Rightarrow> False)"

definition backlog :: "slot \<Rightarrow> nat" where
  "backlog s = 2 * length (sl_waiters s) + length (sl_holders s)"

lemma drain_decreases:
  assumes "slot_step s a s'" "is_drain a" "slot_inv s"
  shows "backlog s' < backlog s"
  using assms(1)
proof (cases rule: slot_step.cases)
  case (step_resume i)
  with length_delete [OF inv_keys [OF assms(3)] step_resume(3)] show ?thesis
    by (simp add: backlog_def slot_resume_def Let_def)
next
  case (step_unwind i w)
  with length_delete [OF inv_keys [OF assms(3)] step_unwind(3)] show ?thesis
    by (simp add: backlog_def slot_unwind_def Let_def)
next
  case (step_leave i)
  then have "length (remove1 i (sl_holders s)) < length (sl_holders s)"
    by (simp add: length_remove1) (metis diff_less length_pos_if_in_set zero_less_one One_nat_def)
  with step_leave show ?thesis by (simp add: backlog_def slot_exit_def Let_def)
qed (use assms(2) in \<open>simp_all add: is_drain_def\<close>)

lemma drain_enabled:
  assumes "slot_inv s" "0 < backlog s"
  shows "\<exists>a s'. is_drain a \<and> slot_step s a s'"
proof (cases "sl_holders s")
  case (Cons i hs)
  then have "slot_step s (Leave i) (slot_exit i s)" by (auto intro: step_leave)
  then show ?thesis by (intro exI [of _ "Leave i"] exI [of _ "slot_exit i s"]) (simp add: is_drain_def)
next
  case Nil
  then have "sl_waiters s \<noteq> []" using assms(2) by (auto simp: backlog_def)
  have "\<exists>i w. (i, w) \<in> set (sl_waiters s) \<and> w \<noteq> Waiting"
  proof (rule ccontr)
    assume no: "\<not> ?thesis"
    then have "cnt is_woken (sl_waiters s) = 0" by (force simp: cnt_def filter_empty_conv is_woken_def)
    moreover have "Waiting \<in> snd ` set (sl_waiters s)"
      using no \<open>sl_waiters s \<noteq> []\<close> by (metis hd_in_set image_eqI prod.collapse)
    ultimately show False using assms(1) Nil by (auto simp: slot_inv_def permits_def wakeups_ok_def)
  qed
  then obtain i w where "map_of (sl_waiters s) i = Some w" "w \<noteq> Waiting"
    using inv_keys [OF assms(1)] by (metis map_of_eq_Some_iff)
  then have "slot_step s (Resume i) (slot_resume i s) \<or> slot_step s (Unwind i) (slot_unwind i w s)"
    by (cases w) (auto intro: step_resume step_unwind)
  moreover have "is_drain (Resume i)" "is_drain (Unwind i)" by (simp_all add: is_drain_def)
  ultimately show ?thesis by blast
qed

text \<open>A waiter that is not cancelled stays queued until it is resumed.\<close>

definition waits :: "slot \<Rightarrow> nat \<Rightarrow> bool" where
  "waits s i \<longleftrightarrow> map_of (sl_waiters s) i = Some Waiting \<or> map_of (sl_waiters s) i = Some Woken"

lemma waits_wake_next: "waits s i \<Longrightarrow> waits (sem_wake_next s) i"
proof -
  have "wake_first ws = Some ws' \<Longrightarrow> map_of ws i = Some w \<Longrightarrow>
      map_of ws' i = Some w \<or> w = Waiting \<and> map_of ws' i = Some Woken" for ws ws' w
    by (induction ws arbitrary: ws' rule: wake_first.induct) (auto split: if_splits)
  then show "waits s i \<Longrightarrow> waits (sem_wake_next s) i"
    by (fastforce simp: waits_def sem_wake_next_def split: option.splits)
qed

lemma waits_release: "waits s i \<Longrightarrow> waits (sem_release s) i"
  by (auto simp: sem_release_def waits_def intro!: waits_wake_next [unfolded waits_def])

lemma waits_step:
  assumes "slot_step s a s'" "is_drain a" "waits s i" "a \<noteq> Resume i"
  shows "waits s' i"
  using assms(1)
proof (cases rule: slot_step.cases)
  case (step_resume j)
  then have "waits (s\<lparr>sl_waiters := AList.delete j (sl_waiters s), sl_holders := j # sl_holders s\<rparr>) i"
    using assms(3,4) by (auto simp: waits_def)
  with step_resume show ?thesis by (auto simp: slot_resume_def Let_def intro: waits_wake_next)
next
  case (step_unwind j w)
  then have "waits (s\<lparr>sl_waiters := AList.delete j (sl_waiters s)\<rparr>) i"
    using assms(3) by (cases "j = i") (auto simp: waits_def)
  with step_unwind waits_release show ?thesis by (auto simp: slot_unwind_def Let_def waits_def)
next
  case (step_leave j)
  have "waits (s\<lparr>sl_pending := n, sl_holders := hs\<rparr>) i" for n hs using assms(3) by (simp add: waits_def)
  with step_leave waits_release show ?thesis by (auto simp: slot_exit_def Let_def waits_def)
qed (use assms(2) in \<open>simp_all add: is_drain_def\<close>)

lemma drain_run:
  assumes "slot_run s acts s'" "slot_inv s" "list_all is_drain acts"
  shows "backlog s' + length acts \<le> backlog s \<and> (waits s i \<longrightarrow> Resume i \<in> set acts \<or> waits s' i)"
  using assms
proof (induction rule: slot_run.induct)
  case (run_snoc s acts s1 a s2)
  then have "slot_inv s1" "is_drain a" by (auto intro: inv_run)
  with drain_decreases [OF run_snoc(2)] waits_step [OF run_snoc(2), of i] run_snoc show ?case by auto
qed simp

text \<open>C39: No delivery waits forever. From every reachable state, once deliveries in flight finish and resolved
  waiters run, in any order, only boundedly many steps are possible, one is possible as long as anybody holds or
  waits, and when none is left every task that waited has been admitted.\<close>

theorem slot_waiters_served:
  assumes "slot_run (new_slot (clamp_cap c)) before s" and "slot_run s acts s'" and "list_all is_drain acts"
  shows "length acts \<le> 2 * length (sl_waiters s) + length (sl_holders s) \<and>
    ((\<exists>a s''. is_drain a \<and> slot_step s' a s'') \<or>
     (sl_holders s' = [] \<and> sl_waiters s' = [] \<and>
      (\<forall>i. map_of (sl_waiters s) i = Some Waiting \<longrightarrow> Resume i \<in> set acts)))"
proof -
  have inv: "slot_inv s" using inv_run [OF assms(1) slot_inv_new] by simp
  have "slot_inv s'" using inv_run [OF assms(2) inv] .
  then have "(\<exists>a s''. is_drain a \<and> slot_step s' a s'') \<or> backlog s' = 0" using drain_enabled by blast
  moreover have "\<not> waits s' i" if "backlog s' = 0" for i using that by (simp add: backlog_def waits_def)
  ultimately show ?thesis
    using drain_run [OF assms(2) inv assms(3)] by (fastforce simp: backlog_def waits_def)
qed

theorem slot_waiters_served_witness:
  "\<exists>s s'. slot_run (new_slot (clamp_cap 1)) [Enter 1, Enter 2] s \<and> slot_run s [Leave 1, Resume 2, Leave 2] s' \<and>
     map_of (sl_waiters s) 2 = Some Waiting \<and> (3::nat) \<le> 2 * length (sl_waiters s) + length (sl_holders s)"
proof -
  let ?s = "slot_enter 2 (slot_enter 1 (new_slot (clamp_cap 1)))"
  let ?s' = "slot_exit 2 (slot_resume 2 (slot_exit 1 ?s))"
  have a: "slot_run (new_slot (clamp_cap 1)) [Enter 1, Enter 2] ?s"
    by (intro slot_run_ConsI [OF step_enter] run_nil) (simp_all add: slot_eval)
  have b: "slot_run ?s [Leave 1, Resume 2, Leave 2] ?s'"
    by (intro slot_run_ConsI [OF step_leave] slot_run_ConsI [OF step_resume] run_nil) (simp_all add: slot_eval)
  have "map_of (sl_waiters ?s) 2 = Some Waiting" by (simp add: slot_eval)
  moreover have "(3::nat) \<le> 2 * length (sl_waiters ?s) + length (sl_holders ?s)"
    using slot_waiters_served [OF a b] by (simp add: is_drain_def)
  ultimately show ?thesis using a b by blast
qed

section \<open>Lowering with free permits\<close>

text \<open>The deliveries of the tasks of a list, one after the other.\<close>

definition enter_all :: "nat list \<Rightarrow> slot \<Rightarrow> slot" where
  "enter_all is s = fold slot_enter is s"

text \<open>Lowering the capacity does not withdraw the permits that are free at that moment. With one delivery
  in flight under a capacity of 8 that is lowered to 2, seven more are admitted at once; and when that one
  delivery finishes instead, the idle slot still has a capacity of 7, which \<open>get_semaphore\<close> with the new
  configuration does not correct, so again seven deliveries are admitted under a configured capacity of 2.\<close>

theorem slot_lowered_capacity_not_enforced:
  "let s = slot_retarget 2 (slot_enter 1 (new_slot 8));
       busy = enter_all [2, 3, 4, 5, 6, 7, 8] s;
       idle = slot_exit 1 s;
       later = fst (get_semaphore ''d'' 2 0 [(''d'', (idle, 0))])
   in sl_target busy = 2 \<and> length (sl_holders busy) = 8 \<and>
      sl_pending idle = 0 \<and> sl_limit later = 7 \<and>
      length (sl_holders (enter_all [2, 3, 4, 5, 6, 7, 8] later)) = 7"
  by code_simp

end
