(* ===== verification/Redis_Leases.thy ===== *)
theory Redis_Leases
  imports Py_Prelude "HOL-Library.AList"
begin

text \<open>
  The limits that all workers share through sorted sets of Redis: the concurrency lease of a destination
  (\<open>output/destination_limiter.py\<close>), the concurrency limit of a vendor's host (\<open>domain_limiter.py\<close>) and the
  sliding windows of the vendor's rate limit (\<open>rate_limit_redis.py\<close>). The three run one Lua script: drop the
  members that are too old, count the rest, add a member if there is room.

  Redis is a service outside the repository: the sorted-set commands are the record \<open>zredis\<close> and their documented
  effects the locale \<open>zset_laws\<close>. A script is atomic; a call that raises may or may not have run. Times are
  milliseconds, and the clock of the worker that calls is the clock of the server.
\<close>

section \<open>Sorted sets\<close>

record 's zredis =
  zr_remrange :: "nat \<Rightarrow> string \<Rightarrow> int \<Rightarrow> 's \<Rightarrow> 's"
  zr_card :: "nat \<Rightarrow> string \<Rightarrow> 's \<Rightarrow> nat"
  zr_add :: "nat \<Rightarrow> string \<Rightarrow> int \<Rightarrow> string \<Rightarrow> 's \<Rightarrow> 's"
  zr_pexpire :: "nat \<Rightarrow> string \<Rightarrow> nat \<Rightarrow> 's \<Rightarrow> 's"
  zr_rem :: "nat \<Rightarrow> string \<Rightarrow> string \<Rightarrow> 's \<Rightarrow> unit option \<times> 's"
  zr_eval :: "('s \<Rightarrow> bool \<times> 's) \<Rightarrow> 's \<Rightarrow> bool option \<times> 's"

text \<open>The script, with the arguments the callers pass: \<open>ZREMRANGEBYSCORE key 0 (now - lease)\<close>, \<open>ZCARD\<close>, and when
  the count is below the limit \<open>ZADD\<close> and \<open>PEXPIRE\<close>.\<close>

definition acquire_lua :: "'s zredis \<Rightarrow> nat \<Rightarrow> string \<Rightarrow> nat \<Rightarrow> int \<Rightarrow> string \<Rightarrow> 's \<Rightarrow> bool \<times> 's" where
  "acquire_lua zr now key lease limit token s =
     (let s1 = zr_remrange zr now key (int now - int lease) s in
      if int (zr_card zr now key s1) < limit
      then (True, zr_pexpire zr now key lease (zr_add zr now key (int now) token s1))
      else (False, s1))"

section \<open>The callers\<close>

text \<open>\<open>DestinationLimiter\<close>.\<close>

definition lease_ms :: nat where
  "lease_ms = 120000"

definition dest_key :: "string \<Rightarrow> string" where
  "dest_key destination_id = ''dest_concurrency:'' @ destination_id"

definition try_acquire_dest :: "'s zredis \<Rightarrow> nat \<Rightarrow> string \<Rightarrow> int \<Rightarrow> string \<Rightarrow> 's \<Rightarrow> bool option \<times> 's" where
  "try_acquire_dest zr now key limit token = zr_eval zr (acquire_lua zr now key lease_ms limit token)"

definition slot_limit :: "int \<Rightarrow> int" where
  "slot_limit concurrency = (if concurrency \<ge> 1 then concurrency else 1)"

text \<open>The polling loop: each element is what one attempt returned (\<open>None\<close>: it raised) and the monotonic clock
  read after it. \<open>None\<close> as a result: still polling when the observations end.\<close>

datatype slot_result = Held | Proceed_Unheld

fun dest_slot_loop :: "rat \<Rightarrow> (bool option \<times> rat) list \<Rightarrow> slot_result option" where
  "dest_slot_loop deadline [] = None"
| "dest_slot_loop deadline ((r, clk) # obs) =
     (case r of
        None \<Rightarrow> Some Proceed_Unheld
      | Some held \<Rightarrow>
          if held then Some Held
          else if clk \<ge> deadline then Some Proceed_Unheld
          else dest_slot_loop deadline obs)"

definition dest_release :: "'s zredis \<Rightarrow> nat \<Rightarrow> string \<Rightarrow> string \<Rightarrow> slot_result \<Rightarrow> 's \<Rightarrow> 's" where
  "dest_release zr now key token r s = (case r of Held \<Rightarrow> snd (zr_rem zr now key token s) | Proceed_Unheld \<Rightarrow> s)"

text \<open>\<open>DomainLimiter\<close>: the first vendor whose name is in the domain gives the limit; an attempt that raises and a
  saturated limit at the deadline are errors of the caller.\<close>

definition domain_lease_ms :: nat where
  "domain_lease_ms = 30000"

fun limit_for_domain :: "(string \<times> int) list \<Rightarrow> int \<Rightarrow> string \<Rightarrow> int" where
  "limit_for_domain [] dflt domain = dflt"
| "limit_for_domain ((vendor, limit) # ls) dflt domain =
     (if substr vendor domain then limit else limit_for_domain ls dflt domain)"

definition try_acquire_domain :: "'s zredis \<Rightarrow> nat \<Rightarrow> string \<Rightarrow> int \<Rightarrow> string \<Rightarrow> 's \<Rightarrow> bool option \<times> 's" where
  "try_acquire_domain zr now domain limit token =
     zr_eval zr (acquire_lua zr now (''domain_sem:'' @ domain) domain_lease_ms limit token)"

datatype domain_error = Redis_Error | Slot_Timeout

fun domain_slot_loop :: "rat \<Rightarrow> (bool option \<times> rat) list \<Rightarrow> (domain_error + unit) option" where
  "domain_slot_loop deadline [] = None"
| "domain_slot_loop deadline ((r, clk) # obs) =
     (case r of
        None \<Rightarrow> Some (Inl Redis_Error)
      | Some acquired \<Rightarrow>
          if acquired then Some (Inr ())
          else if clk \<ge> deadline then Some (Inl Slot_Timeout)
          else domain_slot_loop deadline obs)"

text \<open>\<open>RedisRateLimiter\<close>: the windows, one attempt over all of them (an attempt stops at the first window that is
  full) and the wait for a vendor that answered 429. Each window reads the clock and draws a token.\<close>

definition window_ms :: "string \<Rightarrow> nat option" where
  "window_ms = map_of [(''per_second'', 1000), (''per_minute'', 60000), (''per_hour'', 3600000), (''per_day'', 86400000)]"

definition rate_key :: "string \<Rightarrow> int \<Rightarrow> string \<Rightarrow> string" where
  "rate_key vendor tenant window = ''rl:'' @ vendor @ '':'' @ int_str tenant @ '':'' @ window"

fun rate_attempt ::
    "'s zredis \<Rightarrow> string \<Rightarrow> int \<Rightarrow> (string \<times> int) list \<Rightarrow> (nat \<times> string) list \<Rightarrow> 's \<Rightarrow> bool option \<times> 's" where
  "rate_attempt zr vendor tenant [] ticks s = (Some True, s)"
| "rate_attempt zr vendor tenant ((window, limit) # ls) ticks s =
     (case window_ms window of
        None \<Rightarrow> rate_attempt zr vendor tenant ls ticks s
      | Some win \<Rightarrow>
          if limit \<le> 0 then rate_attempt zr vendor tenant ls ticks s
          else case ticks of
            [] \<Rightarrow> (None, s)
          | (now, token) # ticks' \<Rightarrow>
              (case zr_eval zr (acquire_lua zr now (rate_key vendor tenant window) win limit token) s of
                 (Some True, s') \<Rightarrow> rate_attempt zr vendor tenant ls ticks' s'
               | r \<Rightarrow> r))"

datatype rate_error = Rate_Redis_Error | Rate_Deadline

fun rate_loop :: "rat \<Rightarrow> (bool option \<times> rat) list \<Rightarrow> (rate_error + unit) option" where
  "rate_loop deadline [] = None"
| "rate_loop deadline ((r, clk) # obs) =
     (case r of
        None \<Rightarrow> Some (Inl Rate_Redis_Error)
      | Some ok \<Rightarrow>
          if ok then Some (Inr ())
          else if clk \<ge> deadline then Some (Inl Rate_Deadline)
          else rate_loop deadline obs)"

definition backoff_ttl :: "int \<Rightarrow> int" where
  "backoff_ttl retry_after = max 1 retry_after"

definition backoff_sleep :: "int \<Rightarrow> rat \<Rightarrow> rat" where
  "backoff_sleep ttl max_wait = (if ttl > 0 then min (of_int ttl) max_wait else 0)"

section \<open>Many workers\<close>

text \<open>What any number of workers do, interleaved freely: attempts (with what the worker got back) and releases.\<close>

datatype lease_op =
    LTry nat string nat int string "bool option"
  | LRel nat string string

inductive lease_run :: "'s zredis \<Rightarrow> 's \<Rightarrow> lease_op list \<Rightarrow> nat \<times> 's \<Rightarrow> bool" for zr s0 where
  lr_nil: "lease_run zr s0 [] (0, s0)"
| lr_try: "lease_run zr s0 ops (now, s) \<Longrightarrow> now \<le> t \<Longrightarrow>
    zr_eval zr (acquire_lua zr t k lease limit tok) s = (r, s') \<Longrightarrow> lease_run zr s0 (ops @ [LTry t k lease limit tok r]) (t, s')"
| lr_rel: "lease_run zr s0 ops (now, s) \<Longrightarrow> now \<le> t \<Longrightarrow> zr_rem zr t k tok s = (u, s') \<Longrightarrow>
    lease_run zr s0 (ops @ [LRel t k tok]) (t, s')"

text \<open>The leases of a key that were granted and not given back, with the time of the grant.\<close>

fun lease_after :: "string \<Rightarrow> (string \<times> nat) list \<Rightarrow> lease_op \<Rightarrow> (string \<times> nat) list" where
  "lease_after key g (LTry t k _ _ tok r) = (if k = key \<and> r = Some True then (tok, t) # g else g)"
| "lease_after key g (LRel t k tok) = (if k = key then filter (\<lambda>x. fst x \<noteq> tok) g else g)"

definition leases :: "string \<Rightarrow> lease_op list \<Rightarrow> (string \<times> nat) list" where
  "leases key ops = foldl (lease_after key) [] ops"

text \<open>The attempts on a key use one lease time and one limit, and draw fresh tokens.\<close>

definition tokens_of :: "string \<Rightarrow> lease_op list \<Rightarrow> string list" where
  "tokens_of key ops = concat (map (\<lambda>op. case op of LTry _ k _ _ tok _ \<Rightarrow> (if k = key then [tok] else []) | LRel _ _ _ \<Rightarrow> []) ops)"

definition configured :: "string \<Rightarrow> nat \<Rightarrow> int \<Rightarrow> lease_op \<Rightarrow> bool" where
  "configured key lease limit op = (case op of LTry _ k le li _ _ \<Rightarrow> k = key \<longrightarrow> le = lease \<and> li = limit | LRel _ _ _ \<Rightarrow> True)"

section \<open>Laws\<close>

text \<open>\<open>zs s t k\<close> is the sorted set a read of \<open>k\<close> at time \<open>t\<close> sees if nothing runs in between: member to score.\<close>

locale zset_laws =
  fixes zr :: "'s zredis" and zs :: "'s \<Rightarrow> nat \<Rightarrow> string \<Rightarrow> string \<Rightarrow> int option"
  assumes finite_members: "finite (dom (zs s t k))"
    and expiry: "t \<le> t' \<Longrightarrow> zs s t' k = zs s t k \<or> zs s t' k = Map.empty"
    and remrange: "t \<le> t' \<Longrightarrow> zs (zr_remrange zr t k m s) t' k' =
        (if k' = k then (\<lambda>x. case zs s t' k x of None \<Rightarrow> None | Some sc \<Rightarrow> if 0 \<le> sc \<and> sc \<le> m then None else Some sc)
         else zs s t' k')"
    and card: "zr_card zr t k s = card (dom (zs s t k))"
    and add: "zs (zr_add zr t k sc x s) t k = (zs s t k)(x \<mapsto> sc)"
    and add_frame: "t \<le> t' \<Longrightarrow> k' \<noteq> k \<Longrightarrow> zs (zr_add zr t k sc x s) t' k' = zs s t' k'"
    and pexpire: "t \<le> t' \<Longrightarrow> zs (zr_pexpire zr t k ms s) t' k' =
        (if k' = k then (if t' < t + ms then zs s t k else Map.empty) else zs s t' k')"
    and rem_ok: "zr_rem zr t k x s = (Some u, s') \<Longrightarrow> t \<le> t' \<Longrightarrow>
        zs s' t' k' = (if k' = k then (zs s t' k)(x := None) else zs s t' k')"
    and rem_error: "zr_rem zr t k x s = (None, s') \<Longrightarrow> t \<le> t' \<Longrightarrow>
        zs s' t' k' = zs s t' k' \<or> k' = k \<and> zs s' t' k' = (zs s t' k)(x := None)"
    and eval_ok: "zr_eval zr f s = (Some r, s') \<Longrightarrow> \<exists>s0 s1. zs s0 = zs s \<and> f s0 = (r, s1) \<and> zs s' = zs s1"
    and eval_error: "zr_eval zr f s = (None, s') \<Longrightarrow> zs s' = zs s \<or> (\<exists>s0. zs s0 = zs s \<and> zs s' = zs (snd (f s0)))"
begin

text \<open>The sorted set after the script, at every later time.\<close>

definition fresh_part :: "'s \<Rightarrow> nat \<Rightarrow> nat \<Rightarrow> string \<Rightarrow> string \<Rightarrow> int option" where
  "fresh_part s now lease k = (\<lambda>x. case zs s now k x of None \<Rightarrow> None
      | Some sc \<Rightarrow> if 0 \<le> sc \<and> sc \<le> int now - int lease then None else Some sc)"

lemma acquire_granted:
  assumes "acquire_lua zr now key lease limit token s = (True, s')" and "now \<le> t"
  shows "zs s' t k = (if k = key then (if t < now + lease then (fresh_part s now lease key)(token \<mapsto> int now) else Map.empty)
                      else zs s t k)"
    and "int (card (dom (fresh_part s now lease key))) < limit"
  using assms
  by (auto simp: acquire_lua_def Let_def pexpire add add_frame remrange card fresh_part_def split: if_splits)

lemma acquire_denied:
  assumes "acquire_lua zr now key lease limit token s = (False, s')" and "now \<le> t"
  shows "zs s' t k = (if k = key then (\<lambda>x. case zs s t k x of None \<Rightarrow> None
            | Some sc \<Rightarrow> if 0 \<le> sc \<and> sc \<le> int now - int lease then None else Some sc) else zs s t k)"
    and "limit \<le> int (card (dom (fresh_part s now lease key)))"
  using assms by (auto simp: acquire_lua_def Let_def remrange card fresh_part_def split: if_splits)

text \<open>A grant stays visible until its lease ends, and the members that are not too old are within the limit.\<close>

definition lease_inv :: "string \<Rightarrow> nat \<Rightarrow> int \<Rightarrow> (string \<times> nat) list \<Rightarrow> nat \<times> 's \<Rightarrow> bool" where
  "lease_inv key lease limit g st \<longleftrightarrow>
     (\<forall>(tok, \<tau>)\<in>set g. \<tau> \<le> fst st \<and> (\<forall>t\<ge>fst st. t < \<tau> + lease \<longrightarrow> zs (snd st) t key tok = Some (int \<tau>))) \<and>
     (\<forall>t\<ge>fst st. int (card {x. \<exists>sc. zs (snd st) t key x = Some sc \<and> int t - int lease < sc}) \<le> max 0 limit)"

lemma card_live_mono:
  assumes "\<And>x sc. m x = Some sc \<Longrightarrow> b < sc \<Longrightarrow> zs s t key x = Some sc \<and> a < sc"
  shows "card {x. \<exists>sc. m x = Some sc \<and> b < sc} \<le> card {x. \<exists>sc. zs s t key x = Some sc \<and> a < sc}"
proof (rule card_mono)
  show "finite {x. \<exists>sc. zs s t key x = Some sc \<and> a < sc}"
    by (rule finite_subset [OF _ finite_members [of s t key]]) auto
qed (use assms in blast)

lemma inv_unchanged:
  assumes "lease_inv key lease limit g (now, s)" "now \<le> t" "\<And>t'. t \<le> t' \<Longrightarrow> zs s' t' key = zs s t' key"
  shows "lease_inv key lease limit g (t, s')"
  using assms by (fastforce simp: lease_inv_def)

lemma inv_granted:
  assumes inv: "lease_inv key lease limit g (now, s)" and now: "now \<le> t" and fresh: "tok \<notin> fst ` set g"
    and run: "acquire_lua zr t key lease limit tok s = (True, s')"
  shows "lease_inv key lease limit ((tok, t) # g) (t, s')" "lease_inv key lease limit g (t, s')"
proof -
  note new = acquire_granted(1) [OF run, where k = key, simplified]
  have old: "zs s' t' key tok' = Some (int \<tau>)" if "(tok', \<tau>) \<in> set g" "t \<le> t'" "t' < \<tau> + lease" for tok' \<tau> t'
  proof -
    have "\<tau> \<le> now" "zs s t key tok' = Some (int \<tau>)" using inv that now by (auto simp: lease_inv_def)
    moreover have "tok' \<noteq> tok" using fresh that(1) by (auto intro: rev_image_eqI)
    ultimately show ?thesis using new [OF that(2)] that now by (auto simp: fresh_part_def)
  qed
  have card: "int (card {x. \<exists>sc. zs s' t' key x = Some sc \<and> int t' - int lease < sc}) \<le> max 0 limit" if "t \<le> t'" for t'
  proof -
    have "{x. \<exists>sc. zs s' t' key x = Some sc \<and> int t' - int lease < sc} \<subseteq> insert tok (dom (fresh_part s t lease key))"
      using new [OF that] by (auto split: if_splits)
    moreover have fin: "finite (dom (fresh_part s t lease key))"
      by (rule finite_subset [OF _ finite_members [of s t key]]) (auto simp: fresh_part_def split: option.splits)
    ultimately have "card {x. \<exists>sc. zs s' t' key x = Some sc \<and> int t' - int lease < sc} \<le> card (insert tok (dom (fresh_part s t lease key)))"
      by (intro card_mono) auto
    also have "\<dots> \<le> Suc (card (dom (fresh_part s t lease key)))" using fin by (simp add: card_insert_if)
    finally show ?thesis using acquire_granted(2) [OF run order.refl] by linarith
  qed
  have "zs s' t' key tok = Some (int t)" if "t \<le> t'" "t' < t + lease" for t' using new [OF that(1)] that(2) by simp
  then show "lease_inv key lease limit ((tok, t) # g) (t, s')" "lease_inv key lease limit g (t, s')"
    using old card inv now by (auto simp: lease_inv_def)
qed

lemma inv_denied:
  assumes inv: "lease_inv key lease limit g (now, s)" and now: "now \<le> t"
    and run: "acquire_lua zr t key lease limit tok s = (False, s')"
  shows "lease_inv key lease limit g (t, s')"
proof -
  note new = acquire_denied(1) [OF run, where k = key, simplified]
  have "zs s' t' key tok' = Some (int \<tau>)" if "(tok', \<tau>) \<in> set g" "t \<le> t'" "t' < \<tau> + lease" for tok' \<tau> t'
    using inv that now new [OF that(2)] by (auto simp: lease_inv_def)
  moreover have "int (card {x. \<exists>sc. zs s' t' key x = Some sc \<and> int t' - int lease < sc}) \<le> max 0 limit" if "t \<le> t'" for t'
  proof -
    have "card {x. \<exists>sc. zs s' t' key x = Some sc \<and> int t' - int lease < sc} \<le>
        card {x. \<exists>sc. zs s t' key x = Some sc \<and> int t' - int lease < sc}"
      by (rule card_live_mono) (use new [OF that] in \<open>auto split: option.splits if_splits\<close>)
    also have "int \<dots> \<le> max 0 limit" using inv that now by (simp add: lease_inv_def)
    finally show ?thesis by simp
  qed
  ultimately show ?thesis using inv now by (auto simp: lease_inv_def)
qed

lemma lease_inv_cong: "zs s = zs s' \<Longrightarrow> lease_inv key lease limit g (t, s) = lease_inv key lease limit g (t, s')"
  by (simp add: lease_inv_def)

lemma inv_script:
  assumes "lease_inv key lease limit g (now, s)" "now \<le> t" "tok \<notin> fst ` set g"
    and "acquire_lua zr t key lease limit tok s = (b, s')"
  shows "lease_inv key lease limit (if b then (tok, t) # g else g) (t, s')" "lease_inv key lease limit g (t, s')"
  using assms inv_granted [OF assms(1-3)] inv_denied [OF assms(1-2)] by (cases b; simp)+

lemma script_frame:
  assumes "acquire_lua zr t k lease limit tok s = (b, s')" "t \<le> t'" "k' \<noteq> k"
  shows "zs s' t' k' = zs s t' k'"
  using assms acquire_granted(1) [of t k lease limit tok s s' t' k'] acquire_denied(1) [of t k lease limit tok s s' t' k']
  by (cases b) auto

lemma inv_try:
  assumes inv: "lease_inv key lease limit g (now, s)" and now: "now \<le> t"
    and ev: "zr_eval zr (acquire_lua zr t k le li tok) s = (r, s')"
    and ok: "k = key \<longrightarrow> le = lease \<and> li = limit \<and> tok \<notin> fst ` set g"
  shows "lease_inv key lease limit (lease_after key g (LTry t k le li tok r)) (t, s')"
proof -
  have "lease_inv key lease limit (if k = key \<and> b then (tok, t) # g else g) (t, s1) \<and> lease_inv key lease limit g (t, s1)"
    if "zs s0 = zs s" "acquire_lua zr t k le li tok s0 = (b, s1)" for s0 b s1
  proof -
    have inv0: "lease_inv key lease limit g (now, s0)" using inv lease_inv_cong [OF that(1)] by simp
    show ?thesis
    proof (cases "k = key")
      case True
      then show ?thesis using inv_script [OF inv0 now, of tok b s1] ok that(2) by auto
    next
      case False
      then show ?thesis using inv_unchanged [OF inv0 now] script_frame [OF that(2)] by auto
    qed
  qed
  note script = this
  have same: "lease_inv key lease limit g (t, s')" if "zs s' = zs s"
    using inv_unchanged [OF inv now] that by simp
  show ?thesis
  proof (cases r)
    case None
    with eval_error [of "acquire_lua zr t k le li tok" s s'] ev
    consider "zs s' = zs s" | s0 where "zs s0 = zs s" "zs s' = zs (snd (acquire_lua zr t k le li tok s0))" by auto
    then have "lease_inv key lease limit g (t, s')"
    proof cases
      case (2 s0)
      then show ?thesis using script [OF 2(1) prod.collapse [symmetric]] lease_inv_cong [OF 2(2)] by blast
    qed (rule same)
    with None show ?thesis by simp
  next
    case (Some b)
    with eval_ok [of "acquire_lua zr t k le li tok" s b s'] ev obtain s0 s1
      where "zs s0 = zs s" "acquire_lua zr t k le li tok s0 = (b, s1)" "zs s' = zs s1" by auto
    with script [of s0 b s1] lease_inv_cong [of s' s1] Some show ?thesis by auto
  qed
qed

lemma inv_rel:
  assumes inv: "lease_inv key lease limit g (now, s)" and now: "now \<le> t" and rel: "zr_rem zr t k tok s = (u, s')"
  shows "lease_inv key lease limit (lease_after key g (LRel t k tok)) (t, s')"
proof -
  have eff: "zs s' t' key = zs s t' key \<or> k = key \<and> zs s' t' key = (zs s t' key)(tok := None)" if "t \<le> t'" for t'
    using rel rem_ok [of t k tok s _ s' t' key] rem_error [of t k tok s s' t' key] that by (cases u) (auto split: if_splits)
  have "zs s' t' key x = Some (int \<tau>)"
    if "(x, \<tau>) \<in> set (lease_after key g (LRel t k tok))" "t \<le> t'" "t' < \<tau> + lease" for x \<tau> t'
    using that inv now eff [OF that(2)] by (auto simp: lease_inv_def split: if_splits)
  moreover have "int (card {x. \<exists>sc. zs s' t' key x = Some sc \<and> int t' - int lease < sc}) \<le> max 0 limit" if "t \<le> t'" for t'
  proof -
    have "card {x. \<exists>sc. zs s' t' key x = Some sc \<and> int t' - int lease < sc} \<le>
        card {x. \<exists>sc. zs s t' key x = Some sc \<and> int t' - int lease < sc}"
      by (rule card_live_mono) (use eff [OF that] in \<open>auto split: if_splits\<close>)
    also have "int \<dots> \<le> max 0 limit" using inv that now by (simp add: lease_inv_def)
    finally show ?thesis by simp
  qed
  ultimately show ?thesis using inv now by (fastforce simp: lease_inv_def split: if_splits)
qed

lemma leases_snoc: "leases key (ops @ [op]) = lease_after key (leases key ops) op"
  by (simp add: leases_def)

lemma tokens_snoc: "tokens_of key (ops @ [op]) = tokens_of key ops @ (case op of LTry _ k _ _ tok _ \<Rightarrow> (if k = key then [tok] else []) | LRel _ _ _ \<Rightarrow> [])"
  by (simp add: tokens_of_def)

lemma leases_tokens: "fst ` set (leases key ops) \<subseteq> set (tokens_of key ops) \<and>
    (distinct (tokens_of key ops) \<longrightarrow> distinct (map fst (leases key ops)))"
proof (induction ops rule: rev_induct)
  case (snoc op ops)
  then show ?case
    by (cases op) (auto simp: leases_snoc tokens_snoc distinct_map_filter)
qed (simp add: leases_def tokens_of_def)

lemma run_inv:
  assumes "lease_run zr s0 ops st" "\<And>t. zs s0 t key = Map.empty"
    and "list_all (configured key lease limit) ops" "distinct (tokens_of key ops)"
  shows "lease_inv key lease limit (leases key ops) st"
  using assms(1,3,4)
proof (induction rule: lease_run.induct)
  case lr_nil
  then show ?case by (simp add: lease_inv_def leases_def assms(2))
next
  case (lr_try ops now s t k le li tok r s')
  then have "lease_inv key lease limit (leases key ops) (now, s)" by (simp add: tokens_snoc)
  moreover have "k = key \<longrightarrow> le = lease \<and> li = limit \<and> tok \<notin> fst ` set (leases key ops)"
    using lr_try.prems leases_tokens [of key ops] by (auto simp: configured_def tokens_snoc)
  ultimately show ?case using inv_try [OF _ lr_try(2,3)] by (simp add: leases_snoc)
next
  case (lr_rel ops now s t k tok u s')
  then have "lease_inv key lease limit (leases key ops) (now, s)" by (simp add: tokens_snoc)
  then show ?case using inv_rel [OF _ lr_rel(2,3)] by (simp add: leases_snoc)
qed

lemma live_leases_bound:
  assumes "lease_run zr s0 ops (now, s)" "\<And>t. zs s0 t key = Map.empty"
    and "list_all (configured key lease limit) ops" "distinct (tokens_of key ops)" "now \<le> t"
  shows "int (length (filter (\<lambda>(tok, \<tau>). t < \<tau> + lease) (leases key ops))) \<le> max 0 limit"
proof -
  let ?live = "filter (\<lambda>(tok, \<tau>). t < \<tau> + lease) (leases key ops)"
  have inv: "lease_inv key lease limit (leases key ops) (now, s)" by (rule run_inv [OF assms(1-4)])
  have "distinct (map fst ?live)" using leases_tokens [of key ops] assms(4) by (simp add: distinct_map_filter)
  then have "length ?live = card (fst ` set ?live)" by (metis distinct_card length_map set_map)
  also have "\<dots> \<le> card {x. \<exists>sc. zs s t key x = Some sc \<and> int t - int lease < sc}"
  proof (rule card_mono)
    show "finite {x. \<exists>sc. zs s t key x = Some sc \<and> int t - int lease < sc}"
      by (rule finite_subset [OF _ finite_members [of s t key]]) auto
    show "fst ` set ?live \<subseteq> {x. \<exists>sc. zs s t key x = Some sc \<and> int t - int lease < sc}"
      using inv assms(5) by (fastforce simp: lease_inv_def)
  qed
  also have "int \<dots> \<le> max 0 limit" using inv assms(5) by (simp add: lease_inv_def)
  finally show ?thesis by simp
qed

end

section \<open>A store with faults\<close>

text \<open>Sorted sets as association lists with an expiry, and for each upcoming call whether it fails before it runs.\<close>

record zstore =
  zst_sets :: "string \<Rightarrow> (string \<times> int) list \<times> nat option"
  zst_faults :: "bool list"

definition zst_empty :: zstore where
  "zst_empty = \<lparr>zst_sets = (\<lambda>_. ([], None)), zst_faults = []\<rparr>"

definition zst_alive :: "zstore \<Rightarrow> nat \<Rightarrow> string \<Rightarrow> (string \<times> int) list" where
  "zst_alive s t k = (case zst_sets s k of (xs, None) \<Rightarrow> xs | (xs, Some e) \<Rightarrow> if t < e then xs else [])"

definition zst_view :: "zstore \<Rightarrow> nat \<Rightarrow> string \<Rightarrow> string \<Rightarrow> int option" where
  "zst_view s t k = map_of (zst_alive s t k)"

definition zst_put :: "string \<Rightarrow> (string \<times> int) list \<times> nat option \<Rightarrow> zstore \<Rightarrow> zstore" where
  "zst_put k v s = s\<lparr>zst_sets := (zst_sets s)(k := v)\<rparr>"

definition zst_call :: "(zstore \<Rightarrow> 'a \<times> zstore) \<Rightarrow> zstore \<Rightarrow> 'a option \<times> zstore" where
  "zst_call f s = (case zst_faults s of
      [] \<Rightarrow> (case f s of (r, s') \<Rightarrow> (Some r, s'))
    | b # bs \<Rightarrow> if b then (None, s\<lparr>zst_faults := bs\<rparr>)
                else (case f (s\<lparr>zst_faults := bs\<rparr>) of (r, s') \<Rightarrow> (Some r, s')))"

definition zset_redis :: "zstore zredis" where
  "zset_redis = \<lparr>
     zr_remrange = (\<lambda>t k m s. zst_put k (filter (\<lambda>x. \<not> (0 \<le> snd x \<and> snd x \<le> m)) (AList.clearjunk (fst (zst_sets s k))),
        snd (zst_sets s k)) s),
     zr_card = (\<lambda>t k s. length (AList.clearjunk (zst_alive s t k))),
     zr_add = (\<lambda>t k sc x s. zst_put k (AList.update x sc (zst_alive s t k),
        (if zst_alive s t k = [] then None else snd (zst_sets s k))) s),
     zr_pexpire = (\<lambda>t k ms s. zst_put k (zst_alive s t k, Some (t + ms)) s),
     zr_rem = (\<lambda>t k x. zst_call (\<lambda>s. ((), zst_put k (AList.delete x (fst (zst_sets s k)), snd (zst_sets s k)) s))),
     zr_eval = zst_call\<rparr>"

lemma zst_sets_put [simp]: "zst_sets (zst_put k v s) = (zst_sets s)(k := v)"
  by (simp add: zst_put_def)

lemma zst_alive_put: "zst_alive (zst_put k (xs, e) s) t k' =
    (if k' = k then (case e of None \<Rightarrow> xs | Some d \<Rightarrow> if t < d then xs else []) else zst_alive s t k')"
  by (simp add: zst_alive_def zst_put_def split: option.splits)

lemma zst_view_faults [simp]: "zst_view (s\<lparr>zst_faults := fs\<rparr>) = zst_view s"
  by (simp add: zst_view_def zst_alive_def fun_eq_iff)

lemma zst_call_Some: "zst_call f s = (Some r, s') \<Longrightarrow> \<exists>s0. zst_view s0 = zst_view s \<and> zst_sets s0 = zst_sets s \<and> f s0 = (r, s')"
  by (auto simp: zst_call_def split: list.splits prod.splits if_splits intro: exI [of _ "s\<lparr>zst_faults := _\<rparr>"])

lemma zst_call_None: "zst_call f s = (None, s') \<Longrightarrow> zst_view s' = zst_view s"
  by (auto simp: zst_call_def split: list.splits prod.splits if_splits)

lemma map_of_filter_snd:
  "distinct (map fst xs) \<Longrightarrow> map_of (filter (\<lambda>x. P (snd x)) xs) k =
     (case map_of xs k of None \<Rightarrow> None | Some v \<Rightarrow> if P v then Some v else None)"
proof (induction xs)
  case (Cons x xs)
  then have "map_of xs (fst x) = None" by (auto simp: map_of_eq_None_iff)
  with Cons show ?case by (cases x) (auto split: option.splits)
qed simp

lemma card_dom_alist: "length (AList.clearjunk xs) = card (dom (map_of xs))"
  by (metis AList.distinct_clearjunk AList.map_of_clearjunk distinct_card dom_map_of_conv_image_fst length_map set_map)

interpretation zst: zset_laws zset_redis zst_view
proof (unfold_locales, goal_cases)
  case (1 s t k)
  then show ?case by (simp add: zst_view_def finite_dom_map_of)
next
  case (2 t t' s k)
  then show ?case by (auto simp: zst_view_def zst_alive_def split: prod.splits option.splits)
next
  case (3 t t' k m s k')
  let ?P = "\<lambda>v. \<not> (0 \<le> v \<and> v \<le> m)"
  have "map_of (filter (\<lambda>x. ?P (snd x)) (AList.clearjunk xs)) =
      (\<lambda>y. case map_of xs y of None \<Rightarrow> None | Some v \<Rightarrow> if 0 \<le> v \<and> v \<le> m then None else Some v)" for xs :: "(string \<times> int) list"
    using map_of_filter_snd [OF AList.distinct_clearjunk, of ?P xs]
    by (auto simp: fun_eq_iff AList.map_of_clearjunk split: option.splits)
  note flt = this
  obtain xs e where xs: "zst_sets s k = (xs, e)" by fastforce
  show ?case
  proof (cases "k' = k")
    case True
    then show ?thesis using flt [of xs]
      by (cases e) (simp_all add: zst_view_def zset_redis_def zst_put_def zst_alive_def xs)
  qed (simp add: zst_view_def zset_redis_def zst_alive_put)
next
  case (4 t k s)
  then show ?case by (simp add: zset_redis_def zst_view_def card_dom_alist)
next
  case (5 t k sc x s)
  then show ?case
    by (auto simp: zset_redis_def zst_view_def zst_alive_put AList.update_conv' zst_alive_def split: option.splits prod.splits)
next
  case (6 t t' k' k sc x s)
  then show ?case by (simp add: zset_redis_def zst_view_def zst_alive_put)
next
  case (7 t t' k ms s k')
  then show ?case by (auto simp: zset_redis_def zst_view_def zst_alive_put)
next
  case (8 t k x s u s' t' k')
  then obtain s0 where s0: "zst_view s0 = zst_view s" "zst_sets s0 = zst_sets s"
      "s' = zst_put k (AList.delete x (fst (zst_sets s0 k)), snd (zst_sets s0 k)) s0"
    by (auto simp: zset_redis_def dest!: zst_call_Some)
  have "zst_view s' t' k' = (if k' = k then (zst_view s0 t' k)(x := None) else zst_view s0 t' k')"
    unfolding s0(3)
    by (auto simp: zst_view_def zst_alive_put AList.delete_conv' zst_alive_def split: option.splits prod.splits)
  then show ?case by (simp add: s0(1))
next
  case (9 t k x s s' t' k')
  then show ?case by (auto simp: zset_redis_def dest!: zst_call_None)
next
  case (10 f s r s')
  then show ?case by (auto simp: zset_redis_def dest!: zst_call_Some)
next
  case (11 f s s')
  then show ?case by (auto simp: zset_redis_def dest!: zst_call_None)
qed

section \<open>Properties\<close>

lemmas zst_eval = zset_redis_def zst_call_def zst_put_def zst_alive_def zst_empty_def acquire_lua_def


definition demo_ops :: "lease_op list" where
  "demo_ops = [LTry 10 (dest_key ''d'') lease_ms (slot_limit 1) ''a'' (Some True),
     LTry 20 (dest_key ''d'') lease_ms (slot_limit 1) ''b'' (Some False)]"

lemma demo_run: "\<exists>s. lease_run zset_redis zst_empty demo_ops (20, s)"
proof -
  let ?f = "\<lambda>t tok. acquire_lua zset_redis t (dest_key ''d'') lease_ms (slot_limit 1) tok"
  let ?s1 = "snd (?f 10 ''a'' zst_empty)"
  have "zr_eval zset_redis (?f 10 ''a'') zst_empty = (Some True, ?s1)"
    by (simp add: zst_eval slot_limit_def AList.clearjunk.simps)
  from lr_try [OF lr_nil _ this] have 1: "lease_run zset_redis zst_empty (take 1 demo_ops) (10, ?s1)" by (simp add: demo_ops_def)
  have "zr_eval zset_redis (?f 20 ''b'') ?s1 = (Some False, snd (?f 20 ''b'' ?s1))"
    by (simp add: zst_eval slot_limit_def lease_ms_def)
  from lr_try [OF 1 _ this] show ?thesis by (auto simp: demo_ops_def)
qed


text \<open>The times at which requests were admitted under a key.\<close>

definition admissions :: "string \<Rightarrow> lease_op list \<Rightarrow> nat list" where
  "admissions key ops = concat (map (\<lambda>op. case op of
      LTry t k _ _ _ r \<Rightarrow> if k = key \<and> r = Some True then [t] else [] | LRel _ _ _ \<Rightarrow> []) ops)"

lemma leases_admissions:
  "(\<forall>t tok. LRel t key tok \<notin> set ops) \<Longrightarrow> map snd (leases key ops) = rev (admissions key ops)"
proof (induction ops rule: rev_induct)
  case (snoc op ops)
  then show ?case by (cases op) (auto simp: leases_def admissions_def)
qed (simp add: leases_def admissions_def)

text \<open>The sliding window of a vendor's rate limit holds for all workers of a tenant together: in every
  interval of the length of the window at most the limit of requests has been admitted.\<close>

theorem rate_window_bound:
  assumes "zset_laws zr zs" and "lease_run zr s0 ops (now, s)" and "\<And>t. zs s0 t (rate_key vendor tenant window) = Map.empty"
    and "window_ms window = Some win" and "0 < limit"
    and "list_all (configured (rate_key vendor tenant window) win limit) ops"
    and "distinct (tokens_of (rate_key vendor tenant window) ops)"
    and "\<forall>t tok. LRel t (rate_key vendor tenant window) tok \<notin> set ops" and "now \<le> t"
  shows "int (length (filter (\<lambda>\<tau>. t < \<tau> + win) (admissions (rate_key vendor tenant window) ops))) \<le> limit"
proof -
  let ?k = "rate_key vendor tenant window"
  have "length (filter (\<lambda>\<tau>. t < \<tau> + win) (admissions ?k ops)) = length (filter (\<lambda>\<tau>. t < \<tau> + win) (map snd (leases ?k ops)))"
    by (simp add: leases_admissions [OF assms(8)] rev_filter [symmetric])
  also have "\<dots> = length (filter (\<lambda>(tok, \<tau>). t < \<tau> + win) (leases ?k ops))"
    by (simp add: filter_map comp_def case_prod_unfold)
  finally show ?thesis
    using zset_laws.live_leases_bound [OF assms(1,2,3,6,7,9)] assms(5) by simp
qed

definition demo_rate_ops :: "lease_op list" where
  "demo_rate_ops = [LTry 10 (rate_key ''okta'' 4 ''per_second'') 1000 1 ''a'' (Some True)]"

theorem rate_window_bound_witness:
  "int (length (filter (\<lambda>\<tau>. 30 < \<tau> + 1000) (admissions (rate_key ''okta'' 4 ''per_second'') demo_rate_ops))) \<le> 1 \<and>
   admissions (rate_key ''okta'' 4 ''per_second'') demo_rate_ops = [10]"
proof -
  let ?f = "acquire_lua zset_redis 10 (rate_key ''okta'' 4 ''per_second'') 1000 1 ''a''"
  have "zr_eval zset_redis ?f zst_empty = (Some True, snd (?f zst_empty))" by (simp add: zst_eval)
  from lr_try [OF lr_nil _ this] have run: "lease_run zset_redis zst_empty demo_rate_ops (10, snd (?f zst_empty))"
    by (simp add: demo_rate_ops_def)
  have "int (length (filter (\<lambda>\<tau>. 30 < \<tau> + 1000) (admissions (rate_key ''okta'' 4 ''per_second'') demo_rate_ops))) \<le> 1"
    by (rule rate_window_bound [OF zst.zset_laws_axioms run])
      (simp_all add: zst_view_def zst_alive_def zst_empty_def demo_rate_ops_def configured_def tokens_of_def window_ms_def)
  then show ?thesis by (simp add: admissions_def demo_rate_ops_def)
qed

text \<open>One attempt per poll: between two attempts the worker sleeps, so the clock read after the attempt with
  index \<open>i\<close> is at least \<open>i\<close> pauses after the start.\<close>

definition polls :: "rat \<Rightarrow> rat \<Rightarrow> (bool option \<times> rat) list \<Rightarrow> bool" where
  "polls start pause obs \<longleftrightarrow> (\<forall>i<length obs. start + of_nat i * pause \<le> snd (obs ! i))"

lemma polls_ConsD: "polls start pause (o1 # obs) \<Longrightarrow> polls (start + pause) pause obs"
  unfolding polls_def by (intro allI impI) (drule_tac x = "Suc i" in spec, simp add: algebra_simps)

lemma loops_end:
  assumes "polls start pause obs" "0 < pause" "wait \<le> of_nat n * pause" "n < length obs"
  shows "(\<exists>r. dest_slot_loop (start + wait) obs = Some r) \<and> (\<exists>r. domain_slot_loop (start + wait) obs = Some r) \<and>
    (\<exists>r. rate_loop (start + wait) obs = Some r)"
  using assms
proof (induction obs arbitrary: start wait n)
  case (Cons o1 obs)
  obtain r c where o1: "o1 = (r, c)" by fastforce
  show ?case
  proof (cases "r = Some False \<and> c < start + wait")
    case True
    have "start \<le> c" using Cons.prems(1) o1 by (auto simp: polls_def)
    with True Cons.prems(3) have "n \<noteq> 0" by (cases n) auto
    then obtain m where n: "n = Suc m" by (cases n) auto
    have "wait - pause \<le> of_nat m * pause" using Cons.prems(3) n by (simp add: algebra_simps)
    with Cons.IH [OF polls_ConsD [OF Cons.prems(1)] Cons.prems(2), of "wait - pause" m] Cons.prems(4) n True o1
    show ?thesis by simp
  qed (use o1 in \<open>auto split: option.splits\<close>)
qed simp

text \<open>C40: Every wait for a slot ends. With the pauses of the code (a tenth of a second for a destination, a fifth
  for a domain and for the rate limit) the three polling loops return within the number of attempts that fit in the
  maximal wait plus one; the one of a destination always lets the delivery go on, holding the lease or not.\<close>

theorem slot_loops_terminate:
  assumes "polls start (1/10) dest_obs" and "max_wait * 10 + 1 \<le> of_nat (length dest_obs)"
    and "polls start (1/5) dom_obs" and "max_wait * 5 + 1 \<le> of_nat (length dom_obs)" and "0 \<le> max_wait"
  shows "(dest_slot_loop (start + max_wait) dest_obs = Some Held \<or> dest_slot_loop (start + max_wait) dest_obs = Some Proceed_Unheld) \<and>
    (\<exists>r. domain_slot_loop (start + max_wait) dom_obs = Some r) \<and> (\<exists>r. rate_loop (start + max_wait) dom_obs = Some r)"
proof -
  have attempts: "max_wait \<le> of_nat (length obs - 1) * (1 / q) \<and> length obs - 1 < length obs"
    if "max_wait * q + 1 \<le> of_nat (length obs)" "0 < q" for q :: rat and obs :: "(bool option \<times> rat) list"
  proof -
    have "(0 :: rat) < of_nat (length obs)" using that mult_nonneg_nonneg [of max_wait q] assms(5) by linarith
    then have "obs \<noteq> []" by auto
    then have "of_nat (length obs - 1) = (of_nat (length obs) - 1 :: rat)" by (simp add: of_nat_diff Suc_leI)
    with that \<open>obs \<noteq> []\<close> show ?thesis by (simp add: pos_le_divide_eq)
  qed
  have "\<exists>r. dest_slot_loop (start + max_wait) dest_obs = Some r"
    using loops_end [OF assms(1) _ attempts [of 10 dest_obs, THEN conjunct1]] attempts [of 10 dest_obs] assms(2) by simp
  then have "dest_slot_loop (start + max_wait) dest_obs = Some Held \<or> dest_slot_loop (start + max_wait) dest_obs = Some Proceed_Unheld"
    by (metis slot_result.exhaust)
  then show ?thesis
    using loops_end [OF assms(3) _ attempts [of 5 dom_obs, THEN conjunct1]] attempts [of 5 dom_obs] assms(4) by simp
qed

theorem slot_loops_terminate_witness:
  "dest_slot_loop (0 + 0) [(Some False, 0)] = Some Proceed_Unheld \<and> domain_slot_loop (0 + 0) [(Some False, 0)] = Some (Inl Slot_Timeout)"
  using slot_loops_terminate [of 0 "[(Some False, 0)]" 0 "[(Some False, 0)]"] by (simp add: polls_def)

text \<open>An attempt that a later window denies has already consumed the budget of the windows before it. With
  two requests per hour and one per second, a request admitted at time 0 and a denied attempt 200 ms later use up
  the hour: the attempt at 1200 ms is denied although one request was made.\<close>

theorem rate_denied_attempt_consumes:
  "let lim = [(''per_hour'', 2), (''per_second'', 1)];
       (r1, s1) = rate_attempt zset_redis ''v'' 1 lim [(0, ''a''), (0, ''b'')] zst_empty;
       (r2, s2) = rate_attempt zset_redis ''v'' 1 lim [(200, ''c''), (200, ''d'')] s1;
       (r3, s3) = rate_attempt zset_redis ''v'' 1 lim [(1200, ''e''), (1200, ''f'')] s2
   in r1 = Some True \<and> r2 = Some False \<and> r3 = Some False"
  by (simp add: Let_def window_ms_def zst_eval rate_key_def)

end
