(* ===== verification/Ingest_Buffer.thy ===== *)
theory Ingest_Buffer
  imports Py_Json
begin

text \<open>
  The buffer of pushed events (\<open>ingest_buffer.py\<close>): a capped Redis list per integration and stream, filled by the
  ingest endpoint and the syslog server and drained by the push collector. The list commands of Redis are the record
  \<open>lredis\<close>, a parameter with the locale \<open>list_laws\<close>. A pipeline is atomic. A pop answers with the elements, is
  refused because the server knows no count (\<open>TypeError\<close>), or raises.
\<close>

section \<open>List commands\<close>

datatype rpop_result = Popped "string list" | No_Count | Rpop_Error

record 's lredis =
  lr_lpush :: "string \<Rightarrow> string list \<Rightarrow> 's \<Rightarrow> nat \<times> 's"
  lr_ltrim :: "string \<Rightarrow> int \<Rightarrow> int \<Rightarrow> 's \<Rightarrow> 's"
  lr_llen :: "string \<Rightarrow> 's \<Rightarrow> nat"
  lr_exec :: "('s \<Rightarrow> nat \<times> 's) \<Rightarrow> 's \<Rightarrow> nat option \<times> 's"
  lr_rpop :: "string \<Rightarrow> nat \<Rightarrow> 's \<Rightarrow> rpop_result \<times> 's"
  lr_rpop_one :: "string \<Rightarrow> 's \<Rightarrow> string option option \<times> 's"

text \<open>The elements \<open>LTRIM start stop\<close> keeps, negative positions counted from the end.\<close>

definition list_pos :: "nat \<Rightarrow> int \<Rightarrow> int" where
  "list_pos n i = (if i < 0 then int n + i else i)"

definition ltrim_list :: "int \<Rightarrow> int \<Rightarrow> 'a list \<Rightarrow> 'a list" where
  "ltrim_list start stop xs =
     (let a = max 0 (list_pos (length xs) start); b = list_pos (length xs) stop
      in take (nat (b + 1 - a)) (drop (nat a) xs))"

section \<open>The buffer\<close>

definition default_max_len :: int where
  "default_max_len = 100000"

definition drain_chunk :: nat where
  "drain_chunk = 500"

definition buffer_key :: "int \<Rightarrow> string \<Rightarrow> string" where
  "buffer_key i st = ''ingest:buf:'' @ int_str i @ '':'' @ st"

definition dropped_key :: "int \<Rightarrow> string \<Rightarrow> string" where
  "dropped_key i st = ''ingest:dropped:'' @ int_str i @ '':'' @ st"

text \<open>The pipeline of a push: LPUSH (whose reply is the length after the push), LTRIM, LLEN (whose reply is read but
  not used).\<close>

definition push_pipeline :: "'s lredis \<Rightarrow> string \<Rightarrow> string list \<Rightarrow> int \<Rightarrow> 's \<Rightarrow> nat \<times> 's" where
  "push_pipeline lr key payloads max_len s =
     (case lr_lpush lr key payloads s of (n, s1) \<Rightarrow> (n, lr_ltrim lr key 0 (max_len - 1) s1))"

text \<open>\<open>push_events\<close>: the accepted and the dropped count, \<open>None\<close> when the pipeline raises. The counter of dropped events
  is informative and best effort; \<open>bump\<close> is its update.\<close>

definition push_events ::
    "'s lredis \<Rightarrow> (string \<Rightarrow> int \<Rightarrow> 's \<Rightarrow> 's) \<Rightarrow> int \<Rightarrow> string \<Rightarrow> pyval list \<Rightarrow> int \<Rightarrow> 's \<Rightarrow> (nat \<times> int) option \<times> 's" where
  "push_events lr bump i st events max_len s =
     (if events = [] then (Some (0, 0), s)
      else let payloads = map json_compact_raw events in
        (case lr_exec lr (push_pipeline lr (buffer_key i st) payloads max_len) s of
           (None, s') \<Rightarrow> (None, s')
         | (Some n, s') \<Rightarrow>
             (let dropped = max 0 (int n - max_len);
                  s2 = (if dropped \<noteq> 0 then bump (dropped_key i st) dropped s' else s')
              in (Some (length payloads, dropped), s2))))"

text \<open>\<open>drain_events\<close>: pops chunks until the budget is reached or the list is empty; texts that are no JSON are skipped.
  The result is \<open>None\<close> when a pop raises; the bound counts the chunks.\<close>

definition decode_all :: "(string \<Rightarrow> pyval) \<Rightarrow> string list \<Rightarrow> pyval list" where
  "decode_all cf raws = List.map_filter (json_loads cf) raws"

fun drain_loop :: "'s lredis \<Rightarrow> (string \<Rightarrow> pyval) \<Rightarrow> string \<Rightarrow> nat \<Rightarrow> nat \<Rightarrow> pyval list \<Rightarrow> 's \<Rightarrow> pyval list option \<times> 's" where
  "drain_loop lr cf key 0 budget out s = (None, s)"
| "drain_loop lr cf key (Suc fuel) budget out s =
     (if budget \<le> length out then (Some out, s)
      else
        let (r, s1) = lr_rpop lr key (min drain_chunk (budget - length out)) s;
            (chunk, s2) = (case r of
                Popped xs \<Rightarrow> (Some xs, s1)
              | No_Count \<Rightarrow> (case lr_rpop_one lr key s1 of
                    (None, s') \<Rightarrow> (None, s')
                  | (Some x, s') \<Rightarrow> (Some (case x of None \<Rightarrow> [] | Some y \<Rightarrow> [y]), s'))
              | Rpop_Error \<Rightarrow> (None, s1))
        in case chunk of
             None \<Rightarrow> (None, s2)
           | Some xs \<Rightarrow> if xs = [] then (Some out, s2)
                       else drain_loop lr cf key fuel budget (out @ decode_all cf xs) s2)"

definition drain_events :: "'s lredis \<Rightarrow> (string \<Rightarrow> pyval) \<Rightarrow> nat \<Rightarrow> int \<Rightarrow> string \<Rightarrow> nat \<Rightarrow> 's \<Rightarrow> pyval list option \<times> 's" where
  "drain_events lr cf fuel i st budget s = drain_loop lr cf (buffer_key i st) fuel budget [] s"

section \<open>Laws\<close>

text \<open>\<open>view s k\<close> is the list, its head first.\<close>

locale list_laws =
  fixes lr :: "'s lredis" and view :: "'s \<Rightarrow> string \<Rightarrow> string list"
  assumes lpush: "lr_lpush lr k xs s = (n, s') \<Longrightarrow> view s' = (view s)(k := rev xs @ view s k) \<and> n = length xs + length (view s k)"
    and ltrim: "view (lr_ltrim lr k a b s) = (view s)(k := ltrim_list a b (view s k))"
    and llen: "lr_llen lr k s = length (view s k)"
    and exec_ok: "lr_exec lr f s = (Some n, s') \<Longrightarrow> \<exists>s0. view s0 = view s \<and> f s0 = (n, s')"
    and exec_error: "lr_exec lr f s = (None, s') \<Longrightarrow> view s' = view s \<or> (\<exists>s0. view s0 = view s \<and> s' = snd (f s0))"
    and rpop_ok: "lr_rpop lr k n s = (Popped xs, s') \<Longrightarrow> 0 < n \<Longrightarrow>
        xs = take n (rev (view s k)) \<and> view s' = (view s)(k := take (length (view s k) - n) (view s k))"
    and rpop_no_count: "lr_rpop lr k n s = (No_Count, s') \<Longrightarrow> view s' = view s"
    and rpop_one_ok: "lr_rpop_one lr k s = (Some x, s') \<Longrightarrow>
        x = (if view s k = [] then None else Some (last (view s k))) \<and> view s' = (view s)(k := butlast (view s k))"
begin

lemma push_pipeline_view:
  assumes "push_pipeline lr k xs m s = (n, s')" "1 \<le> m"
  shows "view s' = (view s)(k := take (nat m) (rev xs @ view s k))" "n = length xs + length (view s k)"
proof -
  obtain s1 where s1: "lr_lpush lr k xs s = (n, s1)" "s' = lr_ltrim lr k 0 (m - 1) s1"
    using assms(1) by (auto simp: push_pipeline_def split: prod.splits)
  then show "view s' = (view s)(k := take (nat m) (rev xs @ view s k))" "n = length xs + length (view s k)"
    using lpush [OF s1(1)] assms(2) by (simp_all add: ltrim ltrim_list_def list_pos_def)
qed

text \<open>One round of the drain: at least one of the oldest elements leaves the list, at most the count that was asked
  for, in order.\<close>

definition pops :: "string \<Rightarrow> 's \<Rightarrow> string list \<Rightarrow> 's \<Rightarrow> bool" where
  "pops k s xs s' \<longleftrightarrow> rev (view s k) = xs @ rev (view s' k) \<and> (\<forall>k'. k' \<noteq> k \<longrightarrow> view s' k' = view s k')"

lemma pops_rpop: "lr_rpop lr k n s = (Popped xs, s') \<Longrightarrow> 0 < n \<Longrightarrow> pops k s xs s' \<and> length xs = min n (length (view s k))"
  using rpop_ok [of k n s xs s'] by (auto simp: pops_def rev_take min_def)

lemma pops_rpop_one: "lr_rpop_one lr k s = (Some x, s') \<Longrightarrow> pops k s (case x of None \<Rightarrow> [] | Some y \<Rightarrow> [y]) s'"
  using rpop_one_ok [of k s x s'] by (cases "view s k" rule: rev_cases) (auto simp: pops_def)

lemma pops_trans: "pops k s xs s1 \<Longrightarrow> pops k s1 ys s2 \<Longrightarrow> pops k s (xs @ ys) s2"
  by (auto simp: pops_def)

lemma decode_all_append [simp]: "decode_all cf (xs @ ys) = decode_all cf xs @ decode_all cf ys"
  by (simp add: decode_all_def List.map_filter_def)

lemma length_decode_all: "length (decode_all cf xs) \<le> length xs"
  by (induction xs) (auto simp: decode_all_def List.map_filter_simps split: option.splits)

lemma drain_round:
  assumes "drain_loop lr cf k (Suc fuel) budget out s = r" "length out < budget"
  shows "(\<exists>s' n s1. r = (None, s') \<and> (fst (lr_rpop lr k n s) = Rpop_Error \<or> fst (lr_rpop_one lr k s1) = None)) \<or> (\<exists>s'. r = (Some out, s') \<and> view s k = [] \<and> pops k s [] s') \<or>
    (\<exists>xs s1. xs \<noteq> [] \<and> length xs \<le> budget - length out \<and> pops k s xs s1 \<and>
       r = drain_loop lr cf k fuel budget (out @ decode_all cf xs) s1)"
proof -
  let ?n = "min drain_chunk (budget - length out)"
  have n: "0 < ?n" using assms(2) by (simp add: drain_chunk_def)
  obtain p s1 where p: "lr_rpop lr k ?n s = (p, s1)" by fastforce
  show ?thesis
  proof (cases p)
    case (Popped xs)
    with p pops_rpop [OF _ n] have "pops k s xs s1" "length xs = min ?n (length (view s k))" by auto
    moreover from this n have "xs = [] \<longleftrightarrow> view s k = []" by (metis length_0_conv min_0R min_def not_less_zero)
    ultimately show ?thesis using assms p Popped n by (cases "xs = []") auto
  next
    case No_Count
    then have v: "view s1 = view s" using p rpop_no_count by auto
    obtain q s2 where q: "lr_rpop_one lr k s1 = (q, s2)" by fastforce
    show ?thesis
    proof (cases q)
      case (Some x)
      then have "pops k s1 (case x of None \<Rightarrow> [] | Some y \<Rightarrow> [y]) s2" "(x = None) = (view s1 k = [])"
        using q pops_rpop_one [of k s1 x s2] rpop_one_ok [of k s1 x s2] by auto
      then have "pops k s (case x of None \<Rightarrow> [] | Some y \<Rightarrow> [y]) s2" "(x = None) = (view s k = [])" using v by (auto simp: pops_def)
      note pop = this
      show ?thesis
      proof (cases x)
        case (Some a)
        then have "r = drain_loop lr cf k fuel budget (out @ decode_all cf [a]) s2"
          using assms p No_Count q \<open>q = Some x\<close> by simp
        moreover have "length [a] \<le> budget - length out" "pops k s [a] s2" using assms(2) pop Some by auto
        ultimately show ?thesis by (metis not_Cons_self2)
      qed (use assms p No_Count q Some pop in auto)
    next
      case None
      then have "fst (lr_rpop_one lr k s1) = None" "r = (None, s2)" using assms p No_Count q by auto
      then show ?thesis by blast
    qed
  next
    case Rpop_Error
    then have "fst (lr_rpop lr k ?n s) = Rpop_Error" "r = (None, s1)" using assms p by auto
    then show ?thesis by blast
  qed
qed

text \<open>What a drain returns are the decoded oldest elements, in order, within the budget; it stops early only when the
  list is empty.\<close>

lemma drain_oldest:
  assumes "drain_loop lr cf k fuel budget out s = (Some res, s')" "length out \<le> budget"
  shows "\<exists>xs. pops k s xs s' \<and> res = out @ decode_all cf xs \<and> length res \<le> budget \<and> (length res = budget \<or> view s' k = [])"
  using assms
proof (induction fuel arbitrary: out s)
  case (Suc fuel)
  show ?case
  proof (cases "budget \<le> length out")
    case True
    then show ?thesis using Suc.prems by (intro exI [of _ "[]"]) (auto simp: pops_def decode_all_def List.map_filter_simps)
  next
    case False
    consider "view s k = []" "res = out" "pops k s [] s'"
      | xs s1 where "length xs \<le> budget - length out" "pops k s xs s1"
          "drain_loop lr cf k fuel budget (out @ decode_all cf xs) s1 = (Some res, s')"
      using drain_round [OF Suc.prems(1)] False by auto
    then show ?thesis
    proof cases
      case 1
      then show ?thesis using False by (intro exI [of _ "[]"]) (auto simp: pops_def decode_all_def List.map_filter_simps)
    next
      case (2 xs s1)
      have "length (out @ decode_all cf xs) \<le> budget" using 2(1) length_decode_all [of cf xs] False by simp
      from Suc.IH [OF 2(3) this] obtain ys where "pops k s1 ys s'" "res = out @ decode_all cf xs @ decode_all cf ys"
          "length res \<le> budget" "length res = budget \<or> view s' k = []" by auto
      with pops_trans [OF 2(2)] show ?thesis by (intro exI [of _ "xs @ ys"]) auto
    qed
  qed
qed simp

text \<open>If no pop raises, as many rounds as there are elements, and one more, are enough.\<close>

lemma drain_returns:
  assumes "\<And>k n s. fst (lr_rpop lr k n s) \<noteq> Rpop_Error" "\<And>k s. fst (lr_rpop_one lr k s) \<noteq> None"
    and "length (view s k) < fuel"
  shows "\<exists>res s'. drain_loop lr cf k fuel budget out s = (Some res, s')"
  using assms(3)
proof (induction fuel arbitrary: out s)
  case (Suc fuel)
  show ?case
  proof (cases "budget \<le> length out")
    case False
    have "(\<exists>s'. drain_loop lr cf k (Suc fuel) budget out s = (Some out, s')) \<or>
        (\<exists>xs s1. xs \<noteq> [] \<and> pops k s xs s1 \<and>
          drain_loop lr cf k (Suc fuel) budget out s = drain_loop lr cf k fuel budget (out @ decode_all cf xs) s1)"
      using drain_round [OF refl] False assms(1,2) by (metis not_le)
    then show ?thesis
    proof (elim disjE exE conjE)
      fix xs s1
      assume r: "xs \<noteq> []" "pops k s xs s1"
        "drain_loop lr cf k (Suc fuel) budget out s = drain_loop lr cf k fuel budget (out @ decode_all cf xs) s1"
      then have "length (view s k) = length xs + length (view s1 k)" by (metis length_append length_rev pops_def)
      then have "length (view s1 k) < fuel" using Suc.prems r(1) by (cases xs) auto
      from Suc.IH [OF this] r(3) show ?thesis by simp
    qed auto
  qed simp
qed simp

end

section \<open>A store with faults\<close>

text \<open>The lists, and for each upcoming pop whether it raises.\<close>

type_synonym list_mem = "(string \<Rightarrow> string list) \<times> bool list"

definition mem_list :: "list_mem lredis" where
  "mem_list = \<lparr>
     lr_lpush = (\<lambda>k xs s. (length xs + length (fst s k), ((fst s)(k := rev xs @ fst s k), snd s))),
     lr_ltrim = (\<lambda>k a b s. ((fst s)(k := ltrim_list a b (fst s k)), snd s)),
     lr_llen = (\<lambda>k s. length (fst s k)),
     lr_exec = (\<lambda>f s. case f s of (n, s') \<Rightarrow> (Some n, s')),
     lr_rpop = (\<lambda>k n s. case snd s of
          True # bs \<Rightarrow> (Rpop_Error, (fst s, bs))
        | _ \<Rightarrow> (Popped (take n (rev (fst s k))), ((fst s)(k := take (length (fst s k) - n) (fst s k)), tl (snd s)))),
     lr_rpop_one = (\<lambda>k s. (Some (if fst s k = [] then None else Some (last (fst s k))), ((fst s)(k := butlast (fst s k)), snd s)))\<rparr>"

interpretation lm: list_laws mem_list fst
  by unfold_locales (auto simp: mem_list_def split: list.splits bool.splits prod.splits)

text \<open>The same store when no pop raises.\<close>

definition calm_list :: "list_mem lredis" where
  "calm_list = mem_list\<lparr>lr_rpop := (\<lambda>k n s. (Popped (take n (rev (fst s k))), ((fst s)(k := take (length (fst s k) - n) (fst s k)), snd s)))\<rparr>"

interpretation cl: list_laws calm_list fst
  by unfold_locales (auto simp: calm_list_def mem_list_def split: prod.splits)

section \<open>Properties\<close>

lemma push_effect:
  assumes "list_laws lr view" and "1 \<le> max_len" and "events \<noteq> []"
    and "\<And>n x. view (bump (dropped_key i st) n x) = view x"
    and "push_events lr bump i st events max_len s = (Some (accepted, dropped), s')"
  shows "view s' = (view s)(buffer_key i st := take (nat max_len) (rev (map json_compact_raw events) @ view s (buffer_key i st))) \<and>
    accepted = length events \<and>
    dropped = int (length events) + int (length (view s (buffer_key i st))) - int (length (view s' (buffer_key i st)))"
proof -
  let ?k = "buffer_key i st" and ?p = "map json_compact_raw events"
  obtain n s1 where e: "lr_exec lr (push_pipeline lr ?k ?p max_len) s = (Some n, s1)"
    using assms(3,5) by (auto simp: push_events_def Let_def split: prod.splits option.splits)
  obtain s0 where s0: "view s0 = view s" "push_pipeline lr ?k ?p max_len s0 = (n, s1)"
    using list_laws.exec_ok [OF assms(1) e] by blast
  note pv = list_laws.push_pipeline_view [OF assms(1) s0(2) assms(2)]
  have "view s' = view s1" "accepted = length events" "dropped = max 0 (int n - max_len)"
    using assms(3-5) e by (auto simp: push_events_def Let_def split: if_splits)
  then show ?thesis using pv s0(1) assms(2) by (auto simp: max_def)
qed

text \<open>A push keeps the newest events within the cap and reports exactly what it dropped. With a cap of at least
  one, a push that does not raise leaves the first \<open>max_len\<close> elements of the new events, newest first, followed by the
  old ones; the dropped count is the number of oldest events that left the buffer; other buffers are untouched.\<close>

theorem ingest_push_drops_oldest:
  assumes "list_laws lr view" and "1 \<le> max_len" and "events \<noteq> []"
    and "\<And>n x. view (bump (dropped_key i st) n x) = view x"
    and "push_events lr bump i st events max_len s = (Some (accepted, dropped), s')"
  shows "view s' = (view s)(buffer_key i st := take (nat max_len) (rev (map json_compact_raw events) @ view s (buffer_key i st))) \<and>
    accepted = length events \<and>
    dropped = int (length events) + int (length (view s (buffer_key i st))) - int (length (view s' (buffer_key i st)))"
  by (rule push_effect [OF assms(1-3) _ assms(5)]) (rule assms(4))

theorem ingest_push_drops_oldest_witness:
  "fst (push_events mem_list (\<lambda>_ _ x. x) 1 ''a'' [PInt 1, PInt 2, PInt 3] 2 ((\<lambda>_. []), [])) = Some (3, 1)"
proof -
  obtain a d s' where p: "push_events mem_list (\<lambda>_ _ x. x) 1 ''a'' [PInt 1, PInt 2, PInt 3] 2 ((\<lambda>_. []), []) = (Some (a, d), s')"
    by (simp add: push_events_def mem_list_def push_pipeline_def Let_def)
  from ingest_push_drops_oldest [OF lm.list_laws_axioms _ _ _ p] have "a = 3" "d = 1" by auto
  then show ?thesis using p by simp
qed

text \<open>The pushes of a list of batches, and the events in their order.\<close>

inductive pushed :: "'s lredis \<Rightarrow> (string \<Rightarrow> int \<Rightarrow> 's \<Rightarrow> 's) \<Rightarrow> int \<Rightarrow> string \<Rightarrow> int \<Rightarrow> 's \<Rightarrow> pyval list list \<Rightarrow> 's \<Rightarrow> bool"
  for lr bump i st m where
  pushed_nil: "pushed lr bump i st m s [] s"
| pushed_snoc: "pushed lr bump i st m s bs s1 \<Longrightarrow> push_events lr bump i st b m s1 = (Some r, s2) \<Longrightarrow> pushed lr bump i st m s (bs @ [b]) s2"

lemma pushed_view:
  assumes "list_laws lr view" "1 \<le> m" "\<And>n x. view (bump (dropped_key i st) n x) = view x"
    and "pushed lr bump i st m s bs s'" "view s (buffer_key i st) = []" "length (concat bs) \<le> nat m"
  shows "rev (view s' (buffer_key i st)) = map json_compact_raw (concat bs)"
  using assms(4-6)
proof (induction rule: pushed.induct)
  case (pushed_snoc s bs s1 b r s2)
  then have IH: "rev (view s1 (buffer_key i st)) = map json_compact_raw (concat bs)" by simp
  show ?case
  proof (cases "b = []")
    case True
    then show ?thesis using pushed_snoc(2) IH by (auto simp: push_events_def)
  next
    case False
    obtain a d where r: "r = (a, d)" by fastforce
    have "view s2 (buffer_key i st) = take (nat m) (rev (map json_compact_raw b) @ view s1 (buffer_key i st))"
      using push_effect [OF assms(1,2) False, where bump = bump and i = i and st = st] assms(3) pushed_snoc(2) r by fastforce
    moreover have "length (rev (map json_compact_raw b) @ view s1 (buffer_key i st)) \<le> nat m"
      using pushed_snoc.prems(2) arg_cong [OF IH, of length] by simp
    ultimately have "view s2 (buffer_key i st) = rev (map json_compact_raw b) @ view s1 (buffer_key i st)" by simp
    then show ?thesis using IH by simp
  qed
qed simp

lemma decode_all_printed:
  "\<forall>e\<in>set es. json_plain e \<Longrightarrow> decode_all cf (map json_compact_raw es) = es"
  by (induction es) (simp_all add: decode_all_def List.map_filter_simps json_round_trip)

text \<open>Pushed events come out first in, first out, each exactly once. From an empty buffer, after any number of
  pushes that together stay within the cap, a drain that meets no error and whose budget is large enough returns all
  the pushed events in order, unchanged, and leaves the buffer empty; with a smaller budget it returns the oldest ones
  and leaves the rest in order.\<close>

theorem ingest_fifo:
  assumes "list_laws lr view" and "1 \<le> m" and "\<And>n x. view (bump (dropped_key i st) n x) = view x"
    and "pushed lr bump i st m s bs s1" and "view s (buffer_key i st) = []" and "length (concat bs) \<le> nat m"
    and "\<forall>e\<in>set (concat bs). json_plain e"
    and "\<And>k n x. fst (lr_rpop lr k n x) \<noteq> Rpop_Error" and "\<And>k x. fst (lr_rpop_one lr k x) \<noteq> None"
    and "length (concat bs) < fuel"
  shows "\<exists>res s2. drain_events lr cf fuel i st budget s1 = (Some res, s2) \<and> res = take budget (concat bs) \<and>
     rev (view s2 (buffer_key i st)) = map json_compact_raw (drop budget (concat bs))"
proof -
  let ?k = "buffer_key i st" and ?es = "concat bs"
  have old: "rev (view s1 ?k) = map json_compact_raw ?es"
    by (rule pushed_view [OF assms(1,2) _ assms(4-6)]) (rule assms(3))
  then have len: "length (view s1 ?k) = length ?es" by (metis length_map length_rev)
  obtain res s2 where d: "drain_loop lr cf ?k fuel budget [] s1 = (Some res, s2)"
    using list_laws.drain_returns [OF assms(1,8,9)] assms(10) len by fastforce
  from list_laws.drain_oldest [OF assms(1) d] obtain xs where
    xs: "map json_compact_raw ?es = xs @ rev (view s2 ?k)" "res = decode_all cf xs"
        "length res \<le> budget" "length res = budget \<or> view s2 ?k = []"
    using old by (auto simp: list_laws.pops_def [OF assms(1)])
  then obtain ys zs where es: "?es = ys @ zs" "xs = map json_compact_raw ys" "rev (view s2 ?k) = map json_compact_raw zs"
    by (metis map_eq_append_conv)
  have "\<forall>e\<in>set ys. json_plain e" using assms(7) unfolding es(1) by simp
  then have res: "res = ys" using xs(2) es(2) decode_all_printed by simp
  moreover have "zs = [] \<or> length ys = budget" using xs(4) es(3) res by auto
  ultimately show ?thesis using d xs(3) es by (auto simp: drain_events_def)
qed

theorem ingest_fifo_witness:
  "\<exists>s1 s2. pushed calm_list (\<lambda>_ _ x. x) 1 ''a'' 10 ((\<lambda>_. []), []) [[PInt 1, PInt 2], [PInt 3]] s1 \<and>
     drain_events calm_list PStr 4 1 ''a'' 2 s1 = (Some [PInt 1, PInt 2], s2)"
proof -
  let ?s0 = "(\<lambda>_. [], []) :: list_mem"
  obtain r1 s1 where p1: "push_events calm_list (\<lambda>_ _ x. x) 1 ''a'' [PInt 1, PInt 2] 10 ?s0 = (Some r1, s1)"
    by (simp add: push_events_def calm_list_def mem_list_def push_pipeline_def Let_def)
  obtain r2 s2 where p2: "push_events calm_list (\<lambda>_ _ x. x) 1 ''a'' [PInt 3] 10 s1 = (Some r2, s2)"
    by (simp add: push_events_def calm_list_def mem_list_def push_pipeline_def Let_def)
  have run: "pushed calm_list (\<lambda>_ _ x. x) 1 ''a'' 10 ?s0 [[PInt 1, PInt 2], [PInt 3]] s2"
    using pushed_snoc [OF pushed_snoc [OF pushed_nil p1] p2] by simp
  have "\<exists>res s3. drain_events calm_list PStr 4 1 ''a'' 2 s2 = (Some res, s3) \<and> res = take 2 (concat [[PInt 1, PInt 2], [PInt 3]]) \<and>
      rev (fst s3 (buffer_key 1 ''a'')) = map json_compact_raw (drop 2 (concat [[PInt 1, PInt 2], [PInt 3]]))"
    by (rule ingest_fifo [OF cl.list_laws_axioms _ _ run]) (simp_all add: calm_list_def mem_list_def)
  then obtain s3 where "drain_events calm_list PStr 4 1 ''a'' 2 s2 = (Some [PInt 1, PInt 2], s3)" by auto
  then show ?thesis using run by blast
qed

text \<open>A pop that raises loses the events popped before it. When the first chunk was taken and the next pop raises,
  the drain raises (its documentation says that it never does and returns what it has), and the first 500 events are
  no longer in the buffer and in no result.\<close>

theorem ingest_drain_error_loses_events:
  fixes buf :: "string \<Rightarrow> string list"
  assumes "500 < length (buf (buffer_key i st))"
  shows "\<exists>s'. drain_events mem_list cf (Suc (Suc fuel)) i st 50000 (buf, [False, True]) = (None, s') \<and>
     fst s' (buffer_key i st) = take (length (buf (buffer_key i st)) - 500) (buf (buffer_key i st))"
proof -
  have ne: "buf (buffer_key i st) \<noteq> []" using assms by auto
  have "length (decode_all cf (take 500 (rev (buf (buffer_key i st))))) \<le> 500"
    using lm.length_decode_all [of cf "take 500 (rev (buf (buffer_key i st)))"] by simp
  then show ?thesis using ne by (simp add: drain_events_def mem_list_def drain_chunk_def)
qed

theorem ingest_drain_error_loses_events_witness:
  "\<exists>s'. drain_events mem_list PStr 2 1 ''a'' 50000 ((\<lambda>_. replicate 501 ''{}''), [False, True]) = (None, s') \<and>
     length (fst s' (buffer_key 1 ''a'')) = 1"
  using ingest_drain_error_loses_events [of "\<lambda>_. replicate 501 ''{}''" 1 "''a''" PStr 0] by (auto simp: numeral_2_eq_2)

end
