(* ===== verification/Token_Bucket.thy ===== *)
theory Token_Bucket
  imports Py_Prelude
begin

text \<open>
  The local quota of a remote enricher (\<open>enrich/ratelimit.py\<close>): a token bucket with continuous refill and a block for
  \<open>Retry-After\<close>, the pair of a minute and a day bucket, and the registry of pairs by quota identity. Each operation
  holds the bucket's lock, so it is one step. Times and tokens are rationals: the rounding of floats is not modelled.
\<close>

section \<open>One bucket\<close>

record bucket =
  b_capacity :: rat
  b_rate :: rat
  b_tokens :: rat
  b_updated :: rat
  b_blocked :: rat

definition new_bucket :: "rat \<Rightarrow> rat \<Rightarrow> rat \<Rightarrow> bucket" where
  "new_bucket capacity rate now =
     \<lparr>b_capacity = max capacity 1, b_rate = max rate 0, b_tokens = max capacity 1, b_updated = now, b_blocked = 0\<rparr>"

definition refill :: "rat \<Rightarrow> bucket \<Rightarrow> bucket" where
  "refill now b =
     (let elapsed = max (now - b_updated b) 0
      in b\<lparr>b_tokens := min (b_capacity b) (b_tokens b + elapsed * b_rate b), b_updated := now\<rparr>)"

definition try_acquire :: "rat \<Rightarrow> nat \<Rightarrow> bucket \<Rightarrow> bool \<times> bucket" where
  "try_acquire now n b =
     (if now < b_blocked b then (False, b)
      else let b = refill now b in
        if b_tokens b \<ge> of_nat n then (True, b\<lparr>b_tokens := b_tokens b - of_nat n\<rparr>) else (False, b))"

definition block_for :: "rat \<Rightarrow> rat \<Rightarrow> bucket \<Rightarrow> bucket" where
  "block_for now seconds b = b\<lparr>b_blocked := max (b_blocked b) (now + max seconds 0)\<rparr>"

definition blocked_remaining :: "rat \<Rightarrow> bucket \<Rightarrow> rat" where
  "blocked_remaining now b = max (b_blocked b - now) 0"

section \<open>Minute and day\<close>

record quota =
  q_minute :: bucket
  q_day :: "bucket option"

text \<open>The two buckets read the clock one after the other. A token of the day is given back when the minute refuses.\<close>

definition quota_acquire :: "rat \<Rightarrow> rat \<Rightarrow> quota \<Rightarrow> bool \<times> quota" where
  "quota_acquire t_day t_min q =
     (case q_day q of
        None \<Rightarrow> (case try_acquire t_min 1 (q_minute q) of (ok, m) \<Rightarrow> (ok, q\<lparr>q_minute := m\<rparr>))
      | Some d \<Rightarrow>
          (case try_acquire t_day 1 d of
             (False, d') \<Rightarrow> (False, q\<lparr>q_day := Some d'\<rparr>)
           | (True, d') \<Rightarrow>
               (case try_acquire t_min 1 (q_minute q) of
                  (True, m) \<Rightarrow> (True, q\<lparr>q_day := Some d', q_minute := m\<rparr>)
                | (False, m) \<Rightarrow>
                    (False, q\<lparr>q_day := Some (d'\<lparr>b_tokens := min (b_capacity d') (b_tokens d' + 1)\<rparr>), q_minute := m\<rparr>))))"

definition quota_block :: "rat \<Rightarrow> rat \<Rightarrow> quota \<Rightarrow> quota" where
  "quota_block now seconds q = q\<lparr>q_minute := block_for now seconds (q_minute q)\<rparr>"

definition new_quota :: "int \<Rightarrow> int option \<Rightarrow> rat \<Rightarrow> quota" where
  "new_quota rpm rpd now =
     (let m = max rpm 1 in
      \<lparr>q_minute = new_bucket (of_int m) (of_int m / 60) now,
       q_day = (case rpd of
          None \<Rightarrow> None
        | Some d \<Rightarrow> if d = 0 then None else Some (new_bucket (of_int (max d 1)) (of_int (max d 1) / 86400) now))\<rparr>)"

definition quota_key :: "string \<Rightarrow> int \<Rightarrow> int option \<Rightarrow> string" where
  "quota_key identity rpm rpd = identity @ '':'' @ int_str rpm @ '':'' @ int_str (case rpd of None \<Rightarrow> 0 | Some d \<Rightarrow> d)"

definition buckets_for :: "string \<Rightarrow> int \<Rightarrow> int option \<Rightarrow> rat \<Rightarrow> (string \<times> quota) list \<Rightarrow> quota \<times> (string \<times> quota) list" where
  "buckets_for identity rpm rpd now reg =
     (let k = quota_key identity rpm rpd in
      case map_of reg k of
        Some q \<Rightarrow> (q, reg)
      | None \<Rightarrow> (new_quota rpm rpd now, AList.update k (new_quota rpm rpd now) reg))"

text \<open>\<open>Retry-After\<close> as a number of seconds within an hour; anything else is the default. \<open>float(text)\<close> is the argument
  (\<open>None\<close>: \<open>ValueError\<close>).\<close>

definition parse_retry_after :: "(string \<Rightarrow> rat option) \<Rightarrow> string option \<Rightarrow> rat \<Rightarrow> rat" where
  "parse_retry_after to_float value dflt =
     (case value of
        None \<Rightarrow> dflt
      | Some t \<Rightarrow> if t = [] then dflt
                  else (case to_float (strip t) of None \<Rightarrow> dflt | Some x \<Rightarrow> min (max x 0) 3600))"

section \<open>Runs of a bucket\<close>

datatype bucket_op = Acquire rat nat bool | Block rat rat

text \<open>Operations at times that do not decrease, with what each acquisition returned.\<close>

inductive bucket_run :: "bucket \<Rightarrow> rat \<Rightarrow> bucket_op list \<Rightarrow> rat \<Rightarrow> bucket \<Rightarrow> bool" for b0 t0 where
  br_nil: "bucket_run b0 t0 [] t0 b0"
| br_acquire: "bucket_run b0 t0 ops t b \<Longrightarrow> t \<le> now \<Longrightarrow> try_acquire now n b = (ok, b') \<Longrightarrow>
    bucket_run b0 t0 (ops @ [Acquire now n ok]) now b'"
| br_block: "bucket_run b0 t0 ops t b \<Longrightarrow> t \<le> now \<Longrightarrow> bucket_run b0 t0 (ops @ [Block now sec]) now (block_for now sec b)"

definition granted :: "bucket_op list \<Rightarrow> rat" where
  "granted ops = sum_list (map (\<lambda>op. case op of Acquire _ n True \<Rightarrow> of_nat n | _ \<Rightarrow> 0) ops)"

definition bucket_ok :: "bucket \<Rightarrow> bool" where
  "bucket_ok b \<longleftrightarrow> 1 \<le> b_capacity b \<and> 0 \<le> b_rate b \<and> 0 \<le> b_tokens b \<and> b_tokens b \<le> b_capacity b"

lemma granted_snoc: "granted (ops @ [op]) = granted ops + (case op of Acquire _ n True \<Rightarrow> of_nat n | _ \<Rightarrow> 0)"
  by (simp add: granted_def)

lemma new_bucket_ok: "bucket_ok (new_bucket c r now)"
  by (simp add: bucket_ok_def new_bucket_def)

lemma refill_bounds:
  assumes "bucket_ok b" "b_updated b \<le> now"
  shows "bucket_ok (refill now b)" "b_tokens (refill now b) \<le> b_tokens b + (now - b_updated b) * b_rate b"
    "b_capacity (refill now b) = b_capacity b" "b_rate (refill now b) = b_rate b" "b_updated (refill now b) = now"
  using assms by (auto simp: bucket_ok_def refill_def Let_def)

lemma try_acquire_bounds:
  assumes "bucket_ok b" "b_updated b \<le> now" "try_acquire now n b = (ok, b')"
  shows "bucket_ok b' \<and> b_capacity b' = b_capacity b \<and> b_rate b' = b_rate b \<and> b_blocked b' = b_blocked b \<and>
    b_updated b \<le> b_updated b' \<and> b_updated b' \<le> now \<and>
    b_tokens b' + (if ok then of_nat n else 0) \<le> b_tokens b + (b_updated b' - b_updated b) * b_rate b \<and>
    (ok \<longrightarrow> b_blocked b \<le> now)"
proof -
  note rf = refill_bounds [OF assms(1,2)]
  have "b_blocked (refill now b) = b_blocked b" by (simp add: refill_def Let_def)
  with rf assms show ?thesis
    by (auto simp: try_acquire_def Let_def bucket_ok_def split: if_splits)
qed

text \<open>The balance: what is left and what was granted never exceed what was there and what flowed in.\<close>

lemma bucket_balance:
  assumes "bucket_run b0 t0 ops t b" "bucket_ok b0" "b_updated b0 \<le> t0"
  shows "bucket_ok b \<and> b_capacity b = b_capacity b0 \<and> b_rate b = b_rate b0 \<and> b_updated b0 \<le> b_updated b \<and>
    b_updated b \<le> t \<and> t0 \<le> t \<and> b_tokens b + granted ops \<le> b_tokens b0 + (b_updated b - b_updated b0) * b_rate b0"
  using assms
proof (induction rule: bucket_run.induct)
  case br_nil
  then show ?case by (simp add: granted_def)
next
  case (br_acquire ops t b now n ok b')
  then have "b_updated b \<le> now" "bucket_ok b" by auto
  from try_acquire_bounds [OF this(2,1) br_acquire(3)] br_acquire show ?case
    by (cases ok) (auto simp: granted_snoc algebra_simps)
next
  case (br_block ops t b now sec)
  then show ?case by (auto simp: block_for_def granted_snoc bucket_ok_def)
qed

section \<open>Runs of a quota\<close>

datatype quota_op = QAcquire rat rat bool | QBlock rat rat

inductive quota_run :: "quota \<Rightarrow> rat \<Rightarrow> quota_op list \<Rightarrow> rat \<Rightarrow> quota \<Rightarrow> bool" for q0 t0 where
  qr_nil: "quota_run q0 t0 [] t0 q0"
| qr_acquire: "quota_run q0 t0 ops t q \<Longrightarrow> t \<le> t1 \<Longrightarrow> t1 \<le> t2 \<Longrightarrow> quota_acquire t1 t2 q = (ok, q') \<Longrightarrow>
    quota_run q0 t0 (ops @ [QAcquire t1 t2 ok]) t2 q'"
| qr_block: "quota_run q0 t0 ops t q \<Longrightarrow> t \<le> now \<Longrightarrow> quota_run q0 t0 (ops @ [QBlock now sec]) now (quota_block now sec q)"

definition requests :: "quota_op list \<Rightarrow> nat" where
  "requests ops = length (filter (\<lambda>op. case op of QAcquire _ _ ok \<Rightarrow> ok | QBlock _ _ \<Rightarrow> False) ops)"

text \<open>The state of one bucket during a run: what it can still grant, with what was granted, is within its capacity
  and what flowed in since the start.\<close>

definition in_budget :: "bucket \<Rightarrow> rat \<Rightarrow> nat \<Rightarrow> rat \<Rightarrow> bucket \<Rightarrow> bool" where
  "in_budget b0 t0 k t b \<longleftrightarrow> bucket_ok b \<and> b_capacity b = b_capacity b0 \<and> b_rate b = b_rate b0 \<and>
     t0 \<le> b_updated b \<and> b_updated b \<le> t \<and> b_tokens b + of_nat k \<le> b_capacity b0 + (b_updated b - t0) * b_rate b0"

lemma within_mono: "in_budget b0 t0 k t b \<Longrightarrow> t \<le> t' \<Longrightarrow> in_budget b0 t0 k t' b"
  by (auto simp: in_budget_def)

lemma within_acquire:
  assumes "in_budget b0 t0 k t b" "t \<le> now" "try_acquire now 1 b = (ok, b')"
  shows "in_budget b0 t0 (if ok then Suc k else k) now b'"
proof -
  have "bucket_ok b" "b_updated b \<le> now" using assms by (auto simp: in_budget_def)
  from try_acquire_bounds [OF this assms(3)] assms(1) show ?thesis
    by (cases ok) (auto simp: in_budget_def algebra_simps)
qed

text \<open>A token given back restores the balance.\<close>

lemma within_refund:
  assumes "in_budget b0 t0 (Suc k) t b"
  shows "in_budget b0 t0 k t (b\<lparr>b_tokens := min (b_capacity b) (b_tokens b + 1)\<rparr>)"
  using assms by (auto simp: in_budget_def bucket_ok_def min_def)

lemma within_bound: "in_budget b0 t0 k t b \<Longrightarrow> of_nat k \<le> b_capacity b0 + (t - t0) * b_rate b0"
proof -
  assume w: "in_budget b0 t0 k t b"
  then have "(b_updated b - t0) * b_rate b0 \<le> (t - t0) * b_rate b0"
    by (intro mult_right_mono) (auto simp: in_budget_def bucket_ok_def)
  with w show ?thesis by (auto simp: in_budget_def bucket_ok_def)
qed

definition quota_within :: "quota \<Rightarrow> rat \<Rightarrow> nat \<Rightarrow> rat \<Rightarrow> quota \<Rightarrow> bool" where
  "quota_within q0 t0 k t q \<longleftrightarrow> in_budget (q_minute q0) t0 k t (q_minute q) \<and>
     (case (q_day q0, q_day q) of (None, None) \<Rightarrow> True | (Some d0, Some d) \<Rightarrow> in_budget d0 t0 k t d | _ \<Rightarrow> False)"

lemma quota_within_acquire:
  assumes "quota_within q0 t0 k t q" "t \<le> t1" "t1 \<le> t2" "quota_acquire t1 t2 q = (ok, q')"
  shows "quota_within q0 t0 (if ok then Suc k else k) t2 q'"
proof -
  have m: "in_budget (q_minute q0) t0 k t2 (q_minute q)" using assms within_mono by (auto simp: quota_within_def)
  obtain okm m' where am: "try_acquire t2 1 (q_minute q) = (okm, m')" by fastforce
  note wm = within_acquire [OF m order.refl am]
  show ?thesis
  proof (cases "q_day q")
    case None
    then show ?thesis using assms am wm by (auto simp: quota_within_def quota_acquire_def split: option.splits)
  next
    case (Some d)
    then obtain d0 where d0: "q_day q0 = Some d0" "in_budget d0 t0 k t d"
      using assms(1) by (auto simp: quota_within_def split: option.splits)
    obtain okd d' where ad: "try_acquire t1 1 d = (okd, d')" by fastforce
    have wd: "in_budget d0 t0 (if okd then Suc k else k) t2 d'"
      using within_mono [OF within_acquire [OF d0(2) assms(2) ad] assms(3)] .
    show ?thesis
    proof (cases "okd \<and> \<not> okm")
      case True
      with wd have "in_budget d0 t0 k t2 (d'\<lparr>b_tokens := min (b_capacity d') (b_tokens d' + 1)\<rparr>)" by (simp add: within_refund)
      then show ?thesis using True assms(4) Some ad am wm d0 by (auto simp: quota_within_def quota_acquire_def)
    next
      case False
      then show ?thesis using assms(4) Some ad am wm m wd d0
        by (cases okd; cases okm) (auto simp: quota_within_def quota_acquire_def)
    qed
  qed
qed

lemma quota_run_within:
  assumes "quota_run q0 t0 ops t q" "quota_within q0 t0 0 t0 q0"
  shows "quota_within q0 t0 (requests ops) t q \<and> t0 \<le> t"
  using assms
proof (induction rule: quota_run.induct)
  case qr_nil
  then show ?case by (simp add: requests_def)
next
  case (qr_acquire ops t q t1 t2 ok q')
  from quota_within_acquire [OF conjunct1 [OF qr_acquire(5)] qr_acquire(2-4)] qr_acquire show ?case
    by (cases ok) (auto simp: requests_def)
next
  case (qr_block ops t q now sec)
  then show ?case
    by (auto simp: quota_within_def in_budget_def quota_block_def block_for_def requests_def bucket_ok_def split: option.splits)
qed

lemma new_bucket_quota:
  assumes "1 \<le> m" "0 < c"
  shows "b_capacity (new_bucket (of_int m) (of_int m / c) now) = of_int m" "b_rate (new_bucket (of_int m) (of_int m / c) now) = of_int m / c"
proof -
  have "(1::rat) \<le> of_int m" "0 \<le> of_int m / c" using assms by auto
  then show "b_capacity (new_bucket (of_int m) (of_int m / c) now) = of_int m" "b_rate (new_bucket (of_int m) (of_int m / c) now) = of_int m / c"
    unfolding new_bucket_def by (simp_all add: max_absorb1)
qed

lemma new_bucket_budget: "in_budget (new_bucket c r now) now 0 now (new_bucket c r now)"
  using new_bucket_ok [of c r now] by (simp add: in_budget_def) (simp add: new_bucket_def)

lemma new_quota_within: "quota_within (new_quota rpm rpd now) now 0 now (new_quota rpm rpd now)"
  by (auto simp: quota_within_def new_quota_def Let_def new_bucket_budget split: option.splits)

text \<open>The quota of a remote enricher is respected over every run. From a fresh pair of buckets, after any sequence
  of acquisitions and blocks lasting \<open>t - t0\<close> seconds, the requests let through are at most the minute's quota and
  what flowed in at that rate, and, when there is one, at most the day's quota and what flowed in at its rate; a token
  of the day taken for a request that the minute refuses is given back without ever exceeding either.\<close>

theorem quota_respected:
  assumes "quota_run (new_quota rpm rpd t0) t0 ops t q"
  shows "of_nat (requests ops) \<le> of_int (max rpm 1) * (1 + (t - t0) / 60) \<and>
    (\<forall>d. rpd = Some d \<and> d \<noteq> 0 \<longrightarrow> of_nat (requests ops) \<le> of_int (max d 1) * (1 + (t - t0) / 86400))"
proof -
  have w: "quota_within (new_quota rpm rpd t0) t0 (requests ops) t q"
    using quota_run_within [OF assms new_quota_within] by blast
  then have "of_nat (requests ops) \<le> b_capacity (q_minute (new_quota rpm rpd t0)) + (t - t0) * b_rate (q_minute (new_quota rpm rpd t0))"
    by (auto simp: quota_within_def intro: within_bound)
  moreover have "of_nat (requests ops) \<le> of_int (max d 1) * (1 + (t - t0) / 86400)" if "rpd = Some d" "d \<noteq> 0" for d
  proof -
    have "of_nat (requests ops) \<le> b_capacity (the (q_day (new_quota rpm rpd t0))) + (t - t0) * b_rate (the (q_day (new_quota rpm rpd t0)))"
      using w that by (auto simp: quota_within_def new_quota_def Let_def split: option.splits intro: within_bound)
    then show ?thesis using that by (simp add: new_quota_def Let_def new_bucket_quota algebra_simps)
  qed
  ultimately show ?thesis by (simp add: new_quota_def Let_def new_bucket_quota algebra_simps)
qed

theorem quota_respected_witness:
  "\<exists>q. quota_run (new_quota 1 (Some 5) 0) 0 [QAcquire 0 0 True, QAcquire 1 1 False] 1 q \<and>
     requests [QAcquire 0 0 True, QAcquire 1 1 False] = 1 \<and> (1::rat) \<le> of_int (max 1 1) * (1 + (1 - 0) / 60)"
proof -
  let ?q0 = "new_quota 1 (Some 5) 0"
  let ?q1 = "snd (quota_acquire 0 0 ?q0)"
  have 1: "quota_acquire 0 0 ?q0 = (True, ?q1)" by code_simp
  have 2: "quota_acquire 1 1 ?q1 = (False, snd (quota_acquire 1 1 ?q1))" by code_simp
  have run: "quota_run ?q0 0 [QAcquire 0 0 True, QAcquire 1 1 False] 1 (snd (quota_acquire 1 1 ?q1))"
    using qr_acquire [OF qr_acquire [OF qr_nil _ _ 1] _ _ 2] by simp
  from quota_respected [OF run] show ?thesis using run by (auto simp: requests_def)
qed

lemma acquire_blocked: "quota_acquire t1 t2 q = (True, q') \<Longrightarrow> b_blocked (q_minute q) \<le> t2"
  by (auto simp: quota_acquire_def try_acquire_def Let_def split: option.splits prod.splits bool.splits if_splits)

lemma blocked_stays: "quota_acquire t1 t2 q = (ok, q') \<Longrightarrow> b_blocked (q_minute q') = b_blocked (q_minute q)"
  by (auto simp: quota_acquire_def try_acquire_def refill_def Let_def split: option.splits prod.splits bool.splits if_splits)

lemma blocked_grows:
  "quota_run q0 t0 ops t q \<Longrightarrow> b_blocked (q_minute q0) \<le> b_blocked (q_minute q)"
  by (induction rule: quota_run.induct) (auto simp: blocked_stays quota_block_def block_for_def)

text \<open>\<open>Retry-After\<close> is respected: after a block of \<open>sec\<close> seconds at time \<open>now\<close>, in whatever state the buckets are and
  whatever happens meanwhile, no request is let through before \<open>now + sec\<close>; the value taken from the header is at most
  an hour.\<close>

theorem quota_respects_retry_after:
  assumes "quota_run (quota_block now (parse_retry_after to_float header dflt) q0) now ops t q"
    and "0 \<le> dflt" and "dflt \<le> 3600" and "QAcquire t1 t2 True \<in> set ops"
  shows "now + parse_retry_after to_float header dflt \<le> t2 \<and> parse_retry_after to_float header dflt \<le> 3600"
proof -
  let ?sec = "parse_retry_after to_float header dflt"
  have sec: "0 \<le> ?sec" "?sec \<le> 3600" using assms(2,3) by (auto simp: parse_retry_after_def split: option.splits)
  have "\<forall>t1 t2. QAcquire t1 t2 True \<in> set ops \<longrightarrow> b_blocked (q_minute (quota_block now ?sec q0)) \<le> t2"
    using assms(1)
  proof (induction rule: quota_run.induct)
    case (qr_acquire ops t q t1 t2 ok q')
    have "b_blocked (q_minute (quota_block now ?sec q0)) \<le> t2" if "ok"
      using that blocked_grows [OF qr_acquire(1)] acquire_blocked [of t1 t2 q q'] qr_acquire(4) by auto
    with qr_acquire show ?case by auto
  qed auto
  moreover have "now + ?sec \<le> b_blocked (q_minute (quota_block now ?sec q0))" using sec(1) by (simp add: quota_block_def block_for_def)
  ultimately show ?thesis using assms(4) sec(2) by (metis order.trans)
qed

theorem quota_respects_retry_after_witness:
  "let q0 = quota_block 0 (parse_retry_after (\<lambda>_. Some 5) (Some ''5'') 60) (new_quota 1 None 0)
   in fst (quota_acquire 5 5 q0) \<and> (0::rat) + parse_retry_after (\<lambda>_. Some 5) (Some ''5'') 60 \<le> 5"
proof -
  let ?q0 = "quota_block 0 (parse_retry_after (\<lambda>_. Some 5) (Some ''5'') 60) (new_quota 1 None 0)"
  have ok: "quota_acquire 5 5 ?q0 = (True, snd (quota_acquire 5 5 ?q0))" by code_simp
  have run: "quota_run ?q0 0 [QAcquire 5 5 True] 5 (snd (quota_acquire 5 5 ?q0))"
    using qr_acquire [OF qr_nil _ _ ok, of 0] by simp
  from quota_respects_retry_after [OF run, of 5 5] ok show ?thesis by (simp add: prod_eq_iff)
qed

end
