(* ===== verification/Capture_Admission.thy ===== *)
theory Capture_Admission
  imports Py_Prelude "HOL-Library.Word"
begin

unbundle bit_operations_syntax

text \<open>
  The admission of events into a live capture (\<open>capture_admission.py\<close>): a deterministic sample by the CRC-32 of the
  event id, a token bucket per session as a backstop with a count of what it rejected, and the clamped parameters of a
  session. \<open>zlib.crc32\<close> is computed bit by bit; times and tokens are rationals.
\<close>

section \<open>The sample\<close>

text \<open>CRC-32 with the reflected polynomial.\<close>

definition crc_bit :: "32 word \<Rightarrow> 32 word" where
  "crc_bit c = (if bit c 0 then drop_bit 1 c XOR 0xEDB88320 else drop_bit 1 c)"

definition crc_byte :: "32 word \<Rightarrow> nat \<Rightarrow> 32 word" where
  "crc_byte c b = (crc_bit ^^ 8) (c XOR of_nat b)"

definition crc32 :: "nat list \<Rightarrow> int" where
  "crc32 bs = uint (foldl crc_byte 0xFFFFFFFF bs XOR 0xFFFFFFFF)"

definition capture_admit :: "string option \<Rightarrow> int \<Rightarrow> bool" where
  "capture_admit event_id capture_percent =
     (if capture_percent \<ge> 100 then True
      else if capture_percent \<le> 0 then False
      else case event_id of
        None \<Rightarrow> True
      | Some e \<Rightarrow> if e = [] then True else crc32 (utf8 e) mod 100 < capture_percent)"

section \<open>The backstop\<close>

definition max_eps_ceiling :: int where
  "max_eps_ceiling = 5000"

definition default_capture_percent :: int where
  "default_capture_percent = 100"

definition default_max_eps :: int where
  "default_max_eps = 500"

record capture_state =
  ca_buckets :: "(string \<times> (rat \<times> rat)) list"
  ca_skipped :: "(string \<times> int) list"

definition skipped :: "string \<Rightarrow> capture_state \<Rightarrow> int" where
  "skipped sid s = (case map_of (ca_skipped s) sid of None \<Rightarrow> 0 | Some n \<Rightarrow> n)"

definition throttle :: "rat \<Rightarrow> string \<Rightarrow> int \<Rightarrow> int \<Rightarrow> capture_state \<Rightarrow> int \<times> capture_state" where
  "throttle now sid max_eps n s =
     (if max_eps \<le> 0 then (n, s)
      else
        let eps = min max_eps max_eps_ceiling;
            burst = of_int eps * 2;
            (tokens, prev) = (case map_of (ca_buckets s) sid of None \<Rightarrow> (burst, now) | Some b \<Rightarrow> b);
            tokens = min burst (tokens + (now - prev) * of_int eps);
            allowed = \<lfloor>min (of_int n) tokens\<rfloor>;
            s = s\<lparr>ca_buckets := AList.update sid (tokens - of_int allowed, now) (ca_buckets s)\<rparr>;
            s = (if allowed < n then s\<lparr>ca_skipped := AList.update sid (skipped sid s + (n - allowed)) (ca_skipped s)\<rparr> else s)
        in (allowed, s))"

definition capture_reset :: "string option \<Rightarrow> capture_state \<Rightarrow> capture_state" where
  "capture_reset sid s =
     (case sid of
        None \<Rightarrow> s\<lparr>ca_buckets := [], ca_skipped := []\<rparr>
      | Some x \<Rightarrow> s\<lparr>ca_buckets := AList.delete x (ca_buckets s), ca_skipped := AList.delete x (ca_skipped s)\<rparr>)"

text \<open>\<open>int(meta.get(k) or default)\<close>, the default also when the conversion raises.\<close>

definition meta_int :: "(string \<times> string) list \<Rightarrow> string \<Rightarrow> int \<Rightarrow> int" where
  "meta_int meta k dflt =
     (case map_of meta k of
        None \<Rightarrow> dflt
      | Some t \<Rightarrow> if t = [] then dflt else (case parse_int t of None \<Rightarrow> dflt | Some i \<Rightarrow> i))"

definition session_params :: "(string \<times> string) list \<Rightarrow> int \<times> int \<times> bool" where
  "session_params meta =
     (let pct = meta_int meta ''capture_percent'' default_capture_percent;
          eps = meta_int meta ''max_eps'' default_max_eps
      in (max 1 (min pct 100), max 1 (min eps max_eps_ceiling), map_of meta ''capture_wire'' = Some ''1''))"

section \<open>Properties\<close>

text \<open>The samples are nested: an event admitted at one percentage is admitted at every higher one, so raising the
  rate never loses a trajectory; an event without an id is admitted at every positive percentage.\<close>

theorem capture_samples_nested:
  "p \<le> p' \<Longrightarrow> capture_admit e p \<Longrightarrow> capture_admit e p'"
  by (auto simp: capture_admit_def split: if_splits option.splits)

theorem capture_samples_nested_witness: "capture_admit None 25 \<and> capture_admit None 90"
proof -
  have "capture_admit None 25" by (simp add: capture_admit_def)
  with capture_samples_nested [of 25 90 None] show ?thesis by simp
qed

text \<open>Calls for one session with one limit, at times that do not decrease; the requests are not negative.\<close>

inductive throttle_run :: "string \<Rightarrow> int \<Rightarrow> rat \<Rightarrow> capture_state \<Rightarrow> (rat \<times> int \<times> int) list \<Rightarrow> rat \<Rightarrow> capture_state \<Rightarrow> bool"
  for sid eps t0 s0 where
  tr_nil: "throttle_run sid eps t0 s0 [] t0 s0"
| tr_call: "throttle_run sid eps t0 s0 calls t s \<Longrightarrow> t \<le> now \<Longrightarrow> 0 \<le> n \<Longrightarrow> throttle now sid eps n s = (k, s') \<Longrightarrow>
    throttle_run sid eps t0 s0 (calls @ [(now, n, k)]) now s'"

definition asked :: "(rat \<times> int \<times> int) list \<Rightarrow> int" where
  "asked calls = sum_list (map (\<lambda>(t, n, k). n) calls)"

definition passed :: "(rat \<times> int \<times> int) list \<Rightarrow> int" where
  "passed calls = sum_list (map (\<lambda>(t, n, k). k) calls)"

text \<open>The bucket of the session, as the next call sees it, with what passed, is within the burst and what flowed in.\<close>

definition backstop_ok :: "string \<Rightarrow> rat \<Rightarrow> rat \<Rightarrow> int \<Rightarrow> rat \<Rightarrow> capture_state \<Rightarrow> bool" where
  "backstop_ok sid e t0 k t s \<longleftrightarrow>
     (case map_of (ca_buckets s) sid of
        None \<Rightarrow> k = 0
      | Some (tok, prev) \<Rightarrow> 0 \<le> tok \<and> t0 \<le> prev \<and> prev \<le> t \<and> tok + of_int k \<le> 2 * e + (prev - t0) * e)"

lemma throttle_call:
  assumes "throttle now sid eps n s = (k, s')" "0 < eps" "0 \<le> n" "e = of_int (min eps max_eps_ceiling)"
    and "backstop_ok sid e t0 p t s" "t0 \<le> t" "t \<le> now"
  shows "backstop_ok sid e t0 (p + k) now s' \<and> 0 \<le> k \<and> k \<le> n \<and> skipped sid s' = skipped sid s + (n - k)"
proof -
  define b where "b = (case map_of (ca_buckets s) sid of None \<Rightarrow> (e * 2, now) | Some b \<Rightarrow> b)"
  define tok where "tok = min (e * 2) (fst b + (now - snd b) * e)"
  define s1 where "s1 = s\<lparr>ca_buckets := AList.update sid (tok - of_int \<lfloor>min (of_int n) tok\<rfloor>, now) (ca_buckets s)\<rparr>"
  have e: "0 < e" using assms(2,4) by (simp add: max_eps_ceiling_def)
  have b: "0 \<le> fst b" "snd b \<le> now" "fst b + of_int p \<le> 2 * e + (snd b - t0) * e" "t0 \<le> snd b"
    using assms(5-7) e by (auto simp: b_def backstop_ok_def split: option.splits)
  have "(k, s') = (\<lfloor>min (of_int n) tok\<rfloor>, if \<lfloor>min (of_int n) tok\<rfloor> < n
      then s1\<lparr>ca_skipped := AList.update sid (skipped sid s1 + (n - \<lfloor>min (of_int n) tok\<rfloor>)) (ca_skipped s1)\<rparr> else s1)"
    unfolding assms(1) [symmetric] throttle_def s1_def tok_def b_def assms(4) using assms(2)
    by (simp only: Let_def case_prod_unfold not_le [symmetric] if_False fst_conv snd_conv)
  then have k: "k = \<lfloor>min (of_int n) tok\<rfloor>" and s': "s' = (if k < n
      then s1\<lparr>ca_skipped := AList.update sid (skipped sid s1 + (n - k)) (ca_skipped s1)\<rparr> else s1)" by simp_all
  have tok: "0 \<le> tok" using b e by (simp add: tok_def)
  have kn: "0 \<le> k" "k \<le> n" "of_int k \<le> tok"
    using tok assms(3) k by (simp_all add: le_floor_iff) (metis floor_mono floor_of_int min.cobounded1, metis min.cobounded2 of_int_floor_le order_trans)
  have bk: "map_of (ca_buckets s') sid = Some (tok - of_int k, now)" by (simp add: s' s1_def k)
  have sk: "skipped sid s' = skipped sid s + (n - k)" using kn(2) by (auto simp: s' s1_def skipped_def split: option.splits)
  have "tok + of_int p \<le> 2 * e + (now - t0) * e"
    using b by (auto simp: tok_def min_def algebra_simps)
  then show ?thesis using bk sk b(2,4) kn assms(6,7) by (auto simp: backstop_ok_def)
qed

lemma throttle_run_ok:
  assumes "throttle_run sid eps t0 s0 calls t s" "0 < eps" "e = of_int (min eps max_eps_ceiling)"
    and "map_of (ca_buckets s0) sid = None"
  shows "backstop_ok sid e t0 (passed calls) t s \<and> t0 \<le> t \<and> skipped sid s = skipped sid s0 + (asked calls - passed calls) \<and>
    (\<forall>(c, n, k)\<in>set calls. 0 \<le> k \<and> k \<le> n)"
  using assms(1)
proof (induction rule: throttle_run.induct)
  case tr_nil
  then show ?case using assms(4) by (simp add: backstop_ok_def passed_def asked_def)
next
  case (tr_call calls t s now n k s')
  from throttle_call [OF tr_call(4) assms(2) tr_call(3) assms(3), of t0 "passed calls" t] tr_call show ?case
    by (auto simp: passed_def asked_def)
qed

text \<open>The backstop of a capture session bounds what is captured and accounts for the rest. In every run of calls for
  a session, starting without a bucket, each call lets through between none and all of its events, the events let
  through in \<open>t - t0\<close> seconds are at most two seconds' worth of the limit and the limit times the duration, and the
  rejected ones are exactly those added to the session's skipped count.\<close>

theorem capture_backstop_bounded:
  assumes "throttle_run sid eps t0 s0 calls t s" and "0 < eps" and "map_of (ca_buckets s0) sid = None"
  shows "of_int (passed calls) \<le> of_int (min eps max_eps_ceiling) * (2 + (t - t0)) \<and>
    skipped sid s - skipped sid s0 = asked calls - passed calls \<and> (\<forall>(c, n, k)\<in>set calls. 0 \<le> k \<and> k \<le> n)"
proof -
  define e :: rat where "e = of_int (min eps max_eps_ceiling)"
  have e: "0 < e" using assms(2) by (simp add: e_def max_eps_ceiling_def)
  have ok: "backstop_ok sid e t0 (passed calls) t s" "t0 \<le> t"
      "skipped sid s = skipped sid s0 + (asked calls - passed calls)" "\<forall>(c, n, k)\<in>set calls. 0 \<le> k \<and> k \<le> n"
    using throttle_run_ok [OF assms(1,2) e_def assms(3)] by auto
  have "of_int (passed calls) \<le> 2 * e + (t - t0) * e"
  proof (cases "map_of (ca_buckets s) sid")
    case None
    then show ?thesis using ok(1,2) e by (simp add: backstop_ok_def)
  next
    case (Some b)
    then have "0 \<le> fst b" "snd b \<le> t" "fst b + of_int (passed calls) \<le> 2 * e + (snd b - t0) * e"
      using ok(1) by (auto simp: backstop_ok_def)
    moreover have "(snd b - t0) * e \<le> (t - t0) * e" using calculation(2) e by (intro mult_right_mono) auto
    ultimately show ?thesis by linarith
  qed
  then show ?thesis using ok(3,4) unfolding e_def by (simp add: algebra_simps)
qed

theorem capture_backstop_bounded_witness:
  "\<exists>s. throttle_run ''s'' 1 0 \<lparr>ca_buckets = [], ca_skipped = []\<rparr> [(0, 5, 2)] 0 s \<and> skipped ''s'' s = 3"
proof -
  let ?s0 = "\<lparr>ca_buckets = [], ca_skipped = []\<rparr>"
  have t: "throttle 0 ''s'' 1 5 ?s0 = (2, snd (throttle 0 ''s'' 1 5 ?s0))" by code_simp
  have run: "throttle_run ''s'' 1 0 ?s0 [(0, 5, 2)] 0 (snd (throttle 0 ''s'' 1 5 ?s0))"
    using tr_call [OF tr_nil _ _ t] by simp
  from capture_backstop_bounded [OF run] have "skipped ''s'' (snd (throttle 0 ''s'' 1 5 ?s0)) = 3"
    by (simp add: asked_def passed_def skipped_def [of _ ?s0])
  then show ?thesis using run by blast
qed

end
