(* ===== verification/Spec2Isabelle.thy ===== *)
theory Spec2Isabelle
  imports Collection_Cycle Routing_Guarantees Routing_Reach Circuit_Breaker Dedupe Dispatch_Correct Cursor_Boundary Mapping_Correct Mapping_Sharing
    Enrich_Radix Bulkhead Redis_Leases Ingest_Buffer Token_Bucket Capture_Admission Inflight_Window Enrich_Applier Inflight_Cycle
begin

text \<open>
  CentralOps is a multi-tenant back end that collects security events from vendors' APIs, brings them into
  one shape and delivers them to the destinations of each organisation. This development models the Python
  code of the collectors (\<open>src/backend/app/collectors\<close>, here \<open>collectors/\<close>) and the parts of \<open>db/\<close> and \<open>core/\<close> it
  rests on, and proves what an operator relies on, with the exceptions the code has: what becomes of every event of a
  cycle, a batch and a dispatch, when an event may be sent or claimed again, that a masked value does not reach a
  destination other than the fallback, that tenants and concurrency limits are kept, and that detections are
  neither invented nor dropped in silence.

  \<^bold>\<open>The parts and how they interact.\<close> A cycle of collection takes the lock of its stream and its cursor
  (Dedupe, Cursor_Store), asks the vendor within the limits of its host (Redis_Leases), drops the events it
  already emitted at the boundary of the window (Cursor_Boundary) or claimed by another worker (Dedupe), maps
  each event (Mapping_*), enriches it (Enrich_*) and matches it against the rules of the organisation
  (Inflight_*). The batch is routed (Routing_*): every route may redact (Pii_Redaction), reduce
  (Payload_Reduction) or drop. One task per destination sends the sub-batch in chunks (Dispatch) under the
  bulkhead of the process (Bulkhead), the lease of the destination (Redis_Leases) and its circuit breaker
  (Circuit_Breaker); what is refused goes to the dead-letter queue and is drained later (Delivery_DLQ). At
  the end of the cycle the matches are correlated and written as detections (Inflight_Cycle). Collection_Cycle composes these
  parts in the order of \<open>_run_collection_once\<close>.

  \<^bold>\<open>Foundations.\<close>
  \<^item> Py_Prelude: Python values (\<open>pyval\<close>, dictionaries as association lists in insertion order), truth values,
    equality, string functions, results (\<open>Ok\<close> or the exception raised) and the collections of rewrite rules.
  \<^item> Py_Json, Py_Hash, Py_Ipaddress: the functions of \<open>json\<close>, \<open>hashlib\<close>, \<open>zlib\<close> and \<open>ipaddress\<close> that the code calls, as
    executable functions, with the round trip of \<open>json\<close> and the bounds of addresses.
  \<^item> Redis_Client: the client of Redis as a record of commands, their laws (locale \<open>redis_laws\<close>), a store with
    expiry that obeys them (interpretation \<open>ts\<close>), and traces of commands at increasing times. The client \<open>recording\<close>
    runs an operation of the code on given answers and lists the commands it issues, so that a theorem about
    interleaved workers speaks of the operations themselves; an eviction by Redis is a DEL nobody asked for.

  \<^bold>\<open>Routing, redaction and reduction.\<close>
  \<^item> Pii_Redaction (\<open>collectors/routing/pii_redaction.py\<close>): the compiler of rules and the application to an
    envelope; envelopes that differ only in a scalar or a list at a masked path have equal redactions.
  \<^item> Routing_Engine (\<open>collectors/routing/engine.py\<close>) with Routing_Correct, Routing_Guarantees and Routing_Reach:
    the loop over the routes computes the declarative choice, the fold over the batch delivers the
    concatenation of the copies of each event, every event has exactly one fate, redaction wins over clear
    text, the loop guard and the residency filter hold, and the detector of unreachable routes is sound
    under a stated condition.
  \<^item> Payload_Reduction (\<open>collectors/normalize/payload_reduction.py\<close>): what is sent meets every specification whose path
    ends in a key; one that ends in the list wildcard is inert.

  \<^bold>\<open>Mapping.\<close>
  \<^item> Mapping_Source, Mapping_Operators, Mapping_Engine (\<open>collectors/normalize/\<close>: \<open>dotpath.py\<close>, \<open>predicates.py\<close>, \<open>operators.py\<close>,
    \<open>preprocess.py\<close>, \<open>array_builder.py\<close>, \<open>engine.py\<close>): both versions of the language, casts, pre-processing,
    observables, the cache of compiled mappings. JMESPath is a parameter with the laws of the locale
    \<open>jmespath_laws\<close>; the fast path is shown equal to it on every dot path without a trailing line feed.
  \<^item> Mapping_Correct: rules with independent targets do not influence each other, defaults are final.
    Mapping_Sharing: the same writes on a store of shared objects, where they do.

  \<^bold>\<open>Delivery.\<close>
  \<^item> Circuit_Breaker (\<open>collectors/circuit_breaker.py\<close>): probes under any interleaving of the commands of the checks and
    recordings of any number of workers.
  \<^item> Delivery_DLQ, Dispatch, Dispatch_Correct (\<open>collectors/delivery.py\<close>, \<open>pipeline.py\<close>, \<open>tasks.py\<close>): chunking, retry, the
    dispatcher with its guards, the dead-letter table and its drain. Clock, breaker, sink and database are
    the record \<open>denv\<close> of outcomes, over which the theorems quantify. Every end of a dispatch is characterised, with
    aggregation on or off; a drain of any number of lots keeps the rows of the events the sink rejects.
  \<^item> Bulkhead (\<open>collectors/output/concurrency_pool.py\<close>): the slot with the semaphore of \<open>asyncio\<close> as a step relation.
  \<^item> Redis_Leases (\<open>output/destination_limiter.py\<close>, \<open>domain_limiter.py\<close>, \<open>rate_limit_redis.py\<close>): limits shared by all
    workers through sorted sets (locale \<open>zset_laws\<close>), with crashes of holders.

  \<^bold>\<open>State of the collection.\<close>
  \<^item> Cursor_Store (\<open>state/cursor.py\<close>; locale \<open>hot_laws\<close>), Cursor_Boundary (\<open>cursor_boundary.py\<close>), Dedupe (\<open>state/dedupe.py\<close>
    and the lock of a stream: claims and locks are exclusive under any interleaving of the operations, short of a
    release or an eviction of the key itself),
    Ingest_Buffer (\<open>ingest_buffer.py\<close>; locale \<open>list_laws\<close>), Capture_Admission (\<open>capture_admission.py\<close>).

  \<^bold>\<open>Enrichment.\<close>
  \<^item> Enrich_Radix (\<open>enrich/radix.py\<close>): the trie finds the longest prefix.
  \<^item> Enrich_Policy (\<open>contract.py\<close>, \<open>registry.py\<close>, \<open>dsl.py\<close>): the compiler of policies and what a compiled policy satisfies.
  \<^item> Enrich_Applier (\<open>applier.py\<close>): an arbitrary resolution changes an event only at the targets of rules that wrote,
    the tags and the provenance, and without \<open>overwrite\<close> never a value that was there.
  \<^item> Token_Bucket (\<open>ratelimit.py\<close>): the quota of a remote source.

  \<^bold>\<open>Detection in flight.\<close>
  \<^item> Inflight_Rules (\<open>inflight/matcher.py\<close>, \<open>compile_row\<close> of \<open>runtime.py\<close>), Inflight_Accumulator (\<open>InflightAccumulator\<close>):
    rules, clauses and the bounded accumulator whose counters account for every match.
  \<^item> Inflight_Window (\<open>window.py\<close>; locale \<open>counter_laws\<close>), Inflight_Correlate (sliding windows and sequences; locale
    \<open>hash_laws\<close>), Inflight_Flush (the cap), Inflight_Detections (\<open>DetectionRepository\<close> and its table), Inflight_Absence
    (\<open>absence.py\<close>), Inflight_Cycle (\<open>flush_inflight\<close>, their composition): every pending key ends in exactly one
    place; an absence is alerted only for a known key that was silent, with a live observer.

  \<^bold>\<open>The cycle and its stages.\<close>
  \<^item> Ocsf_Gate (\<open>normalize/ocsf/validator.py\<close>, \<open>ocsf_policy.py\<close>, \<open>_gate_internal_producers\<close>): the structural gate, characterised by what
    a valid event is, the policy of an organisation, and what is discarded of the events of the product itself.
  \<^item> Event_Envelope (\<open>normalize/envelope.py\<close>): the labels routing reads and the identity of an event.
  \<^item> Quarantine (\<open>quarantine.py\<close>, \<open>normalize/reprocess.py\<close>, \<open>reprocess_quarantine_event\<close> of \<open>tasks.py\<close>): the stored payload is bounded
    and always readable, an event that fits is reprocessed as it was (unless it calls itself truncated); what reprocessing
    forgets of the envelope takes it past the residency of destinations.
  \<^item> Route_Loading (\<open>_load_routes_for_org\<close> to \<open>_enqueue_dispatch\<close> of \<open>pipeline.py\<close>, \<open>delivery.py\<close>, \<open>queues.py\<close>): rows become the arguments
    of the routing engine, and what routing decides is published, shed exactly when policy and ceiling of the destination say
    so, or written to the dead letters if that write succeeds.
  \<^item> Collection_Cycle (\<open>_run_collection_once\<close>): two invariants of the loop. One follows the claims (an event that was claimed
    is handed over or its claim is pending release), the other the batches (an envelope that was handed over carries the
    id of its claim and the organisation of the integration, and its copies arrive). Each stage of one event preserves
    both, so every end of the cycle does. The final release may fail in Redis; the theorem names that case.

  \<^bold>\<open>Parameters.\<close> Services and packages that are not in the repository are arguments: Redis (records of commands,
  each with a locale of laws and an interpretation on an executable store), JMESPath, the parsing of
  dates and floats (\<open>cast_env\<close>), the sink of a destination, the resolution of an enricher, the outcome
  of a database transaction. No theorem assumes of them more than the laws of their locale and the outcomes it names.

  \<^bold>\<open>Termination and fuel.\<close> Loops over data are structural or have a measure: the rounds of the fair cap consume
  a key each, the replacement in a template consumes its text. The parser of JSON has the length of its
  text as fuel, which is enough because each value consumes a character (\<open>json_round_trip\<close>). The drain of a
  list has fuel above the length of the list. Polling loops take the list of what
  each attempt observed and return within the number of attempts that fit in the maximal wait plus one
  (\<open>slot_loops_terminate\<close>).

  \<^bold>\<open>Idealisations.\<close> Floats are rationals where they are times or tokens; characters are Latin-1, so the
  escapes of \<open>json\<close> are those of one byte; the workers' clocks agree with the clock of Redis; a transaction
  that raises leaves its table unchanged; the commands of one flush of correlated rules are not interleaved with
  another flush of the same key (the leases, the locks, the claims and the breaker are proved under
  every interleaving). The laws of Redis let a key go only by a command or by its expiry; an eviction under
  \<open>volatile-lru\<close>, which \<open>state/dedupe.py\<close> documents, is a DEL in a trace, and the three theorems of exclusion exempt only the
  eviction of the key they are about; a cycle is run on a store that no other worker changes in between. An exception that is not an
  \<open>Exception\<close> (the shutdown of a worker) and a failure of the write of the cursor do not occur in the model of the cycle. Log lines and metrics are left out.

  \<^bold>\<open>Not modelled.\<close> The web front end, the HTTP routers and their schemas (requests are validated and handed to
  the modelled code), identity and sessions, the schema and its migrations, the vendors' collectors
  (HTTP against services outside the repository; a cycle takes the list of events a collector yields), the loading of
  the integration and its token at the start of a cycle, the senders and wire formats of the destinations,
  the remote enrichers and their scheduling, the emission of detections as events, captures beyond
  their admission, Celery with its beat tasks, tracing and metrics, the syslog server and the MCP
  gateway. They are glue around network and database libraries, or reports on state the theories above
  maintain.
\<close>

end
